(* ===== verification/Prelude.thy ===== *)
theory Prelude
  imports Main "HOL-Library.Word" "HOL-Library.Multiset" "HOL-Library.Char_ord" "HOL-Library.List_Lexorder"
begin

text \<open>
  Shared vocabulary of the development.

  \<^item> Go's \<open>string\<close> is a byte sequence and is modelled by \<^typ>\<open>string\<close> (a list of 8-bit characters),
    compared bytewise by the lexicographic order of \<open>List_Lexorder\<close>;
  \<^item> Go's \<open>time.Duration\<close> is a signed 64-bit count of nanoseconds, modelled by \<open>64 word\<close> read with
    \<open>sint\<close>, so that products wrap as they do in Go;
  \<^item> \<open>time.Now()\<close> is a clock: an infinite sequence of readings, consumed one at a time;
  \<^item> the functions of \<open>strings\<close> that the sources call (\<open>TrimSpace\<close>, \<open>ToLower\<close>, \<open>Split\<close>, \<open>Join\<close>,
    \<open>HasPrefix\<close>, \<open>HasSuffix\<close>), with the laws the components use;
  \<^item> generic facts on \<open>find\<close>, \<open>sort_key\<close> and association lists.
\<close>

named_theorems go_string \<open>evaluation rules of the modelled string functions\<close>
named_theorems cond_simps \<open>readings of a condition list after a condition-manager operation\<close>
named_theorems status_frame \<open>status fields that an operation leaves alone\<close>

type_synonym duration = "64 word"
type_synonym clock = "nat \<Rightarrow> int"

abbreviation tick :: "clock \<Rightarrow> clock" where
  "tick clk \<equiv> (\<lambda>n. clk (Suc n))"

abbreviation nanosecond_per_second :: duration where
  "nanosecond_per_second \<equiv> 1000000000"

subsection \<open>Lists\<close>

lemma find_filter: "find P xs = (case filter P xs of [] \<Rightarrow> None | x # _ \<Rightarrow> Some x)"
  by (induction xs) auto

lemma filter_key_sort_key:
  "filter (\<lambda>x. f x = k) (sort_key f xs) = filter (\<lambda>x. f x = k) xs"
  by (rule sort_key_stable)

lemma find_key_sort_key: "find (\<lambda>x. f x = k) (sort_key f xs) = find (\<lambda>x. f x = k) xs"
  by (simp add: find_filter filter_key_sort_key)

lemma distinct_map_sort_key [simp]: "distinct (map f (sort_key f xs)) = distinct (map f xs)"
proof -
  have "mset (map f (sort_key f xs)) = mset (map f xs)"
    by simp
  then show ?thesis by (rule mset_eq_imp_distinct_iff)
qed

lemma find_append: "find P (xs @ ys) = (case find P xs of None \<Rightarrow> find P ys | Some x \<Rightarrow> Some x)"
  by (induction xs) auto

lemma find_key_remove:
  "find (\<lambda>x. f x = k) (filter (\<lambda>x. f x \<noteq> k') xs) = (if k = k' then None else find (\<lambda>x. f x = k) xs)"
  by (induction xs) auto

lemma find_key_distinct:
  "distinct (map f xs) \<Longrightarrow> find (\<lambda>x. f x = k) xs = Some x \<longleftrightarrow> x \<in> set xs \<and> f x = k"
  by (induction xs) auto

lemma find_key_None: "find (\<lambda>x. f x = k) xs = None \<longleftrightarrow> k \<notin> f ` set xs"
  by (induction xs) auto

subsection \<open>Go maps as association lists\<close>

fun assoc_set :: "'k \<Rightarrow> 'v \<Rightarrow> ('k \<times> 'v) list \<Rightarrow> ('k \<times> 'v) list" where
  "assoc_set k v [] = [(k, v)]"
| "assoc_set k v ((k', v') # m) = (if k = k' then (k, v) # m else (k', v') # assoc_set k v m)"

lemma map_of_assoc_set [simp]: "map_of (assoc_set k v m) = (map_of m)(k \<mapsto> v)"
  by (induction k v m rule: assoc_set.induct) auto

lemma keys_assoc_set [simp]: "fst ` set (assoc_set k v m) = insert k (fst ` set m)"
  by (induction k v m rule: assoc_set.induct) auto

lemma distinct_assoc_set: "distinct (map fst m) \<Longrightarrow> distinct (map fst (assoc_set k v m))"
  by (induction k v m rule: assoc_set.induct) auto

lemma assoc_set_new: "k \<notin> fst ` set m \<Longrightarrow> assoc_set k v m = m @ [(k, v)]"
  by (induction k v m rule: assoc_set.induct) auto

lemma fold_assoc_set:
  "distinct (map fst (m @ ps)) \<Longrightarrow> fold (\<lambda>(k, v). assoc_set k v) ps m = m @ ps"
  by (induction ps arbitrary: m) (auto simp: assoc_set_new)

subsection \<open>strings.Split and strings.Join with a one-byte separator\<close>

fun split_on :: "char \<Rightarrow> string \<Rightarrow> string list" where
  "split_on c [] = [[]]"
| "split_on c (x # xs) =
     (if x = c then [] # split_on c xs
      else (case split_on c xs of [] \<Rightarrow> [[x]] | y # ys \<Rightarrow> (x # y) # ys))"

fun join_with :: "string \<Rightarrow> string list \<Rightarrow> string" where
  "join_with sep [] = []"
| "join_with sep [x] = x"
| "join_with sep (x # y # ys) = x @ sep @ join_with sep (y # ys)"

lemma split_on_not_Nil [simp]: "split_on c xs \<noteq> []"
  by (induction xs) (auto split: list.splits)

lemma split_on_plain: "c \<notin> set x \<Longrightarrow> split_on c x = [x]"
  by (induction x) auto

lemma split_on_append_sep: "c \<notin> set x \<Longrightarrow> split_on c (x @ c # xs) = x # split_on c xs"
  by (induction x) auto

lemma split_on_join:
  "xs \<noteq> [] \<Longrightarrow> (\<forall>x \<in> set xs. c \<notin> set x) \<Longrightarrow> split_on c (join_with [c] xs) = xs"
  by (induction "[c]" xs rule: join_with.induct) (auto simp: split_on_plain split_on_append_sep)

lemma join_split_on: "join_with [c] (split_on c xs) = xs"
proof (induction xs)
  case (Cons x xs)
  then show ?case
    by (cases "split_on c xs" rule: list.exhaust; cases "tl (split_on c xs)") auto
qed simp

lemma split_on_no_sep: "p \<in> set (split_on c xs) \<Longrightarrow> c \<notin> set p"
  by (induction xs arbitrary: p) (auto split: list.splits if_splits)

subsection \<open>strings.HasPrefix, strings.HasSuffix\<close>

fun has_prefix :: "string \<Rightarrow> string \<Rightarrow> bool" where
  "has_prefix s [] = True"
| "has_prefix [] (p # ps) = False"
| "has_prefix (x # xs) (p # ps) = (x = p \<and> has_prefix xs ps)"

definition has_suffix :: "string \<Rightarrow> string \<Rightarrow> bool" where
  "has_suffix s p = has_prefix (rev s) (rev p)"

lemma has_prefix_iff: "has_prefix s p \<longleftrightarrow> (\<exists>r. s = p @ r)"
  by (induction s p rule: has_prefix.induct) auto

lemma has_suffix_iff: "has_suffix s p \<longleftrightarrow> (\<exists>r. s = r @ p)"
proof
  assume "has_suffix s p"
  then obtain r where "rev s = rev p @ r"
    by (auto simp: has_suffix_def has_prefix_iff)
  then have "s = rev r @ p" by (metis rev_append rev_rev_ident)
  then show "\<exists>r. s = r @ p" ..
qed (auto simp: has_suffix_def has_prefix_iff)

subsection \<open>strings.TrimSpace\<close>

text \<open>
  The code points for which \<open>unicode.IsSpace\<close> holds, as UTF-8 byte sequences. A UTF-8 sequence is
  recognised from its first byte and from its last byte alike, so trimming runes and trimming these
  byte sequences is the same on every input, valid UTF-8 or not.
\<close>

definition space_runes :: "string list" where
  "space_runes =
     map (map char_of)
       [[9::nat], [10], [11], [12], [13], [32], [194, 133], [194, 160], [225, 154, 128],
        [226, 128, 128], [226, 128, 129], [226, 128, 130], [226, 128, 131], [226, 128, 132],
        [226, 128, 133], [226, 128, 134], [226, 128, 135], [226, 128, 136], [226, 128, 137],
        [226, 128, 138], [226, 128, 168], [226, 128, 169], [226, 128, 175], [226, 129, 159],
        [227, 128, 128]]"

lemma space_runes_nonempty: "r \<in> set space_runes \<Longrightarrow> r \<noteq> []"
  by (auto simp: space_runes_def)

function trim_left :: "string list \<Rightarrow> string \<Rightarrow> string" where
  "trim_left rs s =
     (case find (\<lambda>r. r \<noteq> [] \<and> has_prefix s r) rs of
        None \<Rightarrow> s
      | Some r \<Rightarrow> trim_left rs (drop (length r) s))"
  by pat_completeness auto
termination
proof (relation "measure (\<lambda>(rs, s). length s)", simp)
  fix rs s r
  assume "find (\<lambda>r. r \<noteq> [] \<and> has_prefix s r) rs = Some r"
  then have "r \<noteq> []" "has_prefix s r" by (auto simp: find_Some_iff)
  then show "((rs, drop (length r) s), rs, s) \<in> measure (\<lambda>(rs, s). length s)"
    by (cases s; cases r) auto
qed

declare trim_left.simps [simp del]

definition TrimSpace :: "string \<Rightarrow> string" where
  "TrimSpace s = rev (trim_left (map rev space_runes) (rev (trim_left space_runes s)))"

definition no_edge_space :: "string \<Rightarrow> bool" where
  "no_edge_space s \<longleftrightarrow>
     (\<forall>r \<in> set space_runes. \<not> has_prefix s r \<and> \<not> has_suffix s r)"

lemma trim_left_id: "(\<forall>r \<in> set rs. \<not> has_prefix s r) \<Longrightarrow> trim_left rs s = s"
  by (subst trim_left.simps) (auto simp: find_Some_iff split: option.splits)

lemma trim_left_done: "r \<in> set rs \<Longrightarrow> r \<noteq> [] \<Longrightarrow> \<not> has_prefix (trim_left rs s) r"
proof (induction rs s rule: trim_left.induct)
  case (1 rs s)
  show ?case
  proof (cases "find (\<lambda>r. r \<noteq> [] \<and> has_prefix s r) rs")
    case None
    then have "trim_left rs s = s" by (subst trim_left.simps) simp
    with None "1.prems" show ?thesis by (auto simp: find_None_iff)
  next
    case (Some r')
    from "1.IH" [OF Some "1.prems"] Some show ?thesis
      by (subst trim_left.simps) simp
  qed
qed

lemma trim_left_suffix: "\<exists>p. s = p @ trim_left rs s"
proof (induction rs s rule: trim_left.induct)
  case (1 rs s)
  show ?case
  proof (cases "find (\<lambda>r. r \<noteq> [] \<and> has_prefix s r) rs")
    case None
    then show ?thesis by (subst trim_left.simps) simp
  next
    case (Some r)
    from "1" [OF Some] obtain p where "drop (length r) s = p @ trim_left rs (drop (length r) s)" ..
    then have "s = (take (length r) s @ p) @ trim_left rs (drop (length r) s)"
      by (metis append_assoc append_take_drop_id)
    moreover from Some have "trim_left rs s = trim_left rs (drop (length r) s)"
      by (subst trim_left.simps) simp
    ultimately show ?thesis by metis
  qed
qed

lemma TrimSpace_id: "no_edge_space s \<Longrightarrow> TrimSpace s = s"
  by (simp add: TrimSpace_def no_edge_space_def trim_left_id has_suffix_def)

definition graph_char :: "char \<Rightarrow> bool" where
  "graph_char c \<longleftrightarrow> 33 \<le> (of_char c :: nat) \<and> (of_char c :: nat) \<le> 126"

lemma space_runes_edges: "r \<in> set space_runes \<Longrightarrow> r \<noteq> [] \<and> \<not> graph_char (hd r) \<and> \<not> graph_char (last r)"
  by (auto simp: space_runes_def graph_char_def)

lemma no_edge_space_graph: "s \<noteq> [] \<Longrightarrow> graph_char (hd s) \<Longrightarrow> graph_char (last s) \<Longrightarrow> no_edge_space s"
  using space_runes_edges by (fastforce simp: no_edge_space_def has_prefix_iff has_suffix_iff)

lemma TrimSpace_Nil [simp]: "TrimSpace [] = []"
  by (rule TrimSpace_id) (auto simp: no_edge_space_def has_suffix_def space_runes_def)

subsection \<open>strings.ToLower\<close>

text \<open>
  ASCII letters are lowered; bytes from 128 are kept. Go lowers every Unicode letter; the sources
  only compare the result with the ASCII words \<open>poll\<close>, \<open>stream\<close>, \<open>auto\<close> and the empty string, and no
  rune outside ASCII is lowered to a letter of these (the two that become ASCII become \<open>i\<close> and \<open>k\<close>),
  so the comparisons come out the same.
\<close>

definition lower_char :: "char \<Rightarrow> char" where
  "lower_char c = (let n = of_char c :: nat in if 65 \<le> n \<and> n \<le> 90 then char_of (n + 32) else c)"

definition ToLower :: "string \<Rightarrow> string" where
  "ToLower s = map lower_char s"

lemma of_char_lower_char:
  "(of_char (lower_char c) :: nat) = (let n = of_char c in if 65 \<le> n \<and> n \<le> 90 then n + 32 else n)"
  by (simp add: lower_char_def Let_def)

lemma lower_char_idem [simp]: "lower_char (lower_char c) = lower_char c"
  by (simp add: lower_char_def Let_def)

lemma ToLower_idem [simp]: "ToLower (ToLower s) = ToLower s"
  by (simp add: ToLower_def)

subsection \<open>fmt: decimal numbers\<close>

fun show_nat :: "nat \<Rightarrow> string" where
  "show_nat n = (if n < 10 then [char_of (48 + n)] else show_nat (n div 10) @ [char_of (48 + n mod 10)])"

declare show_nat.simps [simp del]

definition show_int :: "int \<Rightarrow> string" where
  "show_int i = (if i < 0 then ''-'' @ show_nat (nat (- i)) else show_nat (nat i))"

text \<open>The verb \<open>%q\<close> on a string of printable ASCII without quotes and backslashes, such as a Kubernetes name.\<close>

definition quoted :: "string \<Rightarrow> string" where
  "quoted s = [char_of (34::nat)] @ s @ [char_of (34::nat)]"

end
