(* ===== verification/Conditions.thy ===== *)
theory Conditions
  imports Prelude
begin

text \<open>
  The condition manager of \<open>vendor/knative.dev/pkg/apis/condition_set.go\<close>, on which
  \<open>pkg/apis/sources/v1alpha1/yipyapsource_lifecycle.go\<close> rests.

  A manager operation reads and writes the condition list of a status and reads the clock once for
  every condition it changes, so it is a function on pairs of a clock and a condition list.
  The theory proves that operations keep condition types distinct, what each operation does to the
  status of every condition, and that marking a dependent condition always leaves the top-level
  ("happy") condition coherent with the dependents.
\<close>

record condition =
  ctype :: string
  cstatus :: string
  severity :: string
  lastTransition :: int
  reason :: string
  message :: string

record condition_set =
  happy :: string
  dependents :: "string list"

definition ConditionTrue :: string where "ConditionTrue = ''True''"
definition ConditionFalse :: string where "ConditionFalse = ''False''"
definition ConditionUnknown :: string where "ConditionUnknown = ''Unknown''"
definition ConditionReady :: string where "ConditionReady = ''Ready''"
definition ConditionSeverityError :: string where "ConditionSeverityError = ''''"
definition ConditionSeverityInfo :: string where "ConditionSeverityInfo = ''Info''"

lemmas status_defs = ConditionTrue_def ConditionFalse_def ConditionUnknown_def
lemmas severity_defs = ConditionSeverityError_def ConditionSeverityInfo_def

lemma status_distinct [simp]:
  "ConditionTrue \<noteq> ConditionFalse" "ConditionFalse \<noteq> ConditionTrue"
  "ConditionTrue \<noteq> ConditionUnknown" "ConditionUnknown \<noteq> ConditionTrue"
  "ConditionFalse \<noteq> ConditionUnknown" "ConditionUnknown \<noteq> ConditionFalse"
  by (simp_all add: status_defs)

lemma severity_distinct [simp]:
  "ConditionSeverityError \<noteq> ConditionSeverityInfo" "ConditionSeverityInfo \<noteq> ConditionSeverityError"
  by (simp_all add: severity_defs)

type_synonym managed = "clock \<times> condition list"

definition mk_condition :: "string \<Rightarrow> string \<Rightarrow> string \<Rightarrow> string \<Rightarrow> string \<Rightarrow> condition" where
  "mk_condition t st sev r m =
     \<lparr>ctype = t, cstatus = st, severity = sev, lastTransition = 0, reason = r, message = m\<rparr>"

lemma mk_condition_simps [simp]:
  "ctype (mk_condition t st sev r m) = t" "cstatus (mk_condition t st sev r m) = st"
  "severity (mk_condition t st sev r m) = sev" "reason (mk_condition t st sev r m) = r"
  "message (mk_condition t st sev r m) = m"
  by (simp_all add: mk_condition_def)

fun IsTrue :: "condition option \<Rightarrow> bool" where
  "IsTrue None = False"
| "IsTrue (Some c) = (cstatus c = ConditionTrue)"

fun IsFalse :: "condition option \<Rightarrow> bool" where
  "IsFalse None = False"
| "IsFalse (Some c) = (cstatus c = ConditionFalse)"

fun IsUnknown :: "condition option \<Rightarrow> bool" where
  "IsUnknown None = True"
| "IsUnknown (Some c) = (cstatus c = ConditionUnknown)"

subsection \<open>Condition sets\<close>

fun add_dependents :: "string \<Rightarrow> string list \<Rightarrow> string list \<Rightarrow> string list" where
  "add_dependents h deps [] = deps"
| "add_dependents h deps (d # ds) =
     (if d = h \<or> d \<in> set deps then add_dependents h deps ds
      else add_dependents h (deps @ [d]) ds)"

definition newConditionSet :: "string \<Rightarrow> string list \<Rightarrow> condition_set" where
  "newConditionSet h ds = \<lparr>happy = h, dependents = add_dependents h [] ds\<rparr>"

definition NewLivingConditionSet :: "string list \<Rightarrow> condition_set" where
  "NewLivingConditionSet ds = newConditionSet ConditionReady ds"

subsection \<open>The manager's operations\<close>

definition GetCondition :: "string \<Rightarrow> condition list \<Rightarrow> condition option" where
  "GetCondition t cs = find (\<lambda>c. ctype c = t) cs"

text \<open>
  The loop of \<open>SetCondition\<close>: collects the conditions of other types; \<open>None\<close> is the early return
  taken when only the transition time would change.
\<close>

fun set_condition_loop :: "condition \<Rightarrow> condition list \<Rightarrow> condition list option" where
  "set_condition_loop cond [] = Some []"
| "set_condition_loop cond (c # cs) =
     (if ctype c \<noteq> ctype cond then map_option (Cons c) (set_condition_loop cond cs)
      else (let cond' = cond\<lparr>lastTransition := lastTransition c\<rparr>
            in if cond' = c then None else set_condition_loop cond' cs))"

definition SetCondition :: "condition \<Rightarrow> managed \<Rightarrow> managed" where
  "SetCondition cond m =
     (case set_condition_loop cond (snd m) of
        None \<Rightarrow> m
      | Some others \<Rightarrow>
          (tick (fst m), sort_key ctype (others @ [cond\<lparr>lastTransition := fst m 0\<rparr>])))"

definition isTerminal :: "condition_set \<Rightarrow> string \<Rightarrow> bool" where
  "isTerminal r t \<longleftrightarrow> t \<in> set (dependents r) \<or> t = happy r"

definition cond_severity :: "condition_set \<Rightarrow> string \<Rightarrow> string" where
  "cond_severity r t = (if isTerminal r t then ConditionSeverityError else ConditionSeverityInfo)"

definition IsHappy :: "condition_set \<Rightarrow> condition list \<Rightarrow> bool" where
  "IsHappy r cs = IsTrue (GetCondition (happy r) cs)"

definition terminalByTime :: "condition_set \<Rightarrow> condition list \<Rightarrow> condition list" where
  "terminalByTime r cs =
     sort_key (\<lambda>c. - lastTransition c)
       (filter (\<lambda>c. severity c = ConditionSeverityError \<and> ctype c \<noteq> happy r) cs)"

definition findUnhappyDependent :: "condition_set \<Rightarrow> condition list \<Rightarrow> condition option" where
  "findUnhappyDependent r cs =
     (if dependents r = [] then None
      else
        let conditions = terminalByTime r cs
        in case find (\<lambda>c. IsFalse (Some c)) conditions of
             Some c \<Rightarrow> Some c
           | None \<Rightarrow>
               (case find (\<lambda>c. IsUnknown (Some c)) conditions of
                  Some c \<Rightarrow> Some c
                | None \<Rightarrow>
                    if length (dependents r) > length conditions
                    then Some (mk_condition '''' ConditionUnknown '''' '''' '''')
                    else None))"

definition recomputeHappiness :: "condition_set \<Rightarrow> string \<Rightarrow> managed \<Rightarrow> managed" where
  "recomputeHappiness r t m =
     (case findUnhappyDependent r (snd m) of
        Some c \<Rightarrow>
          SetCondition (mk_condition (happy r) (cstatus c) (cond_severity r (happy r)) (reason c) (message c)) m
      | None \<Rightarrow>
          if t \<noteq> happy r
          then SetCondition (mk_condition (happy r) ConditionTrue (cond_severity r (happy r)) '''' '''') m
          else m)"

definition MarkTrue :: "condition_set \<Rightarrow> string \<Rightarrow> managed \<Rightarrow> managed" where
  "MarkTrue r t m =
     recomputeHappiness r t (SetCondition (mk_condition t ConditionTrue (cond_severity r t) '''' '''') m)"

text \<open>
  \<open>MarkFalse\<close> and \<open>MarkUnknown\<close> take the message already formatted; the callers in this repository
  all pass a literal or the format \<open>%s\<close>.
\<close>

definition MarkFalse :: "condition_set \<Rightarrow> string \<Rightarrow> string \<Rightarrow> string \<Rightarrow> managed \<Rightarrow> managed" where
  "MarkFalse r t rsn msg m =
     fold (\<lambda>t. SetCondition (mk_condition t ConditionFalse (cond_severity r t) rsn msg))
       (t # map (\<lambda>_. happy r) (filter (\<lambda>d. d = t) (dependents r))) m"

text \<open>
  The loop of \<open>MarkUnknown\<close> over the dependents: \<open>Inl\<close> of the finished state when a dependent is
  False (the loop returns from the function), \<open>Inr\<close> of \<open>isDependent\<close> when it runs to its end.
\<close>

fun mark_unknown_loop ::
    "condition_set \<Rightarrow> string \<Rightarrow> string \<Rightarrow> string \<Rightarrow> bool \<Rightarrow> string list \<Rightarrow> managed \<Rightarrow> managed + bool" where
  "mark_unknown_loop r t rsn msg dep [] m = Inr dep"
| "mark_unknown_loop r t rsn msg dep (d # ds) m =
     (if IsFalse (GetCondition d (snd m))
      then Inl (if \<not> IsFalse (GetCondition (happy r) (snd m))
                then MarkFalse r (happy r) rsn msg m else m)
      else mark_unknown_loop r t rsn msg (dep \<or> d = t) ds m)"

definition MarkUnknown :: "condition_set \<Rightarrow> string \<Rightarrow> string \<Rightarrow> string \<Rightarrow> managed \<Rightarrow> managed" where
  "MarkUnknown r t rsn msg m =
     (let m' = SetCondition (mk_condition t ConditionUnknown (cond_severity r t) rsn msg) m
      in case mark_unknown_loop r t rsn msg False (dependents r) m' of
           Inl m'' \<Rightarrow> m''
         | Inr isDependent \<Rightarrow>
             if isDependent
             then SetCondition (mk_condition (happy r) ConditionUnknown (cond_severity r (happy r)) rsn msg) m'
             else m')"

definition initializeTerminalCondition :: "string \<Rightarrow> string \<Rightarrow> managed \<Rightarrow> managed" where
  "initializeTerminalCondition t st m =
     (case GetCondition t (snd m) of
        Some _ \<Rightarrow> m
      | None \<Rightarrow> SetCondition (mk_condition t st ConditionSeverityError '''' '''') m)"

definition InitializeConditions :: "condition_set \<Rightarrow> managed \<Rightarrow> managed" where
  "InitializeConditions r m =
     (let (h, m') =
        (case GetCondition (happy r) (snd m) of
           Some h \<Rightarrow> (h, m)
         | None \<Rightarrow>
             (let h = mk_condition (happy r) ConditionUnknown ConditionSeverityError '''' ''''
              in (h, SetCondition h m)));
          st = (if cstatus h = ConditionTrue then ConditionTrue else ConditionUnknown)
      in fold (\<lambda>t. initializeTerminalCondition t st) (dependents r) m')"

subsection \<open>Invariants and the abstract reading of a condition list\<close>

definition proper_set :: "condition_set \<Rightarrow> bool" where
  "proper_set r \<longleftrightarrow> distinct (dependents r) \<and> happy r \<notin> set (dependents r)"

definition managed_ok :: "condition_set \<Rightarrow> condition list \<Rightarrow> bool" where
  "managed_ok r cs \<longleftrightarrow>
     distinct (map ctype cs) \<and> ctype ` set cs \<subseteq> insert (happy r) (set (dependents r)) \<and>
     (\<forall>c \<in> set cs. severity c = ConditionSeverityError \<and>
                  cstatus c \<in> {ConditionTrue, ConditionFalse, ConditionUnknown})"

definition view :: "string \<Rightarrow> condition list \<Rightarrow> condition option" where
  "view t cs = map_option (\<lambda>c. c\<lparr>lastTransition := 0\<rparr>) (GetCondition t cs)"

definition status_of :: "string \<Rightarrow> condition list \<Rightarrow> string option" where
  "status_of t cs = map_option cstatus (GetCondition t cs)"

text \<open>The top-level status that the dependents call for: False beats Unknown beats True.\<close>

definition overall :: "condition_set \<Rightarrow> condition list \<Rightarrow> string" where
  "overall r cs =
     (if \<exists>d \<in> set (dependents r). status_of d cs = Some ConditionFalse then ConditionFalse
      else if \<forall>d \<in> set (dependents r). status_of d cs = Some ConditionTrue then ConditionTrue
      else ConditionUnknown)"

definition coherent :: "condition_set \<Rightarrow> condition list \<Rightarrow> bool" where
  "coherent r cs \<longleftrightarrow> status_of (happy r) cs = Some (overall r cs)"

subsection \<open>Laws of SetCondition\<close>

lemma add_dependents_proper:
  "distinct deps \<Longrightarrow> h \<notin> set deps \<Longrightarrow>
     distinct (add_dependents h deps ds) \<and> h \<notin> set (add_dependents h deps ds)"
  by (induction h deps ds rule: add_dependents.induct) auto

lemma newConditionSet_proper [simp]: "proper_set (newConditionSet h ds)"
  using add_dependents_proper [of "[]" h ds] by (simp add: proper_set_def newConditionSet_def)

lemma set_condition_loop_Some:
  "set_condition_loop cond cs = Some others \<Longrightarrow> others = filter (\<lambda>c. ctype c \<noteq> ctype cond) cs"
  by (induction cond cs arbitrary: others rule: set_condition_loop.induct)
     (auto simp: Let_def split: if_splits)

lemma set_condition_loop_None:
  "set_condition_loop cond cs = None \<Longrightarrow>
     \<exists>c \<in> set cs. ctype c = ctype cond \<and> c = cond\<lparr>lastTransition := lastTransition c\<rparr>"
  by (induction cond cs rule: set_condition_loop.induct)
     (auto simp: Let_def split: if_splits)

lemma SetCondition_cases:
  obtains (same) c where "SetCondition cond m = m" "c \<in> set (snd m)" "ctype c = ctype cond"
      "c = cond\<lparr>lastTransition := lastTransition c\<rparr>"
    | (set) "SetCondition cond m =
        (tick (fst m), sort_key ctype
           (filter (\<lambda>c. ctype c \<noteq> ctype cond) (snd m) @ [cond\<lparr>lastTransition := fst m 0\<rparr>]))"
proof (cases "set_condition_loop cond (snd m)")
  case None
  with set_condition_loop_None [OF None] that(1) show ?thesis
    by (auto simp: SetCondition_def)
next
  case (Some others)
  with set_condition_loop_Some [OF Some] that(2) show ?thesis
    by (simp add: SetCondition_def)
qed

lemma types_SetCondition [cond_simps]:
  "ctype ` set (snd (SetCondition cond m)) = insert (ctype cond) (ctype ` set (snd m))"
  by (rule SetCondition_cases [of cond m]) (metis imageI insert_absorb, auto)

lemma distinct_SetCondition [cond_simps]:
  "distinct (map ctype (snd m)) \<Longrightarrow> distinct (map ctype (snd (SetCondition cond m)))"
  by (rule SetCondition_cases [of cond m]) (auto simp: distinct_map_filter)

lemma view_SetCondition [cond_simps]:
  assumes "distinct (map ctype (snd m))"
  shows "view t (snd (SetCondition cond m)) =
    (if t = ctype cond then Some (cond\<lparr>lastTransition := 0\<rparr>) else view t (snd m))"
proof (cases rule: SetCondition_cases [of cond m])
  case (same c)
  then have "GetCondition (ctype cond) (snd m) = Some c"
    using assms by (simp add: GetCondition_def find_key_distinct)
  moreover from same(4) have "c\<lparr>lastTransition := 0\<rparr> = cond\<lparr>lastTransition := 0\<rparr>"
    by (metis condition.surjective condition.update_convs(4))
  ultimately show ?thesis using same(1) by (simp add: view_def)
next
  case set
  then show ?thesis
    by (auto simp: view_def GetCondition_def find_key_sort_key find_append find_key_remove
        split: option.splits)
qed

lemma status_of_view: "status_of t cs = map_option cstatus (view t cs)"
  by (simp add: status_of_def view_def option.map_comp comp_def)

lemma status_of_SetCondition [cond_simps]:
  "distinct (map ctype (snd m)) \<Longrightarrow>
     status_of t (snd (SetCondition cond m)) =
       (if t = ctype cond then Some (cstatus cond) else status_of t (snd m))"
  by (simp add: status_of_view view_SetCondition)

lemma set_SetCondition:
  "set (snd (SetCondition cond m)) \<subseteq> set (snd m) \<union> {c. \<exists>x. c = cond\<lparr>lastTransition := x\<rparr>}"
  by (rule SetCondition_cases [of cond m]) auto

lemma managed_ok_SetCondition:
  assumes "managed_ok r (snd m)" and "ctype cond \<in> insert (happy r) (set (dependents r))"
    and "severity cond = ConditionSeverityError"
    and "cstatus cond \<in> {ConditionTrue, ConditionFalse, ConditionUnknown}"
  shows "managed_ok r (snd (SetCondition cond m))"
proof -
  have "severity c = ConditionSeverityError \<and> cstatus c \<in> {ConditionTrue, ConditionFalse, ConditionUnknown}"
    if "c \<in> set (snd (SetCondition cond m))" for c
    using that set_SetCondition [of cond m] assms by (fastforce simp: managed_ok_def)
  then show ?thesis
    using assms by (auto simp: managed_ok_def cond_simps)
qed

lemma IsFalse_status: "IsFalse (GetCondition t cs) \<longleftrightarrow> status_of t cs = Some ConditionFalse"
  by (cases "GetCondition t cs") (auto simp: status_of_def)

lemma IsTrue_status: "IsTrue (GetCondition t cs) \<longleftrightarrow> status_of t cs = Some ConditionTrue"
  by (cases "GetCondition t cs") (auto simp: status_of_def)

lemma IsHappy_status: "IsHappy r cs \<longleftrightarrow> status_of (happy r) cs = Some ConditionTrue"
  by (simp add: IsHappy_def IsTrue_status)

lemma status_of_in:
  "distinct (map ctype cs) \<Longrightarrow> c \<in> set cs \<Longrightarrow> status_of (ctype c) cs = Some (cstatus c)"
  using find_key_distinct [of ctype cs "ctype c" c] by (simp add: status_of_def GetCondition_def)

lemma status_of_Some:
  "status_of t cs = Some st \<Longrightarrow> \<exists>c \<in> set cs. ctype c = t \<and> cstatus c = st"
  by (auto simp: status_of_def GetCondition_def find_Some_iff)

lemma status_of_None: "status_of t cs = None \<longleftrightarrow> t \<notin> ctype ` set cs"
  by (simp add: status_of_def GetCondition_def find_key_None)

subsection \<open>The top-level condition follows the dependents\<close>

lemma overall_cong:
  "(\<And>d. d \<in> set (dependents r) \<Longrightarrow> status_of d cs = status_of d cs') \<Longrightarrow> overall r cs = overall r cs'"
  by (simp add: overall_def)

lemma terminalByTime_mem:
  "managed_ok r cs \<Longrightarrow> proper_set r \<Longrightarrow>
     c \<in> set (terminalByTime r cs) \<longleftrightarrow> c \<in> set cs \<and> ctype c \<in> set (dependents r)"
  by (auto simp: terminalByTime_def managed_ok_def proper_set_def)

lemma terminalByTime_status:
  assumes "managed_ok r cs" "proper_set r"
  shows "(\<exists>c \<in> set (terminalByTime r cs). cstatus c = st) \<longleftrightarrow>
    (\<exists>d \<in> set (dependents r). status_of d cs = Some st)"
proof -
  have "distinct (map ctype cs)" using assms by (simp add: managed_ok_def)
  then have "c \<in> set cs \<Longrightarrow> status_of (ctype c) cs = Some (cstatus c)" for c
    by (rule status_of_in)
  then show ?thesis
    by (auto simp: terminalByTime_mem [OF assms] dest!: status_of_Some intro!: bexI)
qed

lemma card_Int_less: "finite A \<Longrightarrow> card (A \<inter> B) < card A \<longleftrightarrow> \<not> A \<subseteq> B"
  by (cases "A \<subseteq> B") (auto simp: Int_absorb2 intro!: psubset_card_mono)

lemma terminalByTime_length:
  assumes ok: "managed_ok r cs" and proper: "proper_set r"
  shows "length (dependents r) > length (terminalByTime r cs) \<longleftrightarrow>
    (\<exists>d \<in> set (dependents r). status_of d cs = None)"
proof -
  have "distinct (map ctype (filter (\<lambda>c. severity c = ConditionSeverityError \<and> ctype c \<noteq> happy r) cs))"
    using ok by (simp add: managed_ok_def distinct_map_filter)
  then have len: "length (terminalByTime r cs) = card (ctype ` set (terminalByTime r cs))"
    unfolding terminalByTime_def using distinct_card by fastforce
  have types: "ctype ` set (terminalByTime r cs) = set (dependents r) \<inter> ctype ` set cs"
    using terminalByTime_mem [OF ok proper] by blast
  have "length (dependents r) = card (set (dependents r))"
    using proper by (simp add: proper_set_def distinct_card)
  moreover have "card (set (dependents r) \<inter> ctype ` set cs) < card (set (dependents r)) \<longleftrightarrow>
      \<not> set (dependents r) \<subseteq> ctype ` set cs"
    by (rule card_Int_less) simp
  ultimately show ?thesis by (auto simp: len types status_of_None)
qed

text \<open>
  What \<open>findUnhappyDependent\<close> finds: a dependent that carries the overall status when that is not
  True, nothing when every dependent is True.
\<close>

lemma find_status_Some:
  "\<exists>c \<in> set cs. P c \<Longrightarrow> \<exists>c. find P cs = Some c \<and> P c"
  by (metis find_None_iff find_Some_iff not_None_eq)

lemma find_status_None: "\<not> (\<exists>c \<in> set cs. P c) \<Longrightarrow> find P cs = None"
  by (simp add: find_None_iff)

lemma findUnhappyDependent_status:
  assumes ok: "managed_ok r cs" and proper: "proper_set r" and dep: "dependents r \<noteq> []"
  shows "case findUnhappyDependent r cs of
           Some c \<Rightarrow> cstatus c = overall r cs \<and> overall r cs \<noteq> ConditionTrue
         | None \<Rightarrow> overall r cs = ConditionTrue"
proof -
  let ?ts = "terminalByTime r cs" and ?deps = "set (dependents r)"
  note status = terminalByTime_status [OF ok proper]
  consider (F) "\<exists>c \<in> set ?ts. cstatus c = ConditionFalse"
    | (U) "\<not> (\<exists>c \<in> set ?ts. cstatus c = ConditionFalse)" "\<exists>c \<in> set ?ts. cstatus c = ConditionUnknown"
    | (T) "\<not> (\<exists>c \<in> set ?ts. cstatus c = ConditionFalse)" "\<not> (\<exists>c \<in> set ?ts. cstatus c = ConditionUnknown)"
    by blast
  then show ?thesis
  proof cases
    case F
    then have "overall r cs = ConditionFalse"
      using status [of ConditionFalse] by (simp add: overall_def)
    with find_status_Some [OF F] show ?thesis
      by (auto simp: findUnhappyDependent_def dep)
  next
    case U
    then have "overall r cs = ConditionUnknown"
      using status [of ConditionFalse] status [of ConditionUnknown] by (force simp: overall_def)
    with find_status_Some [OF U(2)] find_status_None [OF U(1)] show ?thesis
      by (auto simp: findUnhappyDependent_def dep)
  next
    case T
    have "c \<in> set ?ts \<Longrightarrow> cstatus c = ConditionTrue" for c
      using T ok terminalByTime_mem [OF ok proper, of c] by (auto simp: managed_ok_def)
    then have "(\<forall>d \<in> ?deps. status_of d cs = Some ConditionTrue) \<longleftrightarrow>
        \<not> (\<exists>d \<in> ?deps. status_of d cs = None)"
      by (metis ok proper not_None_eq option.distinct(1) status_of_Some terminalByTime_mem)
    with T status [of ConditionFalse] terminalByTime_length [OF ok proper]
      find_status_None [OF T(1)] find_status_None [OF T(2)]
    show ?thesis by (auto simp: findUnhappyDependent_def overall_def dep)
  qed
qed

lemma cond_severity_terminal [simp]:
  "cond_severity r (happy r) = ConditionSeverityError"
  "d \<in> set (dependents r) \<Longrightarrow> cond_severity r d = ConditionSeverityError"
  by (simp_all add: cond_severity_def isTerminal_def)

lemma managed_ok_distinct: "managed_ok r cs \<Longrightarrow> distinct (map ctype cs)"
  by (simp add: managed_ok_def)

lemma overall_values: "overall r cs \<in> {ConditionTrue, ConditionFalse, ConditionUnknown}"
  by (simp add: overall_def)

text \<open>
  One record of what marking a dependent does: the invariant is kept, the marked condition has its
  new status, the other dependents keep theirs, and the top-level condition is coherent again,
  whatever it was before.
\<close>

definition marks :: "condition_set \<Rightarrow> string \<Rightarrow> string \<Rightarrow> condition list \<Rightarrow> condition list \<Rightarrow> bool" where
  "marks r t st cs cs' \<longleftrightarrow>
     managed_ok r cs' \<and> status_of t cs' = Some st \<and>
     (\<forall>d \<in> set (dependents r). d \<noteq> t \<longrightarrow> view d cs' = view d cs) \<and> coherent r cs'"

lemma set_dependent:
  assumes "managed_ok r (snd m)" "t \<in> set (dependents r)"
    and "st \<in> {ConditionTrue, ConditionFalse, ConditionUnknown}"
  shows "managed_ok r (snd (SetCondition (mk_condition t st (cond_severity r t) rsn msg) m))"
  using assms by (intro managed_ok_SetCondition) auto

lemma set_happy:
  assumes "managed_ok r (snd m)" "st \<in> {ConditionTrue, ConditionFalse, ConditionUnknown}"
  shows "managed_ok r (snd (SetCondition (mk_condition (happy r) st (cond_severity r (happy r)) rsn msg) m))"
  using assms by (intro managed_ok_SetCondition) auto

lemma overall_set_happy:
  assumes "managed_ok r (snd m)" "proper_set r"
  shows "overall r (snd (SetCondition (mk_condition (happy r) st sev rsn msg) m)) = overall r (snd m)"
  using assms by (intro overall_cong) (auto simp: cond_simps managed_ok_distinct proper_set_def)

lemma marks_set_happy:
  assumes ok: "managed_ok r (snd m)" and proper: "proper_set r" and t: "t \<in> set (dependents r)"
    and st: "st \<in> {ConditionTrue, ConditionFalse, ConditionUnknown}"
    and m': "m' = SetCondition (mk_condition t st (cond_severity r t) rsn msg) m"
    and h: "h = overall r (snd m')"
  shows "marks r t st (snd m) (snd (SetCondition (mk_condition (happy r) h (cond_severity r (happy r)) rsn' msg') m'))"
proof -
  have ok': "managed_ok r (snd m')" using set_dependent [OF ok t st] m' by simp
  have ne: "t \<noteq> happy r" "d \<in> set (dependents r) \<Longrightarrow> d \<noteq> happy r" for d
    using t proper by (auto simp: proper_set_def)
  have "h \<in> {ConditionTrue, ConditionFalse, ConditionUnknown}" using overall_values h by simp
  from set_happy [OF ok' this]
  have okh: "managed_ok r (snd (SetCondition (mk_condition (happy r) h (cond_severity r (happy r)) rsn' msg') m'))" .
  have "view d (snd m') = (if d = t then Some ((mk_condition t st (cond_severity r t) rsn msg)\<lparr>lastTransition := 0\<rparr>)
      else view d (snd m))" for d
    using ok by (simp add: m' cond_simps managed_ok_distinct)
  moreover have "status_of t (snd m') = Some st"
    using ok by (simp add: m' cond_simps managed_ok_distinct)
  ultimately show ?thesis
    using okh ok' ne h overall_set_happy [OF ok' proper]
    by (auto simp: marks_def coherent_def cond_simps managed_ok_distinct)
qed

lemma marks_coherent_already:
  assumes ok: "managed_ok r (snd m)" and t: "t \<in> set (dependents r)"
    and st: "st \<in> {ConditionTrue, ConditionFalse, ConditionUnknown}"
    and m': "m' = SetCondition (mk_condition t st (cond_severity r t) rsn msg) m"
    and "coherent r (snd m')"
  shows "marks r t st (snd m) (snd m')"
  using assms set_dependent [OF ok t st, of rsn msg]
  by (auto simp: marks_def cond_simps managed_ok_distinct)

lemma MarkTrue_marks:
  assumes ok: "managed_ok r (snd m)" and proper: "proper_set r" and t: "t \<in> set (dependents r)"
  shows "marks r t ConditionTrue (snd m) (snd (MarkTrue r t m))"
proof -
  define m' where "m' = SetCondition (mk_condition t ConditionTrue (cond_severity r t) '''' '''') m"
  have ok': "managed_ok r (snd m')" using set_dependent [OF ok t] by (simp add: m'_def)
  have "dependents r \<noteq> []" "t \<noteq> happy r" using t proper by (auto simp: proper_set_def)
  then have "\<exists>rsn msg. MarkTrue r t m =
      SetCondition (mk_condition (happy r) (overall r (snd m')) (cond_severity r (happy r)) rsn msg) m'"
    using findUnhappyDependent_status [OF ok' proper]
    by (cases "findUnhappyDependent r (snd m')")
       (auto simp: MarkTrue_def recomputeHappiness_def m'_def [symmetric])
  then show ?thesis
    using marks_set_happy [OF ok proper t _ m'_def refl] by auto
qed

lemma filter_eq_distinct: "distinct xs \<Longrightarrow> x \<in> set xs \<Longrightarrow> filter (\<lambda>y. y = x) xs = [x]"
  by (induction xs) (auto simp: filter_empty_conv)

lemma MarkFalse_marks:
  assumes ok: "managed_ok r (snd m)" and proper: "proper_set r" and t: "t \<in> set (dependents r)"
  shows "marks r t ConditionFalse (snd m) (snd (MarkFalse r t rsn msg m))"
proof -
  define m' where "m' = SetCondition (mk_condition t ConditionFalse (cond_severity r t) rsn msg) m"
  have "filter (\<lambda>d. d = t) (dependents r) = [t]"
    using proper t by (simp add: filter_eq_distinct proper_set_def)
  then have "MarkFalse r t rsn msg m =
      SetCondition (mk_condition (happy r) ConditionFalse (cond_severity r (happy r)) rsn msg) m'"
    by (simp add: MarkFalse_def m'_def)
  moreover have "ConditionFalse = overall r (snd m')"
    using t ok by (auto simp: overall_def m'_def cond_simps managed_ok_distinct)
  ultimately show ?thesis
    using marks_set_happy [OF ok proper t _ m'_def] by auto
qed

lemma mark_unknown_loop_cases:
  "mark_unknown_loop r t rsn msg dep ds m =
     (if \<exists>d \<in> set ds. status_of d (snd m) = Some ConditionFalse
      then Inl (if status_of (happy r) (snd m) \<noteq> Some ConditionFalse
                then MarkFalse r (happy r) rsn msg m else m)
      else Inr (dep \<or> t \<in> set ds))"
  by (induction ds arbitrary: dep) (auto simp: IsFalse_status)

lemma MarkFalse_happy:
  assumes "proper_set r"
  shows "MarkFalse r (happy r) rsn msg m =
     SetCondition (mk_condition (happy r) ConditionFalse (cond_severity r (happy r)) rsn msg) m"
proof -
  have "filter (\<lambda>d. d = happy r) (dependents r) = []"
    using assms by (auto simp: proper_set_def filter_empty_conv)
  then show ?thesis by (simp add: MarkFalse_def)
qed

lemma MarkUnknown_marks:
  assumes ok: "managed_ok r (snd m)" and proper: "proper_set r" and t: "t \<in> set (dependents r)"
  shows "marks r t ConditionUnknown (snd m) (snd (MarkUnknown r t rsn msg m))"
proof -
  define m' where "m' = SetCondition (mk_condition t ConditionUnknown (cond_severity r t) rsn msg) m"
  define someF where "someF \<longleftrightarrow> (\<exists>d \<in> set (dependents r). status_of d (snd m') = Some ConditionFalse)"
  have t': "status_of t (snd m') = Some ConditionUnknown"
    using ok by (simp add: m'_def cond_simps managed_ok_distinct)
  have ov: "overall r (snd m') = (if someF then ConditionFalse else ConditionUnknown)"
    using t t' by (force simp: overall_def someF_def)
  have eq: "MarkUnknown r t rsn msg m =
      (if someF \<and> status_of (happy r) (snd m') = Some ConditionFalse then m'
       else SetCondition (mk_condition (happy r) (overall r (snd m')) (cond_severity r (happy r)) rsn msg) m')"
    by (simp add: MarkUnknown_def m'_def [symmetric] mark_unknown_loop_cases
        someF_def [symmetric] MarkFalse_happy [OF proper] ov t del: cond_severity_terminal)
  show ?thesis
  proof (cases "someF \<and> status_of (happy r) (snd m') = Some ConditionFalse")
    case True
    then show ?thesis
      using eq ov marks_coherent_already [OF ok t _ m'_def] by (simp add: coherent_def)
  next
    case False
    show ?thesis
      unfolding eq using False marks_set_happy [OF ok proper t _ m'_def refl] by auto
  qed
qed

lemmas mark_laws = MarkTrue_marks MarkFalse_marks MarkUnknown_marks

subsection \<open>Initialisation\<close>

lemma view_None_iff: "view d cs = None \<longleftrightarrow> GetCondition d cs = None"
  by (simp add: view_def)

lemma mk_condition_time [simp]: "(mk_condition t st sev r m)\<lparr>lastTransition := 0\<rparr> = mk_condition t st sev r m"
  by (simp add: mk_condition_def)

lemma initializeTerminalCondition_view:
  "distinct (map ctype (snd m)) \<Longrightarrow>
     view d (snd (initializeTerminalCondition t st m)) =
       (if d = t \<and> view d (snd m) = None
        then Some (mk_condition t st ConditionSeverityError '''' '''') else view d (snd m))"
  by (auto simp: initializeTerminalCondition_def view_SetCondition view_None_iff
      split: option.splits)

lemma managed_ok_initializeTerminal:
  "managed_ok r (snd m) \<Longrightarrow> t \<in> set (dependents r) \<Longrightarrow> st \<in> {ConditionTrue, ConditionUnknown} \<Longrightarrow>
     managed_ok r (snd (initializeTerminalCondition t st m))"
  by (auto simp: initializeTerminalCondition_def split: option.splits intro!: managed_ok_SetCondition)

lemma initialize_fold:
  assumes "managed_ok r (snd m)" "set ds \<subseteq> set (dependents r)" "st \<in> {ConditionTrue, ConditionUnknown}"
  shows "managed_ok r (snd (fold (\<lambda>t. initializeTerminalCondition t st) ds m)) \<and>
    (\<forall>d. view d (snd (fold (\<lambda>t. initializeTerminalCondition t st) ds m)) =
       (if d \<in> set ds \<and> view d (snd m) = None
        then Some (mk_condition d st ConditionSeverityError '''' '''') else view d (snd m)))"
  using assms
proof (induction ds arbitrary: m)
  case (Cons d ds)
  let ?m = "initializeTerminalCondition d st m"
  have "managed_ok r (snd ?m)" using Cons.prems managed_ok_initializeTerminal by simp
  with Cons.IH [of ?m] Cons.prems show ?case
    by (auto simp: initializeTerminalCondition_view managed_ok_distinct)
qed simp

lemma InitializeConditions_unfold:
  assumes ok: "managed_ok r (snd m)"
  obtains m' st where
    "InitializeConditions r m = fold (\<lambda>t. initializeTerminalCondition t st) (dependents r) m'"
    "managed_ok r (snd m')"
    "st = (if status_of (happy r) (snd m) = Some ConditionTrue then ConditionTrue else ConditionUnknown)"
    "\<And>d. view d (snd m') = (if d = happy r \<and> view d (snd m) = None
        then Some (mk_condition d ConditionUnknown ConditionSeverityError '''' '''') else view d (snd m))"
proof (cases "GetCondition (happy r) (snd m)")
  case (Some h)
  then have "view d (snd m) = (if d = happy r \<and> view d (snd m) = None
        then Some (mk_condition d ConditionUnknown ConditionSeverityError '''' '''') else view d (snd m))" for d
    by (auto simp: view_None_iff)
  moreover have "InitializeConditions r m = fold (\<lambda>t. initializeTerminalCondition t
      (if status_of (happy r) (snd m) = Some ConditionTrue then ConditionTrue else ConditionUnknown)) (dependents r) m"
    using Some by (simp add: InitializeConditions_def status_of_def)
  ultimately show ?thesis using that ok by blast
next
  case None
  let ?m = "SetCondition (mk_condition (happy r) ConditionUnknown ConditionSeverityError '''' '''') m"
  have "managed_ok r (snd ?m)" using ok by (intro managed_ok_SetCondition) auto
  moreover have "view d (snd ?m) = (if d = happy r \<and> view d (snd m) = None
        then Some (mk_condition d ConditionUnknown ConditionSeverityError '''' '''') else view d (snd m))" for d
    using None ok by (auto simp: view_SetCondition managed_ok_distinct view_None_iff)
  ultimately show ?thesis
    using that [of _ ?m] None by (simp add: InitializeConditions_def status_of_def Let_def)
qed

lemma InitializeConditions_ok:
  assumes "managed_ok r (snd m)"
  shows "managed_ok r (snd (InitializeConditions r m))"
  using InitializeConditions_unfold [OF assms] initialize_fold [where r = r]
  by (metis insertCI order_refl)

lemma InitializeConditions_view:
  assumes ok: "managed_ok r (snd m)" and proper: "proper_set r"
  shows "view d (snd (InitializeConditions r m)) =
    (case view d (snd m) of
       Some c \<Rightarrow> Some c
     | None \<Rightarrow>
         if d = happy r then Some (mk_condition d ConditionUnknown ConditionSeverityError '''' '''')
         else if d \<in> set (dependents r)
         then Some (mk_condition d
                (if status_of (happy r) (snd m) = Some ConditionTrue then ConditionTrue else ConditionUnknown)
                ConditionSeverityError '''' '''')
         else None)"
proof -
  from InitializeConditions_unfold [OF ok] obtain m' st where
    eq: "InitializeConditions r m = fold (\<lambda>t. initializeTerminalCondition t st) (dependents r) m'"
    and ok': "managed_ok r (snd m')"
    and st: "st = (if status_of (happy r) (snd m) = Some ConditionTrue then ConditionTrue else ConditionUnknown)"
    and v: "\<And>d. view d (snd m') = (if d = happy r \<and> view d (snd m) = None
        then Some (mk_condition d ConditionUnknown ConditionSeverityError '''' '''') else view d (snd m))" by blast
  have "happy r \<notin> set (dependents r)" using proper by (simp add: proper_set_def)
  then show ?thesis
    using initialize_fold [OF ok' order_refl, of st] st
    by (auto simp: eq v split: option.splits)
qed

lemma InitializeConditions_coherent:
  assumes ok: "managed_ok r (snd m)" and proper: "proper_set r"
    and start: "snd m = [] \<and> dependents r \<noteq> [] \<or> coherent r (snd m)"
  shows "coherent r (snd (InitializeConditions r m))"
proof -
  have st: "status_of d (snd (InitializeConditions r m)) =
    (case status_of d (snd m) of Some s \<Rightarrow> Some s
     | None \<Rightarrow> if d = happy r then Some ConditionUnknown
               else if d \<in> set (dependents r)
               then Some (if status_of (happy r) (snd m) = Some ConditionTrue then ConditionTrue else ConditionUnknown)
               else None)" for d
    by (simp add: status_of_view InitializeConditions_view [OF ok proper] split: option.splits)
  have hd: "happy r \<notin> set (dependents r)" using proper by (simp add: proper_set_def)
  show ?thesis
  proof (cases "snd m = []")
    case True
    then have "status_of d (snd m) = None" for d by (simp add: status_of_None)
    with start True hd show ?thesis
      by (auto simp: coherent_def overall_def st) (metis all_not_in_conv set_empty)+
  next
    case False
    with start have c: "status_of (happy r) (snd m) = Some (overall r (snd m))"
      by (simp add: coherent_def)
    have "overall r (snd (InitializeConditions r m)) = overall r (snd m)"
      using c hd by (auto simp: overall_def st split: option.splits if_splits)
    with c show ?thesis by (simp add: coherent_def st)
  qed
qed

subsection \<open>The manager as an interface\<close>

text \<open>
  What a client of a condition manager may rely on, whatever the manager's state is: marks are
  applied one after another; the last mark on a dependent decides its status, and after at least one
  mark the top-level status is the one that the dependents call for.
\<close>

locale condition_manager =
  fixes inv :: "'s \<Rightarrow> bool"
    and st :: "string \<Rightarrow> 's \<Rightarrow> string option"
    and top :: string
    and deps :: "string list"
    and mark :: "'op \<Rightarrow> 's \<Rightarrow> 's"
    and target :: "'op \<Rightarrow> string"
    and outcome :: "'op \<Rightarrow> string"
  assumes mark_inv: "inv s \<Longrightarrow> target p \<in> set deps \<Longrightarrow> inv (mark p s)"
    and mark_target: "inv s \<Longrightarrow> target p \<in> set deps \<Longrightarrow> st (target p) (mark p s) = Some (outcome p)"
    and mark_other: "inv s \<Longrightarrow> target p \<in> set deps \<Longrightarrow> d \<in> set deps \<Longrightarrow> d \<noteq> target p \<Longrightarrow>
      st d (mark p s) = st d s"
    and mark_top: "inv s \<Longrightarrow> target p \<in> set deps \<Longrightarrow>
      st top (mark p s) = Some ConditionTrue \<longleftrightarrow> (\<forall>d \<in> set deps. st d (mark p s) = Some ConditionTrue)"
    and mark_top_False: "inv s \<Longrightarrow> target p \<in> set deps \<Longrightarrow>
      st top (mark p s) = Some ConditionFalse \<longleftrightarrow> (\<exists>d \<in> set deps. st d (mark p s) = Some ConditionFalse)"
begin

definition last_mark :: "'op list \<Rightarrow> 's \<Rightarrow> string \<Rightarrow> string option" where
  "last_mark ps s d =
     (let qs = filter (\<lambda>p. target p = d) ps in if qs = [] then st d s else Some (outcome (last qs)))"

lemma marks_inv: "inv s \<Longrightarrow> target ` set ps \<subseteq> set deps \<Longrightarrow> inv (fold mark ps s)"
  by (induction ps arbitrary: s) (auto simp: mark_inv)

lemma marks_status:
  assumes "inv s" "target ` set ps \<subseteq> set deps" "d \<in> set deps"
  shows "st d (fold mark ps s) = last_mark ps s d"
  using assms(2)
proof (induction ps rule: rev_induct)
  case Nil
  then show ?case by (simp add: last_mark_def)
next
  case (snoc p ps)
  then have i: "inv (fold mark ps s)" using assms(1) marks_inv by simp
  show ?case
  proof (cases "target p = d")
    case True
    with snoc.prems mark_target [OF i, of p] show ?thesis
      by (simp add: last_mark_def)
  next
    case False
    with snoc assms(3) mark_other [OF i, of p d] show ?thesis
      by (simp add: last_mark_def)
  qed
qed

lemma marks_top:
  assumes "inv s" "target ` set ps \<subseteq> set deps" "ps \<noteq> []"
  shows "st top (fold mark ps s) = Some ConditionTrue \<longleftrightarrow>
      (\<forall>d \<in> set deps. last_mark ps s d = Some ConditionTrue)"
    and "st top (fold mark ps s) = Some ConditionFalse \<longleftrightarrow>
      (\<exists>d \<in> set deps. last_mark ps s d = Some ConditionFalse)"
proof -
  obtain qs p where ps: "ps = qs @ [p]" using assms(3) by (metis rev_exhaust)
  have i: "inv (fold mark qs s)" "target p \<in> set deps" using assms ps marks_inv by simp_all
  have st: "d \<in> set deps \<Longrightarrow> st d (mark p (fold mark qs s)) = last_mark ps s d" for d
    using marks_status [OF assms(1,2), of d] by (simp add: ps)
  show "st top (fold mark ps s) = Some ConditionTrue \<longleftrightarrow>
      (\<forall>d \<in> set deps. last_mark ps s d = Some ConditionTrue)"
    using mark_top [OF i] st by (simp add: ps)
  show "st top (fold mark ps s) = Some ConditionFalse \<longleftrightarrow>
      (\<exists>d \<in> set deps. last_mark ps s d = Some ConditionFalse)"
    using mark_top_False [OF i] st by (simp add: ps)
qed

end

datatype mark_op =
    OpTrue string
  | OpFalse string string string
  | OpUnknown string string string

fun op_target :: "mark_op \<Rightarrow> string" where
  "op_target (OpTrue t) = t"
| "op_target (OpFalse t rsn msg) = t"
| "op_target (OpUnknown t rsn msg) = t"

fun op_outcome :: "mark_op \<Rightarrow> string" where
  "op_outcome (OpTrue t) = ConditionTrue"
| "op_outcome (OpFalse t rsn msg) = ConditionFalse"
| "op_outcome (OpUnknown t rsn msg) = ConditionUnknown"

fun run_mark :: "condition_set \<Rightarrow> mark_op \<Rightarrow> managed \<Rightarrow> managed" where
  "run_mark r (OpTrue t) m = MarkTrue r t m"
| "run_mark r (OpFalse t rsn msg) m = MarkFalse r t rsn msg m"
| "run_mark r (OpUnknown t rsn msg) m = MarkUnknown r t rsn msg m"

lemma run_mark_marks:
  assumes "managed_ok r (snd m)" "proper_set r" "op_target p \<in> set (dependents r)"
  shows "marks r (op_target p) (op_outcome p) (snd m) (snd (run_mark r p m))"
  using assms by (cases p) (auto simp: mark_laws)

lemma coherent_True:
  "coherent r cs \<Longrightarrow> status_of (happy r) cs = Some ConditionTrue \<longleftrightarrow>
     (\<forall>d \<in> set (dependents r). status_of d cs = Some ConditionTrue)"
  by (force simp: coherent_def overall_def)

lemma coherent_False:
  "coherent r cs \<Longrightarrow> status_of (happy r) cs = Some ConditionFalse \<longleftrightarrow>
     (\<exists>d \<in> set (dependents r). status_of d cs = Some ConditionFalse)"
  by (auto simp: coherent_def overall_def)

lemma condition_manager_model:
  assumes proper: "proper_set r"
  shows "condition_manager (\<lambda>m. managed_ok r (snd m)) (\<lambda>t m. status_of t (snd m))
    (happy r) (dependents r) (run_mark r) op_target op_outcome"
proof (unfold_locales, goal_cases)
  case (1 m p)
  with run_mark_marks [OF 1(1) proper 1(2)] show ?case by (simp add: marks_def)
next
  case (2 m p)
  with run_mark_marks [OF 2(1) proper 2(2)] show ?case by (simp add: marks_def)
next
  case (3 m p d)
  with run_mark_marks [OF 3(1) proper 3(2)] show ?case by (simp add: marks_def status_of_view)
next
  case (4 m p)
  with run_mark_marks [OF 4(1) proper 4(2)] show ?case by (simp add: marks_def coherent_True)
next
  case (5 m p)
  with run_mark_marks [OF 5(1) proper 5(2)] show ?case by (simp add: marks_def coherent_False)
qed

end
