(* ===== verification/Go_Url.thy ===== *)
theory Go_Url
  imports Prelude
begin

text \<open>
  The parts of Go's \<open>net/url\<close> and \<open>path\<close> that the sources use: the \<open>url.URL\<close> record (of which
  \<open>apis.URL\<close> is an alias), percent escaping, \<open>URL.String\<close>, \<open>URL.IsAbs\<close>, \<open>url.Values\<close> with
  \<open>Add\<close>, \<open>Set\<close>, \<open>Encode\<close> and \<open>URL.Query\<close>, and \<open>path.Join\<close>. \<open>url.Parse\<close> is not modelled: it is a
  parameter of the functions that call it. The main result is that a query string written by \<open>Encode\<close>
  reads back as the same values.
\<close>

record url =
  u_scheme :: string
  u_opaque :: string
  u_user :: "string option"
  u_host :: string
  u_path :: string
  u_rawPath :: string
  u_omitHost :: bool
  u_forceQuery :: bool
  u_rawQuery :: string
  u_fragment :: string
  u_rawFragment :: string

definition empty_url :: url where
  "empty_url = \<lparr>u_scheme = '''', u_opaque = '''', u_user = None, u_host = '''', u_path = '''',
     u_rawPath = '''', u_omitHost = False, u_forceQuery = False, u_rawQuery = '''',
     u_fragment = '''', u_rawFragment = ''''\<rparr>"

definition IsAbs :: "url \<Rightarrow> bool" where
  "IsAbs u \<longleftrightarrow> u_scheme u \<noteq> ''''"

subsection \<open>Percent escaping\<close>

datatype encoding = encodePath | encodeHost | encodeQueryComponent | encodeFragment

definition is_alnum :: "char \<Rightarrow> bool" where
  "is_alnum c \<longleftrightarrow> (let n = of_char c :: nat in
     97 \<le> n \<and> n \<le> 122 \<or> 65 \<le> n \<and> n \<le> 90 \<or> 48 \<le> n \<and> n \<le> 57)"

definition reserved_escape :: "char \<Rightarrow> encoding \<Rightarrow> bool option" where
  "reserved_escape c mode =
     (if c \<in> set ''$&+,/:;=?@''
      then (case mode of
              encodePath \<Rightarrow> Some (c = CHR ''?'')
            | encodeQueryComponent \<Rightarrow> Some True
            | encodeFragment \<Rightarrow> Some False
            | encodeHost \<Rightarrow> None)
      else None)"

definition shouldEscape :: "char \<Rightarrow> encoding \<Rightarrow> bool" where
  "shouldEscape c mode =
     (if is_alnum c then False
      else if mode = encodeHost \<and> (c \<in> set ''!$&()*+,;=:[]<>'' \<or> of_char c = (39::nat) \<or> of_char c = (34::nat))
      then False
      else if c \<in> set ''-_.~'' then False
      else (case reserved_escape c mode of
              Some b \<Rightarrow> b
            | None \<Rightarrow> \<not> (mode = encodeFragment \<and> c \<in> set ''!()*'')))"

definition upperhex :: "nat \<Rightarrow> char" where
  "upperhex n = (if n < 10 then char_of (48 + n) else char_of (55 + n))"

definition escape_char :: "encoding \<Rightarrow> char \<Rightarrow> string" where
  "escape_char mode c =
     (if c = CHR '' '' \<and> mode = encodeQueryComponent then ''+''
      else if shouldEscape c mode
      then (let n = of_char c in [CHR ''%'', upperhex (n div 16), upperhex (n mod 16)])
      else [c])"

definition escape :: "encoding \<Rightarrow> string \<Rightarrow> string" where
  "escape mode s = concat (map (escape_char mode) s)"

definition unhex :: "char \<Rightarrow> nat option" where
  "unhex c = (let n = of_char c in
     if 48 \<le> n \<and> n \<le> 57 then Some (n - 48)
     else if 97 \<le> n \<and> n \<le> 102 then Some (n - 87)
     else if 65 \<le> n \<and> n \<le> 70 then Some (n - 55)
     else None)"

text \<open>\<open>unescape\<close> in the modes used here; \<open>None\<close> is an \<open>EscapeError\<close>.\<close>

fun unescape :: "encoding \<Rightarrow> string \<Rightarrow> string option" where
  "unescape mode [] = Some []"
| "unescape mode (c # cs) =
     (if c = CHR ''%''
      then (case cs of
              a # b # rest \<Rightarrow>
                (case (unhex a, unhex b) of
                   (Some x, Some y) \<Rightarrow> map_option (Cons (char_of (16 * x + y))) (unescape mode rest)
                 | _ \<Rightarrow> None)
            | _ \<Rightarrow> None)
      else if c = CHR ''+'' \<and> mode = encodeQueryComponent
      then map_option (Cons (CHR '' '')) (unescape mode cs)
      else map_option (Cons c) (unescape mode cs))"

lemma unhex_upperhex: "n < 16 \<Longrightarrow> unhex (upperhex n) = Some n"
  by (auto simp: unhex_def upperhex_def Let_def)

lemma unescape_append_char:
  "unescape encodeQueryComponent (escape_char encodeQueryComponent c @ s) =
     map_option (Cons c) (unescape encodeQueryComponent s)"
proof (cases "c = CHR '' ''")
  case True
  then show ?thesis by (simp add: escape_char_def)
next
  case sp: False
  show ?thesis
  proof (cases "shouldEscape c encodeQueryComponent")
    case True
    have "(of_char c :: nat) < 256" by simp
    then have "(of_char c :: nat) div 16 < 16" by (simp add: less_mult_imp_div_less)
    with True sp show ?thesis
      by (simp add: escape_char_def unhex_upperhex Let_def)
  next
    case False
    then have "c \<noteq> CHR ''%''" "c \<noteq> CHR ''+''"
      by (auto simp: shouldEscape_def reserved_escape_def is_alnum_def Let_def)
    with False sp show ?thesis by (simp add: escape_char_def)
  qed
qed

lemma unescape_escape: "unescape encodeQueryComponent (escape encodeQueryComponent s) = Some s"
  by (induction s) (simp_all add: escape_def unescape_append_char)

lemma upperhex_safe: "n < 16 \<Longrightarrow> upperhex n \<notin> set ''&=;''"
proof
  assume n: "n < 16" "upperhex n \<in> set ''&=;''"
  then have "unhex (upperhex n) = None" by (auto simp: unhex_def)
  with n show False by (simp add: unhex_upperhex)
qed

lemma escape_char_safe: "set (escape_char encodeQueryComponent c) \<inter> set ''&=;'' = {}"
proof (cases "shouldEscape c encodeQueryComponent")
  case True
  have "(of_char c :: nat) < 256" by simp
  then have "(of_char c :: nat) div 16 < 16" by (simp add: less_mult_imp_div_less)
  then show ?thesis
    using upperhex_safe [of "of_char c div 16"] upperhex_safe [of "of_char c mod 16"] True
    by (auto simp: escape_char_def Let_def)
next
  case False
  then have "c \<notin> set ''&=;''"
    by (auto simp: shouldEscape_def reserved_escape_def is_alnum_def Let_def)
  with False show ?thesis by (auto simp: escape_char_def)
qed

lemma escape_query_safe: "set (escape encodeQueryComponent s) \<inter> set ''&=;'' = {}"
  using escape_char_safe by (fastforce simp: escape_def)

subsection \<open>URL.String\<close>

definition validEncoded_path :: "string \<Rightarrow> bool" where
  "validEncoded_path s = list_all (\<lambda>c. c \<in> set ''!$&()*+,;=:@[]%'' \<or> of_char c = (39::nat) \<or> \<not> shouldEscape c encodePath) s"

definition EscapedPath :: "url \<Rightarrow> string" where
  "EscapedPath u =
     (if u_rawPath u \<noteq> '''' \<and> validEncoded_path (u_rawPath u)
         \<and> unescape encodePath (u_rawPath u) = Some (u_path u)
      then u_rawPath u
      else if u_path u = ''*'' then ''*''
      else escape encodePath (u_path u))"

definition validEncoded_fragment :: "string \<Rightarrow> bool" where
  "validEncoded_fragment s = list_all (\<lambda>c. c \<in> set ''!$&()*+,;=:@[]%'' \<or> of_char c = (39::nat) \<or> \<not> shouldEscape c encodeFragment) s"

definition EscapedFragment :: "url \<Rightarrow> string" where
  "EscapedFragment u =
     (if u_rawFragment u \<noteq> '''' \<and> validEncoded_fragment (u_rawFragment u)
         \<and> unescape encodeFragment (u_rawFragment u) = Some (u_fragment u)
      then u_rawFragment u
      else escape encodeFragment (u_fragment u))"

definition url_authority :: "url \<Rightarrow> string" where
  "url_authority u =
     (if u_scheme u \<noteq> '''' \<or> u_host u \<noteq> '''' \<or> u_user u \<noteq> None
      then (if u_omitHost u \<and> u_host u = '''' \<and> u_user u = None then ''''
            else (if u_host u \<noteq> '''' \<or> u_path u \<noteq> '''' \<or> u_user u \<noteq> None then ''//'' else '''') @
                 (case u_user u of None \<Rightarrow> '''' | Some ui \<Rightarrow> ui @ ''@'') @
                 escape encodeHost (u_host u))
      else '''')"

definition url_String :: "url \<Rightarrow> string" where
  "url_String u =
     (let scheme = (if u_scheme u \<noteq> '''' then u_scheme u @ '':'' else '''');
          rest =
            (if u_opaque u \<noteq> '''' then u_opaque u
             else
               let auth = url_authority u;
                   p = EscapedPath u;
                   slash = (if p \<noteq> '''' \<and> hd p \<noteq> CHR ''/'' \<and> u_host u \<noteq> '''' then ''/'' else '''');
                   dot = (if scheme @ auth @ slash = '''' \<and> CHR '':'' \<in> set (takeWhile (\<lambda>c. c \<noteq> CHR ''/'') p)
                          then ''./'' else '''')
               in auth @ slash @ dot @ p);
          query = (if u_forceQuery u \<or> u_rawQuery u \<noteq> '''' then ''?'' @ u_rawQuery u else '''');
          fragment = (if u_fragment u \<noteq> '''' then ''#'' @ EscapedFragment u else '''')
      in scheme @ rest @ query @ fragment)"

text \<open>\<open>apis.URL.String\<close>: a nil pointer prints as the empty string.\<close>

fun URL_String :: "url option \<Rightarrow> string" where
  "URL_String None = ''''"
| "URL_String (Some u) = url_String u"

lemma url_String_scheme: "IsAbs u \<Longrightarrow> url_String u \<noteq> ''''"
  by (simp add: IsAbs_def url_String_def Let_def)

subsection \<open>path.Clean and path.Join\<close>

fun clean_components :: "bool \<Rightarrow> string list \<Rightarrow> string list \<Rightarrow> string list" where
  "clean_components rooted st [] = rev st"
| "clean_components rooted st (c # cs) =
     (if c = '''' \<or> c = ''.'' then clean_components rooted st cs
      else if c = ''..''
      then (case st of
              [] \<Rightarrow> clean_components rooted (if rooted then [] else [c]) cs
            | d # ds \<Rightarrow> clean_components rooted (if d = ''..'' then c # st else ds) cs)
      else clean_components rooted (c # st) cs)"

definition path_Clean :: "string \<Rightarrow> string" where
  "path_Clean p =
     (if p = '''' then ''.''
      else let rooted = (hd p = CHR ''/'');
               out = (if rooted then ''/'' else '''') @
                     join_with ''/'' (clean_components rooted [] (split_on (CHR ''/'') p))
           in if out = '''' then ''.'' else out)"

definition path_Join :: "string \<Rightarrow> string \<Rightarrow> string" where
  "path_Join a b =
     (let parts = filter (\<lambda>e. e \<noteq> '''') [a, b]
      in if parts = [] then '''' else path_Clean (join_with ''/'' parts))"

subsection \<open>url.Values\<close>

type_synonym url_values = "(string \<times> string list) list"

definition values_get :: "string \<Rightarrow> url_values \<Rightarrow> string list" where
  "values_get k q = (case map_of q k of None \<Rightarrow> [] | Some vs \<Rightarrow> vs)"

fun values_Set :: "string \<Rightarrow> string \<Rightarrow> url_values \<Rightarrow> url_values" where
  "values_Set k v [] = [(k, [v])]"
| "values_Set k v ((k', vs) # q) = (if k = k' then (k, [v]) # q else (k', vs) # values_Set k v q)"

fun values_Add :: "string \<Rightarrow> string \<Rightarrow> url_values \<Rightarrow> url_values" where
  "values_Add k v [] = [(k, [v])]"
| "values_Add k v ((k', vs) # q) = (if k = k' then (k, vs @ [v]) # q else (k', vs) # values_Add k v q)"

definition encode_pair :: "string \<Rightarrow> string \<Rightarrow> string" where
  "encode_pair k v = escape encodeQueryComponent k @ ''='' @ escape encodeQueryComponent v"

definition values_pairs :: "url_values \<Rightarrow> (string \<times> string) list" where
  "values_pairs q = concat (map (\<lambda>(k, vs). map (Pair k) vs) q)"

definition values_Encode :: "url_values \<Rightarrow> string" where
  "values_Encode q =
     join_with ''&'' (map (\<lambda>(k, v). encode_pair k v) (values_pairs (sort_key fst q)))"

text \<open>\<open>strings.Cut\<close> at the first \<open>=\<close>.\<close>

definition cut_eq :: "string \<Rightarrow> string \<times> string" where
  "cut_eq s = (takeWhile (\<lambda>c. c \<noteq> CHR ''='') s, drop 1 (dropWhile (\<lambda>c. c \<noteq> CHR ''='') s))"

definition parse_pair :: "string \<Rightarrow> (string \<times> string) option" where
  "parse_pair piece =
     (if piece = '''' \<or> CHR '';'' \<in> set piece then None
      else let (k, v) = cut_eq piece
           in case (unescape encodeQueryComponent k, unescape encodeQueryComponent v) of
                (Some k', Some v') \<Rightarrow> Some (k', v')
              | _ \<Rightarrow> None)"

text \<open>\<open>URL.Query\<close>: pieces that do not parse are dropped.\<close>

definition parse_query :: "string \<Rightarrow> url_values" where
  "parse_query s =
     fold (\<lambda>piece q. case parse_pair piece of None \<Rightarrow> q | Some (k, v) \<Rightarrow> values_Add k v q)
       (if s = '''' then [] else split_on (CHR ''&'') s) []"

lemma values_get_Add: "values_get k (values_Add k' v q) = (if k = k' then values_get k q @ [v] else values_get k q)"
  by (induction k' v q rule: values_Add.induct) (auto simp: values_get_def)

lemma values_get_Set: "values_get k (values_Set k' v q) = (if k = k' then [v] else values_get k q)"
  by (induction k' v q rule: values_Set.induct) (auto simp: values_get_def)

lemma keys_Add: "distinct (map fst q) \<Longrightarrow>
    distinct (map fst (values_Add k v q)) \<and> fst ` set (values_Add k v q) = insert k (fst ` set q)"
  by (induction k v q rule: values_Add.induct) auto

lemma keys_Set: "distinct (map fst q) \<Longrightarrow>
    distinct (map fst (values_Set k v q)) \<and> fst ` set (values_Set k v q) = insert k (fst ` set q)"
  by (induction k v q rule: values_Set.induct) auto

lemma fold_Add_get:
  "values_get k (fold (\<lambda>f q. values_Add k' f q) fs q) =
     (if k = k' then values_get k q @ fs else values_get k q)"
  by (induction fs arbitrary: q) (auto simp: values_get_Add)

lemma fold_Add_keys: "distinct (map fst q) \<Longrightarrow> distinct (map fst (fold (\<lambda>f q. values_Add k f q) fs q))"
  by (induction fs arbitrary: q) (simp_all add: keys_Add)

lemma parse_query_distinct: "distinct (map fst (parse_query s))"
proof -
  have "distinct (map fst q) \<Longrightarrow> distinct (map fst (fold (\<lambda>piece q. case parse_pair piece of
      None \<Rightarrow> q | Some (k, v) \<Rightarrow> values_Add k v q) ps q))" for ps q
    by (induction ps arbitrary: q) (auto simp: keys_Add split: option.splits)
  then show ?thesis by (simp add: parse_query_def)
qed

lemma parse_encode_pair: "parse_pair (encode_pair k v) = Some (k, v)"
proof -
  have safe: "CHR ''='' \<notin> set (escape encodeQueryComponent k)"
    "CHR '';'' \<notin> set (encode_pair k v)"
    using escape_query_safe [of k] escape_query_safe [of v] by (auto simp: encode_pair_def)
  then have tw: "\<forall>c \<in> set (escape encodeQueryComponent k). c \<noteq> CHR ''=''" by auto
  then have "cut_eq (encode_pair k v) = (escape encodeQueryComponent k, escape encodeQueryComponent v)"
    by (simp add: cut_eq_def encode_pair_def takeWhile_append2 dropWhile_append2)
  with safe show ?thesis by (simp add: parse_pair_def unescape_escape) (simp add: encode_pair_def)
qed

lemma fold_pairs_get:
  "values_get k (fold (\<lambda>(k', v) q. values_Add k' v q) ps q) =
     values_get k q @ map snd (filter (\<lambda>p. fst p = k) ps)"
  by (induction ps arbitrary: q) (auto simp: values_get_Add)

lemma pairs_get:
  "distinct (map fst q) \<Longrightarrow> map snd (filter (\<lambda>p. fst p = k) (values_pairs q)) = values_get k q"
proof (induction q)
  case (Cons p q)
  obtain k' vs where p: "p = (k', vs)" by (cases p)
  have "filter (\<lambda>p. fst p = k) (map (Pair k') vs) = (if k = k' then map (Pair k') vs else [])"
    by (induction vs) auto
  moreover have "k = k' \<Longrightarrow> map_of q k = None"
    using Cons.prems p by (auto simp: map_of_eq_None_iff)
  ultimately show ?case using Cons p by (auto simp: values_pairs_def values_get_def comp_def)
qed (simp add: values_pairs_def values_get_def)

lemma encode_pair_no_amp: "CHR ''&'' \<notin> set (encode_pair k v)"
  using escape_query_safe [of k] escape_query_safe [of v] by (auto simp: encode_pair_def)

lemma parse_query_join:
  "parse_query (join_with ''&'' (map (\<lambda>(k, v). encode_pair k v) ps)) =
     fold (\<lambda>(k, v) q. values_Add k v q) ps []"
proof (cases ps)
  case (Cons p ps')
  let ?es = "map (\<lambda>(k, v). encode_pair k v) ps"
  have "split_on (CHR ''&'') (join_with ''&'' ?es) = ?es"
    using Cons encode_pair_no_amp by (intro split_on_join) auto
  moreover have "join_with ''&'' ?es \<noteq> ''''"
    using Cons by (cases ps'; cases p) (auto simp: encode_pair_def)
  moreover have "fold (\<lambda>piece q. case parse_pair piece of None \<Rightarrow> q | Some (k, v) \<Rightarrow> values_Add k v q) ?es q =
      fold (\<lambda>(k, v) q. values_Add k v q) ps q" for q
    by (induction ps arbitrary: q) (auto simp: parse_encode_pair)
  ultimately show ?thesis by (simp add: parse_query_def)
qed (simp add: parse_query_def)

lemma map_of_sort_key: "distinct (map fst q) \<Longrightarrow> map_of (sort_key fst q) = map_of q"
  by (rule map_of_inject_set [THEN iffD2]) simp_all

text \<open>A query string written by \<open>Encode\<close> reads back as the same values under every key.\<close>

lemma parse_query_Encode:
  assumes "distinct (map fst q)"
  shows "values_get k (parse_query (values_Encode q)) = values_get k q"
proof -
  have "values_get k (parse_query (values_Encode q)) = values_get k (sort_key fst q)"
    using assms pairs_get [of "sort_key fst q" k] fold_pairs_get [of k _ "[]"]
    by (simp add: values_Encode_def parse_query_join) (simp add: values_get_def)
  then show ?thesis using assms by (simp add: values_get_def map_of_sort_key)
qed

end
