(* ===== verification/Source_Types.thy ===== *)
theory Source_Types
  imports Conditions Go_Url
begin

text \<open>
  The API types of \<open>pkg/apis/sources/v1alpha1\<close> (\<open>yipyapsource_types.go\<close>, \<open>register.go\<close>) with the duck
  types they embed, and the status lifecycle of \<open>yipyapsource_lifecycle.go\<close>. A pointer is an option,
  a Go map with string keys an association list.
\<close>

subsection \<open>Data\<close>

record kreference =
  kr_kind :: string
  kr_namespace :: string
  kr_name :: string
  kr_apiVersion :: string
  kr_group :: string
  kr_address :: "string option"

record destination =
  d_ref :: "kreference option"
  d_uri :: "url option"
  d_CACerts :: "string option"
  d_audience :: "string option"

record api_key_reference =
  ak_name :: string
  ak_key :: string

record source_filter =
  f_types :: "string list"
  f_monitorIDs :: "string list"
  f_severities :: "string list"

record source_spec =
  sp_sink :: destination
  sp_ceOverrides :: "(string \<times> string) list option"
  sp_apiKeyRef :: api_key_reference
  sp_baseURL :: string
  sp_filter :: "source_filter option"
  sp_mode :: string
  sp_serviceAccountName :: string

record owner_reference =
  or_apiVersion :: string
  or_kind :: string
  or_name :: string
  or_uid :: string
  or_controller :: "bool option"
  or_blockOwnerDeletion :: "bool option"

record object_meta =
  om_name :: string
  om_namespace :: string
  om_uid :: string
  om_resourceVersion :: string
  om_generation :: int
  om_deletionTimestamp :: "int option"
  om_labels :: "(string \<times> string) list"
  om_annotations :: "(string \<times> string) list"
  om_ownerReferences :: "owner_reference list"
  om_finalizers :: "string list"

record cloud_event_attributes =
  cea_type :: string
  cea_source :: string

record source_status =
  st_observedGeneration :: int
  st_conditions :: "condition list"
  st_annotations :: "(string \<times> string) list"
  st_sinkURI :: "url option"
  st_ceAttributes :: "cloud_event_attributes list"
  st_sinkCACerts :: "string option"
  st_sinkAudience :: "string option"
  st_auth :: "(string option \<times> string list) option"
  st_deploymentName :: string
  st_lastEventTime :: "int option"
  st_eventCount :: int

record yipyap_source =
  y_meta :: object_meta
  y_spec :: source_spec
  y_status :: source_status

definition YipYapSourceModeAuto :: string where "YipYapSourceModeAuto = ''auto''"
definition YipYapSourceModePoll :: string where "YipYapSourceModePoll = ''poll''"
definition YipYapSourceModeStream :: string where "YipYapSourceModeStream = ''stream''"

lemmas mode_defs = YipYapSourceModeAuto_def YipYapSourceModePoll_def YipYapSourceModeStream_def

subsection \<open>Group, version, kind\<close>

definition GroupName :: string where "GroupName = ''sources.yipyap.run''"

record group_version_kind =
  gvk_group :: string
  gvk_version :: string
  gvk_kind :: string

definition GetGroupVersionKind :: group_version_kind where
  "GetGroupVersionKind = \<lparr>gvk_group = GroupName, gvk_version = ''v1alpha1'', gvk_kind = ''YipYapSource''\<rparr>"

text \<open>\<open>GroupVersion.String\<close> of apimachinery: the group is left out when it is empty.\<close>

definition gvk_apiVersion :: "group_version_kind \<Rightarrow> string" where
  "gvk_apiVersion g =
     (if gvk_group g \<noteq> '''' then gvk_group g @ ''/'' @ gvk_version g else gvk_version g)"

subsection \<open>Lifecycle\<close>

definition YipYapSourceConditionSinkProvided :: string where
  "YipYapSourceConditionSinkProvided = ''SinkProvided''"
definition YipYapSourceConditionDeployed :: string where
  "YipYapSourceConditionDeployed = ''Deployed''"

definition yipyapSourceCondSet :: condition_set where
  "yipyapSourceCondSet =
     NewLivingConditionSet [YipYapSourceConditionSinkProvided, YipYapSourceConditionDeployed]"

text \<open>
  \<open>Manage\<close> binds the manager to a status: an operation reads the status' conditions and stores
  them back. The clock is threaded beside the status.
\<close>

type_synonym clocked_status = "clock \<times> source_status"

definition Manage :: "(managed \<Rightarrow> managed) \<Rightarrow> clocked_status \<Rightarrow> clocked_status" where
  "Manage f s =
     (let (clk, cs) = f (fst s, st_conditions (snd s))
      in (clk, (snd s)\<lparr>st_conditions := cs\<rparr>))"

definition Status_GetCondition :: "source_status \<Rightarrow> string \<Rightarrow> condition option" where
  "Status_GetCondition s t = GetCondition t (st_conditions s)"

definition Status_InitializeConditions :: "clocked_status \<Rightarrow> clocked_status" where
  "Status_InitializeConditions = Manage (InitializeConditions yipyapSourceCondSet)"

definition IsReady :: "source_status \<Rightarrow> bool" where
  "IsReady s = IsHappy yipyapSourceCondSet (st_conditions s)"

definition MarkSink :: "url option \<Rightarrow> clocked_status \<Rightarrow> clocked_status" where
  "MarkSink uri s =
     (let s = (fst s, (snd s)\<lparr>st_sinkURI := uri\<rparr>)
      in if uri \<noteq> None \<and> URL_String uri \<noteq> ''''
         then Manage (MarkTrue yipyapSourceCondSet YipYapSourceConditionSinkProvided) s
         else Manage (MarkUnknown yipyapSourceCondSet YipYapSourceConditionSinkProvided
                        ''SinkEmpty'' ''Sink has no URI'') s)"

definition MarkNoSink :: "string \<Rightarrow> string \<Rightarrow> clocked_status \<Rightarrow> clocked_status" where
  "MarkNoSink rsn msg = Manage (MarkFalse yipyapSourceCondSet YipYapSourceConditionSinkProvided rsn msg)"

definition MarkDeployed :: "clocked_status \<Rightarrow> clocked_status" where
  "MarkDeployed = Manage (MarkTrue yipyapSourceCondSet YipYapSourceConditionDeployed)"

definition MarkNotDeployed :: "string \<Rightarrow> string \<Rightarrow> clocked_status \<Rightarrow> clocked_status" where
  "MarkNotDeployed rsn msg = Manage (MarkFalse yipyapSourceCondSet YipYapSourceConditionDeployed rsn msg)"

definition MarkDeploying :: "string \<Rightarrow> string \<Rightarrow> clocked_status \<Rightarrow> clocked_status" where
  "MarkDeploying rsn msg = Manage (MarkUnknown yipyapSourceCondSet YipYapSourceConditionDeployed rsn msg)"

subsection \<open>Laws of the lifecycle\<close>

abbreviation condSet :: condition_set where "condSet \<equiv> yipyapSourceCondSet"
abbreviation SinkProvided :: string where "SinkProvided \<equiv> YipYapSourceConditionSinkProvided"
abbreviation Deployed :: string where "Deployed \<equiv> YipYapSourceConditionDeployed"

lemmas cond_type_defs = YipYapSourceConditionSinkProvided_def YipYapSourceConditionDeployed_def ConditionReady_def

lemma condSet_simps [simp]:
  "happy condSet = ConditionReady" "dependents condSet = [SinkProvided, Deployed]"
  by (simp_all add: yipyapSourceCondSet_def NewLivingConditionSet_def newConditionSet_def cond_type_defs)

lemma condSet_proper [simp]: "proper_set condSet"
  by (simp add: yipyapSourceCondSet_def NewLivingConditionSet_def)

interpretation lc: condition_manager "\<lambda>m. managed_ok condSet (snd m)" "\<lambda>t m. status_of t (snd m)"
  "happy condSet" "dependents condSet" "run_mark condSet" op_target op_outcome
  by (rule condition_manager_model) simp

definition status_ok :: "source_status \<Rightarrow> bool" where
  "status_ok s \<longleftrightarrow> managed_ok condSet (st_conditions s)"

definition cond_status :: "string \<Rightarrow> source_status \<Rightarrow> string option" where
  "cond_status t s = status_of t (st_conditions s)"

text \<open>
  What one lifecycle call on a dependent condition does to a status: the named condition gets its
  status, the other dependent keeps its content, Ready is coherent, no other field changes.
\<close>

definition lifecycle_step :: "string \<Rightarrow> string \<Rightarrow> source_status \<Rightarrow> source_status \<Rightarrow> bool" where
  "lifecycle_step t st s s' \<longleftrightarrow>
     marks condSet t st (st_conditions s) (st_conditions s') \<and>
     s'\<lparr>st_conditions := st_conditions s\<rparr> = s"

lemma Manage_conditions: "st_conditions (snd (Manage f s)) = snd (f (fst s, st_conditions (snd s)))"
  by (simp add: Manage_def Let_def case_prod_unfold)

lemma Manage_frame: "(snd (Manage f s))\<lparr>st_conditions := st_conditions (snd s)\<rparr> = snd s"
  by (simp add: Manage_def Let_def case_prod_unfold)

lemma Manage_lifecycle:
  assumes "status_ok (snd s)" "op_target p \<in> set (dependents condSet)"
  shows "lifecycle_step (op_target p) (op_outcome p) (snd s) (snd (Manage (run_mark condSet p) s))"
  using assms run_mark_marks [of condSet "(fst s, st_conditions (snd s))" p]
  by (simp add: lifecycle_step_def status_ok_def Manage_conditions Manage_frame)

lemma lifecycle_calls:
  assumes "status_ok (snd s)"
  shows "lifecycle_step SinkProvided ConditionFalse (snd s) (snd (MarkNoSink rsn msg s))"
    and "lifecycle_step Deployed ConditionTrue (snd s) (snd (MarkDeployed s))"
    and "lifecycle_step Deployed ConditionFalse (snd s) (snd (MarkNotDeployed rsn msg s))"
    and "lifecycle_step Deployed ConditionUnknown (snd s) (snd (MarkDeploying rsn msg s))"
  using assms Manage_lifecycle [of s "OpFalse SinkProvided rsn msg"] Manage_lifecycle [of s "OpTrue Deployed"]
    Manage_lifecycle [of s "OpFalse Deployed rsn msg"] Manage_lifecycle [of s "OpUnknown Deployed rsn msg"]
  by (simp_all add: MarkNoSink_def MarkDeployed_def MarkNotDeployed_def MarkDeploying_def
      run_mark.simps [abs_def])

lemma MarkSink_step:
  assumes "status_ok (snd s)"
  shows "lifecycle_step SinkProvided
     (if uri \<noteq> None \<and> URL_String uri \<noteq> '''' then ConditionTrue else ConditionUnknown)
     ((snd s)\<lparr>st_sinkURI := uri\<rparr>) (snd (MarkSink uri s))"
proof -
  let ?s = "(fst s, (snd s)\<lparr>st_sinkURI := uri\<rparr>)"
  have "status_ok (snd ?s)" using assms by (simp add: status_ok_def)
  then show ?thesis
    using Manage_lifecycle [of ?s "OpTrue SinkProvided"]
      Manage_lifecycle [of ?s "OpUnknown SinkProvided ''SinkEmpty'' ''Sink has no URI''"]
    by (auto simp: MarkSink_def Let_def run_mark.simps [abs_def])
qed

lemma lifecycle_step_ok: "lifecycle_step t st s s' \<Longrightarrow> status_ok s'"
  by (simp add: lifecycle_step_def marks_def status_ok_def)

lemma lifecycle_step_status:
  assumes "lifecycle_step t st s s'"
  shows "cond_status t s' = Some st"
    and "d \<in> {SinkProvided, Deployed} \<Longrightarrow> d \<noteq> t \<Longrightarrow> cond_status d s' = cond_status d s"
    and "IsReady s' \<longleftrightarrow> cond_status SinkProvided s' = Some ConditionTrue \<and> cond_status Deployed s' = Some ConditionTrue"
proof -
  have m: "marks condSet t st (st_conditions s) (st_conditions s')"
    using assms by (simp add: lifecycle_step_def)
  show "cond_status t s' = Some st" using m by (simp add: marks_def cond_status_def)
  show "d \<in> {SinkProvided, Deployed} \<Longrightarrow> d \<noteq> t \<Longrightarrow> cond_status d s' = cond_status d s"
    using m by (auto simp: marks_def cond_status_def status_of_view)
  show "IsReady s' \<longleftrightarrow> cond_status SinkProvided s' = Some ConditionTrue \<and> cond_status Deployed s' = Some ConditionTrue"
    using m coherent_True [of condSet "st_conditions s'"]
    by (simp add: marks_def cond_status_def IsReady_def IsHappy_status)
qed

lemma lifecycle_step_frame [status_frame]:
  assumes "lifecycle_step t st s s'"
  shows "st_observedGeneration s' = st_observedGeneration s" "st_sinkURI s' = st_sinkURI s"
    "st_ceAttributes s' = st_ceAttributes s" "st_deploymentName s' = st_deploymentName s"
proof -
  have eq: "s'\<lparr>st_conditions := st_conditions s\<rparr> = s" using assms by (simp add: lifecycle_step_def)
  show "st_observedGeneration s' = st_observedGeneration s"
    using arg_cong [OF eq, of st_observedGeneration] by simp
  show "st_sinkURI s' = st_sinkURI s" using arg_cong [OF eq, of st_sinkURI] by simp
  show "st_ceAttributes s' = st_ceAttributes s" using arg_cong [OF eq, of st_ceAttributes] by simp
  show "st_deploymentName s' = st_deploymentName s" using arg_cong [OF eq, of st_deploymentName] by simp
qed

subsection \<open>Properties\<close>

text \<open>
  C20: Whatever sequence of marks is applied to the dependent conditions of a source, in whatever order
  and with whatever reasons, the condition list stays well formed, and Ready is True exactly when the last
  mark of SinkProvided and of Deployed was True, and False exactly when one of them was last marked False.
\<close>
theorem lifecycle_sequence:
  assumes "managed_ok condSet (snd m)" "ps \<noteq> []" "\<forall>p \<in> set ps. op_target p \<in> {SinkProvided, Deployed}"
  shows "managed_ok condSet (snd (fold (run_mark condSet) ps m)) \<and>
    (IsHappy condSet (snd (fold (run_mark condSet) ps m)) \<longleftrightarrow>
       (\<forall>d \<in> {SinkProvided, Deployed}. lc.last_mark ps m d = Some ConditionTrue)) \<and>
    (status_of ConditionReady (snd (fold (run_mark condSet) ps m)) = Some ConditionFalse \<longleftrightarrow>
       (\<exists>d \<in> {SinkProvided, Deployed}. lc.last_mark ps m d = Some ConditionFalse))"
proof -
  have t: "op_target ` set ps \<subseteq> set (dependents condSet)" using assms(3) by auto
  show ?thesis
    using lc.marks_inv [OF assms(1) t] lc.marks_top [OF assms(1) t assms(2)] by (simp add: IsHappy_status)
qed

theorem lifecycle_sequence_witness:
  "IsHappy condSet (snd (fold (run_mark condSet)
     [OpFalse Deployed ''NotReady'' ''0/1'', OpTrue SinkProvided, OpTrue Deployed] (\<lambda>n. int n, [])))"
  using lifecycle_sequence [of "(\<lambda>n. int n, [])" "[OpFalse Deployed ''NotReady'' ''0/1'', OpTrue SinkProvided, OpTrue Deployed]"]
  by (simp add: managed_ok_def lc.last_mark_def cond_type_defs)

end
