(* ===== verification/Sink_Resolver.thy ===== *)
theory Sink_Resolver
  imports Source_Types
begin

text \<open>
  The resolver of \<open>knative.dev/pkg/resolver\<close> (\<open>addressable_resolver.go\<close>): a destination becomes an
  addressable, from a reference to a cluster object, from an absolute URI, or from a reference with a
  relative URI resolved against its address. The tracker, the informer caches and the custom resolvers
  are parameters. Shown: which destinations resolve, that every looked-up reference has been tracked
  before, and the contract the reconciler relies on: a resolved URI never prints as the empty string.
\<close>

subsection \<open>URL.ResolveReference\<close>

text \<open>
  One path element: \<open>dst\<close> is what has been written behind the leading slash, \<open>first\<close> tells whether
  the next element is written without a separator.
\<close>

definition last_slash :: "string \<Rightarrow> string option" where
  "last_slash s = (if CHR ''/'' \<in> set s then Some (rev (tl (dropWhile (\<lambda>c. c \<noteq> CHR ''/'') (rev s)))) else None)"

definition path_elem :: "string \<Rightarrow> string \<times> bool \<Rightarrow> string \<times> bool" where
  "path_elem e = (\<lambda>(dst, first).
     if e = ''.'' then (dst, False)
     else if e = ''..''
     then (case last_slash dst of None \<Rightarrow> ('''', True) | Some d \<Rightarrow> (d, first))
     else ((if first then dst else dst @ ''/'') @ e, False))"

definition resolvePath :: "string \<Rightarrow> string \<Rightarrow> string" where
  "resolvePath base ref =
     (let full =
        (if ref = '''' then base
         else if hd ref \<noteq> CHR ''/'' then (case last_slash base of None \<Rightarrow> '''' | Some d \<Rightarrow> d @ ''/'') @ ref
         else ref)
      in if full = '''' then ''''
         else
           let elems = split_on (CHR ''/'') full;
               dst = fst (fold path_elem elems ('''', True));
               r = ''/'' @ dst @ (if last elems = ''.'' \<or> last elems = ''..'' then ''/'' else '''')
           in if length r > 1 \<and> r ! 1 = CHR ''/'' then tl r else r)"

definition setPath :: "string \<Rightarrow> url \<Rightarrow> url" where
  "setPath p u =
     (case unescape encodePath p of
        None \<Rightarrow> u
      | Some path \<Rightarrow> u\<lparr>u_path := path, u_rawPath := (if p = escape encodePath path then '''' else p)\<rparr>)"

definition ResolveReference :: "url \<Rightarrow> url \<Rightarrow> url" where
  "ResolveReference u ref =
     (let url = (if u_scheme ref = '''' then ref\<lparr>u_scheme := u_scheme u\<rparr> else ref)
      in if u_scheme ref \<noteq> '''' \<or> u_host ref \<noteq> '''' \<or> u_user ref \<noteq> None
         then setPath (resolvePath (EscapedPath ref) '''') url
         else if u_opaque ref \<noteq> '''' then url\<lparr>u_user := None, u_host := '''', u_path := ''''\<rparr>
         else
           let url =
             (if u_path ref = '''' \<and> \<not> u_forceQuery ref \<and> u_rawQuery ref = ''''
              then (let url = url\<lparr>u_rawQuery := u_rawQuery u\<rparr>
                    in if u_fragment ref = ''''
                       then url\<lparr>u_fragment := u_fragment u, u_rawFragment := u_rawFragment u\<rparr> else url)
              else url)
           in if u_path ref = '''' \<and> u_opaque u \<noteq> ''''
              then url\<lparr>u_opaque := u_opaque u, u_user := None, u_host := '''', u_path := ''''\<rparr>
              else setPath (resolvePath (EscapedPath u) (EscapedPath ref))
                     (url\<lparr>u_host := u_host u, u_user := u_user u\<rparr>))"

subsection \<open>Addressables\<close>

record addressable =
  a_name :: "string option"
  a_url :: "url option"
  a_CACerts :: "string option"
  a_audience :: "string option"

text \<open>The status of an addressable object; an object of another type has no such status.\<close>

record addressable_status =
  as_address :: "addressable option"
  as_addresses :: "addressable list"

datatype cluster_object = AddressableType addressable_status | OtherObject

datatype resolve_error =
    RefNil
  | CustomResolver string
  | TrackFailed string
  | ListerFailed string
  | GetFailed string
  | NotAddressable
  | AddressNotSet
  | AddressNotFound string
  | URLMissing
  | HostMissing
  | AbsoluteURIWithRef
  | URINotAbsolute string
  | MissingRefAndURI
  | NilURL

text \<open>
  What the resolver is built from: the custom resolvers (\<open>None\<close> when one does not handle the
  reference), the tracker (\<open>Some\<close> an error), the lister factory and the lister.
\<close>

record resolver =
  r_custom :: "(kreference \<Rightarrow> (string + url option) option) list"
  r_track :: "kreference \<Rightarrow> string option"
  r_listerFactory :: "string \<Rightarrow> string \<Rightarrow> string option"
  r_get :: "kreference \<Rightarrow> string + cluster_object"
  r_clusterDomain :: string

definition GetServiceHostname :: "resolver \<Rightarrow> string \<Rightarrow> string \<Rightarrow> string" where
  "GetServiceHostname r name ns = name @ ''.'' @ ns @ ''.svc.'' @ r_clusterDomain r"

text \<open>The object reference the resolver builds from the destination: kind, namespace, name and API version.\<close>

definition objectReference :: "kreference \<Rightarrow> kreference" where
  "objectReference k = k\<lparr>kr_group := '''', kr_address := None\<rparr>"

definition selectAddress :: "kreference \<Rightarrow> addressable_status \<Rightarrow> resolve_error + addressable" where
  "selectAddress ref st =
     (if as_addresses st = [] \<and> as_address st = None then Inl AddressNotSet
      else if kr_address ref \<noteq> None \<and> the (kr_address ref) \<noteq> ''''
      then (case find (\<lambda>a. a_name a = Some (the (kr_address ref))) (as_addresses st) of
              Some a \<Rightarrow> Inr a
            | None \<Rightarrow> Inl (AddressNotFound (the (kr_address ref))))
      else (case as_addresses st of
              a # _ \<Rightarrow> Inr a
            | [] \<Rightarrow> (case as_address st of Some a \<Rightarrow> Inr a | None \<Rightarrow> Inl AddressNotSet)))"

abbreviation set_string :: "string option \<Rightarrow> bool" where
  "set_string v \<equiv> v \<noteq> None \<and> v \<noteq> Some ''''"

fun try_custom :: "(kreference \<Rightarrow> (string + url option) option) list \<Rightarrow> kreference \<Rightarrow> (string + url option) option" where
  "try_custom [] k = None"
| "try_custom (f # fs) k = (case f k of None \<Rightarrow> try_custom fs k | Some x \<Rightarrow> Some x)"

text \<open>Each resolution also gives the references it has tracked.\<close>

definition address_of_object :: "resolver \<Rightarrow> destination \<Rightarrow> kreference \<Rightarrow> cluster_object \<Rightarrow> resolve_error + addressable" where
  "address_of_object r dest ref obj =
     (if kr_apiVersion ref = ''v1'' \<and> kr_kind ref = ''Service''
      then Inr \<lparr>a_name = kr_address ref,
                a_url = Some (empty_url\<lparr>u_scheme := (if set_string (d_CACerts dest) then ''https'' else ''http''),
                                        u_host := GetServiceHostname r (kr_name ref) (kr_namespace ref)\<rparr>),
                a_CACerts = d_CACerts dest, a_audience = d_audience dest\<rparr>
      else (case obj of
              OtherObject \<Rightarrow> Inl NotAddressable
            | AddressableType st \<Rightarrow>
                (case selectAddress ref st of
                   Inl e \<Rightarrow> Inl e
                 | Inr addr \<Rightarrow>
                     (case a_url addr of
                        None \<Rightarrow> Inl URLMissing
                      | Some u \<Rightarrow>
                          if u_host u = '''' then Inl HostMissing
                          else
                            let addr = (if set_string (d_CACerts dest) then addr\<lparr>a_CACerts := d_CACerts dest\<rparr> else addr)
                            in Inr (if set_string (d_audience dest) then addr\<lparr>a_audience := d_audience dest\<rparr> else addr)))))"

definition addressableFromDestinationRef ::
  "resolver \<Rightarrow> destination \<Rightarrow> kreference list \<times> (resolve_error + addressable)" where
  "addressableFromDestinationRef r dest =
     (case d_ref dest of
        None \<Rightarrow> ([], Inl RefNil)
      | Some ref \<Rightarrow>
          (case try_custom (r_custom r) (objectReference ref) of
             Some (Inl e) \<Rightarrow> ([], Inl (CustomResolver e))
           | Some (Inr u) \<Rightarrow>
               ([], Inr \<lparr>a_name = kr_address ref, a_url = u, a_CACerts = d_CACerts dest, a_audience = d_audience dest\<rparr>)
           | None \<Rightarrow>
               (case r_track r (objectReference ref) of
                  Some e \<Rightarrow> ([], Inl (TrackFailed e))
                | None \<Rightarrow>
                    ([objectReference ref],
                     case r_listerFactory r (kr_apiVersion ref) (kr_kind ref) of
                       Some e \<Rightarrow> Inl (ListerFailed e)
                     | None \<Rightarrow>
                         (case r_get r (objectReference ref) of
                            Inl e \<Rightarrow> Inl (GetFailed e)
                          | Inr obj \<Rightarrow> address_of_object r dest ref obj)))))"

definition AddressableFromDestinationV1 ::
  "resolver \<Rightarrow> destination \<Rightarrow> kreference list \<times> (resolve_error + addressable)" where
  "AddressableFromDestinationV1 r dest =
     (case d_ref dest of
        Some ref \<Rightarrow>
          (case addressableFromDestinationRef r dest of
             (ts, Inl e) \<Rightarrow> (ts, Inl e)
           | (ts, Inr addr) \<Rightarrow>
               (ts, case d_uri dest of
                      None \<Rightarrow> Inr addr
                    | Some uri \<Rightarrow>
                        if IsAbs uri then Inl AbsoluteURIWithRef
                        else (case a_url addr of
                                None \<Rightarrow> Inl NilURL
                              | Some u \<Rightarrow> Inr (addr\<lparr>a_url := Some (ResolveReference u uri)\<rparr>))))
      | None \<Rightarrow>
          ([], case d_uri dest of
                 Some uri \<Rightarrow>
                   if \<not> IsAbs uri \<or> u_host uri = '''' then Inl (URINotAbsolute (url_String uri))
                   else Inr \<lparr>a_name = None, a_url = Some uri, a_CACerts = d_CACerts dest, a_audience = d_audience dest\<rparr>
               | None \<Rightarrow> Inl MissingRefAndURI))"

definition URIFromDestinationV1 :: "resolver \<Rightarrow> destination \<Rightarrow> kreference list \<times> (resolve_error + url option)" where
  "URIFromDestinationV1 r dest =
     (case AddressableFromDestinationV1 r dest of
        (ts, Inl e) \<Rightarrow> (ts, Inl e)
      | (ts, Inr addr) \<Rightarrow> (ts, Inr (a_url addr)))"

subsection \<open>Laws\<close>

lemma setPath_frame [simp]:
  "u_scheme (setPath p u) = u_scheme u" "u_opaque (setPath p u) = u_opaque u"
  "u_host (setPath p u) = u_host u" "u_user (setPath p u) = u_user u"
  by (simp_all add: setPath_def split: option.split)

lemma url_String_nonempty: "u_opaque u \<noteq> '''' \<or> u_host u \<noteq> '''' \<or> u_user u \<noteq> None \<Longrightarrow> url_String u \<noteq> ''''"
  by (auto simp: url_String_def url_authority_def Let_def)

lemma ResolveReference_nonempty:
  assumes "u_host u \<noteq> ''''" "\<not> IsAbs ref"
  shows "url_String (ResolveReference u ref) \<noteq> ''''"
  by (rule url_String_nonempty) (use assms in \<open>auto simp: ResolveReference_def IsAbs_def Let_def\<close>)

lemma address_of_object_host:
  "address_of_object r dest ref obj = Inr a \<Longrightarrow> \<exists>u. a_url a = Some u \<and> u_host u \<noteq> ''''"
  by (auto simp: address_of_object_def GetServiceHostname_def Let_def
      split: if_splits sum.splits option.splits cluster_object.splits)

lemma addressableFromDestinationRef_host:
  assumes "r_custom r = []" "addressableFromDestinationRef r dest = (ts, Inr a)"
  shows "\<exists>u. a_url a = Some u \<and> u_host u \<noteq> ''''"
  using assms by (auto simp: addressableFromDestinationRef_def dest!: address_of_object_host
      split: option.splits sum.splits)

lemma AddressableFromDestinationV1_nonempty:
  assumes "r_custom r = []" "AddressableFromDestinationV1 r dest = (ts, Inr a)"
  shows "\<exists>u. a_url a = Some u \<and> url_String u \<noteq> ''''"
proof (cases "d_ref dest")
  case None
  with assms(2) show ?thesis
    by (auto simp: AddressableFromDestinationV1_def dest: url_String_scheme split: option.splits if_splits)
next
  case (Some ref)
  obtain b where b: "addressableFromDestinationRef r dest = (ts, Inr b)"
    using assms(2) Some by (auto simp: AddressableFromDestinationV1_def split: prod.splits sum.splits)
  then obtain u where u: "a_url b = Some u" "u_host u \<noteq> ''''"
    using addressableFromDestinationRef_host [OF assms(1)] by blast
  show ?thesis
  proof (cases "d_uri dest")
    case None
    with assms(2) Some b have "a = b" by (simp add: AddressableFromDestinationV1_def)
    with u url_String_nonempty [of u] show ?thesis by simp
  next
    case uri: (Some uri)
    with assms(2) Some b u have "\<not> IsAbs uri" "a_url a = Some (ResolveReference u uri)"
      by (auto simp: AddressableFromDestinationV1_def split: if_splits)
    with u ResolveReference_nonempty [of u uri] show ?thesis by simp
  qed
qed

lemma URIFromDestinationV1_nonempty:
  assumes "r_custom r = []" "URIFromDestinationV1 r dest = (ts, Inr u)"
  shows "\<exists>v. u = Some v \<and> url_String v \<noteq> ''''"
proof -
  obtain a where "AddressableFromDestinationV1 r dest = (ts, Inr a)" "u = a_url a"
    using assms(2) by (auto simp: URIFromDestinationV1_def split: prod.splits sum.splits)
  with AddressableFromDestinationV1_nonempty [OF assms(1)] show ?thesis by blast
qed

text \<open>Whenever an object has been looked up to resolve a reference, the reference is tracked, so a change of the object is noticed.\<close>

lemma URIFromDestinationV1_tracks:
  assumes "r_custom r = []" "d_ref dest = Some ref" "URIFromDestinationV1 r dest = (ts, res)"
  shows "ts = (if r_track r (objectReference ref) = None then [objectReference ref] else [])"
    and "r_track r (objectReference ref) = Some e \<Longrightarrow> res = Inl (TrackFailed e)"
proof -
  have *: "fst (addressableFromDestinationRef r dest) =
      (if r_track r (objectReference ref) = None then [objectReference ref] else [])"
    using assms(1,2) by (auto simp: addressableFromDestinationRef_def split: option.split)
  have **: "fst (URIFromDestinationV1 r dest) = fst (addressableFromDestinationRef r dest)"
    using assms(2) by (simp add: URIFromDestinationV1_def AddressableFromDestinationV1_def split: prod.split sum.split)
  show "ts = (if r_track r (objectReference ref) = None then [objectReference ref] else [])"
    using * ** assms(3) by simp
  show "r_track r (objectReference ref) = Some e \<Longrightarrow> res = Inl (TrackFailed e)"
    using assms by (auto simp: URIFromDestinationV1_def AddressableFromDestinationV1_def addressableFromDestinationRef_def)
qed

subsection \<open>The resolver the controller builds\<close>

text \<open>
  \<open>NewController\<close> builds the resolver from the controller's tracker and no custom resolvers. To the
  reconciler an error is its text; \<open>err_text\<close> is the \<open>Error\<close> method.
\<close>

definition NewURIResolverFromTracker ::
  "(kreference \<Rightarrow> string option) \<Rightarrow> (string \<Rightarrow> string \<Rightarrow> string option) \<Rightarrow> (kreference \<Rightarrow> string + cluster_object) \<Rightarrow>
   string \<Rightarrow> resolver" where
  "NewURIResolverFromTracker track listers get domain =
     \<lparr>r_custom = [], r_track = track, r_listerFactory = listers, r_get = get, r_clusterDomain = domain\<rparr>"

definition resolve_text ::
  "(resolve_error \<Rightarrow> string) \<Rightarrow> resolver \<Rightarrow> destination \<Rightarrow> kreference list \<times> (string + url option)" where
  "resolve_text err_text r dest =
     (case URIFromDestinationV1 r dest of
        (ts, Inl e) \<Rightarrow> (ts, Inl (err_text e))
      | (ts, Inr u) \<Rightarrow> (ts, Inr u))"

text \<open>The contract of a sink resolver, as its clients rely on it.\<close>

locale sink_resolver =
  fixes resolve :: "destination \<Rightarrow> kreference list \<times> (string + url option)"
  assumes resolved_prints: "resolve d = (ts, Inr u) \<Longrightarrow> u \<noteq> None \<and> URL_String u \<noteq> ''''"
begin

lemma MarkSink_resolved:
  assumes "status_ok (snd s)" "resolve d = (ts, Inr u)"
  shows "lifecycle_step SinkProvided ConditionTrue ((snd s)\<lparr>st_sinkURI := u\<rparr>) (snd (MarkSink u s))"
  using MarkSink_step [OF assms(1), of u] resolved_prints [OF assms(2)] by simp

end

interpretation uri: sink_resolver "resolve_text err_text (NewURIResolverFromTracker track listers get domain)"
  for err_text track listers get domain
proof
  fix d ts u
  assume "resolve_text err_text (NewURIResolverFromTracker track listers get domain) d = (ts, Inr u)"
  then have "URIFromDestinationV1 (NewURIResolverFromTracker track listers get domain) d = (ts, Inr u)"
    by (auto simp: resolve_text_def split: prod.splits sum.splits)
  from URIFromDestinationV1_nonempty [OF _ this] show "u \<noteq> None \<and> URL_String u \<noteq> ''''"
    by (auto simp: NewURIResolverFromTracker_def)
qed

end
