(* ===== verification/Go_Utf8.thy ===== *)
theory Go_Utf8
  imports Prelude
begin

text \<open>
  UTF-8 as Go's \<open>unicode/utf8\<close> decodes it: \<open>decode_rune\<close> gives the first code point of a byte string
  and the number of bytes it takes; an invalid or truncated sequence is \<open>RuneError\<close> of width 1.
\<close>

definition RuneError :: nat where "RuneError = 65533"

definition in_range :: "nat \<Rightarrow> nat \<Rightarrow> char \<Rightarrow> bool" where
  "in_range lo hi c \<longleftrightarrow> lo \<le> of_char c \<and> of_char c \<le> hi"

definition cont :: "char \<Rightarrow> bool" where
  "cont c \<longleftrightarrow> in_range 128 191 c"

definition decode_tail :: "nat \<Rightarrow> nat \<Rightarrow> nat \<Rightarrow> nat \<Rightarrow> string \<Rightarrow> nat \<times> nat" where
  "decode_tail n hd_bits lo hi cs =
     (case cs of
        [] \<Rightarrow> (RuneError, 1)
      | c1 # cs' \<Rightarrow>
          if in_range lo hi c1 \<and> length cs' \<ge> n \<and> list_all cont (take n cs')
          then (foldl (\<lambda>a c. a * 64 + of_char c mod 64) hd_bits (c1 # take n cs'), n + 2)
          else (RuneError, 1))"

definition decode_rune :: "string \<Rightarrow> nat \<times> nat" where
  "decode_rune s =
     (case s of
        [] \<Rightarrow> (RuneError, 0)
      | c # cs \<Rightarrow>
          (let b = of_char c in
           if b < 128 then (b, 1)
           else if b < 194 then (RuneError, 1)
           else if b < 224 then decode_tail 0 (b mod 32) 128 191 cs
           else if b < 240 then
             decode_tail 1 (b mod 16) (if b = 224 then 160 else 128) (if b = 237 then 159 else 191) cs
           else if b < 245 then
             decode_tail 2 (b mod 8) (if b = 240 then 144 else 128) (if b = 244 then 143 else 191) cs
           else (RuneError, 1)))"

lemma decode_rune_width: "s \<noteq> [] \<Longrightarrow> 0 < snd (decode_rune s)"
  by (auto simp: decode_rune_def decode_tail_def Let_def split: list.splits)

end
