(* ===== verification/Go_Json.thy ===== *)
theory Go_Json
  imports Go_Utf8 Go_Md5
begin

text \<open>
  The parts of \<open>encoding/json\<close> that carry \<open>K_CE_OVERRIDES\<close> from the controller to the adapter: the
  encoder for a \<open>map[string]string\<close> inside a one-field struct, a parser for JSON texts, and the decoder
  into that struct. The main result is the round trip: what the controller marshals, the adapter
  unmarshals, for every set of extensions whose names and values are valid UTF-8.
\<close>

text \<open>
  A JSON text. Numbers keep their literal; array elements keep their source text beside the value, as
  \<open>json.RawMessage\<close> does; object members keep order and duplicates, as the decoder sees them.
\<close>

datatype json =
    JNull
  | JBool bool
  | JNum string
  | JStr string
  | JArr "(string \<times> json) list"
  | JObj "(string \<times> json) list"

abbreviation dquote :: char where "dquote \<equiv> CHR 0x22"
abbreviation backslash :: char where "backslash \<equiv> CHR 0x5C"

lemma quote_chars [simp]: "char_of (34::nat) = dquote" "char_of (92::nat) = backslash"
  by code_simp+

subsection \<open>Encoding strings\<close>

text \<open>\<open>htmlSafeSet\<close>: the ASCII bytes copied as they are, with HTML escaping on as \<open>Marshal\<close> has it.\<close>

definition htmlSafe :: "nat \<Rightarrow> bool" where
  "htmlSafe b \<longleftrightarrow> 32 \<le> b \<and> b < 128 \<and> b \<notin> {34, 38, 60, 62, 92}"

definition hex4 :: "nat \<Rightarrow> string" where
  "hex4 n = [lowerhex (n div 4096), lowerhex (n div 256 mod 16), lowerhex (n div 16 mod 16), lowerhex (n mod 16)]"

definition encode_ascii :: "nat \<Rightarrow> string" where
  "encode_ascii b =
     (if htmlSafe b then [char_of b]
      else if b = 92 \<or> b = 34 then [backslash, char_of b]
      else if b = 8 then [backslash, CHR ''b'']
      else if b = 12 then [backslash, CHR ''f'']
      else if b = 10 then [backslash, CHR ''n'']
      else if b = 13 then [backslash, CHR ''r'']
      else if b = 9 then [backslash, CHR ''t'']
      else [backslash, CHR ''u''] @ hex4 b)"

text \<open>
  One code point: its encoding and its width. Invalid UTF-8 becomes \<open>\ufffd\<close>; the line separators
  U+2028 and U+2029 (bytes 226 128 168 and 226 128 169) are escaped.
\<close>

definition encode_rune :: "string \<Rightarrow> string \<times> nat" where
  "encode_rune s =
     (if of_char (hd s) < (128::nat) then (encode_ascii (of_char (hd s)), 1)
      else
        let (r, n) = decode_rune s
        in if r = RuneError \<and> n = 1 then ([backslash] @ ''ufffd'', 1)
           else if take 3 s = map char_of [226::nat, 128, 168] then ([backslash] @ ''u2028'', n)
           else if take 3 s = map char_of [226::nat, 128, 169] then ([backslash] @ ''u2029'', n)
           else (take n s, n))"

lemma encode_rune_width: "s \<noteq> [] \<Longrightarrow> 0 < snd (encode_rune s)"
  using decode_rune_width [of s] by (auto simp: encode_rune_def Let_def case_prod_unfold)

function encode_body :: "string \<Rightarrow> string" where
  "encode_body s =
     (if s = [] then []
      else fst (encode_rune s) @ encode_body (drop (snd (encode_rune s)) s))"
  by pat_completeness auto
termination
  by (relation "measure length") (auto simp: encode_rune_width)

declare encode_body.simps [simp del]

definition encode_string :: "string \<Rightarrow> string" where
  "encode_string s = [dquote] @ encode_body s @ [dquote]"

subsection \<open>Decoding strings\<close>

definition hex_value :: "char \<Rightarrow> nat option" where
  "hex_value c = (let n = of_char c in
     if 48 \<le> n \<and> n \<le> 57 then Some (n - 48)
     else if 97 \<le> n \<and> n \<le> 102 then Some (n - 87)
     else if 65 \<le> n \<and> n \<le> 70 then Some (n - 55)
     else None)"

definition unhex4 :: "string \<Rightarrow> nat option" where
  "unhex4 s =
     (case map hex_value (take 4 s) of
        [Some a, Some b, Some c, Some d] \<Rightarrow> Some (4096 * a + 256 * b + 16 * c + d)
      | _ \<Rightarrow> None)"

definition encode_utf8 :: "nat \<Rightarrow> string" where
  "encode_utf8 r =
     map char_of
       (if r < 128 then [r]
        else if r < 2048 then [192 + r div 64, 128 + r mod 64]
        else if 55296 \<le> r \<and> r < 57344 \<or> 1114112 \<le> r then [239, 191, 189]
        else if r < 65536 then [224 + r div 4096, 128 + r div 64 mod 64, 128 + r mod 64]
        else [240 + r div 262144, 128 + r div 4096 mod 64, 128 + r div 64 mod 64, 128 + r mod 64])"

text \<open>
  An escape after the backslash: the decoded bytes and what follows. \<open>None\<close> is a syntax error.
  A \<open>\u\<close> escape that is the first half of a surrogate pair takes the second half with it; a half on
  its own decodes to U+FFFD.
\<close>

definition simple_escape :: "char \<Rightarrow> nat option" where
  "simple_escape c =
     (if c = dquote then Some 34 else if c = backslash then Some 92 else if c = CHR ''/'' then Some 47
      else if c = CHR ''b'' then Some 8 else if c = CHR ''f'' then Some 12 else if c = CHR ''n'' then Some 10
      else if c = CHR ''r'' then Some 13 else if c = CHR ''t'' then Some 9 else None)"

definition decode_escape :: "string \<Rightarrow> (string \<times> string) option" where
  "decode_escape s =
     (case s of
        [] \<Rightarrow> None
      | c # cs \<Rightarrow>
          (case simple_escape c of
             Some b \<Rightarrow> Some ([char_of b], cs)
           | None \<Rightarrow>
               if c \<noteq> CHR ''u'' then None
               else (case unhex4 cs of
                       None \<Rightarrow> None
                     | Some r \<Rightarrow>
                         let rest = drop 4 cs in
                         if 55296 \<le> r \<and> r < 57344
                         then (if take 2 rest = [backslash, CHR ''u'']
                               then (case unhex4 (drop 2 rest) of
                                       None \<Rightarrow> None
                                     | Some r2 \<Rightarrow>
                                         if r < 56320 \<and> 56320 \<le> r2 \<and> r2 < 57344
                                         then Some (encode_utf8 (65536 + (r - 55296) * 1024 + (r2 - 56320)), drop 6 rest)
                                         else Some (encode_utf8 65533, rest))
                               else Some (encode_utf8 65533, rest))
                         else Some (encode_utf8 r, rest))))"

lemma decode_escape_shorter: "decode_escape s = Some (bs, rest) \<Longrightarrow> length rest < length s"
  by (auto simp: decode_escape_def Let_def split: list.splits option.splits if_splits)

text \<open>The characters of a string literal after the opening quote, up to and with the closing one.\<close>

function parse_chars :: "string \<Rightarrow> (string \<times> string) option" where
  "parse_chars s =
     (case s of
        [] \<Rightarrow> None
      | c # cs \<Rightarrow>
          if c = dquote then Some ([], cs)
          else if c = backslash
          then (case decode_escape cs of
                  None \<Rightarrow> None
                | Some (bs, rest) \<Rightarrow> map_option (\<lambda>(v, r). (bs @ v, r)) (parse_chars rest))
          else if of_char c < (32::nat) then None
          else if of_char c < (128::nat) then map_option (\<lambda>(v, r). (c # v, r)) (parse_chars cs)
          else
            let (r, n) = decode_rune s
            in if r = RuneError \<and> n = 1
               then map_option (\<lambda>(v, r). (encode_utf8 65533 @ v, r)) (parse_chars cs)
               else map_option (\<lambda>(v, r). (take n s @ v, r)) (parse_chars (drop n s)))"
  by pat_completeness auto
termination
proof (relation "measure length", goal_cases)
  case (5 s c cs x r n)
  then show ?case using decode_rune_width [of s] by (cases "decode_rune s") auto
qed (auto dest: decode_escape_shorter)

declare parse_chars.simps [simp del]

subsection \<open>Strings round-trip\<close>

function utf8_ok :: "string \<Rightarrow> bool" where
  "utf8_ok s =
     (if s = [] then True
      else decode_rune s \<noteq> (RuneError, 1) \<and> utf8_ok (drop (snd (decode_rune s)) s))"
  by pat_completeness auto
termination
  by (relation "measure length") (auto simp: decode_rune_width)

declare utf8_ok.simps [simp del]

lemma hex_value_lowerhex: "n < 16 \<Longrightarrow> hex_value (lowerhex n) = Some n"
  by (auto simp: hex_value_def lowerhex_def Let_def)

lemma unhex4_hex4: "n < 65536 \<Longrightarrow> unhex4 (hex4 n @ rest) = Some n"
proof -
  assume "n < 65536"
  then have "n div 4096 < 16" by (simp add: less_mult_imp_div_less)
  moreover have "4096 * (n div 4096) + 256 * (n div 256 mod 16) + 16 * (n div 16 mod 16) + n mod 16 = n"
  proof -
    have d: "n div 256 = n div 16 div 16" "n div 4096 = n div 16 div 16 div 16"
      by (simp_all add: div_mult2_eq [symmetric])
    have "16 * (n div 16) + n mod 16 = n" "16 * (n div 16 div 16) + n div 16 mod 16 = n div 16"
      "16 * (n div 16 div 16 div 16) + n div 16 div 16 mod 16 = n div 16 div 16"
      by simp_all
    then show ?thesis unfolding d by linarith
  qed
  ultimately show ?thesis by (simp add: unhex4_def hex4_def hex_value_lowerhex)
qed

lemma length_hex4 [simp]: "length (hex4 n) = 4"
  by (simp add: hex4_def)

lemma parse_chars_escape:
  "decode_escape (e @ t) = Some (bs, t) \<Longrightarrow>
     parse_chars (backslash # e @ t) = map_option (\<lambda>(v, r). (bs @ v, r)) (parse_chars t)"
  by (subst parse_chars.simps) simp

lemma decode_escape_hex4: "n < 128 \<Longrightarrow> decode_escape ((CHR ''u'' # hex4 n) @ t) = Some ([char_of n], t)"
  by (simp add: decode_escape_def simple_escape_def unhex4_hex4 encode_utf8_def)

lemma parse_chars_ascii:
  assumes "b < 128"
  shows "parse_chars (encode_ascii b @ t) = map_option (\<lambda>(v, r). (char_of b # v, r)) (parse_chars t)"
proof (cases "htmlSafe b")
  case True
  then have "char_of b \<noteq> dquote" "char_of b \<noteq> backslash" "\<not> b < 32"
    using assms by (auto simp: htmlSafe_def char_of_eq_iff take_bit_eq_mod)
  with True assms show ?thesis
    by (subst parse_chars.simps) (simp add: encode_ascii_def)
next
  case False
  let ?simple = "b = 92 \<or> b = 34 \<or> b = 8 \<or> b = 12 \<or> b = 10 \<or> b = 13 \<or> b = 9"
  show ?thesis
  proof (cases ?simple)
    case True
    then obtain e where e: "encode_ascii b = [backslash, e]" "simple_escape e = Some b"
      using False by (auto simp: encode_ascii_def simple_escape_def htmlSafe_def)
    then show ?thesis
      using parse_chars_escape [of "[e]" t "[char_of b]"] by (simp add: decode_escape_def)
  next
    case no: False
    then have "encode_ascii b = backslash # (CHR ''u'' # hex4 b)"
      using False by (simp add: encode_ascii_def)
    then show ?thesis
      using parse_chars_escape [OF decode_escape_hex4 [OF assms, of t]] by simp
  qed
qed

lemma decode_tail_append:
  "decode_tail n h lo hi cs = (r, w) \<Longrightarrow> w \<noteq> 1 \<Longrightarrow> w = n + 2 \<and> length cs \<ge> n + 1 \<and>
     decode_tail n h lo hi (take (n + 1) cs @ t) = (r, w)"
  by (cases cs) (auto simp: decode_tail_def min_def split: if_splits)

lemma decode_rune_append:
  assumes "s \<noteq> []" "decode_rune s \<noteq> (RuneError, 1)" "\<not> of_char (hd s) < (128::nat)"
  shows "decode_rune (take (snd (decode_rune s)) s @ t) = decode_rune s \<and> 1 < snd (decode_rune s) \<and>
    snd (decode_rune s) \<le> length s"
proof -
  obtain c cs where s: "s = c # cs" using assms(1) by (cases s) auto
  obtain n h lo hi where eq: "\<And>cs. decode_rune (c # cs) = decode_tail n h lo hi cs"
    using assms(2,3) unfolding s decode_rune_def Let_def
    by (auto split: if_splits)
  obtain r w where rw: "decode_tail n h lo hi cs = (r, w)" by fastforce
  have "w \<noteq> 1"
    using assms(2) rw unfolding s eq by (auto simp: decode_tail_def split: list.splits if_splits)
  from decode_tail_append [OF rw this, of t] show ?thesis
    by (auto simp: s eq rw)
qed

lemma take_eq_append: "take n s = w \<Longrightarrow> n \<le> length s \<Longrightarrow> s = w @ drop n s"
  by (metis append_take_drop_id)

lemma parse_chars_raw:
  assumes s: "s \<noteq> []" "decode_rune s \<noteq> (RuneError, 1)" "\<not> of_char (hd s) < (128::nat)"
  defines "w \<equiv> take (snd (decode_rune s)) s"
  shows "parse_chars (w @ t) = map_option (\<lambda>(v, r). (w @ v, r)) (parse_chars t)"
proof -
  from decode_rune_append [OF s, of t]
  have d: "decode_rune (w @ t) = decode_rune s" "length w = snd (decode_rune s)"
    by (auto simp: w_def)
  have "w \<noteq> []" using d(2) decode_rune_width [OF s(1)] by auto
  then have "hd w = hd s" by (simp add: w_def)
  with \<open>w \<noteq> []\<close> have w: "w = hd s # tl w" by (metis list.collapse)
  then obtain v where v: "w = hd s # v" by blast
  have ne: "hd s \<noteq> dquote" "hd s \<noteq> backslash" "\<not> of_char (hd s) < (32::nat)" using s(3) by auto
  have ne2: "fst (decode_rune s) = RuneError \<Longrightarrow> snd (decode_rune s) \<noteq> 1"
    using s(2) by (cases "decode_rune s") auto
  have "parse_chars (hd s # (v @ t)) =
      map_option (\<lambda>(u, r). (take (length w) (w @ t) @ u, r)) (parse_chars (drop (length w) (w @ t)))"
    using ne ne2 s(3) d unfolding v
    by (subst parse_chars.simps) (auto simp: Let_def case_prod_unfold)
  then show ?thesis by (simp add: v)
qed

lemma separator_bytes:
  assumes "take 3 s = map char_of [226::nat, 128, b]" "b = 168 \<or> b = 169"
  shows "decode_rune s = (8064 + b, 3)"
proof -
  from assms(1) obtain r where "s = map char_of [226::nat, 128, b] @ r"
    by (metis append_take_drop_id)
  with assms(2) show ?thesis
    by (auto simp: decode_rune_def decode_tail_def in_range_def cont_def)
qed

lemma hex4_separators: "hex4 8232 = ''2028''" "hex4 8233 = ''2029''"
  by (simp_all add: hex4_def lowerhex_def char_of_def bit_0)

lemma separators_differ: "(char_of (168::nat) :: char) \<noteq> char_of (169::nat)"
  by code_simp

lemma encode_separator:
  assumes "\<not> of_char (hd s) < (128::nat)" "take 3 s = map char_of [226::nat, 128, b]" "decode_rune s = (8064 + b, 3)"
  shows "b = 168 \<Longrightarrow> encode_rune s = (backslash # ''u2028'', 3)"
    and "b = 169 \<Longrightarrow> encode_rune s = (backslash # ''u2029'', 3)"
  using assms separators_differ by (simp_all add: encode_rune_def RuneError_def)

lemma parse_chars_rune:
  assumes "s \<noteq> []" "decode_rune s \<noteq> (RuneError, 1)"
  shows "parse_chars (fst (encode_rune s) @ t) =
    map_option (\<lambda>(v, r). (take (snd (encode_rune s)) s @ v, r)) (parse_chars t)"
proof (cases "of_char (hd s) < (128::nat)")
  case True
  then have "take 1 s = [hd s]" using assms(1) by (cases s) auto
  with True show ?thesis using parse_chars_ascii [OF True, of t] by (simp add: encode_rune_def)
next
  case False
  have not_err: "\<not> (fst (decode_rune s) = RuneError \<and> snd (decode_rune s) = 1)"
    using assms(2) by (cases "decode_rune s") auto
  consider (sep) b where "take 3 s = map char_of [226::nat, 128, b]" "b = 168 \<or> b = 169"
    | (raw) "encode_rune s = (take (snd (decode_rune s)) s, snd (decode_rune s))"
  proof -
    have "encode_rune s = (take (snd (decode_rune s)) s, snd (decode_rune s))"
      if "take 3 s \<noteq> map char_of [226::nat, 128, 168]" "take 3 s \<noteq> map char_of [226::nat, 128, 169]"
      using that False not_err by (auto simp: encode_rune_def Let_def case_prod_unfold)
    then show ?thesis using sep raw by blast
  qed
  then show ?thesis
  proof cases
    case sep
    note d = separator_bytes [OF sep]
    have "fst (encode_rune s) = backslash # (CHR ''u'' # hex4 (8064 + b))" "snd (encode_rune s) = 3"
      using sep(2) encode_separator [OF False sep(1) d] by (elim disjE; simp add: hex4_separators)+
    moreover have "decode_escape ((CHR ''u'' # hex4 (8064 + b)) @ t) = Some (map char_of [226::nat, 128, b], t)"
      using sep(2) by (auto simp: decode_escape_def simple_escape_def unhex4_hex4 encode_utf8_def)
    ultimately show ?thesis
      using parse_chars_escape [of "CHR ''u'' # hex4 (8064 + b)" t] sep(1) by simp
  next
    case raw
    then show ?thesis using parse_chars_raw [OF assms False, of t] by simp
  qed
qed

lemma encode_rune_snd: "s \<noteq> [] \<Longrightarrow> decode_rune s \<noteq> (RuneError, 1) \<Longrightarrow> snd (encode_rune s) = snd (decode_rune s)"
  by (cases "decode_rune s") (auto simp: encode_rune_def Let_def decode_rune_def split: list.splits)

lemma parse_encode_body: "utf8_ok s \<Longrightarrow> parse_chars (encode_body s @ dquote # t) = Some (s, t)"
proof (induction s rule: encode_body.induct)
  case (1 s)
  show ?case
  proof (cases "s = []")
    case True
    then show ?thesis by (subst encode_body.simps, subst parse_chars.simps) simp
  next
    case False
    with "1.prems" have d: "decode_rune s \<noteq> (RuneError, 1)" "utf8_ok (drop (snd (encode_rune s)) s)"
      by (subst (asm) utf8_ok.simps, simp add: encode_rune_snd)+
    have "encode_body s = fst (encode_rune s) @ encode_body (drop (snd (encode_rune s)) s)"
      using False by (subst encode_body.simps) simp
    then show ?thesis using "1.IH" [OF False d(2)] parse_chars_rune [OF False d(1)] by simp
  qed
qed

subsection \<open>Parsing JSON texts\<close>

definition is_ws :: "char \<Rightarrow> bool" where
  "is_ws c \<longleftrightarrow> of_char c \<in> {32::nat, 9, 10, 13}"

abbreviation skip_ws :: "string \<Rightarrow> string" where
  "skip_ws \<equiv> dropWhile is_ws"

definition is_digit :: "char \<Rightarrow> bool" where
  "is_digit c \<longleftrightarrow> 48 \<le> (of_char c :: nat) \<and> (of_char c :: nat) \<le> 57"

text \<open>The pieces of a number literal: each takes a prefix and gives it with the rest.\<close>

definition num_int :: "string \<Rightarrow> (string \<times> string) option" where
  "num_int s =
     (case s of
        [] \<Rightarrow> None
      | c # cs \<Rightarrow>
          if c = CHR ''0'' then Some ([c], cs)
          else if is_digit c then Some (takeWhile is_digit s, dropWhile is_digit s)
          else None)"

definition num_digits :: "string \<Rightarrow> (string \<times> string) option" where
  "num_digits s = (if takeWhile is_digit s = [] then None else Some (takeWhile is_digit s, dropWhile is_digit s))"

definition num_frac :: "string \<Rightarrow> (string \<times> string) option" where
  "num_frac s =
     (case s of
        [] \<Rightarrow> Some ([], s)
      | c # cs \<Rightarrow> if c = CHR ''.'' then map_option (\<lambda>(d, r). (c # d, r)) (num_digits cs) else Some ([], s))"

definition num_exp :: "string \<Rightarrow> (string \<times> string) option" where
  "num_exp s =
     (case s of
        [] \<Rightarrow> Some ([], s)
      | c # cs \<Rightarrow>
          if c = CHR ''e'' \<or> c = CHR ''E''
          then (case cs of
                  [] \<Rightarrow> None
                | g # ds \<Rightarrow>
                    if g = CHR ''+'' \<or> g = CHR ''-''
                    then map_option (\<lambda>(d, r). (c # g # d, r)) (num_digits ds)
                    else map_option (\<lambda>(d, r). (c # d, r)) (num_digits cs))
          else Some ([], s))"

definition parse_number :: "string \<Rightarrow> (string \<times> string) option" where
  "parse_number s =
     (let (sign, s0) = (case s of c # cs \<Rightarrow> if c = CHR ''-'' then ([c], cs) else ([], s) | [] \<Rightarrow> ([], s)) in
      case num_int s0 of
        None \<Rightarrow> None
      | Some (i, s1) \<Rightarrow>
          (case num_frac s1 of
             None \<Rightarrow> None
           | Some (f, s2) \<Rightarrow>
               (case num_exp s2 of
                  None \<Rightarrow> None
                | Some (e, s3) \<Rightarrow> Some (sign @ i @ f @ e, s3))))"

lemma dropWhile_length: "length (dropWhile P s) \<le> length s"
  by (rule length_dropWhile_le)

lemma num_rest:
  "num_digits s = Some (d, r) \<Longrightarrow> length r < length s"
  "num_int s = Some (d, r) \<Longrightarrow> length r < length s"
  "num_frac s = Some (d, r) \<Longrightarrow> length r \<le> length s"
  "num_exp s = Some (d, r) \<Longrightarrow> length r \<le> length s"
proof -
  show digits: "num_digits s = Some (d, r) \<Longrightarrow> length r < length s" for s d r
    by (cases s) (auto simp: num_digits_def le_imp_less_Suc dropWhile_length split: if_splits)
  show "num_int s = Some (d, r) \<Longrightarrow> length r < length s"
    by (auto simp: num_int_def le_imp_less_Suc dropWhile_length split: list.splits if_splits)
  show "num_frac s = Some (d, r) \<Longrightarrow> length r \<le> length s"
    by (auto simp: num_frac_def dest!: digits split: list.splits if_splits)
  show "num_exp s = Some (d, r) \<Longrightarrow> length r \<le> length s"
    by (auto simp: num_exp_def dest!: digits split: list.splits if_splits)
qed

lemma parse_number_shorter: "parse_number s = Some (t, r) \<Longrightarrow> length r < length s"
  by (auto simp: parse_number_def Let_def dest!: num_rest split: list.splits option.splits if_splits)

text \<open>One step of the string parser: the literal ends, or some bytes are taken and parsing goes on behind them.\<close>

lemma parse_chars_step:
  assumes "parse_chars s = Some (v, r)"
  obtains "s = dquote # r" "v = []"
    | bs t u where "length t < length s" "parse_chars t = Some (u, r)" "v = bs @ u"
proof (cases s)
  case (Cons c cs)
  note step = assms [unfolded parse_chars.simps [of s], unfolded Cons list.case]
  consider (close) "c = dquote" | (esc) "c = backslash" | (ascii) "c \<noteq> dquote" "c \<noteq> backslash" "of_char c < (128::nat)"
    | (multi) "\<not> of_char c < (128::nat)" "c \<noteq> dquote" "c \<noteq> backslash"
    by blast
  then show ?thesis
  proof cases
    case close
    with step Cons that(1) show ?thesis by simp
  next
    case esc
    with step obtain bs t u where "decode_escape cs = Some (bs, t)" "parse_chars t = Some (u, r)" "v = bs @ u"
      by (auto split: option.splits)
    with that(2) [of t u bs] Cons show ?thesis by (auto dest: decode_escape_shorter)
  next
    case ascii
    with step obtain u where "parse_chars cs = Some (u, r)" "v = [c] @ u"
      by (auto split: if_splits)
    with that(2) [of cs u "[c]"] Cons show ?thesis by simp
  next
    case multi
    obtain rn n where d: "decode_rune s = (rn, n)" by fastforce
    have "0 < n" using decode_rune_width [of s] d Cons by simp
    then show ?thesis using step multi that(2) [of cs] that(2) [of "drop n s"] Cons d
      by (auto split: if_splits)
  qed
qed (use assms in \<open>simp add: parse_chars.simps\<close>)

lemma parse_chars_shorter: "parse_chars s = Some (v, r) \<Longrightarrow> length r < length s"
proof (induction "length s" arbitrary: s v rule: less_induct)
  case less
  from less.prems show ?case
    by (rule parse_chars_step) (use less.hyps in \<open>auto dest: less_trans\<close>)
qed

text \<open>
  The value parser. \<open>depth\<close> is the nesting still allowed (Go gives up beyond 10000 levels); the first
  argument bounds the recursion, and more than twice the length of the text is always enough
  (\<open>parse_fuel\<close> below).
\<close>

definition parse_literal :: "string \<Rightarrow> (json \<times> string) option" where
  "parse_literal s =
     (if has_prefix s ''null'' then Some (JNull, drop 4 s)
      else if has_prefix s ''true'' then Some (JBool True, drop 4 s)
      else if has_prefix s ''false'' then Some (JBool False, drop 5 s)
      else map_option (\<lambda>(t, r). (JNum t, r)) (parse_number s))"

fun parse_value :: "nat \<Rightarrow> nat \<Rightarrow> string \<Rightarrow> (json \<times> string) option"
  and parse_elems :: "nat \<Rightarrow> nat \<Rightarrow> string \<Rightarrow> ((string \<times> json) list \<times> string) option"
  and parse_members :: "nat \<Rightarrow> nat \<Rightarrow> string \<Rightarrow> ((string \<times> json) list \<times> string) option"
where
  "parse_value 0 d s = None"
| "parse_value (Suc n) d s =
     (case skip_ws s of
        [] \<Rightarrow> None
      | c # cs \<Rightarrow>
          if c = dquote then map_option (\<lambda>(v, r). (JStr v, r)) (parse_chars cs)
          else if c = CHR ''{''
          then (if d = 0 then None
                else if has_prefix (skip_ws cs) ''}'' then Some (JObj [], tl (skip_ws cs))
                else map_option (\<lambda>(ms, r). (JObj ms, r)) (parse_members n (d - 1) cs))
          else if c = CHR ''[''
          then (if d = 0 then None
                else if has_prefix (skip_ws cs) '']'' then Some (JArr [], tl (skip_ws cs))
                else map_option (\<lambda>(es, r). (JArr es, r)) (parse_elems n (d - 1) cs))
          else parse_literal (c # cs))"
| "parse_elems 0 d s = None"
| "parse_elems (Suc n) d s =
     (case parse_value n d s of
        None \<Rightarrow> None
      | Some (v, r) \<Rightarrow>
          let raw = take (length (skip_ws s) - length r) (skip_ws s) in
          (case skip_ws r of
             [] \<Rightarrow> None
           | c # cs \<Rightarrow>
               if c = CHR '','' then map_option (\<lambda>(es, r'). ((raw, v) # es, r')) (parse_elems n d cs)
               else if c = CHR '']'' then Some ([(raw, v)], cs)
               else None))"
| "parse_members 0 d s = None"
| "parse_members (Suc n) d s =
     (case skip_ws s of
        [] \<Rightarrow> None
      | q # ks \<Rightarrow>
          if q \<noteq> dquote then None
          else (case parse_chars ks of
                  None \<Rightarrow> None
                | Some (k, r0) \<Rightarrow>
                    if \<not> has_prefix (skip_ws r0) '':'' then None
                    else (case parse_value n d (tl (skip_ws r0)) of
                            None \<Rightarrow> None
                          | Some (v, r) \<Rightarrow>
                              (case skip_ws r of
                                 [] \<Rightarrow> None
                               | c # cs \<Rightarrow>
                                   if c = CHR '','' then map_option (\<lambda>(ms, r'). ((k, v) # ms, r')) (parse_members n d cs)
                                   else if c = CHR ''}'' then Some ([(k, v)], cs)
                                   else None))))"

definition maxNestingDepth :: nat where
  "maxNestingDepth = 10000"

abbreviation json_fuel :: "string \<Rightarrow> nat" where
  "json_fuel s \<equiv> Suc (2 * length s)"

text \<open>\<open>Decoder.Decode\<close> reads the first value of a text; \<open>Unmarshal\<close> admits nothing but white space behind it.\<close>

definition parse_first :: "string \<Rightarrow> json option" where
  "parse_first s = map_option fst (parse_value (json_fuel s) maxNestingDepth s)"

definition parse_json :: "string \<Rightarrow> json option" where
  "parse_json s =
     (case parse_value (json_fuel s) maxNestingDepth s of
        None \<Rightarrow> None
      | Some (j, r) \<Rightarrow> if skip_ws r = [] then Some j else None)"

lemma skip_ws_Cons: "skip_ws s = c # cs \<Longrightarrow> length cs < length s"
  using length_dropWhile_le [of is_ws s] by simp

lemma length_tl_skip_ws: "length (tl (skip_ws s)) \<le> length s"
  using length_dropWhile_le [of is_ws s] by simp

lemma parse_literal_shorter: "parse_literal s = Some (j, r) \<Longrightarrow> s \<noteq> [] \<Longrightarrow> length r < length s"
  by (auto simp: parse_literal_def dest!: parse_number_shorter split: if_splits)

lemma parse_shorter:
  "parse_value n d s = Some (j, r) \<Longrightarrow> length r < length s"
  "parse_elems n d s = Some (es, r) \<Longrightarrow> length r < length s"
  "parse_members n d s = Some (ms, r) \<Longrightarrow> length r < length s"
proof (induction n d s and n d s and n d s arbitrary: j r and es r and ms r
    rule: parse_value_parse_elems_parse_members.induct)
  case (2 n d s)
  then obtain c cs where c: "skip_ws s = c # cs" by (auto split: list.splits)
  note l = skip_ws_Cons [OF c] length_tl_skip_ws [of cs]
  from "2.prems" show ?case
    unfolding parse_value.simps c list.case
    using l "2.IH"(1,2) [OF c]
    by (auto dest!: parse_chars_shorter parse_literal_shorter split: if_splits)
next
  case (4 n d s)
  from "4.prems" obtain v r1 c cs where v: "parse_value n d s = Some (v, r1)" "skip_ws r1 = c # cs"
    by (auto simp: Let_def split: option.splits list.splits)
  have "length cs < length s" using "4.IH"(1) [OF v(1)] skip_ws_Cons [OF v(2)] by simp
  with "4.prems" "4.IH"(2) [OF v(1) refl _ v(2)] show ?case
    by (fastforce simp: v Let_def split: if_splits)
next
  case (6 n d s)
  from "6.prems" obtain ks k r0 where k: "skip_ws s = dquote # ks" "parse_chars ks = Some (k, r0)"
      "has_prefix (skip_ws r0) '':''"
    by (auto split: option.splits list.splits if_splits)
  from "6.prems" k obtain v r1 c cs where v: "parse_value n d (tl (skip_ws r0)) = Some (v, r1)" "skip_ws r1 = c # cs"
    by (auto split: option.splits list.splits)
  have "length r1 < length s"
    using "6.IH"(1) [OF k(1) _ k(2)] k(3) v(1) skip_ws_Cons [OF k(1)] parse_chars_shorter [OF k(2)]
      length_tl_skip_ws [of r0] by fastforce
  then have "length cs < length s" using skip_ws_Cons [OF v(2)] by simp
  with "6.prems" "6.IH"(2) [OF k(1) _ k(2) refl _ v(1) refl v(2)] show ?case
    by (fastforce simp: v k split: if_splits)
qed auto

text \<open>Beyond twice the length of the text, fuel never changes the result.\<close>

lemma parse_fuel_step:
  "(2 * length s < n \<longrightarrow> 2 * length s < m \<longrightarrow> parse_value n d s = parse_value m d s) \<and>
   (2 * length s + 1 < n \<longrightarrow> 2 * length s + 1 < m \<longrightarrow> parse_elems n d s = parse_elems m d s) \<and>
   (2 * length s + 1 < n \<longrightarrow> 2 * length s + 1 < m \<longrightarrow> parse_members n d s = parse_members m d s)"
  (is "?V n m d s \<and> ?E n m d s \<and> ?M n m d s")
proof (induction n arbitrary: m d s)
  case (Suc n)
  show ?case
  proof (cases m)
    case m: (Suc k)
    note ih = Suc.IH [of _ k]
    have v: "?V (Suc n) (Suc k) d s"
    proof (intro impI)
      assume l: "2 * length s < Suc n" "2 * length s < Suc k"
      have "parse_elems n (d - 1) cs = parse_elems k (d - 1) cs"
           "parse_members n (d - 1) cs = parse_members k (d - 1) cs" if "skip_ws s = c # cs" for c cs
        using ih [of cs "d - 1"] skip_ws_Cons [OF that] l by auto
      then show "parse_value (Suc n) d s = parse_value (Suc k) d s"
        by (cases "skip_ws s") (simp_all del: dropWhile_eq_Nil_conv)
    qed
    have e: "?E (Suc n) (Suc k) d s"
    proof (intro impI)
      assume l: "2 * length s + 1 < Suc n" "2 * length s + 1 < Suc k"
      then have "parse_value n d s = parse_value k d s" using ih by auto
      moreover have "parse_elems n d cs = parse_elems k d cs"
        if "parse_value k d s = Some (v, r)" "skip_ws r = c # cs" for v r c cs
        using ih [of cs d] l parse_shorter(1) [OF that(1)] skip_ws_Cons [OF that(2)] by auto
      ultimately show "parse_elems (Suc n) d s = parse_elems (Suc k) d s"
        by (auto simp: Let_def simp del: dropWhile_eq_Nil_conv split: option.split list.split)
    qed
    have mm: "?M (Suc n) (Suc k) d s"
    proof (intro impI)
      assume l: "2 * length s + 1 < Suc n" "2 * length s + 1 < Suc k"
      have key: "length (tl (skip_ws r0)) < length s" if "skip_ws s = q # ks" "parse_chars ks = Some (x, r0)" for q ks x r0
        using skip_ws_Cons [OF that(1)] parse_chars_shorter [OF that(2)] length_tl_skip_ws [of r0] by linarith
      have "parse_value n d (tl (skip_ws r0)) = parse_value k d (tl (skip_ws r0))"
        if "skip_ws s = q # ks" "parse_chars ks = Some (x, r0)" for q ks x r0
        using ih key [OF that] l by auto
      moreover have "parse_members n d cs = parse_members k d cs"
        if "skip_ws s = q # ks" "parse_chars ks = Some (x, r0)"
          "parse_value k d (tl (skip_ws r0)) = Some (v, r)" "skip_ws r = c # cs" for q ks x r0 v r c cs
        using ih [of cs d] l key [OF that(1,2)] parse_shorter(1) [OF that(3)] skip_ws_Cons [OF that(4)] by auto
      ultimately show "parse_members (Suc n) d s = parse_members (Suc k) d s"
        by (auto simp del: dropWhile_eq_Nil_conv split: option.split list.split)
    qed
    show ?thesis using v e mm unfolding m by blast
  qed auto
qed auto

lemma parse_fuel: "2 * length s < n \<Longrightarrow> parse_value n d s = parse_value (json_fuel s) d s"
  using parse_fuel_step [of s n "json_fuel s" d] by auto

subsection \<open>Decoding into Go values\<close>

text \<open>
  The key of a member selects a struct field by its exact name or under case folding; besides the
  ASCII letters, U+017F folds to \<open>S\<close> and U+212A to \<open>K\<close>.
\<close>

definition upper_char :: "char \<Rightarrow> char" where
  "upper_char c = (let n = of_char c :: nat in if 97 \<le> n \<and> n \<le> 122 then char_of (n - 32) else c)"

fun fold_name :: "string \<Rightarrow> string" where
  "fold_name [] = []"
| "fold_name (a # s) =
     (if of_char a = (197::nat) \<and> take 1 s = [char_of (191::nat)] then CHR ''S'' # fold_name (tl s)
      else if of_char a = (226::nat) \<and> take 2 s = [char_of (132::nat), char_of (170::nat)] then CHR ''K'' # fold_name (drop 2 s)
      else upper_char a # fold_name s)"

definition is_field :: "string \<Rightarrow> string \<Rightarrow> bool" where
  "is_field name key \<longleftrightarrow> key = name \<or> fold_name key = fold_name name"

text \<open>
  A struct: members are decoded in order into the fields they select, unknown ones are skipped, and
  \<open>null\<close> leaves everything as it is. A member of the wrong type makes the whole call fail.
\<close>

fun decode_members :: "('a \<Rightarrow> string \<Rightarrow> json \<Rightarrow> 'a option) \<Rightarrow> 'a \<Rightarrow> (string \<times> json) list \<Rightarrow> 'a option" where
  "decode_members f st [] = Some st"
| "decode_members f st ((k, v) # ms) = (case f st k v of None \<Rightarrow> None | Some st' \<Rightarrow> decode_members f st' ms)"

definition decode_struct :: "('a \<Rightarrow> string \<Rightarrow> json \<Rightarrow> 'a option) \<Rightarrow> 'a \<Rightarrow> json \<Rightarrow> 'a option" where
  "decode_struct f zero j = (case j of JNull \<Rightarrow> Some zero | JObj ms \<Rightarrow> decode_members f zero ms | _ \<Rightarrow> None)"

definition decode_string :: "string \<Rightarrow> json \<Rightarrow> string option" where
  "decode_string old j = (case j of JStr v \<Rightarrow> Some v | JNull \<Rightarrow> Some old | _ \<Rightarrow> None)"

text \<open>An \<open>int\<close> field takes a number literal that \<open>strconv.ParseInt\<close> accepts: decimal digits within 64 bits.\<close>

definition nat_of_digits :: "string \<Rightarrow> nat" where
  "nat_of_digits ds = foldl (\<lambda>a c. 10 * a + (of_char c - 48)) 0 ds"

definition ParseInt64 :: "string \<Rightarrow> int option" where
  "ParseInt64 t =
     (let (neg, ds) = (case t of c # cs \<Rightarrow> if c = CHR ''-'' then (True, cs) else (False, t) | [] \<Rightarrow> (False, t));
          v = (if neg then - int (nat_of_digits ds) else int (nat_of_digits ds))
      in if ds \<noteq> [] \<and> list_all is_digit ds \<and> - (2 ^ 63) \<le> v \<and> v < 2 ^ 63 then Some v else None)"

definition decode_int :: "int \<Rightarrow> json \<Rightarrow> int option" where
  "decode_int old j = (case j of JNum t \<Rightarrow> ParseInt64 t | JNull \<Rightarrow> Some old | _ \<Rightarrow> None)"

text \<open>A \<open>map[string]string\<close>: \<open>None\<close> is the nil map; members are added to the map that is there.\<close>

type_synonym string_map = "(string \<times> string) list"

definition decode_string_map :: "string_map option \<Rightarrow> json \<Rightarrow> string_map option option" where
  "decode_string_map old j =
     (case j of
        JNull \<Rightarrow> Some None
      | JObj ms \<Rightarrow>
          map_option Some
            (decode_members (\<lambda>m k v. map_option (\<lambda>x. assoc_set k x m) (decode_string [] v))
               (case old of None \<Rightarrow> [] | Some m \<Rightarrow> m) ms)
      | _ \<Rightarrow> None)"

text \<open>A \<open>[]json.RawMessage\<close>: the source texts of the elements.\<close>

definition decode_raw_list :: "json \<Rightarrow> string list option" where
  "decode_raw_list j = (case j of JNull \<Rightarrow> Some [] | JArr es \<Rightarrow> Some (map fst es) | _ \<Rightarrow> None)"

subsection \<open>The overrides envelope\<close>

definition encode_member :: "string \<times> string \<Rightarrow> string" where
  "encode_member kv = encode_string (fst kv) @ '':'' @ encode_string (snd kv)"

definition encode_string_map :: "string_map \<Rightarrow> string" where
  "encode_string_map m = ''{'' @ join_with '','' (map encode_member (sort_key fst m)) @ ''}''"

definition marshal_extensions :: "string_map \<Rightarrow> string" where
  "marshal_extensions m = ''{'' @ encode_string ''extensions'' @ '':'' @ encode_string_map m @ ''}''"

definition unmarshal_extensions :: "string \<Rightarrow> string_map option option" where
  "unmarshal_extensions raw =
     Option.bind (parse_json raw)
       (decode_struct (\<lambda>m k v. if is_field ''extensions'' k then decode_string_map m v else Some m) None)"

lemma parse_value_string:
  "utf8_ok v \<Longrightarrow> parse_value (Suc n) d (encode_string v @ t) = Some (JStr v, t)"
  by (simp add: encode_string_def is_ws_def parse_encode_body)

lemma parse_members_first:
  assumes "utf8_ok k" "parse_value n d t = Some (v, r)"
  shows "parse_members (Suc n) d (encode_string k @ CHR '':'' # t) =
    (case skip_ws r of
       [] \<Rightarrow> None
     | c # cs \<Rightarrow>
         if c = CHR '','' then map_option (\<lambda>(ms, r'). ((k, v) # ms, r')) (parse_members n d cs)
         else if c = CHR ''}'' then Some ([(k, v)], cs)
         else None)"
  using assms by (simp add: encode_string_def is_ws_def parse_encode_body)

lemma parse_members_join:
  assumes "ms \<noteq> []" "\<forall>(k, v) \<in> set ms. utf8_ok k \<and> utf8_ok v" "length ms < n"
  shows "parse_members n d (join_with '','' (map encode_member ms) @ CHR ''}'' # t) =
    Some (map (\<lambda>(k, v). (k, JStr v)) ms, t)"
  using assms
proof (induction ms arbitrary: n)
  case (Cons kv ms)
  obtain k v where kv: "kv = (k, v)" by fastforce
  from Cons.prems(3) obtain n' where n: "n = Suc (Suc n')" by (cases n; cases "n - 1") auto
  have ok: "utf8_ok k" "utf8_ok v" using Cons.prems(2) kv by auto
  note first = parse_members_first [OF ok(1) parse_value_string [OF ok(2)]]
  show ?case
  proof (cases ms)
    case Nil
    then show ?thesis by (simp add: n kv encode_member_def first is_ws_def del: parse_members.simps)
  next
    case (Cons kv' ms')
    with Cons.IH [of "Suc n'"] Cons.prems n show ?thesis
      by (simp add: kv encode_member_def first is_ws_def del: parse_members.simps)
  qed
qed simp

lemma length_join_members: "length ms \<le> length (join_with '','' (map encode_member ms))"
proof (induction ms)
  case (Cons kv ms)
  then show ?case by (cases ms) (auto simp: encode_member_def encode_string_def)
qed simp

lemma parse_string_map:
  assumes "\<forall>(k, v) \<in> set m. utf8_ok k \<and> utf8_ok v" "Suc (length m) < n" "d \<noteq> 0"
  shows "parse_value n d (encode_string_map m @ t) =
    Some (JObj (map (\<lambda>(k, v). (k, JStr v)) (sort_key fst m)), t)"
proof -
  from assms(2) obtain n' where n: "n = Suc n'" by (cases n) auto
  show ?thesis
  proof (cases "m = []")
    case True
    with n assms(3) show ?thesis by (simp add: encode_string_map_def is_ws_def)
  next
    case False
    then have "set (sort_key fst m) \<noteq> {}" by simp
    then obtain kv ms where ms: "sort_key fst m = kv # ms" by (cases "sort_key fst m") auto
    then have q: "\<exists>u. join_with '','' (map encode_member (sort_key fst m)) = dquote # u"
      by (cases ms) (auto simp: encode_member_def encode_string_def)
    have "parse_members n' (d - 1) (join_with '','' (map encode_member (sort_key fst m)) @ CHR ''}'' # t) =
        Some (map (\<lambda>(k, v). (k, JStr v)) (sort_key fst m), t)"
    proof (rule parse_members_join)
      show "sort_key fst m \<noteq> []" using ms by simp
    qed (use assms(1,2) n in simp_all)
    with q assms(3) show ?thesis by (auto simp: n encode_string_map_def is_ws_def)
  qed
qed

lemma decode_string_members:
  assumes "distinct (map fst (m @ ms))"
  shows "decode_members (\<lambda>m k v. map_option (\<lambda>x. assoc_set k x m) (decode_string [] v)) m
      (map (\<lambda>(k, v). (k, JStr v)) ms) = Some (m @ ms)"
  using assms
proof (induction ms arbitrary: m)
  case (Cons kv ms)
  then show ?case
    using Cons.IH [of "m @ [kv]"] by (cases kv) (simp add: decode_string_def assoc_set_new)
qed simp

lemma utf8_ok_ascii: "list_all (\<lambda>c. of_char c < (128::nat)) s \<Longrightarrow> utf8_ok s"
  by (induction s) (subst utf8_ok.simps; simp add: decode_rune_def RuneError_def)+

theorem unmarshal_marshal_extensions:
  assumes "distinct (map fst m)" "\<forall>(k, v) \<in> set m. utf8_ok k \<and> utf8_ok v"
  shows "unmarshal_extensions (marshal_extensions m) = Some (Some (sort_key fst m))"
proof -
  let ?j = "JObj (map (\<lambda>(k, v). (k, JStr v)) (sort_key fst m))"
  define n where "n = json_fuel (marshal_extensions m)"
  have "Suc (Suc (Suc (length m))) < n"
    using length_join_members [of "sort_key fst m"]
    by (simp add: n_def marshal_extensions_def encode_string_map_def)
  then obtain n' where n: "n = Suc (Suc n')" "Suc (length m) < n'" by (cases n; cases "n - 1") auto
  have ext: "utf8_ok ''extensions''" by (rule utf8_ok_ascii) simp
  have members: "parse_members (Suc n') 9999 (encode_string ''extensions'' @ CHR '':'' # encode_string_map m @ ''}'') =
      Some ([(''extensions'', ?j)], [])"
    using parse_members_first [OF ext parse_string_map [OF assms(2), of n' 9999 "''}''"]] n
    by (simp add: is_ws_def del: parse_members.simps)
  have "parse_value n maxNestingDepth (marshal_extensions m) = Some (JObj [(''extensions'', ?j)], [])"
    using members by (simp add: n maxNestingDepth_def marshal_extensions_def encode_string_def is_ws_def del: parse_members.simps)
  then show ?thesis
    using decode_string_members [of "[]" "sort_key fst m"] assms(1)
    by (simp add: unmarshal_extensions_def parse_json_def n_def decode_struct_def decode_string_map_def is_field_def)
qed

end
