(* ===== verification/Adapter_Deployment.thy ===== *)
theory Adapter_Deployment
  imports Source_Types Go_Json
begin

text \<open>
  The Deployment the controller renders for a source: \<open>pkg/reconciler/yipyapsource/resources/deployment.go\<close>
  with \<open>kmeta.ChildName\<close> (\<open>names.go\<close>) and the controller owner reference. Kubernetes objects keep the
  fields the renderer sets and, as one opaque value, everything else an API server may add to a pod
  template. Shown: the name is at most 63 bytes long and a well-formed object name, the selector selects
  the template, the owner reference is the one controller reference, and what each environment variable holds.
\<close>

subsection \<open>Child names\<close>

text \<open>
  \<open>makeValidName\<close> removes bytes from the end until it meets an alphanumeric one; without any the index
  runs below zero and the program panics (\<open>None\<close>). The string is processed from its end.
\<close>

fun trim_name :: "string \<Rightarrow> string option" where
  "trim_name [] = None"
| "trim_name (c # cs) = (if is_alnum c then Some (c # cs) else trim_name cs)"

definition makeValidName :: "string \<Rightarrow> string option" where
  "makeValidName n = map_option rev (trim_name (rev n))"

definition longest :: nat where "longest = 63"
definition name_head :: nat where "name_head = longest - 32"

definition ChildName :: "string \<Rightarrow> string \<Rightarrow> string option" where
  "ChildName parent suffix =
     (if int (length parent) > int longest - int (length suffix)
      then
        if int name_head - int (length suffix) \<le> 0
        then
          let h = md5_hex (parent @ suffix);
              parent = (if name_head < length parent then take name_head parent else parent);
              ret = parent @ h;
              d = longest - length ret
          in makeValidName (if d > 0 then ret @ take d suffix else ret)
        else Some (take (name_head - length suffix) parent @ md5_hex parent @ suffix)
      else Some (parent @ suffix))"

lemma trim_name_Some: "c \<in> set s \<Longrightarrow> is_alnum c \<Longrightarrow> \<exists>n. trim_name s = Some n"
  by (induction s) auto

lemma trim_name_suffix:
  "trim_name s = Some n \<Longrightarrow> n \<noteq> [] \<and> is_alnum (hd n) \<and> length n \<le> length s \<and> (\<exists>p. s = p @ n \<and> (\<forall>c \<in> set p. \<not> is_alnum c))"
proof (induction s)
  case (Cons c s)
  show ?case
  proof (cases "is_alnum c")
    case False
    with Cons obtain p where "n \<noteq> []" "is_alnum (hd n)" "length n \<le> length s" "s = p @ n" "\<forall>c \<in> set p. \<not> is_alnum c"
      by auto
    then show ?thesis using False by (auto intro!: exI [of _ "c # p"])
  qed (use Cons.prems in auto)
qed simp

lemma makeValidName_prefix:
  assumes "makeValidName n = Some m"
  shows "m \<noteq> []" "is_alnum (last m)" "length m \<le> length n" "\<exists>q. n = m @ q \<and> (\<forall>c \<in> set q. \<not> is_alnum c)"
proof -
  from assms obtain r where r: "trim_name (rev n) = Some r" "m = rev r" by (auto simp: makeValidName_def)
  from trim_name_suffix [OF r(1)] obtain p where p: "r \<noteq> []" "is_alnum (hd r)" "length r \<le> length n" "rev n = p @ r"
      "\<forall>c \<in> set p. \<not> is_alnum c"
    by auto
  then show "m \<noteq> []" "is_alnum (last m)" "length m \<le> length n" by (auto simp: r last_rev)
  have "n = m @ rev p" using p(4) r(2) by (metis rev_append rev_rev_ident)
  then show "\<exists>q. n = m @ q \<and> (\<forall>c \<in> set q. \<not> is_alnum c)" using p(5) by auto
qed

lemma lowerhex_alnum: "n < 16 \<Longrightarrow> is_alnum (lowerhex n)"
  by (auto simp: is_alnum_def lowerhex_def Let_def)

lemma md5_hex_alnum: "c \<in> set (md5_hex s) \<Longrightarrow> is_alnum c"
proof -
  have "\<forall>b \<in> set (md5_sum bs). b < 256" for bs
    by (auto simp: md5_sum_def le_bytes_def split: prod.splits)
  then have "\<forall>b \<in> set (md5_sum bs). b div 16 < 16" for bs
    by (auto simp: less_mult_imp_div_less)
  then show "c \<in> set (md5_hex s) \<Longrightarrow> is_alnum c"
    by (auto simp: md5_hex_def hex_encode_def intro!: lowerhex_alnum)
qed

text \<open>\<open>ChildName\<close> never panics, and its result fits into a Kubernetes name.\<close>

lemma ChildName_cases:
  obtains (plain) "ChildName parent suffix = Some (parent @ suffix)" "length parent + length suffix \<le> 63"
  | (trimmed) p where "p = take (31 - length suffix) parent" "length suffix < 31"
      "ChildName parent suffix = Some (p @ md5_hex parent @ suffix)" "length p \<le> 31 - length suffix"
      "63 < length parent + length suffix"
  | (hashed) p n q where "p = take 31 parent" "31 \<le> length suffix" "ChildName parent suffix = Some n"
      "p @ md5_hex (parent @ suffix) @ take (31 - length p) suffix = n @ q"
      "n \<noteq> []" "is_alnum (last n)" "\<forall>c \<in> set q. \<not> is_alnum c" "63 < length parent + length suffix"
proof (cases "length parent + length suffix \<le> 63")
  case True
  then have "\<not> int (length parent) > int longest - int (length suffix)"
    by (simp add: longest_def)
  then have "ChildName parent suffix = Some (parent @ suffix)"
    by (simp add: ChildName_def)
  then show ?thesis using True by (rule plain)
next
  case False
  then have long: "int (length parent) > int longest - int (length suffix)"
    by (simp add: longest_def)
  show ?thesis
  proof (cases "31 \<le> length suffix")
    case True
    define r where "r = take 31 parent @ md5_hex (parent @ suffix) @ take (31 - length (take 31 parent)) suffix"
    obtain h where h: "h \<in> set (md5_hex (parent @ suffix))"
      using length_md5_hex [of "parent @ suffix"] by (cases "md5_hex (parent @ suffix)") auto
    have "h \<in> set (rev r)" using h by (simp add: r_def)
    from trim_name_Some [OF this md5_hex_alnum [OF h]] obtain n where n: "makeValidName r = Some n"
      by (auto simp: makeValidName_def)
    have "ChildName parent suffix = makeValidName r"
      using long True by (auto simp: ChildName_def Let_def name_head_def longest_def r_def min_def)
    with n makeValidName_prefix [OF n] show ?thesis
      using True False hashed [of "take 31 parent" n] r_def by fastforce
  next
    case short: False
    then have "ChildName parent suffix = Some (take (31 - length suffix) parent @ md5_hex parent @ suffix)"
      using long by (simp add: ChildName_def name_head_def longest_def)
    then show ?thesis using short False by (intro trimmed) auto
  qed
qed

lemma ChildName_bound: "\<exists>n. ChildName parent suffix = Some n \<and> length n \<le> 63"
proof (cases rule: ChildName_cases [of parent suffix])
  case (hashed p n q)
  from hashed(4) have "length (p @ md5_hex (parent @ suffix) @ take (31 - length p) suffix) = length n + length q"
    by simp
  then have "length n \<le> 63" using hashed(1,2) by (simp add: min_def split: if_splits)
  with hashed show ?thesis by simp
qed auto

text \<open>The characters of an object name, and the shape the API server asks of it.\<close>

definition name_char :: "char \<Rightarrow> bool" where
  "name_char c \<longleftrightarrow> is_alnum c \<and> lower_char c = c \<or> c = CHR ''-'' \<or> c = CHR ''.''"

definition object_name :: "string \<Rightarrow> bool" where
  "object_name n \<longleftrightarrow> n \<noteq> [] \<and> list_all name_char n \<and> is_alnum (hd n) \<and> is_alnum (last n)"

lemma md5_hex_name_char: "list_all name_char (md5_hex s)"
proof -
  have "\<forall>b \<in> set (md5_sum bs). b < 256" for bs
    by (auto simp: md5_sum_def le_bytes_def split: prod.splits)
  then have "\<forall>b \<in> set (md5_sum bs). b div 16 < 16" for bs
    by (auto simp: less_mult_imp_div_less)
  moreover have "name_char (lowerhex n)" if "n < 16" for n
    using lowerhex_alnum [OF that] that by (auto simp: name_char_def lower_char_def lowerhex_def Let_def)
  ultimately show ?thesis by (auto simp: md5_hex_def hex_encode_def list_all_iff)
qed

lemma name_char_parts:
  "list_all name_char s \<Longrightarrow> list_all name_char (take k s)"
  by (auto simp: list_all_iff dest: in_set_takeD)

lemma ChildName_object_name:
  assumes "parent \<noteq> []" "list_all name_char parent" "is_alnum (hd parent)"
    and "suffix \<noteq> []" "list_all name_char suffix" "is_alnum (last suffix)"
  shows "\<exists>n. ChildName parent suffix = Some n \<and> object_name n \<and> length n \<le> 63"
proof (cases rule: ChildName_cases [of parent suffix])
  case plain
  then show ?thesis using assms by (simp add: object_name_def)
next
  case (trimmed p)
  have "p \<noteq> []" "hd p = hd parent" using trimmed(1,2) assms(1) by auto
  then show ?thesis using assms trimmed ChildName_bound [of parent suffix]
    by (auto simp: object_name_def md5_hex_name_char name_char_parts)
next
  case (hashed p n q)
  have p: "p \<noteq> []" "hd p = hd parent" using hashed(1) assms(1) by auto
  have "hd n = hd (n @ q)" using hashed(5) by simp
  also have "\<dots> = hd parent" using p hashed(4) by (metis hd_append2)
  finally have "is_alnum (hd n)" using assms(3) by simp
  moreover have "list_all name_char (n @ q)"
    unfolding hashed(4) [symmetric] using assms hashed(1) by (simp add: md5_hex_name_char name_char_parts)
  ultimately show ?thesis using hashed(3,5,6) ChildName_bound [of parent suffix]
    by (auto simp: object_name_def)
qed

subsection \<open>Kubernetes objects\<close>

text \<open>An environment variable has a value, or takes it from a key of a secret.\<close>

record secret_key_selector =
  sk_name :: string
  sk_key :: string

record env_var =
  env_name :: string
  env_value :: string
  env_valueFrom :: "secret_key_selector option"

record http_get_action =
  hg_path :: string
  hg_port :: int
  hg_scheme :: string

record container_port =
  cp_name :: string
  cp_containerPort :: int
  cp_protocol :: string

record volume_mount =
  vm_name :: string
  vm_mountPath :: string

record container =
  c_name :: string
  c_image :: string
  c_ports :: "container_port list"
  c_env :: "env_var list"
  c_volumeMounts :: "volume_mount list"
  c_livenessProbe :: "http_get_action option"
  c_readinessProbe :: "http_get_action option"

record volume =
  v_name :: string
  v_emptyDir :: bool

record pod_spec =
  ps_containers :: "container list"
  ps_volumes :: "volume list"
  ps_serviceAccountName :: string

text \<open>\<open>pt_other\<close> stands for every field of a template the renderer leaves unset; \<open>None\<close> is \<open>unset\<close>.\<close>

record pod_template =
  pt_labels :: "(string \<times> string) list"
  pt_spec :: pod_spec
  pt_other :: "string option"

record deployment_condition =
  dc_type :: string
  dc_status :: string
  dc_reason :: string
  dc_message :: string

record deployment =
  dep_meta :: object_meta
  dep_replicas :: "int option"
  dep_selector :: "(string \<times> string) list option"
  dep_template :: pod_template
  dep_conditions :: "deployment_condition list"

text \<open>A label selector with \<open>matchLabels\<close> selects the objects that carry each of these labels.\<close>

definition selects :: "(string \<times> string) list \<Rightarrow> (string \<times> string) list \<Rightarrow> bool" where
  "selects sel labels \<longleftrightarrow> list_all (\<lambda>(k, v). map_of labels k = Some v) sel"

subsection \<open>Owner references\<close>

definition NewControllerRef :: "object_meta \<Rightarrow> group_version_kind \<Rightarrow> owner_reference" where
  "NewControllerRef owner gvk =
     \<lparr>or_apiVersion = gvk_apiVersion gvk, or_kind = gvk_kind gvk, or_name = om_name owner,
      or_uid = om_uid owner, or_controller = Some True, or_blockOwnerDeletion = Some True\<rparr>"

definition GetControllerOf :: "object_meta \<Rightarrow> owner_reference option" where
  "GetControllerOf m = find (\<lambda>r. or_controller r = Some True) (om_ownerReferences m)"

definition IsControlledBy :: "object_meta \<Rightarrow> object_meta \<Rightarrow> bool" where
  "IsControlledBy obj owner =
     (case GetControllerOf obj of None \<Rightarrow> False | Some ref \<Rightarrow> or_uid ref = om_uid owner)"

subsection \<open>The adapter Deployment\<close>

definition SourceLabelKey :: string where "SourceLabelKey = ''sources.yipyap.run/source''"
definition ContainerName :: string where "ContainerName = ''source''"
definition CursorVolumeName :: string where "CursorVolumeName = ''cursor''"
definition CursorMountPath :: string where "CursorMountPath = ''/var/run/yipyap''"
definition AdapterHTTPPort :: int where "AdapterHTTPPort = 8080"

definition Labels :: "yipyap_source \<Rightarrow> (string \<times> string) list" where
  "Labels src = [(SourceLabelKey, om_name (y_meta src))]"

abbreviation plain_env :: "string \<Rightarrow> string \<Rightarrow> env_var" where
  "plain_env n v \<equiv> \<lparr>env_name = n, env_value = v, env_valueFrom = None\<rparr>"

definition adapter_env :: "yipyap_source \<Rightarrow> url option \<Rightarrow> env_var list" where
  "adapter_env src sink =
     (let spec = y_spec src;
          env = [plain_env ''K_SINK'' (URL_String sink),
                 plain_env ''YIPYAP_BASE_URL'' (sp_baseURL spec),
                 \<lparr>env_name = ''YIPYAP_API_KEY'', env_value = '''',
                  env_valueFrom = Some \<lparr>sk_name = ak_name (sp_apiKeyRef spec), sk_key = ak_key (sp_apiKeyRef spec)\<rparr>\<rparr>,
                 plain_env ''YIPYAP_MODE'' (sp_mode spec)];
          env = (case sp_filter spec of
                   None \<Rightarrow> env
                 | Some f \<Rightarrow> if length (f_types f) > 0
                            then env @ [plain_env ''YIPYAP_EVENT_FILTER'' (join_with '','' (f_types f))]
                            else env)
      in (case sp_ceOverrides spec of
            None \<Rightarrow> env
          | Some ext \<Rightarrow> if length ext > 0
                       then env @ [plain_env ''K_CE_OVERRIDES'' (marshal_extensions ext)]
                       else env))"

definition adapter_pod_spec :: "yipyap_source \<Rightarrow> url option \<Rightarrow> string \<Rightarrow> pod_spec" where
  "adapter_pod_spec src sink img =
     (let probe = \<lparr>hg_path = '''', hg_port = AdapterHTTPPort, hg_scheme = ''HTTP''\<rparr>;
          podSpec =
            \<lparr>ps_containers =
               [\<lparr>c_name = ContainerName, c_image = img,
                 c_ports = [\<lparr>cp_name = ''http'', cp_containerPort = AdapterHTTPPort, cp_protocol = ''TCP''\<rparr>],
                 c_env = adapter_env src sink,
                 c_volumeMounts = [\<lparr>vm_name = CursorVolumeName, vm_mountPath = CursorMountPath\<rparr>],
                 c_livenessProbe = Some (probe\<lparr>hg_path := ''/healthz''\<rparr>),
                 c_readinessProbe = Some (probe\<lparr>hg_path := ''/readyz''\<rparr>)\<rparr>],
             ps_volumes = [\<lparr>v_name = CursorVolumeName, v_emptyDir = True\<rparr>],
             ps_serviceAccountName = ''''\<rparr>
      in if sp_serviceAccountName (y_spec src) \<noteq> ''''
         then podSpec\<lparr>ps_serviceAccountName := sp_serviceAccountName (y_spec src)\<rparr>
         else podSpec)"

text \<open>\<open>None\<close> is the panic of \<open>ChildName\<close>, which never happens.\<close>

definition MakeAdapterDeployment :: "yipyap_source \<Rightarrow> url option \<Rightarrow> string \<Rightarrow> deployment option" where
  "MakeAdapterDeployment src sink img =
     map_option
       (\<lambda>name.
          \<lparr>dep_meta =
             \<lparr>om_name = name, om_namespace = om_namespace (y_meta src), om_uid = '''', om_resourceVersion = '''',
              om_generation = 0, om_deletionTimestamp = None, om_labels = Labels src, om_annotations = [],
              om_ownerReferences = [NewControllerRef (y_meta src) GetGroupVersionKind], om_finalizers = []\<rparr>,
           dep_replicas = Some 1,
           dep_selector = Some (Labels src),
           dep_template = \<lparr>pt_labels = Labels src, pt_spec = adapter_pod_spec src sink img, pt_other = None\<rparr>,
           dep_conditions = []\<rparr>)
       (ChildName (om_name (y_meta src) @ ''-source-'') (om_uid (y_meta src)))"

lemma MakeAdapterDeployment_total:
  obtains d where "MakeAdapterDeployment src sink img = Some d"
    "ChildName (om_name (y_meta src) @ ''-source-'') (om_uid (y_meta src)) = Some (om_name (dep_meta d))"
    "length (om_name (dep_meta d)) \<le> 63"
proof -
  from ChildName_bound obtain n where "ChildName (om_name (y_meta src) @ ''-source-'') (om_uid (y_meta src)) = Some n"
      "length n \<le> 63"
    by blast
  then show ?thesis by (intro that) (auto simp: MakeAdapterDeployment_def)
qed

lemma MakeAdapterDeployment_fields:
  assumes "MakeAdapterDeployment src sink img = Some d"
  shows "om_namespace (dep_meta d) = om_namespace (y_meta src)" "dep_replicas d = Some 1"
    "dep_template d = \<lparr>pt_labels = Labels src, pt_spec = adapter_pod_spec src sink img, pt_other = None\<rparr>"
    "dep_selector d = Some (Labels src)" "om_labels (dep_meta d) = Labels src" "dep_conditions d = []"
    "om_ownerReferences (dep_meta d) = [NewControllerRef (y_meta src) GetGroupVersionKind]"
  using assms by (auto simp: MakeAdapterDeployment_def)

text \<open>How a container sees its environment: the last entry of a name wins; \<open>secrets\<close> is the cluster's secret store.\<close>

definition container_env :: "(string \<Rightarrow> string \<Rightarrow> string) \<Rightarrow> env_var list \<Rightarrow> string \<Rightarrow> string" where
  "container_env secrets env n =
     (case find (\<lambda>e. env_name e = n) (rev env) of
        None \<Rightarrow> ''''
      | Some e \<Rightarrow> (case env_valueFrom e of None \<Rightarrow> env_value e | Some r \<Rightarrow> secrets (sk_name r) (sk_key r)))"

lemma container_env_adapter:
  fixes src sink secrets
  defines "getenv \<equiv> container_env secrets (adapter_env src sink)"
  shows "getenv ''K_SINK'' = URL_String sink"
    "getenv ''YIPYAP_BASE_URL'' = sp_baseURL (y_spec src)"
    "getenv ''YIPYAP_API_KEY'' = secrets (ak_name (sp_apiKeyRef (y_spec src))) (ak_key (sp_apiKeyRef (y_spec src)))"
    "getenv ''YIPYAP_MODE'' = sp_mode (y_spec src)"
    "getenv ''YIPYAP_EVENT_FILTER'' =
       (case sp_filter (y_spec src) of None \<Rightarrow> '''' | Some f \<Rightarrow> join_with '','' (f_types f))"
    "getenv ''K_CE_OVERRIDES'' =
       (case sp_ceOverrides (y_spec src) of
          None \<Rightarrow> '''' | Some ext \<Rightarrow> if ext = [] then '''' else marshal_extensions ext)"
    "getenv ''YIPYAP_POLL_INTERVAL'' = ''''" "getenv ''YIPYAP_CURSOR_PATH'' = ''''" "getenv ''YIPYAP_HEALTH_ADDR'' = ''''"
  unfolding getenv_def container_env_def adapter_env_def Let_def
  by (auto split: option.splits)

subsection \<open>Properties\<close>

text \<open>
  C34: The name of the adapter Deployment is at most 63 bytes long whatever the source is called, and a
  well-formed object name (lower-case alphanumerics, dashes and dots, alphanumeric at both ends) when the
  source has such a name and its UID consists of such characters and ends in an alphanumeric one.
\<close>
theorem deployment_name_fits:
  assumes "object_name (om_name (y_meta src))"
    and "om_uid (y_meta src) \<noteq> ''''" "list_all name_char (om_uid (y_meta src))" "is_alnum (last (om_uid (y_meta src)))"
  shows "\<exists>d. MakeAdapterDeployment src sink img = Some d \<and> length (om_name (dep_meta d)) \<le> 63 \<and> object_name (om_name (dep_meta d))"
proof (rule MakeAdapterDeployment_total)
  fix d
  assume d: "MakeAdapterDeployment src sink img = Some d"
    "ChildName (om_name (y_meta src) @ ''-source-'') (om_uid (y_meta src)) = Some (om_name (dep_meta d))"
  have dash: "list_all name_char ''-source-''" by (simp add: name_char_def is_alnum_def lower_char_def Let_def)
  have "\<exists>n. ChildName (om_name (y_meta src) @ ''-source-'') (om_uid (y_meta src)) = Some n \<and> object_name n \<and> length n \<le> 63"
    by (rule ChildName_object_name) (use assms dash in \<open>simp_all add: object_name_def\<close>)
  with d show ?thesis by auto
qed

definition named_src :: "string \<Rightarrow> string \<Rightarrow> yipyap_source" where
  "named_src n uid =
     \<lparr>y_meta = \<lparr>om_name = n, om_namespace = ''ops'', om_uid = uid, om_resourceVersion = '''', om_generation = 1,
        om_deletionTimestamp = None, om_labels = [], om_annotations = [], om_ownerReferences = [], om_finalizers = []\<rparr>,
      y_spec = \<lparr>sp_sink = \<lparr>d_ref = None, d_uri = None, d_CACerts = None, d_audience = None\<rparr>,
        sp_ceOverrides = None, sp_apiKeyRef = \<lparr>ak_name = ''yipyap'', ak_key = ''api-key''\<rparr>, sp_baseURL = '''',
        sp_filter = None, sp_mode = ''auto'', sp_serviceAccountName = ''''\<rparr>,
      y_status = \<lparr>st_observedGeneration = 0, st_conditions = [], st_annotations = [], st_sinkURI = None, st_ceAttributes = [],
        st_sinkCACerts = None, st_sinkAudience = None, st_auth = None, st_deploymentName = '''', st_lastEventTime = None,
        st_eventCount = 0\<rparr>\<rparr>"

theorem deployment_name_fits_witness:
  "\<exists>d. MakeAdapterDeployment (named_src ''a-source-with-quite-a-long-name'' ''0b7e1d2c-5a3f-4c1e-9d8b-6f0a2e4c8b1d'') None ''img'' = Some d \<and>
     length (om_name (dep_meta d)) \<le> 63"
proof -
  have "object_name ''a-source-with-quite-a-long-name''" "list_all name_char ''0b7e1d2c-5a3f-4c1e-9d8b-6f0a2e4c8b1d''"
    by (simp_all add: object_name_def name_char_def is_alnum_def lower_char_def Let_def)
  then show ?thesis
    using deployment_name_fits [of "named_src ''a-source-with-quite-a-long-name'' ''0b7e1d2c-5a3f-4c1e-9d8b-6f0a2e4c8b1d''" None "''img''"]
    by (auto simp: named_src_def is_alnum_def)
qed

text \<open>
  Every rendered Deployment is in the source's namespace with one replica, its selector selects its own
  pod template, and it is controlled by the source: its one owner reference is a blocking controller
  reference with the source's name, UID, API version and kind, so garbage collection removes it with the
  source.
\<close>
theorem deployment_owned_and_selected:
  "\<exists>d. MakeAdapterDeployment src sink img = Some d \<and> om_namespace (dep_meta d) = om_namespace (y_meta src) \<and>
     dep_replicas d = Some 1 \<and>
     (\<exists>sel. dep_selector d = Some sel \<and> sel \<noteq> [] \<and> selects sel (pt_labels (dep_template d))) \<and>
     IsControlledBy (dep_meta d) (y_meta src) \<and>
     om_ownerReferences (dep_meta d) =
       [\<lparr>or_apiVersion = ''sources.yipyap.run/v1alpha1'', or_kind = ''YipYapSource'', or_name = om_name (y_meta src),
         or_uid = om_uid (y_meta src), or_controller = Some True, or_blockOwnerDeletion = Some True\<rparr>]"
proof (rule MakeAdapterDeployment_total)
  fix d
  assume d: "MakeAdapterDeployment src sink img = Some d"
  note f = MakeAdapterDeployment_fields [OF d]
  have "NewControllerRef (y_meta src) GetGroupVersionKind =
      \<lparr>or_apiVersion = ''sources.yipyap.run/v1alpha1'', or_kind = ''YipYapSource'', or_name = om_name (y_meta src),
         or_uid = om_uid (y_meta src), or_controller = Some True, or_blockOwnerDeletion = Some True\<rparr>"
    by (simp add: NewControllerRef_def GetGroupVersionKind_def gvk_apiVersion_def GroupName_def)
  then show ?thesis using d f by (simp add: selects_def Labels_def IsControlledBy_def GetControllerOf_def)
qed

text \<open>
  Of a source's filter only the type globs reach the adapter: the rendered Deployment does not depend on
  the monitor IDs and severities.
\<close>
theorem only_types_forwarded:
  "MakeAdapterDeployment (src\<lparr>y_spec := (y_spec src)\<lparr>sp_filter := Some \<lparr>f_types = ts, f_monitorIDs = ms, f_severities = ss\<rparr>\<rparr>\<rparr>) sink img =
   MakeAdapterDeployment (src\<lparr>y_spec := (y_spec src)\<lparr>sp_filter := Some \<lparr>f_types = ts, f_monitorIDs = [], f_severities = []\<rparr>\<rparr>\<rparr>) sink img"
proof -
  let ?src = "\<lambda>f. src\<lparr>y_spec := (y_spec src)\<lparr>sp_filter := Some f\<rparr>\<rparr>"
  have "adapter_env (?src \<lparr>f_types = ts, f_monitorIDs = ms, f_severities = ss\<rparr>) sink =
      adapter_env (?src \<lparr>f_types = ts, f_monitorIDs = [], f_severities = []\<rparr>) sink"
    by (cases "sp_ceOverrides (y_spec src)") (simp_all add: adapter_env_def Let_def)
  then show ?thesis
    by (cases "sp_serviceAccountName (y_spec src) = ''''")
       (simp_all add: MakeAdapterDeployment_def adapter_pod_spec_def Labels_def Let_def)
qed

end
