(* ===== verification/Reconcile_Kind.thy ===== *)
theory Reconcile_Kind
  imports Sink_Resolver Adapter_Deployment
begin

text \<open>
  The reconciler of \<open>pkg/reconciler/yipyapsource/yipyapsource.go\<close>: resolve the sink, render the adapter
  Deployment, create or update it, and report on the source's status. The resolver, the Deployment lister
  and the Kubernetes client are parameters; the calls that write are recorded. Shown: what is written
  and when, the status after every path, that Ready means both conditions hold, and that reconciling
  again against a server that stores what it is given writes nothing.
\<close>

subsection \<open>The environment of the reconciler\<close>

datatype 'a api_get = GetNotFound | GetError string | GetFound 'a

datatype kube_write = CreateDeployment string deployment | UpdateDeployment string deployment

datatype reconcile_error =
    ResolveSink string
  | CreateDeploymentFailed string
  | GetDeploymentFailed string
  | UpdateDeploymentFailed string

record reconciler =
  rc_resolve :: "destination \<Rightarrow> kreference list \<times> (string + url option)"
  rc_get :: "string \<Rightarrow> string \<Rightarrow> deployment api_get"
  rc_create :: "string \<Rightarrow> deployment \<Rightarrow> string + deployment"
  rc_update :: "string \<Rightarrow> deployment \<Rightarrow> string + deployment"
  rc_adapterImage :: string

record reconciled =
  rk_clock :: clock
  rk_src :: yipyap_source
  rk_writes :: "kube_write list"
  rk_event :: "reconcile_error option"

subsection \<open>ReconcileKind\<close>

definition knownCloudEventAttributes :: "cloud_event_attributes list" where
  "knownCloudEventAttributes =
     map (\<lambda>t. \<lparr>cea_type = t, cea_source = ''''\<rparr>)
       [''run.yipyap.alert.fired.v1'', ''run.yipyap.alert.acknowledged.v1'', ''run.yipyap.alert.resolved.v1'',
        ''run.yipyap.alert.escalated.v1'', ''run.yipyap.monitor.up.v1'', ''run.yipyap.monitor.down.v1'',
        ''run.yipyap.monitor.degraded.v1'', ''run.yipyap.monitor.heartbeat_missed.v1'',
        ''run.yipyap.maintenance.started.v1'', ''run.yipyap.maintenance.ended.v1'']"

definition DeploymentAvailable :: string where "DeploymentAvailable = ''Available''"

fun propagate_conditions :: "deployment_condition list \<Rightarrow> clocked_status \<Rightarrow> clocked_status" where
  "propagate_conditions [] s = s"
| "propagate_conditions (c # cs) s =
     (if dc_type c \<noteq> DeploymentAvailable then propagate_conditions cs s
      else if dc_status c = ConditionTrue then MarkDeployed s
      else if dc_status c = ConditionFalse then MarkNotDeployed (dc_reason c) (dc_message c) s
      else if dc_status c = ConditionUnknown then MarkDeploying (dc_reason c) (dc_message c) s
      else s)"

definition propagateDeploymentAvailability :: "deployment \<Rightarrow> clocked_status \<Rightarrow> clocked_status" where
  "propagateDeploymentAvailability dep s = propagate_conditions (dep_conditions dep) s"

text \<open>\<open>equality.Semantic.DeepEqual\<close> on pod templates: labels are compared as maps, everything else field by field.\<close>

definition same_map :: "('k \<times> 'v) list \<Rightarrow> ('k \<times> 'v) list \<Rightarrow> bool" where
  "same_map m m' \<longleftrightarrow> list_all (\<lambda>k. map_of m k = map_of m' k) (map fst m @ map fst m')"

definition DeepEqual_template :: "pod_template \<Rightarrow> pod_template \<Rightarrow> bool" where
  "DeepEqual_template a b \<longleftrightarrow>
     same_map (pt_labels a) (pt_labels b) \<and> pt_spec a = pt_spec b \<and> pt_other a = pt_other b"

definition finish_reconcile :: "yipyap_source \<Rightarrow> clocked_status \<Rightarrow> kube_write list \<Rightarrow> deployment \<Rightarrow> reconciled" where
  "finish_reconcile src s ws current =
     (let s = (fst s, (snd s)\<lparr>st_deploymentName := om_name (dep_meta current)\<rparr>);
          s = propagateDeploymentAvailability current s
      in \<lparr>rk_clock = fst s, rk_src = src\<lparr>y_status := snd s\<rparr>, rk_writes = ws, rk_event = None\<rparr>)"

definition fail_reconcile :: "yipyap_source \<Rightarrow> clocked_status \<Rightarrow> kube_write list \<Rightarrow> reconcile_error \<Rightarrow> reconciled" where
  "fail_reconcile src s ws e =
     \<lparr>rk_clock = fst s, rk_src = src\<lparr>y_status := snd s\<rparr>, rk_writes = ws, rk_event = Some e\<rparr>"

definition reconcile_deployment ::
  "reconciler \<Rightarrow> yipyap_source \<Rightarrow> clocked_status \<Rightarrow> deployment \<Rightarrow> reconciled" where
  "reconcile_deployment rc src s expected =
     (let ns = om_namespace (y_meta src) in
      case rc_get rc ns (om_name (dep_meta expected)) of
        GetNotFound \<Rightarrow>
          (let w = [CreateDeployment ns expected] in
           case rc_create rc ns expected of
             Inl e \<Rightarrow> fail_reconcile src (MarkNotDeployed ''CreateFailed'' e s) w (CreateDeploymentFailed e)
           | Inr current \<Rightarrow> finish_reconcile src s w current)
      | GetError e \<Rightarrow> fail_reconcile src s [] (GetDeploymentFailed e)
      | GetFound current \<Rightarrow>
          if \<not> DeepEqual_template (dep_template expected) (dep_template current) \<or>
             dep_replicas expected \<noteq> dep_replicas current
          then
            let updated = current\<lparr>dep_template := dep_template expected, dep_replicas := dep_replicas expected\<rparr>;
                w = [UpdateDeployment ns updated]
            in (case rc_update rc ns updated of
                  Inl e \<Rightarrow> fail_reconcile src (MarkNotDeployed ''UpdateFailed'' e s) w (UpdateDeploymentFailed e)
                | Inr current \<Rightarrow> finish_reconcile src s w current)
          else finish_reconcile src s [] current)"

text \<open>\<open>sink_destination\<close>: the copy of \<open>spec.sink\<close>, its reference in the source's namespace unless it names one.\<close>

definition sink_destination :: "yipyap_source \<Rightarrow> destination" where
  "sink_destination src =
     (let dest = sp_sink (y_spec src) in
      case d_ref dest of
        Some ref \<Rightarrow> if kr_namespace ref = '''' then dest\<lparr>d_ref := Some (ref\<lparr>kr_namespace := om_namespace (y_meta src)\<rparr>)\<rparr> else dest
      | None \<Rightarrow> dest)"

definition start_reconcile :: "clock \<Rightarrow> yipyap_source \<Rightarrow> clocked_status" where
  "start_reconcile clk src =
     (let s = Status_InitializeConditions (clk, y_status src)
      in (fst s, (snd s)\<lparr>st_observedGeneration := om_generation (y_meta src),
                         st_ceAttributes := knownCloudEventAttributes\<rparr>))"

text \<open>\<open>None\<close> is a panic of \<open>MakeAdapterDeployment\<close>.\<close>

definition ReconcileKind :: "reconciler \<Rightarrow> clock \<Rightarrow> yipyap_source \<Rightarrow> reconciled option" where
  "ReconcileKind rc clk src =
     (let s = start_reconcile clk src in
      case snd (rc_resolve rc (sink_destination src)) of
        Inl e \<Rightarrow> Some (fail_reconcile src (MarkNoSink ''NotFound'' e s) [] (ResolveSink e))
      | Inr uri \<Rightarrow>
          let s = MarkSink uri s in
          map_option (reconcile_deployment rc src s) (MakeAdapterDeployment src uri (rc_adapterImage rc)))"

subsection \<open>Status laws\<close>

definition ready_iff :: "source_status \<Rightarrow> bool" where
  "ready_iff s \<longleftrightarrow>
     (IsReady s \<longleftrightarrow> cond_status SinkProvided s = Some ConditionTrue \<and> cond_status Deployed s = Some ConditionTrue)"

text \<open>The status of a dependent condition once the conditions have been initialised.\<close>

definition initial_status :: "string \<Rightarrow> source_status \<Rightarrow> string" where
  "initial_status d s =
     (case cond_status d s of
        Some st \<Rightarrow> st
      | None \<Rightarrow> if cond_status ConditionReady s = Some ConditionTrue then ConditionTrue else ConditionUnknown)"

lemma status_reads [simp]:
  "cond_status d (s\<lparr>st_observedGeneration := g\<rparr>) = cond_status d s" "cond_status d (s\<lparr>st_ceAttributes := a\<rparr>) = cond_status d s"
  "cond_status d (s\<lparr>st_deploymentName := n\<rparr>) = cond_status d s" "cond_status d (s\<lparr>st_sinkURI := u\<rparr>) = cond_status d s"
  "status_ok (s\<lparr>st_observedGeneration := g\<rparr>) = status_ok s" "status_ok (s\<lparr>st_ceAttributes := a\<rparr>) = status_ok s"
  "status_ok (s\<lparr>st_deploymentName := n\<rparr>) = status_ok s" "status_ok (s\<lparr>st_sinkURI := u\<rparr>) = status_ok s"
  "IsReady (s\<lparr>st_deploymentName := n\<rparr>) = IsReady s" "ready_iff (s\<lparr>st_deploymentName := n\<rparr>) = ready_iff s"
  by (simp_all add: cond_status_def status_ok_def IsReady_def ready_iff_def)

lemma types_differ [simp]:
  "SinkProvided \<noteq> Deployed" "Deployed \<noteq> SinkProvided" "SinkProvided \<noteq> ConditionReady" "Deployed \<noteq> ConditionReady"
  by (simp_all add: cond_type_defs)

lemma start_reconcile_status:
  fixes clk :: clock
  assumes "status_ok (y_status src)"
  defines "s \<equiv> snd (start_reconcile clk src)"
  shows "status_ok s" "st_observedGeneration s = om_generation (y_meta src)" "st_ceAttributes s = knownCloudEventAttributes"
    "d \<in> {SinkProvided, Deployed} \<Longrightarrow> cond_status d s = Some (initial_status d (y_status src))"
    "st_sinkURI s = st_sinkURI (y_status src)" "st_deploymentName s = st_deploymentName (y_status src)"
proof -
  let ?m = "(clk, st_conditions (y_status src))"
  have ok: "managed_ok condSet (snd ?m)" using assms(1) by (simp add: status_ok_def)
  have c: "st_conditions s = snd (InitializeConditions condSet ?m)"
    by (simp add: s_def start_reconcile_def Status_InitializeConditions_def Manage_conditions Let_def)
  show "status_ok s" using InitializeConditions_ok [OF ok] by (simp add: status_ok_def c)
  show "st_observedGeneration s = om_generation (y_meta src)" "st_ceAttributes s = knownCloudEventAttributes"
      "st_sinkURI s = st_sinkURI (y_status src)" "st_deploymentName s = st_deploymentName (y_status src)"
    by (simp_all add: s_def start_reconcile_def Let_def Status_InitializeConditions_def Manage_def case_prod_unfold)
  show "d \<in> {SinkProvided, Deployed} \<Longrightarrow> cond_status d s = Some (initial_status d (y_status src))"
    using InitializeConditions_view [OF ok condSet_proper, of d]
    by (auto simp: cond_status_def status_of_view c initial_status_def mk_condition_def split: option.splits)
qed

definition available_status :: "deployment \<Rightarrow> string option" where
  "available_status dep = map_option dc_status (find (\<lambda>c. dc_type c = DeploymentAvailable) (dep_conditions dep))"

definition deployed_after :: "deployment \<Rightarrow> string option \<Rightarrow> string option" where
  "deployed_after dep old =
     (case available_status dep of
        Some st \<Rightarrow> if st \<in> {ConditionTrue, ConditionFalse, ConditionUnknown} then Some st else old
      | None \<Rightarrow> old)"

lemma propagate_conditions_step:
  assumes "status_ok (snd s)"
  shows "propagate_conditions cs s = s \<and>
       (\<forall>c. find (\<lambda>c. dc_type c = DeploymentAvailable) cs = Some c \<longrightarrow>
          dc_status c \<notin> {ConditionTrue, ConditionFalse, ConditionUnknown}) \<or>
     (\<exists>c. find (\<lambda>c. dc_type c = DeploymentAvailable) cs = Some c \<and>
        dc_status c \<in> {ConditionTrue, ConditionFalse, ConditionUnknown} \<and>
        lifecycle_step Deployed (dc_status c) (snd s) (snd (propagate_conditions cs s)))"
  using lifecycle_calls [OF assms] by (induction cs) auto

lemma propagate_status:
  fixes dep :: deployment
  assumes "status_ok (snd s)" "ready_iff (snd s)"
  defines "s' \<equiv> snd (propagateDeploymentAvailability dep s)"
  shows "status_ok s'" "ready_iff s'" "cond_status SinkProvided s' = cond_status SinkProvided (snd s)"
    "cond_status Deployed s' = deployed_after dep (cond_status Deployed (snd s))"
    "st_observedGeneration s' = st_observedGeneration (snd s)" "st_ceAttributes s' = st_ceAttributes (snd s)"
    "st_sinkURI s' = st_sinkURI (snd s)" "st_deploymentName s' = st_deploymentName (snd s)"
proof -
  consider (same) "s' = snd s" "deployed_after dep (cond_status Deployed (snd s)) = cond_status Deployed (snd s)"
    | (step) st where "lifecycle_step Deployed st (snd s) s'" "deployed_after dep (cond_status Deployed (snd s)) = Some st"
    using propagate_conditions_step [OF assms(1), of "dep_conditions dep"]
    by (auto simp: s'_def propagateDeploymentAvailability_def deployed_after_def available_status_def split: option.splits)
  note cases = this
  from cases show "status_ok s'" by cases (use assms in \<open>auto dest: lifecycle_step_ok\<close>)
  from cases show "ready_iff s'" by cases (use assms lifecycle_step_status(3) in \<open>auto simp: ready_iff_def\<close>)
  from cases show "cond_status SinkProvided s' = cond_status SinkProvided (snd s)"
    by cases (use lifecycle_step_status(2) [of Deployed _ "snd s" s' SinkProvided] in auto)
  from cases show "cond_status Deployed s' = deployed_after dep (cond_status Deployed (snd s))"
    by cases (auto dest: lifecycle_step_status(1))
  from cases show "st_observedGeneration s' = st_observedGeneration (snd s)" "st_ceAttributes s' = st_ceAttributes (snd s)"
    "st_sinkURI s' = st_sinkURI (snd s)" "st_deploymentName s' = st_deploymentName (snd s)"
    by (cases; simp add: status_frame)+
qed

lemma finish_reconcile_status:
  fixes src :: yipyap_source and w :: "kube_write list" and dep :: deployment
  assumes "status_ok (snd s)" "ready_iff (snd s)"
  defines "s' \<equiv> y_status (rk_src (finish_reconcile src s w dep))"
  shows "status_ok s'" "ready_iff s'" "cond_status SinkProvided s' = cond_status SinkProvided (snd s)"
    "cond_status Deployed s' = deployed_after dep (cond_status Deployed (snd s))"
    "st_observedGeneration s' = st_observedGeneration (snd s)" "st_ceAttributes s' = st_ceAttributes (snd s)"
    "st_sinkURI s' = st_sinkURI (snd s)" "st_deploymentName s' = om_name (dep_meta dep)"
  using propagate_status [of "(fst s, (snd s)\<lparr>st_deploymentName := om_name (dep_meta dep)\<rparr>)" dep] assms(1,2)
  by (simp_all add: s'_def finish_reconcile_def Let_def)

lemma MarkNotDeployed_status:
  fixes rsn msg :: string
  assumes "status_ok (snd s)"
  defines "s' \<equiv> snd (MarkNotDeployed rsn msg s)"
  shows "status_ok s'" "ready_iff s'" "cond_status SinkProvided s' = cond_status SinkProvided (snd s)"
    "cond_status Deployed s' = Some ConditionFalse" "st_observedGeneration s' = st_observedGeneration (snd s)"
    "st_ceAttributes s' = st_ceAttributes (snd s)" "st_sinkURI s' = st_sinkURI (snd s)"
    "st_deploymentName s' = st_deploymentName (snd s)"
proof -
  have step: "lifecycle_step Deployed ConditionFalse (snd s) s'"
    using lifecycle_calls(3) [OF assms(1)] by (simp add: s'_def)
  show "status_ok s'" using step by (rule lifecycle_step_ok)
  show "ready_iff s'" using lifecycle_step_status(3) [OF step] by (simp add: ready_iff_def)
  show "cond_status SinkProvided s' = cond_status SinkProvided (snd s)"
    using lifecycle_step_status(2) [OF step, of SinkProvided] by simp
  show "cond_status Deployed s' = Some ConditionFalse" using lifecycle_step_status(1) [OF step] .
  show "st_observedGeneration s' = st_observedGeneration (snd s)" "st_ceAttributes s' = st_ceAttributes (snd s)"
    "st_sinkURI s' = st_sinkURI (snd s)" "st_deploymentName s' = st_deploymentName (snd s)"
    by (rule lifecycle_step_frame [OF step])+
qed

lemma MarkSink_status:
  fixes clk :: clock and uri :: "url option"
  assumes "status_ok (y_status src)"
  defines "s' \<equiv> snd (MarkSink uri (start_reconcile clk src))"
  shows "status_ok s'" "ready_iff s'"
    "cond_status SinkProvided s' =
       Some (if uri \<noteq> None \<and> URL_String uri \<noteq> '''' then ConditionTrue else ConditionUnknown)"
    "cond_status Deployed s' = Some (initial_status Deployed (y_status src))"
    "st_observedGeneration s' = om_generation (y_meta src)" "st_ceAttributes s' = knownCloudEventAttributes"
    "st_sinkURI s' = uri"
proof -
  note start = start_reconcile_status [OF assms(1), where clk = clk]
  note step = MarkSink_step [OF start(1), of uri, folded s'_def]
  show "status_ok s'" using step by (rule lifecycle_step_ok)
  show "ready_iff s'" using lifecycle_step_status(3) [OF step] by (simp add: ready_iff_def)
  show "cond_status SinkProvided s' =
       Some (if uri \<noteq> None \<and> URL_String uri \<noteq> '''' then ConditionTrue else ConditionUnknown)"
    using lifecycle_step_status(1) [OF step] .
  show "cond_status Deployed s' = Some (initial_status Deployed (y_status src))"
    using lifecycle_step_status(2) [OF step, of Deployed] start(4) [of Deployed] by simp
  show "st_observedGeneration s' = om_generation (y_meta src)" "st_ceAttributes s' = knownCloudEventAttributes"
      "st_sinkURI s' = uri"
    using lifecycle_step_frame [OF step] start(2,3) by simp_all
qed

lemma MarkNoSink_status:
  fixes clk :: clock and e :: string
  assumes "status_ok (y_status src)"
  defines "s' \<equiv> snd (MarkNoSink ''NotFound'' e (start_reconcile clk src))"
  shows "status_ok s'" "ready_iff s'" "cond_status SinkProvided s' = Some ConditionFalse"
    "st_observedGeneration s' = om_generation (y_meta src)" "st_ceAttributes s' = knownCloudEventAttributes"
    "st_sinkURI s' = st_sinkURI (y_status src)"
proof -
  note start = start_reconcile_status [OF assms(1), where clk = clk]
  note step = lifecycle_calls(1) [OF start(1), of "''NotFound''" e, folded s'_def]
  show "status_ok s'" using step by (rule lifecycle_step_ok)
  show "ready_iff s'" using lifecycle_step_status(3) [OF step] by (simp add: ready_iff_def)
  show "cond_status SinkProvided s' = Some ConditionFalse" using lifecycle_step_status(1) [OF step] .
  show "st_observedGeneration s' = om_generation (y_meta src)" "st_ceAttributes s' = knownCloudEventAttributes"
      "st_sinkURI s' = st_sinkURI (y_status src)"
    using lifecycle_step_frame [OF step] start(2,3,5) by simp_all
qed

text \<open>
  What the second half of a reconciliation may do, given the rendered Deployment: the writes it makes,
  the event it returns and the Deployed status it reports.
\<close>

inductive deployment_outcome ::
  "reconciler \<Rightarrow> string \<Rightarrow> deployment \<Rightarrow> string option \<Rightarrow> kube_write list \<Rightarrow> reconcile_error option \<Rightarrow> string option \<Rightarrow> bool"
  for rc ns expected old
where
  created: "rc_get rc ns (om_name (dep_meta expected)) = GetNotFound \<Longrightarrow> rc_create rc ns expected = Inr dep \<Longrightarrow>
    deployment_outcome rc ns expected old [CreateDeployment ns expected] None (deployed_after dep old)"
| create_failed: "rc_get rc ns (om_name (dep_meta expected)) = GetNotFound \<Longrightarrow> rc_create rc ns expected = Inl e \<Longrightarrow>
    deployment_outcome rc ns expected old [CreateDeployment ns expected] (Some (CreateDeploymentFailed e)) (Some ConditionFalse)"
| get_failed: "rc_get rc ns (om_name (dep_meta expected)) = GetError e \<Longrightarrow>
    deployment_outcome rc ns expected old [] (Some (GetDeploymentFailed e)) old"
| unchanged: "rc_get rc ns (om_name (dep_meta expected)) = GetFound dep \<Longrightarrow>
    DeepEqual_template (dep_template expected) (dep_template dep) \<Longrightarrow> dep_replicas expected = dep_replicas dep \<Longrightarrow>
    deployment_outcome rc ns expected old [] None (deployed_after dep old)"
| updated: "rc_get rc ns (om_name (dep_meta expected)) = GetFound dep \<Longrightarrow>
    \<not> (DeepEqual_template (dep_template expected) (dep_template dep) \<and> dep_replicas expected = dep_replicas dep) \<Longrightarrow>
    dep' = dep\<lparr>dep_template := dep_template expected, dep_replicas := dep_replicas expected\<rparr> \<Longrightarrow>
    rc_update rc ns dep' = Inr dep'' \<Longrightarrow>
    deployment_outcome rc ns expected old [UpdateDeployment ns dep'] None (deployed_after dep'' old)"
| update_failed: "rc_get rc ns (om_name (dep_meta expected)) = GetFound dep \<Longrightarrow>
    \<not> (DeepEqual_template (dep_template expected) (dep_template dep) \<and> dep_replicas expected = dep_replicas dep) \<Longrightarrow>
    dep' = dep\<lparr>dep_template := dep_template expected, dep_replicas := dep_replicas expected\<rparr> \<Longrightarrow>
    rc_update rc ns dep' = Inl e \<Longrightarrow>
    deployment_outcome rc ns expected old [UpdateDeployment ns dep'] (Some (UpdateDeploymentFailed e)) (Some ConditionFalse)"

inductive_cases deployment_outcomeE: "deployment_outcome rc ns expected old ws ev st"

lemma fail_reconcile_simps [simp]:
  "y_status (rk_src (fail_reconcile src s ws e)) = snd s" "rk_writes (fail_reconcile src s ws e) = ws"
  "rk_event (fail_reconcile src s ws e) = Some e" "y_meta (rk_src (fail_reconcile src s ws e)) = y_meta src"
  "y_spec (rk_src (fail_reconcile src s ws e)) = y_spec src"
  by (simp_all add: fail_reconcile_def)

lemma finish_reconcile_simps [simp]:
  "rk_writes (finish_reconcile src s ws dep) = ws" "rk_event (finish_reconcile src s ws dep) = None"
  "y_meta (rk_src (finish_reconcile src s ws dep)) = y_meta src" "y_spec (rk_src (finish_reconcile src s ws dep)) = y_spec src"
  by (simp_all add: finish_reconcile_def Let_def)

lemma reconcile_deployment_outcome:
  fixes rc :: reconciler and src :: yipyap_source and expected :: deployment
  assumes "status_ok (snd s)" "ready_iff (snd s)" "cond_status Deployed (snd s) = old"
  defines "x \<equiv> reconcile_deployment rc src s expected"
  shows "deployment_outcome rc (om_namespace (y_meta src)) expected old (rk_writes x) (rk_event x)
    (cond_status Deployed (y_status (rk_src x)))"
  unfolding x_def reconcile_deployment_def Let_def
  using assms(3)
  by (auto simp: finish_reconcile_status [OF assms(1,2)] MarkNotDeployed_status [OF assms(1)]
      intro: deployment_outcome.intros split: api_get.split sum.split)

lemma reconcile_deployment_status:
  fixes rc :: reconciler and src :: yipyap_source and expected :: deployment
  assumes "status_ok (snd s)" "ready_iff (snd s)"
  defines "x \<equiv> reconcile_deployment rc src s expected"
  shows "status_ok (y_status (rk_src x))" "ready_iff (y_status (rk_src x))"
    "cond_status SinkProvided (y_status (rk_src x)) = cond_status SinkProvided (snd s)"
    "st_observedGeneration (y_status (rk_src x)) = st_observedGeneration (snd s)"
    "st_ceAttributes (y_status (rk_src x)) = st_ceAttributes (snd s)"
    "st_sinkURI (y_status (rk_src x)) = st_sinkURI (snd s)"
    "y_meta (rk_src x) = y_meta src" "y_spec (rk_src x) = y_spec src"
  unfolding x_def reconcile_deployment_def Let_def
  by (auto simp: finish_reconcile_status [OF assms(1,2)] MarkNotDeployed_status [OF assms(1)] assms(1,2)
      split: api_get.split sum.split)

text \<open>A reconciliation never panics; it ends in one of two ways.\<close>

lemma ReconcileKind_cases:
  assumes ok: "status_ok (y_status src)"
  obtains (no_sink) x e where "ReconcileKind rc clk src = Some x" "snd (rc_resolve rc (sink_destination src)) = Inl e"
      "rk_writes x = []" "rk_event x = Some (ResolveSink e)"
      "cond_status SinkProvided (y_status (rk_src x)) = Some ConditionFalse"
      "st_sinkURI (y_status (rk_src x)) = st_sinkURI (y_status src)"
      "status_ok (y_status (rk_src x))" "ready_iff (y_status (rk_src x))"
      "st_observedGeneration (y_status (rk_src x)) = om_generation (y_meta src)"
      "st_ceAttributes (y_status (rk_src x)) = knownCloudEventAttributes"
      "y_meta (rk_src x) = y_meta src" "y_spec (rk_src x) = y_spec src"
  | (sink) x uri expected where "ReconcileKind rc clk src = Some x" "snd (rc_resolve rc (sink_destination src)) = Inr uri"
      "MakeAdapterDeployment src uri (rc_adapterImage rc) = Some expected"
      "deployment_outcome rc (om_namespace (y_meta src)) expected (Some (initial_status Deployed (y_status src)))
         (rk_writes x) (rk_event x) (cond_status Deployed (y_status (rk_src x)))"
      "cond_status SinkProvided (y_status (rk_src x)) =
         Some (if uri \<noteq> None \<and> URL_String uri \<noteq> '''' then ConditionTrue else ConditionUnknown)"
      "st_sinkURI (y_status (rk_src x)) = uri"
      "status_ok (y_status (rk_src x))" "ready_iff (y_status (rk_src x))"
      "st_observedGeneration (y_status (rk_src x)) = om_generation (y_meta src)"
      "st_ceAttributes (y_status (rk_src x)) = knownCloudEventAttributes"
      "y_meta (rk_src x) = y_meta src" "y_spec (rk_src x) = y_spec src"
proof (cases "snd (rc_resolve rc (sink_destination src))")
  case (Inl e)
  show ?thesis
    by (rule no_sink [of "fail_reconcile src (MarkNoSink ''NotFound'' e (start_reconcile clk src)) [] (ResolveSink e)" e])
       (simp_all add: ReconcileKind_def Inl MarkNoSink_status [OF ok])
next
  case (Inr uri)
  note sink_status = MarkSink_status [OF ok, where clk = clk and uri = uri]
  obtain expected where e: "MakeAdapterDeployment src uri (rc_adapterImage rc) = Some expected"
    by (rule MakeAdapterDeployment_total)
  show ?thesis
    by (rule sink [of "reconcile_deployment rc src (MarkSink uri (start_reconcile clk src)) expected" uri expected])
       (simp_all add: ReconcileKind_def Inr e reconcile_deployment_status [OF sink_status(1,2)]
         reconcile_deployment_outcome [OF sink_status(1,2,4)] sink_status)
qed

subsection \<open>A server that stores what it is given\<close>

type_synonym deployment_store = "string \<times> string \<Rightarrow> deployment option"

definition store_reconciler ::
  "(destination \<Rightarrow> kreference list \<times> (string + url option)) \<Rightarrow> string \<Rightarrow> deployment_store \<Rightarrow> reconciler" where
  "store_reconciler resolve img st =
     \<lparr>rc_resolve = resolve,
      rc_get = (\<lambda>ns n. case st (ns, n) of None \<Rightarrow> GetNotFound | Some d \<Rightarrow> GetFound d),
      rc_create = (\<lambda>ns d. Inr d), rc_update = (\<lambda>ns d. Inr d), rc_adapterImage = img\<rparr>"

fun apply_write :: "kube_write \<Rightarrow> deployment_store \<Rightarrow> deployment_store" where
  "apply_write (CreateDeployment ns d) st = st((ns, om_name (dep_meta d)) \<mapsto> d)"
| "apply_write (UpdateDeployment ns d) st = st((ns, om_name (dep_meta d)) \<mapsto> d)"

definition keyed :: "deployment_store \<Rightarrow> bool" where
  "keyed st \<longleftrightarrow> (\<forall>ns n d. st (ns, n) = Some d \<longrightarrow> om_name (dep_meta d) = n)"

lemma DeepEqual_template_refl [simp]: "DeepEqual_template t t"
  by (simp add: DeepEqual_template_def same_map_def list_all_iff)

text \<open>After the writes, the Deployment under the expected name has the expected template and replicas.\<close>

definition settled :: "deployment_store \<Rightarrow> string \<Rightarrow> deployment \<Rightarrow> bool" where
  "settled st ns expected \<longleftrightarrow>
     (\<exists>d. st (ns, om_name (dep_meta expected)) = Some d \<and>
        DeepEqual_template (dep_template expected) (dep_template d) \<and> dep_replicas expected = dep_replicas d)"

lemma store_reconciler_simps [simp]:
  "rc_get (store_reconciler resolve img st) ns n = GetFound d \<longleftrightarrow> st (ns, n) = Some d"
  "rc_get (store_reconciler resolve img st) ns n = GetNotFound \<longleftrightarrow> st (ns, n) = None"
  "rc_get (store_reconciler resolve img st) ns n \<noteq> GetError e"
  "rc_create (store_reconciler resolve img st) ns d = Inr d" "rc_update (store_reconciler resolve img st) ns d = Inr d"
  "rc_resolve (store_reconciler resolve img st) = resolve" "rc_adapterImage (store_reconciler resolve img st) = img"
  by (simp_all add: store_reconciler_def split: option.split)

lemma outcome_settles:
  assumes "deployment_outcome (store_reconciler resolve img st) ns expected old ws ev s" "keyed st"
  shows "ev = None \<and> settled (fold apply_write ws st) ns expected"
  using assms(1)
proof (cases rule: deployment_outcome.cases)
  case (updated dep dep' dep'')
  have "om_name (dep_meta dep') = om_name (dep_meta dep)" using updated by (auto dest: sym)
  also have "\<dots> = om_name (dep_meta expected)" using updated assms(2) by (simp add: keyed_def)
  finally show ?thesis using updated by (auto simp: settled_def)
qed (auto simp: settled_def)

lemma settled_no_writes:
  assumes "deployment_outcome (store_reconciler resolve img st) ns expected old ws ev s" "settled st ns expected"
  shows "ws = [] \<and> ev = None"
  using assms by (cases rule: deployment_outcome.cases) (auto simp: settled_def)

subsection \<open>Properties\<close>

text \<open>A concrete source, sink and resolver, for the witnesses.\<close>

definition demo_meta :: object_meta where
  "demo_meta = \<lparr>om_name = ''alerts'', om_namespace = ''ops'', om_uid = ''8c1f'', om_resourceVersion = ''7'', om_generation = 3,
     om_deletionTimestamp = None, om_labels = [], om_annotations = [], om_ownerReferences = [], om_finalizers = []\<rparr>"

definition demo_url :: url where
  "demo_url = empty_url\<lparr>u_scheme := ''http'', u_host := ''broker.ops.svc''\<rparr>"

definition demo_spec :: source_spec where
  "demo_spec = \<lparr>sp_sink = \<lparr>d_ref = None, d_uri = Some demo_url, d_CACerts = None, d_audience = None\<rparr>,
     sp_ceOverrides = Some [(''env'', ''prod'')], sp_apiKeyRef = \<lparr>ak_name = ''yipyap'', ak_key = ''api-key''\<rparr>,
     sp_baseURL = ''https://console.yipyap.run'',
     sp_filter = Some \<lparr>f_types = [''run.yipyap.alert.*''], f_monitorIDs = [], f_severities = []\<rparr>,
     sp_mode = ''poll'', sp_serviceAccountName = ''''\<rparr>"

definition empty_status :: source_status where
  "empty_status = \<lparr>st_observedGeneration = 0, st_conditions = [], st_annotations = [], st_sinkURI = None, st_ceAttributes = [],
     st_sinkCACerts = None, st_sinkAudience = None, st_auth = None, st_deploymentName = '''', st_lastEventTime = None,
     st_eventCount = 0\<rparr>"

definition demo_src :: yipyap_source where
  "demo_src = \<lparr>y_meta = demo_meta, y_spec = demo_spec, y_status = empty_status\<rparr>"

lemma empty_status_ok [simp]: "status_ok empty_status"
  by (simp add: status_ok_def managed_ok_def empty_status_def)

lemma demo_src_status [simp]: "y_status demo_src = empty_status" "y_meta demo_src = demo_meta" "y_spec demo_src = demo_spec"
  by (simp_all add: demo_src_def)

definition demo_resolve :: "destination \<Rightarrow> kreference list \<times> (string + url option)" where
  "demo_resolve = resolve_text (\<lambda>_. ''unresolved'')
     (NewURIResolverFromTracker (\<lambda>_. None) (\<lambda>_ _. None) (\<lambda>_. Inl ''not found'') ''cluster.local'')"

lemma demo_resolves: "demo_resolve (sink_destination demo_src) = ([], Inr (Some demo_url))"
  by (simp add: demo_resolve_def resolve_text_def URIFromDestinationV1_def AddressableFromDestinationV1_def
      sink_destination_def demo_spec_def demo_url_def empty_url_def IsAbs_def)

text \<open>
  C4: Reconciling a source whose condition list is well formed always ends (no panic) and leaves a
  well-formed status in which Ready is True exactly when SinkProvided and Deployed are both True; the
  observed generation is the object's generation, the advertised event types are the known ones, and
  neither metadata nor spec is touched.
\<close>
theorem reconcile_status:
  assumes "status_ok (y_status src)"
  shows "\<exists>x. ReconcileKind rc clk src = Some x \<and> status_ok (y_status (rk_src x)) \<and>
    (IsReady (y_status (rk_src x)) \<longleftrightarrow>
       cond_status SinkProvided (y_status (rk_src x)) = Some ConditionTrue \<and>
       cond_status Deployed (y_status (rk_src x)) = Some ConditionTrue) \<and>
    st_observedGeneration (y_status (rk_src x)) = om_generation (y_meta src) \<and>
    st_ceAttributes (y_status (rk_src x)) = knownCloudEventAttributes \<and>
    y_meta (rk_src x) = y_meta src \<and> y_spec (rk_src x) = y_spec src"
  by (rule ReconcileKind_cases [OF assms, of rc clk]) (auto simp: ready_iff_def)

theorem reconcile_status_witness:
  "\<exists>x. ReconcileKind (store_reconciler demo_resolve ''img'' (\<lambda>_. None)) (\<lambda>n. int n) demo_src = Some x \<and>
     st_observedGeneration (y_status (rk_src x)) = 3"
  using reconcile_status [of demo_src "store_reconciler demo_resolve ''img'' (\<lambda>_. None)" "\<lambda>n. int n"]
  by (auto simp: demo_meta_def)

text \<open>
  C6: When the sink resolves, the writes, the returned event and the Deployed status of a reconciliation
  are those of the abstract outcome relation: one Create exactly when the Deployment is not found, one
  Update (of template and replicas only) exactly when it is found and differs, nothing otherwise; a failed
  write is returned and marks Deployed False; a failed read is returned and leaves Deployed alone; success
  takes Deployed from the Available condition of the Deployment the server returned.
\<close>
theorem reconcile_refines_outcome:
  assumes "status_ok (y_status src)" "snd (rc_resolve rc (sink_destination src)) = Inr uri"
    and "ReconcileKind rc clk src = Some x"
  shows "\<exists>expected. MakeAdapterDeployment src uri (rc_adapterImage rc) = Some expected \<and>
    deployment_outcome rc (om_namespace (y_meta src)) expected (Some (initial_status Deployed (y_status src)))
      (rk_writes x) (rk_event x) (cond_status Deployed (y_status (rk_src x)))"
  by (rule ReconcileKind_cases [OF assms(1), of rc clk]) (use assms in auto)

theorem reconcile_refines_outcome_witness:
  "\<exists>x expected. ReconcileKind (store_reconciler demo_resolve ''img'' (\<lambda>_. None)) (\<lambda>n. int n) demo_src = Some x \<and>
     MakeAdapterDeployment demo_src (Some demo_url) ''img'' = Some expected \<and>
     rk_writes x = [CreateDeployment ''ops'' expected]"
proof -
  let ?rc = "store_reconciler demo_resolve ''img'' (\<lambda>_. None)"
  obtain x where x: "ReconcileKind ?rc (\<lambda>n. int n) demo_src = Some x"
    by (rule ReconcileKind_cases [of demo_src ?rc "\<lambda>n. int n"]) auto
  from reconcile_refines_outcome [of demo_src ?rc "Some demo_url" "\<lambda>n. int n" x] x
  obtain e where e: "MakeAdapterDeployment demo_src (Some demo_url) ''img'' = Some e"
    "deployment_outcome ?rc ''ops'' e (Some (initial_status Deployed empty_status)) (rk_writes x) (rk_event x)
       (cond_status Deployed (y_status (rk_src x)))"
    by (auto simp: demo_resolves demo_meta_def)
  from e(2) have "rk_writes x = [CreateDeployment ''ops'' e]" by cases auto
  with x e(1) show ?thesis by blast
qed

text \<open>
  When the sink does not resolve, nothing is written, the resolver's error is returned, SinkProvided
  is False and the source is not Ready.
\<close>
theorem reconcile_no_sink:
  assumes "status_ok (y_status src)" "snd (rc_resolve rc (sink_destination src)) = Inl e"
  shows "\<exists>x. ReconcileKind rc clk src = Some x \<and> rk_writes x = [] \<and> rk_event x = Some (ResolveSink e) \<and>
    cond_status SinkProvided (y_status (rk_src x)) = Some ConditionFalse \<and> \<not> IsReady (y_status (rk_src x))"
  by (rule ReconcileKind_cases [OF assms(1), of rc clk]) (use assms(2) in \<open>auto simp: ready_iff_def\<close>)

theorem reconcile_no_sink_witness:
  "\<exists>x. ReconcileKind (store_reconciler (\<lambda>_. ([], Inl ''gone'')) ''img'' (\<lambda>_. None)) (\<lambda>n. int n) demo_src = Some x \<and>
     rk_event x = Some (ResolveSink ''gone'')"
  using reconcile_no_sink [of demo_src "store_reconciler (\<lambda>_. ([], Inl ''gone'')) ''img'' (\<lambda>_. None)" "''gone''" "\<lambda>n. int n"]
  by auto

text \<open>
  C21: With the resolver the controller builds, a reconciliation that returns no error has marked the sink:
  SinkProvided is True, the status carries the resolved URI, and the source is Ready exactly when Deployed
  is True.
\<close>
theorem reconcile_sink_provided:
  assumes "status_ok (y_status src)" "ReconcileKind rc clk src = Some x" "rk_event x = None"
    and "rc_resolve rc = resolve_text err_text (NewURIResolverFromTracker track listers get domain)"
  shows "cond_status SinkProvided (y_status (rk_src x)) = Some ConditionTrue \<and>
    snd (rc_resolve rc (sink_destination src)) = Inr (st_sinkURI (y_status (rk_src x))) \<and>
    (IsReady (y_status (rk_src x)) \<longleftrightarrow> cond_status Deployed (y_status (rk_src x)) = Some ConditionTrue)"
proof (rule ReconcileKind_cases [OF assms(1), of rc clk])
  fix y uri expected
  assume y: "ReconcileKind rc clk src = Some y" "snd (rc_resolve rc (sink_destination src)) = Inr uri"
    "cond_status SinkProvided (y_status (rk_src y)) =
       Some (if uri \<noteq> None \<and> URL_String uri \<noteq> '''' then ConditionTrue else ConditionUnknown)"
    "st_sinkURI (y_status (rk_src y)) = uri" "ready_iff (y_status (rk_src y))"
  obtain ts where "rc_resolve rc (sink_destination src) = (ts, Inr uri)"
    using y(2) by (cases "rc_resolve rc (sink_destination src)") simp
  then have "uri \<noteq> None \<and> URL_String uri \<noteq> ''''"
    using uri.resolved_prints [of err_text track listers get domain "sink_destination src" ts uri] assms(4) by simp
  with y assms(2) show ?thesis by (auto simp: ready_iff_def)
qed (use assms in auto)

theorem reconcile_sink_provided_witness:
  "\<exists>x. ReconcileKind (store_reconciler demo_resolve ''img'' (\<lambda>_. None)) (\<lambda>n. int n) demo_src = Some x \<and>
     cond_status SinkProvided (y_status (rk_src x)) = Some ConditionTrue"
proof -
  let ?rc = "store_reconciler demo_resolve ''img'' (\<lambda>_. None)"
  obtain x e where x: "ReconcileKind ?rc (\<lambda>n. int n) demo_src = Some x"
    and o: "deployment_outcome ?rc ''ops'' e (Some (initial_status Deployed empty_status)) (rk_writes x) (rk_event x)
       (cond_status Deployed (y_status (rk_src x)))"
    by (rule ReconcileKind_cases [of demo_src ?rc "\<lambda>n. int n"]) (auto simp: demo_resolves demo_meta_def)
  from o have "rk_event x = None" by cases auto
  with reconcile_sink_provided [OF _ x] x show ?thesis by (auto simp: demo_resolve_def)
qed

text \<open>
  Against a server that stores Deployments as it is given them, reconciling settles: the first
  reconciliation returns no error and leaves the expected template and replicas in the store, and a
  second one of the same source, whatever its status and clock, writes nothing.
\<close>
theorem reconcile_converges:
  assumes "status_ok (y_status src)" "status_ok (y_status src')" "keyed st"
    and "y_meta src' = y_meta src" "y_spec src' = y_spec src"
    and "snd (resolve (sink_destination src)) = Inr uri"
    and "ReconcileKind (store_reconciler resolve img st) clk src = Some x"
    and "ReconcileKind (store_reconciler resolve img (fold apply_write (rk_writes x) st)) clk' src' = Some y"
  shows "rk_event x = None \<and> rk_writes y = [] \<and> rk_event y = None"
proof -
  have same: "sink_destination src' = sink_destination src" "MakeAdapterDeployment src' uri img = MakeAdapterDeployment src uri img"
    by (simp_all only: sink_destination_def MakeAdapterDeployment_def Labels_def adapter_pod_spec_def adapter_env_def assms(4,5))
  obtain e where e: "MakeAdapterDeployment src uri img = Some e"
    and o: "deployment_outcome (store_reconciler resolve img st) (om_namespace (y_meta src)) e
      (Some (initial_status Deployed (y_status src))) (rk_writes x) (rk_event x) (cond_status Deployed (y_status (rk_src x)))"
    by (rule ReconcileKind_cases [OF assms(1), of "store_reconciler resolve img st" clk]) (use assms(6,7) in auto)
  let ?st = "fold apply_write (rk_writes x) st"
  have settled: "rk_event x = None" "settled ?st (om_namespace (y_meta src)) e"
    using outcome_settles [OF o assms(3)] by auto
  have "deployment_outcome (store_reconciler resolve img ?st) (om_namespace (y_meta src)) e
      (Some (initial_status Deployed (y_status src'))) (rk_writes y) (rk_event y) (cond_status Deployed (y_status (rk_src y)))"
    by (rule ReconcileKind_cases [OF assms(2), of "store_reconciler resolve img ?st" clk'])
       (use assms(4-6,8) same e in auto)
  with settled settled_no_writes show ?thesis by blast
qed

theorem reconcile_converges_witness:
  "\<exists>x y. ReconcileKind (store_reconciler demo_resolve ''img'' (\<lambda>_. None)) (\<lambda>n. int n) demo_src = Some x \<and>
     ReconcileKind (store_reconciler demo_resolve ''img'' (fold apply_write (rk_writes x) (\<lambda>_. None))) (\<lambda>n. 0) demo_src = Some y \<and>
     rk_writes y = []"
proof -
  obtain x where x: "ReconcileKind (store_reconciler demo_resolve ''img'' (\<lambda>_. None)) (\<lambda>n. int n) demo_src = Some x"
    by (rule ReconcileKind_cases [of demo_src "store_reconciler demo_resolve ''img'' (\<lambda>_. None)" "\<lambda>n. int n"]) auto
  let ?rc = "store_reconciler demo_resolve ''img'' (fold apply_write (rk_writes x) (\<lambda>_. None))"
  obtain y where y: "ReconcileKind ?rc (\<lambda>n. 0) demo_src = Some y"
    by (rule ReconcileKind_cases [of demo_src ?rc "\<lambda>n. 0"]) auto
  from reconcile_converges [OF _ _ _ _ _ _ x y] x y show ?thesis
    by (auto simp: demo_resolves keyed_def)
qed

text \<open>
  The Deployed condition keeps its value when the Deployment carries no Available condition: a source
  that was Deployed stays Ready, also if its Deployment has just been created anew.
\<close>
theorem reconcile_keeps_stale_ready:
  assumes "status_ok (y_status src)" "cond_status Deployed (y_status src) = Some ConditionTrue"
    and "snd (rc_resolve rc (sink_destination src)) = Inr (Some u)" "url_String u \<noteq> ''''"
    and "MakeAdapterDeployment src (Some u) (rc_adapterImage rc) = Some expected"
    and "rc_get rc (om_namespace (y_meta src)) (om_name (dep_meta expected)) = GetNotFound"
    and "rc_create rc (om_namespace (y_meta src)) expected = Inr expected"
  shows "\<exists>x. ReconcileKind rc clk src = Some x \<and> rk_writes x = [CreateDeployment (om_namespace (y_meta src)) expected] \<and>
    available_status expected = None \<and> IsReady (y_status (rk_src x))"
proof -
  have none: "available_status expected = None"
    using MakeAdapterDeployment_fields(6) [OF assms(5)] by (simp add: available_status_def)
  have init: "initial_status Deployed (y_status src) = ConditionTrue"
    using assms(2) by (simp add: initial_status_def)
  show ?thesis
  proof (rule ReconcileKind_cases [OF assms(1), of rc clk])
    fix x uri e
    assume x: "ReconcileKind rc clk src = Some x" "snd (rc_resolve rc (sink_destination src)) = Inr uri"
      "MakeAdapterDeployment src uri (rc_adapterImage rc) = Some e"
      "deployment_outcome rc (om_namespace (y_meta src)) e (Some (initial_status Deployed (y_status src)))
         (rk_writes x) (rk_event x) (cond_status Deployed (y_status (rk_src x)))"
      "cond_status SinkProvided (y_status (rk_src x)) =
         Some (if uri \<noteq> None \<and> URL_String uri \<noteq> '''' then ConditionTrue else ConditionUnknown)"
      "ready_iff (y_status (rk_src x))"
    from x(2,3) assms(3,5) have e: "uri = Some u" "e = expected" by auto
    from x(4) have "rk_writes x = [CreateDeployment (om_namespace (y_meta src)) expected] \<and>
        cond_status Deployed (y_status (rk_src x)) = Some ConditionTrue"
      by cases (use e assms(6,7) none init in \<open>auto simp: deployed_after_def\<close>)
    with x e assms(4) none show ?thesis by (auto simp: ready_iff_def)
  qed (use assms in auto)
qed

definition ready_src :: yipyap_source where
  "ready_src = demo_src\<lparr>y_status := empty_status\<lparr>st_conditions :=
     [mk_condition SinkProvided ConditionTrue ConditionSeverityError '''' '''',
      mk_condition Deployed ConditionTrue ConditionSeverityError '''' '''',
      mk_condition ConditionReady ConditionTrue ConditionSeverityError '''' '''']\<rparr>\<rparr>"

theorem reconcile_keeps_stale_ready_witness:
  "\<exists>x. ReconcileKind (store_reconciler demo_resolve ''img'' (\<lambda>_. None)) (\<lambda>n. int n) ready_src = Some x \<and>
     IsReady (y_status (rk_src x))"
proof -
  let ?rc = "store_reconciler demo_resolve ''img'' (\<lambda>_. None)"
  have ok: "status_ok (y_status ready_src)" "cond_status Deployed (y_status ready_src) = Some ConditionTrue"
    by (simp_all add: ready_src_def status_ok_def managed_ok_def cond_status_def status_of_def GetCondition_def
        mk_condition_def cond_type_defs)
  have r: "snd (rc_resolve ?rc (sink_destination ready_src)) = Inr (Some demo_url)"
    using demo_resolves by (simp add: ready_src_def sink_destination_def demo_spec_def)
  obtain e where "MakeAdapterDeployment ready_src (Some demo_url) (rc_adapterImage ?rc) = Some e"
    by (rule MakeAdapterDeployment_total)
  from reconcile_keeps_stale_ready [OF ok r _ this, of "\<lambda>n. int n"] show ?thesis
    by (auto simp: url_String_nonempty demo_url_def)
qed

text \<open>
  A Deployment whose stored template has any field the renderer does not set, such as the defaults an
  API server fills in, is updated by every reconciliation: the comparison with the rendered template fails
  and is not healed by the update when the server fills the defaults in again.
\<close>
theorem reconcile_updates_defaulted:
  assumes "status_ok (y_status src)" "snd (rc_resolve rc (sink_destination src)) = Inr uri"
    and "MakeAdapterDeployment src uri (rc_adapterImage rc) = Some expected"
    and "rc_get rc (om_namespace (y_meta src)) (om_name (dep_meta expected)) = GetFound dep"
    and "pt_other (dep_template dep) \<noteq> None"
  shows "\<exists>x. ReconcileKind rc clk src = Some x \<and>
    rk_writes x = [UpdateDeployment (om_namespace (y_meta src))
      (dep\<lparr>dep_template := dep_template expected, dep_replicas := dep_replicas expected\<rparr>)]"
proof -
  have differ: "\<not> DeepEqual_template (dep_template expected) (dep_template dep)"
    using MakeAdapterDeployment_fields(3) [OF assms(3)] assms(5) by (auto simp: DeepEqual_template_def)
  show ?thesis
  proof (rule ReconcileKind_cases [OF assms(1), of rc clk])
    fix x uri' e
    assume x: "ReconcileKind rc clk src = Some x" "snd (rc_resolve rc (sink_destination src)) = Inr uri'"
      "MakeAdapterDeployment src uri' (rc_adapterImage rc) = Some e"
      "deployment_outcome rc (om_namespace (y_meta src)) e (Some (initial_status Deployed (y_status src)))
         (rk_writes x) (rk_event x) (cond_status Deployed (y_status (rk_src x)))"
    then have e: "e = expected" using assms(2,3) by simp
    from x(4) show ?thesis by cases (use e x(1) assms(4) differ in auto)
  qed (use assms in auto)
qed

theorem reconcile_updates_defaulted_witness:
  "\<exists>e x. MakeAdapterDeployment demo_src (Some demo_url) ''img'' = Some e \<and>
     ReconcileKind (store_reconciler demo_resolve ''img''
        (\<lambda>_. Some (e\<lparr>dep_template := (dep_template e)\<lparr>pt_other := Some ''dnsPolicy: ClusterFirst''\<rparr>\<rparr>))) (\<lambda>n. int n) demo_src = Some x \<and>
     rk_writes x \<noteq> []"
proof -
  obtain e where e: "MakeAdapterDeployment demo_src (Some demo_url) ''img'' = Some e"
    by (rule MakeAdapterDeployment_total)
  let ?d = "e\<lparr>dep_template := (dep_template e)\<lparr>pt_other := Some ''dnsPolicy: ClusterFirst''\<rparr>\<rparr>"
  let ?rc = "store_reconciler demo_resolve ''img'' (\<lambda>_. Some ?d)"
  have "\<exists>x. ReconcileKind ?rc (\<lambda>n. int n) demo_src = Some x \<and> rk_writes x \<noteq> []"
    using reconcile_updates_defaulted [of demo_src ?rc "Some demo_url" e ?d "\<lambda>n. int n"] e
    by (auto simp: demo_resolves)
  with e show ?thesis by blast
qed

end
