(* ===== verification/Field_Errors.thy ===== *)
theory Field_Errors
  imports Prelude
begin

text \<open>
  \<open>apis.FieldError\<close> of \<open>vendor/knative.dev/pkg/apis/field_error.go\<close>: a tree of diagnostics that
  validation builds with \<open>Also\<close> and \<open>ViaField\<close>. A nil pointer is \<open>None\<close>. The laws say that, seen as
  the flat list \<open>normalized\<close> returns, \<open>Also\<close> appends and \<open>ViaField\<close> prefixes every path.
\<close>

datatype diagnostic_level = ErrorLevel | WarningLevel

datatype field_error =
  FieldError (fe_message: string) (fe_paths: "string list") (fe_level: diagnostic_level)
    (fe_details: string) (fe_errors: "field_error list")

fun fe_isEmpty :: "field_error option \<Rightarrow> bool" where
  "fe_isEmpty None = True"
| "fe_isEmpty (Some fe) = (fe_message fe = '''' \<and> fe_details fe = '''' \<and> fe_errors fe = [] \<and> fe_paths fe = [])"

definition Also :: "field_error option \<Rightarrow> field_error option list \<Rightarrow> field_error option" where
  "Also fe errs =
     (if errs = [] \<or> (length errs = 1 \<and> fe_isEmpty (hd errs)) then fe
      else
        let newErr = (if \<not> fe_isEmpty fe then the fe else FieldError '''' [] ErrorLevel '''' []);
            collected = map the (filter (\<lambda>e. \<not> fe_isEmpty e) errs);
            newErr' = FieldError (fe_message newErr) (fe_paths newErr) (fe_level newErr) (fe_details newErr)
                        (fe_errors newErr @ collected)
        in if fe_isEmpty (Some newErr') then None else Some newErr')"

definition isIndex :: "string \<Rightarrow> bool" where
  "isIndex part \<longleftrightarrow> has_prefix part ''['' \<and> has_suffix part '']''"

definition flatten_step :: "string list \<Rightarrow> string \<Rightarrow> string list" where
  "flatten_step newPath p =
     (if p = '''' then newPath
      else if newPath \<noteq> [] \<and> isIndex p then butlast newPath @ [last newPath @ p]
      else newPath @ [p])"

definition flatten :: "string list \<Rightarrow> string" where
  "flatten path = join_with ''.'' (foldl flatten_step [] (concat (map (split_on (CHR ''.'')) path)))"

fun via_field :: "string list \<Rightarrow> field_error \<Rightarrow> field_error option" where
  "via_field pre (FieldError m ps l d es) =
     foldl (\<lambda>newErr e. Also newErr [e])
       (Some (FieldError m (map (\<lambda>p. flatten (pre @ [p])) ps) l d []))
       (map (via_field pre) es)"

fun ViaField :: "string list \<Rightarrow> field_error option \<Rightarrow> field_error option" where
  "ViaField pre None = None"
| "ViaField pre (Some fe) = via_field pre fe"

fun normalized :: "field_error \<Rightarrow> field_error list" where
  "normalized (FieldError m ps l d es) =
     (if m \<noteq> '''' then [FieldError m ps l d []] else []) @ concat (map normalized es)"

fun fe_normalized :: "field_error option \<Rightarrow> field_error list" where
  "fe_normalized None = []"
| "fe_normalized (Some fe) = normalized fe"

subsection \<open>Constructors\<close>

definition ErrMissingField :: "string \<Rightarrow> field_error option" where
  "ErrMissingField path = Some (FieldError ''missing field(s)'' [path] ErrorLevel '''' [])"

definition ErrDisallowedFields :: "string \<Rightarrow> field_error option" where
  "ErrDisallowedFields path = Some (FieldError ''must not set the field(s)'' [path] ErrorLevel '''' [])"

definition ErrInvalidValue :: "string \<Rightarrow> string \<Rightarrow> field_error option" where
  "ErrInvalidValue v path = Some (FieldError (''invalid value: '' @ v) [path] ErrorLevel '''' [])"

definition ErrGeneric :: "string \<Rightarrow> string list \<Rightarrow> field_error option" where
  "ErrGeneric diagnostic paths = Some (FieldError diagnostic paths ErrorLevel '''' [])"

lemmas err_defs = ErrMissingField_def ErrDisallowedFields_def ErrInvalidValue_def ErrGeneric_def

subsection \<open>Laws\<close>

text \<open>The diagnostics of an error: message and paths of each leaf, in order.\<close>

definition diags :: "field_error option \<Rightarrow> (string \<times> string list) list" where
  "diags fe = map (\<lambda>e. (fe_message e, fe_paths e)) (fe_normalized fe)"

lemma fe_isEmpty_normalized: "fe_isEmpty fe \<Longrightarrow> fe_normalized fe = []"
  by (cases fe; cases "the fe") auto

lemma concat_collected:
  "concat (map normalized (map the (filter (\<lambda>e. \<not> fe_isEmpty e) errs))) = concat (map fe_normalized errs)"
proof (induction errs)
  case (Cons e errs)
  then show ?case using fe_isEmpty_normalized [of e] by (cases e) auto
qed simp

lemma normalized_Also: "fe_normalized (Also fe errs) = fe_normalized fe @ concat (map fe_normalized errs)"
proof (cases "errs = [] \<or> (length errs = 1 \<and> fe_isEmpty (hd errs))")
  case True
  then show ?thesis by (cases errs) (auto simp: Also_def fe_isEmpty_normalized)
next
  case False
  define newErr where "newErr = (if \<not> fe_isEmpty fe then the fe else FieldError '''' [] ErrorLevel '''' [])"
  have n: "normalized newErr = fe_normalized fe"
    using fe_isEmpty_normalized [of fe] by (cases fe) (auto simp: newErr_def)
  define newErr' where "newErr' = FieldError (fe_message newErr) (fe_paths newErr) (fe_level newErr)
      (fe_details newErr) (fe_errors newErr @ map the (filter (\<lambda>e. \<not> fe_isEmpty e) errs))"
  have "normalized newErr' = normalized newErr @ concat (map fe_normalized errs)"
    using concat_collected [of errs] by (cases newErr) (simp add: newErr'_def)
  moreover have "Also fe errs = (if fe_isEmpty (Some newErr') then None else Some newErr')"
    unfolding Also_def if_not_P [OF False] Let_def newErr'_def newErr_def by (rule refl)
  ultimately show ?thesis
    using n fe_isEmpty_normalized [of "Some newErr'"] by (auto split: if_splits)
qed

lemma normalized_foldl_Also:
  "fe_normalized (foldl (\<lambda>acc e. Also acc [e]) fe es) = fe_normalized fe @ concat (map fe_normalized es)"
  by (induction es arbitrary: fe) (simp_all add: normalized_Also)

lemma diags_Also: "diags (Also fe errs) = diags fe @ concat (map diags errs)"
  unfolding diags_def normalized_Also by (induction errs) auto

lemma diags_via_field:
  "diags (via_field pre fe) = map (\<lambda>(m, ps). (m, map (\<lambda>p. flatten (pre @ [p])) ps)) (diags (Some fe))"
proof (induction pre fe rule: via_field.induct)
  case (1 pre m ps l d es)
  have "concat (map (\<lambda>e. diags (via_field pre e)) es) =
      map (\<lambda>(m, ps). (m, map (\<lambda>p. flatten (pre @ [p])) ps)) (concat (map (\<lambda>e. diags (Some e)) es))"
    using 1 by (induction es) auto
  then show ?case
    by (simp add: diags_def normalized_foldl_Also map_concat comp_def)
qed

lemma diags_ViaField:
  "diags (ViaField pre fe) = map (\<lambda>(m, ps). (m, map (\<lambda>p. flatten (pre @ [p])) ps)) (diags fe)"
  by (cases fe) (simp_all add: diags_via_field, simp add: diags_def)

text \<open>
  An error carries a message when it is not nil and has at least one diagnostic. Every error the
  validators build does, so a validator accepts exactly when its result has no diagnostics.
\<close>

definition proper :: "field_error option \<Rightarrow> bool" where
  "proper fe \<longleftrightarrow> (fe = None \<longleftrightarrow> diags fe = [])"

lemma proper_None [simp, intro]: "proper None" "diags None = []"
  by (simp_all add: proper_def diags_def)

lemma Also_None_iff:
  assumes "proper fe" "proper e"
  shows "Also fe [e] = None \<longleftrightarrow> fe = None \<and> e = None" and "proper (Also fe [e])"
proof -
  have d: "diags (Also fe [e]) = diags fe @ diags e" by (simp add: diags_Also)
  have ne: "e \<noteq> None \<Longrightarrow> \<not> fe_isEmpty e"
    using assms(2) fe_isEmpty_normalized [of e] by (auto simp: proper_def diags_def)
  have nn: "Also fe [e] = None \<Longrightarrow> fe = None \<and> e = None"
  proof (cases "e = None")
    case False
    assume "Also fe [e] = None"
    with ne [OF False] show ?thesis by (auto simp: Also_def Let_def split: if_splits)
  qed (simp add: Also_def)
  then show "Also fe [e] = None \<longleftrightarrow> fe = None \<and> e = None" by (auto simp: Also_def)
  then show "proper (Also fe [e])" using d assms by (auto simp: proper_def)
qed

lemma via_field_not_None: "via_field pre fe \<noteq> None"
proof -
  have "foldl (\<lambda>acc e. Also acc [e]) (Some x) es \<noteq> None" for x es
  proof (induction es arbitrary: x)
    case (Cons e es)
    have "Also (Some x) [e] \<noteq> None" by (cases x) (auto simp: Also_def Let_def)
    with Cons show ?case by auto
  qed simp
  then show ?thesis by (cases fe) simp
qed

lemma ViaField_None_iff: "ViaField pre fe = None \<longleftrightarrow> fe = None"
  by (cases fe) (simp_all add: via_field_not_None)

lemma proper_ViaField: "proper fe \<Longrightarrow> proper (ViaField pre fe)"
  by (simp add: proper_def diags_ViaField ViaField_None_iff)

lemma proper_leaf: "m \<noteq> '''' \<Longrightarrow> proper (Some (FieldError m ps l d []))"
  by (simp add: proper_def diags_def)


subsection \<open>Levels\<close>

text \<open>
  \<open>Filter\<close> keeps the diagnostics of one level; the admission webhook splits a result into errors and warnings
  with it. On the flat list it is a filter.
\<close>

fun filter_level :: "diagnostic_level \<Rightarrow> field_error \<Rightarrow> field_error option" where
  "filter_level lv (FieldError m ps l d es) =
     (let newErr = foldl (\<lambda>newErr e. Also newErr [e]) (if lv = l then Some (FieldError m ps l d []) else None) (map (filter_level lv) es)
      in if fe_isEmpty newErr then None else newErr)"

definition FieldError_Filter :: "diagnostic_level \<Rightarrow> field_error option \<Rightarrow> field_error option" where
  "FieldError_Filter lv fe = Option.bind fe (filter_level lv)"

lemma normalized_filter_level: "fe_normalized (filter_level lv fe) = filter (\<lambda>e. fe_level e = lv) (normalized fe)"
proof (induction lv fe rule: filter_level.induct)
  case (1 lv m ps l d es)
  have "concat (map (\<lambda>e. fe_normalized (filter_level lv e)) es) = filter (\<lambda>e. fe_level e = lv) (concat (map normalized es))"
    using 1 by (induction es) auto
  then have n: "fe_normalized (foldl (\<lambda>newErr e. Also newErr [e]) (if lv = l then Some (FieldError m ps l d []) else None) (map (filter_level lv) es)) =
      filter (\<lambda>e. fe_level e = lv) (normalized (FieldError m ps l d es))" (is "fe_normalized ?new = _")
    by (simp add: normalized_foldl_Also comp_def)
  have "filter_level lv (FieldError m ps l d es) = (if fe_isEmpty ?new then None else ?new)" by (simp only: filter_level.simps Let_def)
  then show ?case using n fe_isEmpty_normalized [of ?new] by (metis fe_normalized.simps(1))
qed

lemma normalized_FieldError_Filter:
  "fe_normalized (FieldError_Filter lv fe) = filter (\<lambda>e. fe_level e = lv) (fe_normalized fe)"
  by (cases fe) (simp_all add: FieldError_Filter_def normalized_filter_level)

text \<open>Errors built from error-level diagnostics only.\<close>

definition only_errors :: "field_error option \<Rightarrow> bool" where
  "only_errors fe \<longleftrightarrow> fe_level ` set (fe_normalized fe) \<subseteq> {ErrorLevel}"

lemma only_errors_None [simp]: "only_errors None"
  by (simp add: only_errors_def)

lemma only_errors_Also [simp]: "only_errors (Also fe errs) \<longleftrightarrow> only_errors fe \<and> (\<forall>e \<in> set errs. only_errors e)"
  by (fastforce simp: only_errors_def normalized_Also)

lemma levels_via_field: "map fe_level (fe_normalized (via_field pre fe)) = map fe_level (normalized fe)"
proof (induction pre fe rule: via_field.induct)
  case (1 pre m ps l d es)
  have "concat (map (\<lambda>e. map fe_level (fe_normalized (via_field pre e))) es) = concat (map (\<lambda>e. map fe_level (normalized e)) es)"
    using 1 by (induction es) auto
  then show ?case by (simp add: normalized_foldl_Also map_concat comp_def)
qed

lemma only_errors_ViaField [simp]: "only_errors (ViaField pre fe) \<longleftrightarrow> only_errors fe"
proof (cases fe)
  case (Some e)
  have "fe_level ` set (fe_normalized (via_field pre e)) = fe_level ` set (normalized e)"
    using levels_via_field [of pre e] by (metis list.set_map)
  then show ?thesis by (simp add: Some only_errors_def)
qed simp

lemma only_errors_leaf [simp]:
  "only_errors (Some (FieldError m ps ErrorLevel d []))" "only_errors (ErrMissingField p)" "only_errors (ErrDisallowedFields p)"
  "only_errors (ErrInvalidValue v p)" "only_errors (ErrGeneric g qs)"
  by (auto simp: only_errors_def err_defs)

text \<open>For such errors the error-level part decides, and there is nothing to warn about.\<close>

lemma only_errors_Filter:
  assumes "only_errors fe" "proper fe"
  shows "FieldError_Filter ErrorLevel fe = None \<longleftrightarrow> fe = None" "fe_normalized (FieldError_Filter WarningLevel fe) = []"
proof -
  have all: "fe_level e = ErrorLevel" if "e \<in> set (fe_normalized fe)" for e using assms(1) that by (auto simp: only_errors_def)
  show "fe_normalized (FieldError_Filter WarningLevel fe) = []"
    using all by (auto simp: normalized_FieldError_Filter filter_empty_conv)
  show "FieldError_Filter ErrorLevel fe = None \<longleftrightarrow> fe = None"
  proof
    assume "FieldError_Filter ErrorLevel fe = None"
    then have "fe_normalized (FieldError_Filter ErrorLevel fe) = []" by simp
    then have "fe_normalized fe = []" using all by (simp add: normalized_FieldError_Filter filter_empty_conv)
    with assms(2) show "fe = None" by (simp add: proper_def diags_def)
  qed (simp add: FieldError_Filter_def)
qed

end
