(* ===== verification/Go_Glob.thy ===== *)
theory Go_Glob
  imports Go_Utf8
begin

text \<open>
  Go's \<open>path.Match\<close>, which \<open>YipYapSourceFilter.Validate\<close> calls with an empty name to find malformed
  type globs. \<open>None\<close> stands for \<open>ErrBadPattern\<close>. The result of the theory is that whether a pattern is
  reported as malformed does not depend on the name it is matched against, so validating against
  the empty name finds every pattern that could ever fail.
\<close>

subsection \<open>Pattern chunks\<close>

text \<open>A possibly escaped character of a character class.\<close>

definition getEsc :: "string \<Rightarrow> (nat \<times> string) option" where
  "getEsc chunk =
     (if chunk = [] \<or> hd chunk = CHR ''-'' \<or> hd chunk = CHR '']'' then None
      else
        let esc = (of_char (hd chunk) = (92::nat));
            chunk' = (if esc then tl chunk else chunk)
        in if esc \<and> chunk' = [] then None
           else let (r, n) = decode_rune chunk';
                    nchunk = drop n chunk'
                in if r = RuneError \<and> n = 1 then None
                   else if nchunk = [] then None
                   else Some (r, nchunk))"

lemma getEsc_shorter: "getEsc chunk = Some (r, rest) \<Longrightarrow> length rest < length chunk \<and> rest \<noteq> []"
proof -
  assume a: "getEsc chunk = Some (r, rest)"
  define chunk' where "chunk' = (if of_char (hd chunk) = (92::nat) then tl chunk else chunk)"
  from a have ne: "chunk \<noteq> []" "chunk' \<noteq> []" "rest = drop (snd (decode_rune chunk')) chunk'" "rest \<noteq> []"
    by (auto simp: getEsc_def chunk'_def Let_def case_prod_unfold split: if_splits)
  have "length chunk' \<le> length chunk" by (simp add: chunk'_def)
  with ne decode_rune_width [OF ne(2)] show ?thesis by simp
qed

function class_loop :: "nat \<Rightarrow> bool \<Rightarrow> bool \<Rightarrow> string \<Rightarrow> (bool \<times> string) option" where
  "class_loop r match first chunk =
     (if chunk \<noteq> [] \<and> hd chunk = CHR '']'' \<and> \<not> first then Some (match, tl chunk)
      else (case getEsc chunk of
              None \<Rightarrow> None
            | Some (lo, c1) \<Rightarrow>
                if hd c1 = CHR ''-''
                then (case getEsc (tl c1) of
                        None \<Rightarrow> None
                      | Some (hi, c2) \<Rightarrow> class_loop r (match \<or> lo \<le> r \<and> r \<le> hi) False c2)
                else class_loop r (match \<or> lo \<le> r \<and> r \<le> lo) False c1))"
  by pat_completeness auto
termination
  by (relation "measure (\<lambda>(r, m, f, chunk). length chunk)")
     (auto dest!: getEsc_shorter)

declare class_loop.simps [simp del]

lemma class_loop_shorter: "class_loop r m f chunk = Some (b, rest) \<Longrightarrow> length rest < length chunk"
proof (induction r m f chunk rule: class_loop.induct)
  case (1 r m f chunk)
  show ?case
  proof (cases "chunk \<noteq> [] \<and> hd chunk = CHR '']'' \<and> \<not> f")
    case True
    with "1.prems" show ?thesis by (subst (asm) class_loop.simps) auto
  next
    case False
    with "1.prems" obtain lo c1 where c1: "getEsc chunk = Some (lo, c1)"
      by (subst (asm) class_loop.simps) (auto split: option.splits)
    have len: "length c1 < length chunk" using getEsc_shorter [OF c1] by simp
    show ?thesis
    proof (cases "hd c1 = CHR ''-''")
      case True
      with "1.prems" False c1 obtain hi c2 where c2: "getEsc (tl c1) = Some (hi, c2)"
        and rec: "class_loop r (m \<or> lo \<le> r \<and> r \<le> hi) False c2 = Some (b, rest)"
        by (subst (asm) class_loop.simps) (auto split: option.splits)
      have "length rest < length c2" using "1.IH"(1) [OF False c1 refl True c2 refl rec] .
      with getEsc_shorter [OF c2] len show ?thesis by auto
    next
      case nodash: False
      with "1.prems" False c1 have "class_loop r (m \<or> lo \<le> r \<and> r \<le> lo) False c1 = Some (b, rest)"
        by (subst (asm) class_loop.simps) (auto split: if_splits)
      with "1.IH"(2) [OF False c1 refl nodash] len show ?thesis by simp
    qed
  qed
qed

text \<open>\<open>Some None\<close>: well-formed but no match; \<open>Some (Some rest)\<close>: matched a prefix, rest of the name.\<close>

function matchChunk :: "bool \<Rightarrow> string \<Rightarrow> string \<Rightarrow> string option option" where
  "matchChunk failed chunk s =
     (case chunk of
        [] \<Rightarrow> Some (if failed then None else Some s)
      | c # cs \<Rightarrow>
          (let failed = (failed \<or> s = []) in
           if c = CHR ''['' then
             (let (r, n) = (if failed then (0, 0) else decode_rune s);
                  s' = drop n s;
                  negated = (cs \<noteq> [] \<and> hd cs = CHR ''^'');
                  cs' = (if negated then tl cs else cs)
              in case class_loop r False True cs' of
                   None \<Rightarrow> None
                 | Some (match, rest) \<Rightarrow> matchChunk (failed \<or> match = negated) rest s')
           else if c = CHR ''?'' then
             (if failed then matchChunk True cs s
              else matchChunk (hd s = CHR ''/'') cs (drop (snd (decode_rune s)) s))
           else if of_char c = (92::nat) then
             (case cs of
                [] \<Rightarrow> None
              | d # ds \<Rightarrow>
                  if failed then matchChunk True ds s else matchChunk (d \<noteq> hd s) ds (tl s))
           else if failed then matchChunk True cs s
           else matchChunk (c \<noteq> hd s) cs (tl s)))"
  by pat_completeness auto
termination
  by (relation "measure (\<lambda>(f, chunk, s). length chunk)")
     (auto dest!: class_loop_shorter split: if_splits)

declare matchChunk.simps [simp del]

subsection \<open>Splitting a pattern at its stars\<close>

fun scan :: "bool \<Rightarrow> string \<Rightarrow> string \<times> string" where
  "scan inrange [] = ([], [])"
| "scan inrange (c # cs) =
     (if of_char c = (92::nat)
      then (case cs of
              [] \<Rightarrow> ([c], [])
            | d # ds \<Rightarrow> (let (a, b) = scan inrange ds in (c # d # a, b)))
      else if c = CHR ''['' then (let (a, b) = scan True cs in (c # a, b))
      else if c = CHR '']'' then (let (a, b) = scan False cs in (c # a, b))
      else if c = CHR ''*'' \<and> \<not> inrange then ([], c # cs)
      else (let (a, b) = scan inrange cs in (c # a, b)))"

definition scanChunk :: "string \<Rightarrow> bool \<times> string \<times> string" where
  "scanChunk pattern =
     (let p = dropWhile (\<lambda>c. c = CHR ''*'') pattern;
          star = (pattern \<noteq> [] \<and> hd pattern = CHR ''*'');
          (chunk, rest) = scan False p
      in (star, chunk, rest))"

lemma scan_append: "fst (scan inr p) @ snd (scan inr p) = p"
  by (induction inr p rule: scan.induct) (auto simp: case_prod_unfold Let_def split: list.splits)

lemma scan_chunk_nonempty: "p \<noteq> [] \<Longrightarrow> hd p \<noteq> CHR ''*'' \<Longrightarrow> fst (scan False p) \<noteq> []"
  by (cases p) (auto simp: case_prod_unfold Let_def split: list.splits)

lemma scanChunk_shorter:
  assumes "pattern \<noteq> []" and "scanChunk pattern = (star, chunk, rest)"
  shows "length rest < length pattern"
proof -
  let ?p = "dropWhile (\<lambda>c. c = CHR ''*'') pattern"
  have rest: "rest = snd (scan False ?p)" and chunk: "chunk = fst (scan False ?p)"
    using assms(2) by (auto simp: scanChunk_def Let_def case_prod_unfold)
  have len: "length ?p = length chunk + length rest"
    using arg_cong [OF scan_append [of False ?p], of length] by (simp add: rest chunk)
  show ?thesis
  proof (cases "hd pattern = CHR ''*''")
    case True
    with assms(1) have "length ?p < length pattern"
      by (cases pattern) (auto intro: le_imp_less_Suc length_dropWhile_le)
    with len show ?thesis by simp
  next
    case False
    with assms(1) have "?p = pattern" by (cases pattern) auto
    with False assms(1) len scan_chunk_nonempty [of pattern] show ?thesis
      by (simp add: chunk)
  qed
qed

lemma scanChunk_decreases:
  "(star, chunk, rest) = scanChunk pattern \<Longrightarrow> pattern \<noteq> [] \<Longrightarrow> length rest < length pattern"
  by (metis scanChunk_shorter)

subsection \<open>Match\<close>

text \<open>The remaining chunks are well-formed.\<close>

function chunks_ok :: "string \<Rightarrow> bool" where
  "chunks_ok pattern =
     (if pattern = [] then True
      else let (star, chunk, rest) = scanChunk pattern
           in matchChunk False chunk [] \<noteq> None \<and> chunks_ok rest)"
  by pat_completeness auto
termination
  by (relation "measure length") (auto dest: scanChunk_decreases)

declare chunks_ok.simps [simp del]

text \<open>
  The search after a star: \<open>None\<close> for a malformed chunk, \<open>Some None\<close> when no position matches,
  \<open>Some (Some t)\<close> with the rest of the name after the first position that does.
\<close>

fun skip_match :: "string \<Rightarrow> bool \<Rightarrow> string \<Rightarrow> string option option" where
  "skip_match chunk lastc [] = Some None"
| "skip_match chunk lastc (x # xs) =
     (if x = CHR ''/'' then Some None
      else (case matchChunk False chunk xs of
              None \<Rightarrow> None
            | Some None \<Rightarrow> skip_match chunk lastc xs
            | Some (Some t) \<Rightarrow>
                if lastc \<and> t \<noteq> [] then skip_match chunk lastc xs else Some (Some t)))"

function Match :: "string \<Rightarrow> string \<Rightarrow> bool option" where
  "Match pattern name =
     (if pattern = [] then Some (name = [])
      else
        let (star, chunk, rest) = scanChunk pattern;
            remainder = (if chunks_ok rest then Some False else None)
        in if star \<and> chunk = [] then Some (CHR ''/'' \<notin> set name)
           else (case matchChunk False chunk name of
                   None \<Rightarrow> None
                 | Some m \<Rightarrow>
                     if m \<noteq> None \<and> (m = Some [] \<or> rest \<noteq> []) then Match rest (the m)
                     else if star
                     then (case skip_match chunk (rest = []) name of
                             None \<Rightarrow> None
                           | Some (Some t) \<Rightarrow> Match rest t
                           | Some None \<Rightarrow> remainder)
                     else remainder))"
  by pat_completeness auto
termination
  by (relation "measure (\<lambda>(p, n). length p)") (auto dest: scanChunk_decreases)

declare Match.simps [simp del]

subsection \<open>Malformedness does not depend on the name\<close>

text \<open>
  The grammar of well-formed chunks, with no name in sight: \<open>class_rest\<close> reads a character class to
  its closing bracket, \<open>chunk_wf\<close> a whole chunk.
\<close>

function class_rest :: "bool \<Rightarrow> string \<Rightarrow> string option" where
  "class_rest first chunk =
     (if chunk \<noteq> [] \<and> hd chunk = CHR '']'' \<and> \<not> first then Some (tl chunk)
      else (case getEsc chunk of
              None \<Rightarrow> None
            | Some (lo, c1) \<Rightarrow>
                if hd c1 = CHR ''-''
                then (case getEsc (tl c1) of None \<Rightarrow> None | Some (hi, c2) \<Rightarrow> class_rest False c2)
                else class_rest False c1))"
  by pat_completeness auto
termination
  by (relation "measure (\<lambda>(f, chunk). length chunk)") (auto dest!: getEsc_shorter)

declare class_rest.simps [simp del]

lemma class_loop_rest: "map_option snd (class_loop r m f chunk) = class_rest f chunk"
proof (induction r m f chunk rule: class_loop.induct)
  case (1 r m f chunk)
  let ?close = "chunk \<noteq> [] \<and> hd chunk = CHR '']'' \<and> \<not> f"
  consider (close) "?close"
    | (bad) "\<not> ?close" "getEsc chunk = None"
    | (badhi) lo c1 where "\<not> ?close" "getEsc chunk = Some (lo, c1)" "hd c1 = CHR ''-''" "getEsc (tl c1) = None"
    | (range) lo c1 hi c2 where "\<not> ?close" "getEsc chunk = Some (lo, c1)" "hd c1 = CHR ''-''"
        "getEsc (tl c1) = Some (hi, c2)"
    | (single) lo c1 where "\<not> ?close" "getEsc chunk = Some (lo, c1)" "hd c1 \<noteq> CHR ''-''"
    by (metis not_None_eq surj_pair)
  then show ?case
  proof cases
    case close
    then show ?thesis by (subst class_loop.simps, subst class_rest.simps) simp
  next
    case bad
    then show ?thesis by (subst class_loop.simps, subst class_rest.simps) simp
  next
    case badhi
    then show ?thesis by (subst class_loop.simps, subst class_rest.simps) simp
  next
    case (range lo c1 hi c2)
    with "1.IH"(1) [OF range(1,2) refl range(3,4) refl] show ?thesis
      by (subst class_loop.simps, subst class_rest.simps) auto
  next
    case (single lo c1)
    with "1.IH"(2) [OF single(1,2) refl single(3)] show ?thesis
      by (subst class_loop.simps, subst class_rest.simps) auto
  qed
qed

lemma class_rest_shorter: "class_rest f chunk = Some rest \<Longrightarrow> length rest < length chunk"
  using class_loop_rest [of 0 False f chunk] class_loop_shorter by fastforce

function chunk_wf :: "string \<Rightarrow> bool" where
  "chunk_wf chunk =
     (case chunk of
        [] \<Rightarrow> True
      | c # cs \<Rightarrow>
          if c = CHR ''['' then
            (case class_rest True (if cs \<noteq> [] \<and> hd cs = CHR ''^'' then tl cs else cs) of
               None \<Rightarrow> False
             | Some rest \<Rightarrow> chunk_wf rest)
          else if of_char c = (92::nat) then (case cs of [] \<Rightarrow> False | d # ds \<Rightarrow> chunk_wf ds)
          else chunk_wf cs)"
  by pat_completeness auto
termination
  by (relation "measure length") (auto dest!: class_rest_shorter split: if_splits)

declare chunk_wf.simps [simp del]

lemma matchChunk_wf: "matchChunk failed chunk s \<noteq> None \<longleftrightarrow> chunk_wf chunk"
proof (induction failed chunk s rule: matchChunk.induct)
  case (1 failed chunk s)
  show ?case
  proof (cases chunk)
    case Nil
    then show ?thesis by (subst matchChunk.simps, subst chunk_wf.simps) simp
  next
    case (Cons c cs)
    let ?f = "failed \<or> s = []"
    show ?thesis
    proof (cases "c = CHR ''[''")
      case True
      obtain r n where rn: "(if ?f then (0, 0) else decode_rune s) = (r, n)" by fastforce
      let ?neg = "cs \<noteq> [] \<and> hd cs = CHR ''^''"
      let ?cs = "if ?neg then tl cs else cs"
      have eq: "matchChunk failed chunk s = (case class_loop r False True ?cs of
           None \<Rightarrow> None | Some (match, rest) \<Rightarrow> matchChunk (?f \<or> match = ?neg) rest (drop n s))"
        using Cons True rn by (subst matchChunk.simps) (simp add: Let_def)
      note rest = class_loop_rest [of r False True ?cs]
      show ?thesis
      proof (cases "class_loop r False True ?cs")
        case None
        with rest have "class_rest True ?cs = None" by simp
        with None eq Cons True show ?thesis by (subst chunk_wf.simps) simp
      next
        case (Some p)
        obtain match rest' where p: "p = (match, rest')" by (cases p)
        with rest Some have r: "class_rest True ?cs = Some rest'" by simp
        have "matchChunk (?f \<or> match = ?neg) rest' (drop n s) \<noteq> None \<longleftrightarrow> chunk_wf rest'"
          using "1.IH"(1) [OF Cons refl True rn [symmetric] refl refl refl refl Some] p by simp
        then show ?thesis using Some p eq r Cons True by (subst chunk_wf.simps) simp
      qed
    next
      case nb: False
      then show ?thesis
        using Cons "1.IH"(2-) [OF Cons refl nb]
        by (subst matchChunk.simps, subst chunk_wf.simps) (auto simp: Let_def split: list.splits)
    qed
  qed
qed

function pattern_wf :: "string \<Rightarrow> bool" where
  "pattern_wf pattern =
     (if pattern = [] then True
      else let (star, chunk, rest) = scanChunk pattern in chunk_wf chunk \<and> pattern_wf rest)"
  by pat_completeness auto
termination
  by (relation "measure length") (auto dest: scanChunk_decreases)

declare pattern_wf.simps [simp del]

lemma chunks_ok_wf: "chunks_ok pattern \<longleftrightarrow> pattern_wf pattern"
proof (induction pattern rule: pattern_wf.induct)
  case (1 pattern)
  then show ?case
    by (subst chunks_ok.simps, subst pattern_wf.simps)
       (auto simp: matchChunk_wf simp del: not_None_eq not_Some_eq split: prod.splits)
qed

lemma skip_match_wf: "skip_match chunk lastc name = None \<Longrightarrow> \<not> chunk_wf chunk"
proof (induction chunk lastc name rule: skip_match.induct)
  case (2 chunk lastc x xs)
  then show ?case
    using matchChunk_wf [of False chunk xs] by (auto split: if_splits option.splits)
qed simp

lemma scanChunk_star_rest:
  assumes "scanChunk pattern = (star, [], rest)"
  shows "rest = []"
proof -
  let ?p = "dropWhile (\<lambda>c. c = CHR ''*'') pattern"
  have eq: "fst (scan False ?p) = []" "rest = snd (scan False ?p)"
    using assms by (auto simp: scanChunk_def Let_def case_prod_unfold)
  have "?p = []"
  proof (rule ccontr)
    assume "?p \<noteq> []"
    then show False
      using eq(1) scan_chunk_nonempty [of ?p] hd_dropWhile [of "\<lambda>c. c = CHR ''*''" pattern] by simp
  qed
  then show ?thesis unfolding eq(2) by (simp only: scan.simps snd_conv)
qed

lemma Match_wf: "Match pattern name \<noteq> None \<longleftrightarrow> pattern_wf pattern"
proof (induction pattern name rule: Match.induct)
  case (1 pattern name)
  show ?case
  proof (cases "pattern = []")
    case True
    then show ?thesis by (subst Match.simps, subst pattern_wf.simps) simp
  next
    case ne: False
    obtain star chunk rest where sc: "scanChunk pattern = (star, chunk, rest)" by (cases "scanChunk pattern")
    have wf: "pattern_wf pattern \<longleftrightarrow> chunk_wf chunk \<and> pattern_wf rest"
      using ne sc by (subst pattern_wf.simps) simp
    show ?thesis
    proof (cases "star \<and> chunk = []")
      case True
      then have "rest = []" using sc scanChunk_star_rest by simp
      then show ?thesis
        using True ne sc wf by (subst Match.simps) (simp add: chunk_wf.simps [of "[]"] pattern_wf.simps [of "[]"])
    next
      case nstar: False
      note IH = "1.IH" [OF ne sc [symmetric] refl refl refl nstar]
      have body: "Match pattern name =
         (case matchChunk False chunk name of
            None \<Rightarrow> None
          | Some m \<Rightarrow>
              if m \<noteq> None \<and> (m = Some [] \<or> rest \<noteq> []) then Match rest (the m)
              else if star
              then (case skip_match chunk (rest = []) name of
                      None \<Rightarrow> None
                    | Some (Some t) \<Rightarrow> Match rest t
                    | Some None \<Rightarrow> if chunks_ok rest then Some False else None)
              else if chunks_ok rest then Some False else None)"
        using ne sc nstar by (subst Match.simps) (simp add: Let_def)
      show ?thesis
      proof (cases "matchChunk False chunk name")
        case None
        then show ?thesis using matchChunk_wf [of False chunk name] by (simp add: body wf)
      next
        case (Some m)
        then have cw: "chunk_wf chunk" using matchChunk_wf [of False chunk name] by simp
        then have "skip_match chunk (rest = []) name \<noteq> None" using skip_match_wf by blast
        then obtain sk where sk: "skip_match chunk (rest = []) name = Some sk" by blast
        show ?thesis
          using Some sk cw IH(1) [OF Some] IH(2) [OF Some _ _ sk]
          by (auto simp: body wf chunks_ok_wf split: option.splits)
      qed
    qed
  qed
qed

end
