(* ===== verification/Source_Admission.thy ===== *)
theory Source_Admission
  imports Source_Types Field_Errors Go_Glob
begin

text \<open>
  Defaulting and validation of a \<open>YipYapSource\<close>: \<open>yipyapsource_defaults.go\<close>,
  \<open>yipyapsource_validation.go\<close>, and the \<open>Destination\<close> and \<open>KReference\<close> duck types they delegate to.
  The webhook of \<open>cmd/webhook\<close> runs \<open>SetDefaults\<close> and then \<open>Validate\<close> on every create and update.
  Validation is characterised by a declarative predicate, and defaulting is shown to be idempotent
  and never to turn an acceptable object into a rejected one.
\<close>

text \<open>
  What the context carries for defaulting and validation, with the two cryptographic primitives of
  the certificate check: \<open>pem.Decode\<close> (block type and bytes, or no block) and whether
  \<open>x509.ParseCertificate\<close> accepts the bytes.
\<close>

record apis_context =
  groupAllowed :: bool
  differentNamespaceAllowed :: bool
  parentNamespace :: string
  pem_Decode :: "string \<Rightarrow> (string \<times> string) option"
  x509_ok :: "string \<Rightarrow> bool"

definition WithinParent :: "apis_context \<Rightarrow> object_meta \<Rightarrow> apis_context" where
  "WithinParent ctx om = ctx\<lparr>parentNamespace := om_namespace om\<rparr>"

subsection \<open>SetDefaults\<close>

definition DefaultAPIKeySecretKey :: string where "DefaultAPIKeySecretKey = ''api-key''"
definition DefaultBaseURL :: string where "DefaultBaseURL = ''https://console.yipyap.run''"

definition Destination_SetDefaults :: "apis_context \<Rightarrow> destination \<Rightarrow> destination" where
  "Destination_SetDefaults ctx d =
     (case d_ref d of
        None \<Rightarrow> d
      | Some r \<Rightarrow>
          if kr_namespace r = ''''
          then d\<lparr>d_ref := Some (r\<lparr>kr_namespace := parentNamespace ctx\<rparr>)\<rparr> else d)"

definition Spec_SetDefaults :: "apis_context \<Rightarrow> source_spec \<Rightarrow> source_spec" where
  "Spec_SetDefaults ctx s =
     (let s = (if ak_key (sp_apiKeyRef s) = ''''
               then s\<lparr>sp_apiKeyRef := (sp_apiKeyRef s)\<lparr>ak_key := DefaultAPIKeySecretKey\<rparr>\<rparr> else s);
          s = (if sp_baseURL s = '''' then s\<lparr>sp_baseURL := DefaultBaseURL\<rparr> else s);
          s = (if sp_mode s = '''' then s\<lparr>sp_mode := YipYapSourceModeAuto\<rparr> else s)
      in s\<lparr>sp_sink := Destination_SetDefaults ctx (sp_sink s)\<rparr>)"

fun SetDefaults :: "apis_context \<Rightarrow> yipyap_source option \<Rightarrow> yipyap_source option" where
  "SetDefaults ctx None = None"
| "SetDefaults ctx (Some y) =
     Some (y\<lparr>y_spec := Spec_SetDefaults (WithinParent ctx (y_meta y)) (y_spec y)\<rparr>)"

subsection \<open>Validate\<close>

definition KReference_Validate :: "apis_context \<Rightarrow> kreference option \<Rightarrow> field_error option" where
  "KReference_Validate ctx kr =
     (case kr of
        None \<Rightarrow> Also (Also (Also None [ErrMissingField ''name'']) [ErrMissingField ''apiVersion'']) [ErrMissingField ''kind'']
      | Some kr \<Rightarrow>
          let errs = (if kr_name kr = '''' then Also None [ErrMissingField ''name''] else None);
              errs =
                (if groupAllowed ctx
                 then
                   let errs = (if kr_apiVersion kr = '''' \<and> kr_group kr = ''''
                               then Also (Also errs [ErrMissingField ''apiVersion'']) [ErrMissingField ''group''] else errs)
                   in if kr_apiVersion kr \<noteq> '''' \<and> kr_group kr \<noteq> '''' \<and> \<not> has_prefix (kr_apiVersion kr) (kr_group kr)
                      then Also errs [Some (FieldError
                             ''both apiVersion and group are specified and they refer to different API groups''
                             [''apiVersion'', ''group''] ErrorLevel ''Only one of them must be specified'' [])]
                      else errs
                 else
                   let errs = (if kr_group kr \<noteq> '''' then Also errs [ErrDisallowedFields ''group''] else errs)
                   in if kr_apiVersion kr = '''' then Also errs [ErrMissingField ''apiVersion''] else errs);
              errs = (if kr_kind kr = '''' then Also errs [ErrMissingField ''kind''] else errs)
          in if kr_namespace kr \<noteq> '''' \<and> \<not> differentNamespaceAllowed ctx \<and>
                parentNamespace ctx \<noteq> '''' \<and> kr_namespace kr \<noteq> parentNamespace ctx
             then Also errs [Some (FieldError ''mismatched namespaces'' [''namespace''] ErrorLevel
                    (''parent namespace: '' @ quoted (parentNamespace ctx) @ '' does not match ref: '' @ quoted (kr_namespace kr)) [])]
             else errs)"

definition validateCACerts :: "apis_context \<Rightarrow> string \<Rightarrow> field_error option" where
  "validateCACerts ctx caCert =
     (case pem_Decode ctx caCert of
        None \<Rightarrow> Also None [ErrInvalidValue ''CA Cert provided is invalid'' ''caCert'']
      | Some (ty, bytes) \<Rightarrow>
          if ty \<noteq> ''CERTIFICATE''
          then Also None [ErrInvalidValue ''CA Cert provided is not a certificate'' ''caCert'']
          else if \<not> x509_ok ctx bytes
          then Also None [ErrInvalidValue ''CA Cert provided is invalid'' ''caCert'']
          else None)"

definition ValidateDestination :: "apis_context \<Rightarrow> destination \<Rightarrow> field_error option" where
  "ValidateDestination ctx dest =
     (if d_ref dest = None \<and> d_uri dest = None
      then ErrGeneric ''expected at least one, got none'' [''ref'', ''uri'']
      else if d_ref dest \<noteq> None \<and> d_uri dest \<noteq> None \<and> IsAbs (the (d_uri dest))
      then ErrGeneric ''Absolute URI is not allowed when Ref or [apiVersion, kind, name] is present''
             [''[apiVersion, kind, name]'', ''ref'', ''uri'']
      else if d_ref dest = None \<and> d_uri dest \<noteq> None \<and>
              (\<not> IsAbs (the (d_uri dest)) \<or> u_host (the (d_uri dest)) = '''')
      then ErrInvalidValue ''Relative URI is not allowed when Ref and [apiVersion, kind, name] is absent'' ''uri''
      else if d_ref dest \<noteq> None \<and> d_uri dest = None
      then ViaField [''ref''] (KReference_Validate ctx (d_ref dest))
      else (case d_CACerts dest of Some ca \<Rightarrow> validateCACerts ctx ca | None \<Rightarrow> None))"

definition Destination_Validate :: "apis_context \<Rightarrow> destination \<Rightarrow> field_error option" where
  "Destination_Validate ctx d = ViaField [''''] (ValidateDestination ctx d)"

definition validSeverities :: "string list" where
  "validSeverities = [''info'', ''warning'', ''critical'']"

definition bad_glob_error :: "nat \<Rightarrow> field_error option" where
  "bad_glob_error i =
     Some (FieldError (''invalid glob: '' @ ''syntax error in pattern'')
            [''types['' @ show_nat i @ '']''] ErrorLevel '''' [])"

fun validate_types :: "nat \<Rightarrow> string list \<Rightarrow> field_error option \<Rightarrow> field_error option" where
  "validate_types i [] errs = errs"
| "validate_types i (pat # pats) errs =
     validate_types (Suc i) pats
       (if Match pat '''' = None then Also errs [bad_glob_error i] else errs)"

fun validate_severities :: "nat \<Rightarrow> string list \<Rightarrow> field_error option \<Rightarrow> field_error option" where
  "validate_severities i [] errs = errs"
| "validate_severities i (sev # sevs) errs =
     validate_severities (Suc i) sevs
       (if sev \<notin> set validSeverities
        then Also errs [ErrInvalidValue sev (''severities['' @ show_nat i @ '']'')] else errs)"

definition Filter_Validate :: "source_filter \<Rightarrow> field_error option" where
  "Filter_Validate f = validate_severities 0 (f_severities f) (validate_types 0 (f_types f) None)"

definition Spec_Validate :: "apis_context \<Rightarrow> source_spec \<Rightarrow> field_error option" where
  "Spec_Validate ctx s =
     (let errs = (if ak_name (sp_apiKeyRef s) = '''' then Also None [ErrMissingField ''apiKeyRef.name''] else None);
          errs = (if sp_mode s \<in> {'''', YipYapSourceModeAuto, YipYapSourceModePoll, YipYapSourceModeStream}
                  then errs else Also errs [ErrInvalidValue (sp_mode s) ''mode'']);
          errs = (case sp_filter s of
                    None \<Rightarrow> errs
                  | Some f \<Rightarrow> Also errs [ViaField [''filter''] (Filter_Validate f)])
      in Also errs [ViaField [''sink''] (Destination_Validate ctx (sp_sink s))])"

definition Validate :: "apis_context \<Rightarrow> yipyap_source \<Rightarrow> field_error option" where
  "Validate ctx y = ViaField [''spec''] (Spec_Validate ctx (y_spec y))"

subsection \<open>What validation accepts\<close>

lemma proper_errs [simp]:
  "proper (ErrMissingField p)" "proper (ErrDisallowedFields p)" "proper (ErrInvalidValue v p)"
  "d \<noteq> '''' \<Longrightarrow> proper (ErrGeneric d ps)" "proper (bad_glob_error i)"
  "m \<noteq> '''' \<Longrightarrow> proper (Some (FieldError m ps l dt []))"
  by (simp_all add: err_defs bad_glob_error_def proper_leaf)

lemma errs_not_None [simp]:
  "ErrMissingField p \<noteq> None" "ErrDisallowedFields p \<noteq> None" "ErrInvalidValue v p \<noteq> None"
  "ErrGeneric d ps \<noteq> None" "bad_glob_error i \<noteq> None"
  by (simp_all add: err_defs bad_glob_error_def)

lemmas also_rules = Also_None_iff proper_ViaField ViaField_None_iff

definition reference_ok :: "apis_context \<Rightarrow> kreference \<Rightarrow> bool" where
  "reference_ok ctx kr \<longleftrightarrow>
     kr_name kr \<noteq> '''' \<and> kr_kind kr \<noteq> '''' \<and>
     (if groupAllowed ctx
      then (kr_apiVersion kr \<noteq> '''' \<or> kr_group kr \<noteq> '''') \<and>
           (kr_apiVersion kr = '''' \<or> kr_group kr = '''' \<or> has_prefix (kr_apiVersion kr) (kr_group kr))
      else kr_group kr = '''' \<and> kr_apiVersion kr \<noteq> '''') \<and>
     (kr_namespace kr = '''' \<or> differentNamespaceAllowed ctx \<or> parentNamespace ctx = '''' \<or>
      kr_namespace kr = parentNamespace ctx)"

definition ca_ok :: "apis_context \<Rightarrow> string \<Rightarrow> bool" where
  "ca_ok ctx ca \<longleftrightarrow> (\<exists>bytes. pem_Decode ctx ca = Some (''CERTIFICATE'', bytes) \<and> x509_ok ctx bytes)"

definition destination_ok :: "apis_context \<Rightarrow> destination \<Rightarrow> bool" where
  "destination_ok ctx d \<longleftrightarrow>
     (case (d_ref d, d_uri d) of
        (None, None) \<Rightarrow> False
      | (Some r, None) \<Rightarrow> reference_ok ctx r
      | (None, Some u) \<Rightarrow> IsAbs u \<and> u_host u \<noteq> '''' \<and> (\<forall>ca. d_CACerts d = Some ca \<longrightarrow> ca_ok ctx ca)
      | (Some r, Some u) \<Rightarrow> \<not> IsAbs u \<and> (\<forall>ca. d_CACerts d = Some ca \<longrightarrow> ca_ok ctx ca))"

definition filter_ok :: "source_filter \<Rightarrow> bool" where
  "filter_ok f \<longleftrightarrow> (\<forall>p \<in> set (f_types f). pattern_wf p) \<and> set (f_severities f) \<subseteq> set validSeverities"

definition spec_ok :: "apis_context \<Rightarrow> source_spec \<Rightarrow> bool" where
  "spec_ok ctx s \<longleftrightarrow>
     ak_name (sp_apiKeyRef s) \<noteq> '''' \<and>
     sp_mode s \<in> {'''', YipYapSourceModeAuto, YipYapSourceModePoll, YipYapSourceModeStream} \<and>
     (\<forall>f. sp_filter s = Some f \<longrightarrow> filter_ok f) \<and> destination_ok ctx (sp_sink s)"

lemma KReference_Validate_ok:
  "KReference_Validate ctx (Some kr) = None \<longleftrightarrow> reference_ok ctx kr" (is ?iff)
  "proper (KReference_Validate ctx (Some kr))" (is ?proper)
proof -
  show ?proper by (simp add: KReference_Validate_def Let_def also_rules)
  show ?iff by (auto simp: KReference_Validate_def Let_def also_rules reference_ok_def simp del: not_None_eq)
qed

lemma validateCACerts_ok:
  "validateCACerts ctx ca = None \<longleftrightarrow> ca_ok ctx ca" "proper (validateCACerts ctx ca)"
  by (auto simp: validateCACerts_def ca_ok_def also_rules split: option.splits)

lemma ValidateDestination_ok:
  "ValidateDestination ctx d = None \<longleftrightarrow> destination_ok ctx d" "proper (ValidateDestination ctx d)"
  by (cases "d_ref d"; cases "d_uri d"; cases "d_CACerts d";
      auto simp: ValidateDestination_def destination_ok_def also_rules KReference_Validate_ok validateCACerts_ok
        simp del: not_None_eq)+

lemma Match_None_iff: "Match pat name = None \<longleftrightarrow> \<not> pattern_wf pat"
  using Match_wf [of pat name] by auto

lemma validate_types_ok:
  "proper errs \<Longrightarrow>
     (validate_types i pats errs = None \<longleftrightarrow> errs = None \<and> (\<forall>p \<in> set pats. pattern_wf p)) \<and>
     proper (validate_types i pats errs)"
  by (induction i pats errs rule: validate_types.induct)
     (auto simp: also_rules Match_None_iff simp del: not_None_eq)

lemma validate_severities_ok:
  "proper errs \<Longrightarrow>
     (validate_severities i sevs errs = None \<longleftrightarrow> errs = None \<and> set sevs \<subseteq> set validSeverities) \<and>
     proper (validate_severities i sevs errs)"
  by (induction i sevs errs rule: validate_severities.induct)
     (auto simp: also_rules simp del: not_None_eq)

lemma Filter_Validate_ok:
  "Filter_Validate f = None \<longleftrightarrow> filter_ok f" "proper (Filter_Validate f)"
  using validate_types_ok [of None 0 "f_types f"]
    validate_severities_ok [of "validate_types 0 (f_types f) None" 0 "f_severities f"]
  by (auto simp: Filter_Validate_def filter_ok_def simp del: not_None_eq)

lemma Spec_Validate_ok:
  "Spec_Validate ctx s = None \<longleftrightarrow> spec_ok ctx s" "proper (Spec_Validate ctx s)"
  by (auto simp: Spec_Validate_def Let_def spec_ok_def also_rules Filter_Validate_ok
      Destination_Validate_def ValidateDestination_ok split: option.splits if_splits)

subsection \<open>Defaulting\<close>

lemma Destination_SetDefaults_idem [simp]:
  "Destination_SetDefaults ctx (Destination_SetDefaults ctx d) = Destination_SetDefaults ctx d"
  by (cases "d_ref d") (auto simp: Destination_SetDefaults_def)

lemma default_nonempty [simp]:
  "DefaultAPIKeySecretKey \<noteq> ''''" "DefaultBaseURL \<noteq> ''''" "YipYapSourceModeAuto \<noteq> ''''"
  by (simp_all add: DefaultAPIKeySecretKey_def DefaultBaseURL_def mode_defs)

lemma Spec_SetDefaults_fields [simp]:
  "sp_mode (Spec_SetDefaults ctx s) = (if sp_mode s = '''' then YipYapSourceModeAuto else sp_mode s)"
  "sp_baseURL (Spec_SetDefaults ctx s) = (if sp_baseURL s = '''' then DefaultBaseURL else sp_baseURL s)"
  "ak_key (sp_apiKeyRef (Spec_SetDefaults ctx s)) =
     (if ak_key (sp_apiKeyRef s) = '''' then DefaultAPIKeySecretKey else ak_key (sp_apiKeyRef s))"
  "ak_name (sp_apiKeyRef (Spec_SetDefaults ctx s)) = ak_name (sp_apiKeyRef s)"
  "sp_filter (Spec_SetDefaults ctx s) = sp_filter s"
  "sp_ceOverrides (Spec_SetDefaults ctx s) = sp_ceOverrides s"
  "sp_serviceAccountName (Spec_SetDefaults ctx s) = sp_serviceAccountName s"
  "sp_sink (Spec_SetDefaults ctx s) = Destination_SetDefaults ctx (sp_sink s)"
  by (simp_all add: Spec_SetDefaults_def Let_def)

lemma Spec_SetDefaults_idem: "Spec_SetDefaults ctx (Spec_SetDefaults ctx s) = Spec_SetDefaults ctx s"
  by (simp add: Spec_SetDefaults_def Let_def)

subsection \<open>Properties\<close>

text \<open>
  C18: The validating webhook accepts a source exactly when its API key secret is named, its mode is empty,
  auto, poll or stream, every type glob is a well-formed pattern, every severity is a known one, and the
  sink is an acceptable destination.
\<close>
theorem validate_iff: "Validate ctx y = None \<longleftrightarrow> spec_ok ctx (y_spec y)"
  by (simp add: Validate_def ViaField_None_iff Spec_Validate_ok)

text \<open>
  The type globs of an accepted source never fail at run time: matching one against any event type
  gives a verdict and never the malformed-pattern error, although admission tried it on the empty name only.
\<close>
theorem validated_globs_match:
  assumes "Validate ctx y = None" "sp_filter (y_spec y) = Some f" "p \<in> set (f_types f)"
  shows "Match p name \<noteq> None"
  using assms by (auto simp: Validate_def ViaField_None_iff Spec_Validate_ok spec_ok_def filter_ok_def Match_None_iff)

definition demo_context :: apis_context where
  "demo_context = \<lparr>groupAllowed = False, differentNamespaceAllowed = False, parentNamespace = '''',
     pem_Decode = (\<lambda>_. None), x509_ok = (\<lambda>_. False)\<rparr>"

definition submitted_src :: yipyap_source where
  "submitted_src =
     \<lparr>y_meta = \<lparr>om_name = ''alerts'', om_namespace = ''ops'', om_uid = ''8c1f'', om_resourceVersion = '''', om_generation = 1,
        om_deletionTimestamp = None, om_labels = [], om_annotations = [], om_ownerReferences = [], om_finalizers = []\<rparr>,
      y_spec = \<lparr>sp_sink = \<lparr>d_ref = Some \<lparr>kr_kind = ''Broker'', kr_namespace = '''', kr_name = ''default'',
            kr_apiVersion = ''eventing.knative.dev/v1'', kr_group = '''', kr_address = None\<rparr>,
          d_uri = None, d_CACerts = None, d_audience = None\<rparr>,
        sp_ceOverrides = None, sp_apiKeyRef = \<lparr>ak_name = ''yipyap'', ak_key = ''''\<rparr>, sp_baseURL = '''',
        sp_filter = Some \<lparr>f_types = [''a*''], f_monitorIDs = [], f_severities = [''info'']\<rparr>,
        sp_mode = '''', sp_serviceAccountName = ''''\<rparr>,
      y_status = \<lparr>st_observedGeneration = 0, st_conditions = [], st_annotations = [], st_sinkURI = None, st_ceAttributes = [],
        st_sinkCACerts = None, st_sinkAudience = None, st_auth = None, st_deploymentName = '''', st_lastEventTime = None,
        st_eventCount = 0\<rparr>\<rparr>"

lemma submitted_src_ok: "spec_ok demo_context (y_spec submitted_src)"
proof -
  have "Match ''a*'' '''' \<noteq> None" by code_simp
  then have "pattern_wf ''a*''" by (simp add: Match_None_iff)
  then show ?thesis
    by (simp add: spec_ok_def submitted_src_def demo_context_def filter_ok_def destination_ok_def reference_ok_def
        validSeverities_def mode_defs)
qed

lemma submitted_src_valid: "Validate demo_context submitted_src = None"
  using submitted_src_ok by (simp add: Validate_def ViaField_None_iff Spec_Validate_ok)

theorem validated_globs_match_witness: "Match ''a*'' ''abc'' \<noteq> None"
  using validated_globs_match [OF submitted_src_valid, of "\<lparr>f_types = [''a*''], f_monitorIDs = [], f_severities = [''info'']\<rparr>" "''a*''" "''abc''"]
  by (simp add: submitted_src_def)

text \<open>
  Defaulting fills in mode, base URL, secret key and the namespace of the sink reference, applies the
  same way a second time, and never makes the webhook reject a source it would have accepted, provided
  validation runs without a parent namespace or with the source's own.
\<close>
theorem defaults_keep_valid:
  assumes "SetDefaults ctx (Some y) = Some y'" "parentNamespace vctx \<in> {'''', om_namespace (y_meta y)}"
  shows "sp_mode (y_spec y') \<noteq> '''' \<and> sp_baseURL (y_spec y') \<noteq> '''' \<and> ak_key (sp_apiKeyRef (y_spec y')) \<noteq> '''' \<and>
    SetDefaults ctx (Some y') = Some y' \<and> (Validate vctx y = None \<longrightarrow> Validate vctx y' = None)"
proof -
  let ?c = "WithinParent ctx (y_meta y)"
  have y': "y' = y\<lparr>y_spec := Spec_SetDefaults ?c (y_spec y)\<rparr>" using assms(1) by simp
  have "destination_ok vctx (Destination_SetDefaults ?c d)" if "destination_ok vctx d" for d
    using that assms(2)
    by (cases "d_ref d"; cases "d_uri d")
       (auto simp: Destination_SetDefaults_def destination_ok_def reference_ok_def WithinParent_def)
  then have "Validate vctx y = None \<Longrightarrow> Validate vctx y' = None"
    by (auto simp: y' Validate_def ViaField_None_iff Spec_Validate_ok spec_ok_def)
  moreover have "SetDefaults ctx (Some y') = Some y'"
    by (simp add: y' Spec_SetDefaults_idem)
  ultimately show ?thesis by (simp add: y')
qed

theorem defaults_keep_valid_witness:
  "\<exists>y'. SetDefaults demo_context (Some submitted_src) = Some y' \<and> sp_mode (y_spec y') \<noteq> '''' \<and> Validate demo_context y' = None"
proof -
  obtain y' where y': "SetDefaults demo_context (Some submitted_src) = Some y'" by simp
  from defaults_keep_valid [OF this, of demo_context] submitted_src_valid y' show ?thesis
    by (auto simp: demo_context_def)
qed

end
