(* ===== verification/Generic_Reconciler.thy ===== *)
theory Generic_Reconciler
  imports Reconcile_Kind Source_Admission
begin

text \<open>
  The generated reconciler that drives \<open>ReconcileKind\<close>:
  \<open>pkg/client/injection/reconciler/sources/v1alpha1/yipyapsource/{reconciler,state}.go\<close>, with the
  pre- and post-processing, the retry loop and the leader bookkeeping of \<open>vendor/knative.dev/pkg/reconciler\<close>.
  The business logic is a parameter (a record of the methods the Go type may implement); so are the
  lister and the answers of the API server. Every write to the API server and every recorded event is an
  output. Shown: a replica that is not the leader writes nothing, status writes touch nothing but the
  status and happen at most five times, an unchanged status is not written, and finalizer patches change
  nothing but the own finalizer.
\<close>

subsection \<open>Errors, events and the API client\<close>

datatype client_error = ErrConflict string | ErrNotFound string | ErrOther string

definition IsConflict :: "client_error \<Rightarrow> bool" where
  "IsConflict e \<longleftrightarrow> (case e of ErrConflict _ \<Rightarrow> True | _ \<Rightarrow> False)"

definition IsNotFound :: "client_error \<Rightarrow> bool" where
  "IsNotFound e \<longleftrightarrow> (case e of ErrNotFound _ \<Rightarrow> True | _ \<Rightarrow> False)"

text \<open>
  What a method returns: a bare event, an error that wraps an event, one of the errors with a special
  meaning for the work queue, or any other error.
\<close>

datatype reconcile_event =
    ReconcilerEvent string string
  | WrappedEvent string string string
  | SkipKeyEvent string
  | RequeueKeyEvent duration
  | ConflictEvent string
  | PlainError string

abbreviation EventTypeNormal :: string where "EventTypeNormal \<equiv> ''Normal''"
abbreviation EventTypeWarning :: string where "EventTypeWarning \<equiv> ''Warning''"

text \<open>\<open>reconciler.EventAs\<close>: the type and reason of the event inside.\<close>

fun EventAs :: "reconcile_event \<Rightarrow> (string \<times> string) option" where
  "EventAs (ReconcilerEvent t r) = Some (t, r)"
| "EventAs (WrappedEvent _ t r) = Some (t, r)"
| "EventAs _ = None"

datatype finalizer_patch =
    MergePatch string string "string list" string
  | ApplyPatch string string string "string list" string bool

datatype api_write =
    KubeWrite kube_write
  | WriteStatus yipyap_source
  | PatchSource finalizer_patch

text \<open>The answers of the API server; the number counts the attempts of one update.\<close>

record source_client =
  cl_Get :: "nat \<Rightarrow> string \<Rightarrow> string \<Rightarrow> client_error + yipyap_source"
  cl_UpdateStatus :: "nat \<Rightarrow> yipyap_source \<Rightarrow> client_error option"
  cl_Patch :: "finalizer_patch \<Rightarrow> client_error + yipyap_source"
  cl_ObjectKinds :: "group_version_kind list option"

subsection \<open>The interfaces a reconciler may implement\<close>

record namespaced_name =
  nn_namespace :: string
  nn_name :: string

record attempt =
  at_clock :: clock
  at_src :: yipyap_source
  at_writes :: "kube_write list"
  at_event :: "reconcile_event option"

text \<open>\<open>None\<close> is a panic.\<close>

type_synonym doReconcile = "clock \<Rightarrow> yipyap_source \<Rightarrow> attempt option"

record kind_reconciler =
  ki_ReconcileKind :: doReconcile
  ki_FinalizeKind :: "doReconcile option"
  ki_ObserveKind :: "doReconcile option"
  ki_ObserveDeletion :: "(namespaced_name \<Rightarrow> reconcile_event option) option"

record bucket =
  b_Name :: string
  b_Has :: "namespaced_name \<Rightarrow> bool"

record reconciler_impl =
  ri_buckets :: "(string \<times> bucket) list"
  ri_reconciler :: kind_reconciler
  ri_finalizerName :: string
  ri_useServerSideApply :: bool
  ri_finalizerFieldManager :: string
  ri_forceApply :: bool
  ri_skipStatusUpdates :: bool

subsection \<open>Leadership\<close>

definition IsLeaderFor :: "reconciler_impl \<Rightarrow> namespaced_name \<Rightarrow> bool" where
  "IsLeaderFor r key \<longleftrightarrow> list_ex (\<lambda>(_, bkt). b_Has bkt key) (ri_buckets r)"

text \<open>\<open>UniversalBucket\<close>: the bucket of a controller that runs without leader election.\<close>

definition UniversalBucket :: bucket where
  "UniversalBucket = \<lparr>b_Name = '''', b_Has = (\<lambda>_. True)\<rparr>"

text \<open>\<open>Promote\<close> with the \<open>PromoteFunc\<close> of the generated reconciler: the result of its list, and the keys enqueued.\<close>

definition promote_keys :: "(yipyap_source \<Rightarrow> bool) option \<Rightarrow> bucket \<Rightarrow> yipyap_source list \<Rightarrow> namespaced_name list" where
  "promote_keys flt bkt srcs =
     filter (b_Has bkt)
       (map (\<lambda>y. \<lparr>nn_namespace = om_namespace (y_meta y), nn_name = om_name (y_meta y)\<rparr>)
         (filter (\<lambda>y. case flt of None \<Rightarrow> True | Some f \<Rightarrow> f y) srcs))"

definition Promote ::
  "(yipyap_source \<Rightarrow> bool) option \<Rightarrow> string + yipyap_source list \<Rightarrow> bucket \<Rightarrow> reconciler_impl \<Rightarrow>
   reconciler_impl \<times> (string + namespaced_name list)" where
  "Promote flt listed bkt r =
     (r\<lparr>ri_buckets := assoc_set (b_Name bkt) bkt (ri_buckets r)\<rparr>,
      case listed of Inl e \<Rightarrow> Inl e | Inr srcs \<Rightarrow> Inr (promote_keys flt bkt srcs))"

definition Demote :: "bucket \<Rightarrow> reconciler_impl \<Rightarrow> reconciler_impl" where
  "Demote bkt r = r\<lparr>ri_buckets := filter (\<lambda>(n, _). n \<noteq> b_Name bkt) (ri_buckets r)\<rparr>"

subsection \<open>The state of one run\<close>

record run_key =
  k_key :: string
  k_namespace :: string
  k_name :: string
  k_isROI :: bool
  k_isLeader :: bool

definition SplitMetaNamespaceKey :: "string \<Rightarrow> (string \<times> string) option" where
  "SplitMetaNamespaceKey key =
     (case split_on (CHR ''/'') key of
        [name] \<Rightarrow> Some ('''', name)
      | [ns, name] \<Rightarrow> Some (ns, name)
      | _ \<Rightarrow> None)"

definition newState :: "string \<Rightarrow> reconciler_impl \<Rightarrow> run_key option" where
  "newState key r =
     (case SplitMetaNamespaceKey key of
        None \<Rightarrow> None
      | Some (ns, name) \<Rightarrow>
          Some \<lparr>k_key = key, k_namespace = ns, k_name = name, k_isROI = (ki_ObserveKind (ri_reconciler r) \<noteq> None),
                k_isLeader = IsLeaderFor r \<lparr>nn_namespace = ns, nn_name = name\<rparr>\<rparr>)"

definition isNotLeaderNorObserver :: "run_key \<Rightarrow> bool" where
  "isNotLeaderNorObserver s \<longleftrightarrow> (if \<not> k_isLeader s \<and> \<not> k_isROI s then True else False)"

datatype target_method = DoReconcileKind doReconcile | DoFinalizeKind doReconcile | DoObserveKind doReconcile | UnknownMethod

definition reconcileMethodFor :: "kind_reconciler \<Rightarrow> run_key \<Rightarrow> yipyap_source \<Rightarrow> target_method" where
  "reconcileMethodFor ki s o_src =
     (if om_deletionTimestamp (y_meta o_src) = None
      then if k_isLeader s then DoReconcileKind (ki_ReconcileKind ki)
           else (case ki_ObserveKind ki of Some f \<Rightarrow> DoObserveKind f | None \<Rightarrow> UnknownMethod)
      else (case ki_FinalizeKind ki of
              Some f \<Rightarrow> if k_isLeader s then DoFinalizeKind f else UnknownMethod
            | None \<Rightarrow> UnknownMethod))"

subsection \<open>Pre- and post-processing\<close>

definition failedGenerationBump :: string where "failedGenerationBump = ''NewObservedGenFailure''"

definition PreProcessReconcile :: "apis_context \<Rightarrow> clock \<times> yipyap_source \<Rightarrow> clock \<times> yipyap_source" where
  "PreProcessReconcile ctx = (\<lambda>(clk, y).
     let y = (case SetDefaults ctx (Some y) of Some y' \<Rightarrow> y' | None \<Rightarrow> y);
         s = Manage (InitializeConditions condSet) (clk, y_status y);
         s = (if st_observedGeneration (snd s) \<noteq> om_generation (y_meta y)
              then Manage (MarkUnknown condSet (happy condSet) failedGenerationBump ''unsuccessfully observed a new generation'') s
              else s)
     in (fst s, y\<lparr>y_status := snd s\<rparr>))"

definition groom_condition :: "int \<Rightarrow> condition list \<Rightarrow> condition \<Rightarrow> condition" where
  "groom_condition now old c =
     (case GetCondition (ctype c) old of
        None \<Rightarrow> c\<lparr>lastTransition := now\<rparr>
      | Some oldCond \<Rightarrow>
          let c = c\<lparr>lastTransition := lastTransition oldCond\<rparr>
          in if c = oldCond then c else c\<lparr>lastTransition := now\<rparr>)"

definition groomConditionsTransitionTime :: "int \<Rightarrow> source_status \<Rightarrow> source_status \<Rightarrow> source_status" where
  "groomConditionsTransitionTime now old s =
     s\<lparr>st_conditions := map (groom_condition now (st_conditions old)) (st_conditions s)\<rparr>"

definition PostProcessReconcile :: "yipyap_source \<Rightarrow> clock \<times> yipyap_source \<Rightarrow> clock \<times> yipyap_source" where
  "PostProcessReconcile original = (\<lambda>(clk, y).
     let s = (y_status y)\<lparr>st_observedGeneration := om_generation (y_meta y)\<rparr>
     in (tick clk, y\<lparr>y_status := groomConditionsTransitionTime (clk 0) (y_status original) s\<rparr>))"

subsection \<open>Writing the status\<close>

text \<open>\<open>equality.Semantic.DeepEqual\<close> on statuses: transition times are volatile and count as equal, annotations are a map.\<close>

definition without_times :: "source_status \<Rightarrow> source_status" where
  "without_times s = s\<lparr>st_conditions := map (\<lambda>c. c\<lparr>lastTransition := 0\<rparr>) (st_conditions s), st_annotations := []\<rparr>"

definition DeepEqual_status :: "source_status \<Rightarrow> source_status \<Rightarrow> bool" where
  "DeepEqual_status a b \<longleftrightarrow> without_times a = without_times b \<and> same_map (st_annotations a) (st_annotations b)"

text \<open>The function \<open>updateStatus\<close> hands to the retry loop: the object it tried to write and the error.\<close>

definition update_once ::
  "source_client \<Rightarrow> yipyap_source \<Rightarrow> nat \<Rightarrow> yipyap_source \<Rightarrow> yipyap_source \<times> yipyap_source list \<times> client_error option" where
  "update_once cl desired attempts existing =
     (case (if attempts > 0 then cl_Get cl attempts (om_namespace (y_meta desired)) (om_name (y_meta desired)) else Inr existing) of
        Inl e \<Rightarrow> (existing, [], Some e)
      | Inr existing \<Rightarrow>
          if DeepEqual_status (y_status existing) (y_status desired) then (existing, [], None)
          else let existing = existing\<lparr>y_status := y_status desired\<rparr>
               in (existing, [existing], cl_UpdateStatus cl attempts existing))"

definition DefaultRetry_Steps :: nat where "DefaultRetry_Steps = 5"

text \<open>\<open>retry.OnError\<close> with \<open>IsConflict\<close>: another attempt after a conflict, while steps are left.\<close>

fun RetryUpdateConflicts ::
  "source_client \<Rightarrow> yipyap_source \<Rightarrow> nat \<Rightarrow> nat \<Rightarrow> yipyap_source \<Rightarrow> yipyap_source list \<times> client_error option" where
  "RetryUpdateConflicts cl desired 0 attempts existing = ([], None)"
| "RetryUpdateConflicts cl desired (Suc steps) attempts existing =
     (case update_once cl desired attempts existing of
        (_, ws, None) \<Rightarrow> (ws, None)
      | (ex, ws, Some e) \<Rightarrow>
          if IsConflict e \<and> steps > 0
          then (let (ws', r) = RetryUpdateConflicts cl desired steps (Suc attempts) ex in (ws @ ws', r))
          else (ws, Some e))"

definition updateStatus :: "source_client \<Rightarrow> yipyap_source \<Rightarrow> yipyap_source \<Rightarrow> yipyap_source list \<times> client_error option" where
  "updateStatus cl existing desired = RetryUpdateConflicts cl desired DefaultRetry_Steps 0 existing"

subsection \<open>Finalizers\<close>

type_synonym recorded = "string \<times> string"

record finalizer_result =
  fr_patches :: "finalizer_patch list"
  fr_events :: "recorded list"
  fr_result :: "client_error + yipyap_source"

abbreviation unpatched :: "yipyap_source \<Rightarrow> finalizer_result" where
  "unpatched y \<equiv> \<lparr>fr_patches = [], fr_events = [], fr_result = Inr y\<rparr>"

definition send_patch :: "source_client \<Rightarrow> finalizer_patch \<Rightarrow> finalizer_result" where
  "send_patch cl patch =
     \<lparr>fr_patches = [patch],
      fr_events = (case cl_Patch cl patch of
                     Inl e \<Rightarrow> if \<not> IsConflict e then [(EventTypeWarning, ''FinalizerUpdateFailed'')] else []
                   | Inr _ \<Rightarrow> [(EventTypeNormal, ''FinalizerUpdate'')]),
      fr_result = cl_Patch cl patch\<rparr>"

definition updateFinalizersFilteredServerSideApply ::
  "reconciler_impl \<Rightarrow> source_client \<Rightarrow> yipyap_source \<Rightarrow> string set \<Rightarrow> finalizer_result" where
  "updateFinalizersFilteredServerSideApply r cl resource desired =
     (let m = y_meta resource;
          existing = set (om_finalizers m);
          apply_finalizers = (\<lambda>finalizers.
            case cl_ObjectKinds cl of
              Some (gvk # _) \<Rightarrow>
                send_patch cl (ApplyPatch (om_namespace m) (om_name m) (om_uid m) finalizers (ri_finalizerFieldManager r) (ri_forceApply r))
            | _ \<Rightarrow> \<lparr>fr_patches = [], fr_events = [], fr_result = Inl (ErrOther ''failed to determine GVK for resource'')\<rparr>)
      in if ri_finalizerName r \<in> desired
         then if ri_finalizerName r \<in> existing then unpatched resource else apply_finalizers [ri_finalizerName r]
         else if ri_finalizerName r \<notin> existing then unpatched resource else apply_finalizers [])"

definition updateFinalizersFilteredMergePatch ::
  "reconciler_impl \<Rightarrow> source_client \<Rightarrow> yipyap_source \<Rightarrow> string set \<Rightarrow> finalizer_result" where
  "updateFinalizersFilteredMergePatch r cl resource desired =
     (let m = y_meta resource;
          existing = set (om_finalizers m);
          merge = (\<lambda>finalizers. send_patch cl (MergePatch (om_namespace m) (om_name m) finalizers (om_resourceVersion m)))
      in if ri_finalizerName r \<in> desired
         then if ri_finalizerName r \<in> existing then unpatched resource else merge (om_finalizers m @ [ri_finalizerName r])
         else if ri_finalizerName r \<notin> existing then unpatched resource
              else merge (sort (remdups (filter (\<lambda>f. f \<noteq> ri_finalizerName r) (om_finalizers m)))))"

definition updateFinalizersFiltered ::
  "reconciler_impl \<Rightarrow> source_client \<Rightarrow> yipyap_source \<Rightarrow> string set \<Rightarrow> finalizer_result" where
  "updateFinalizersFiltered r cl resource desired =
     (if ri_useServerSideApply r
      then updateFinalizersFilteredServerSideApply r cl resource desired
      else updateFinalizersFilteredMergePatch r cl resource desired)"

definition setFinalizerIfFinalizer :: "reconciler_impl \<Rightarrow> source_client \<Rightarrow> yipyap_source \<Rightarrow> finalizer_result" where
  "setFinalizerIfFinalizer r cl resource =
     (if ki_FinalizeKind (ri_reconciler r) = None then unpatched resource
      else let finalizers = set (om_finalizers (y_meta resource));
               finalizers = (if om_deletionTimestamp (y_meta resource) = None then insert (ri_finalizerName r) finalizers else finalizers)
           in updateFinalizersFiltered r cl resource finalizers)"

definition clearFinalizer :: "reconciler_impl \<Rightarrow> source_client \<Rightarrow> yipyap_source \<Rightarrow> reconcile_event option \<Rightarrow> finalizer_result" where
  "clearFinalizer r cl resource event =
     (if ki_FinalizeKind (ri_reconciler r) = None then unpatched resource
      else if om_deletionTimestamp (y_meta resource) = None then unpatched resource
      else
        let finalizers = set (om_finalizers (y_meta resource));
            finalizers =
              (case event of
                 None \<Rightarrow> finalizers - {ri_finalizerName r}
               | Some ev \<Rightarrow>
                   (case EventAs ev of
                      Some (t, _) \<Rightarrow> if t = EventTypeNormal then finalizers - {ri_finalizerName r} else finalizers
                    | None \<Rightarrow> finalizers));
            f = updateFinalizersFiltered r cl resource finalizers
        in (case fr_result f of
              Inr _ \<Rightarrow> f
            | Inl e \<Rightarrow>
                (case cl_Get cl 0 (om_namespace (y_meta resource)) (om_name (y_meta resource)) of
                   Inl ge \<Rightarrow> if IsNotFound ge then f\<lparr>fr_result := Inr resource\<rparr> else f
                 | Inr _ \<Rightarrow> f)))"

subsection \<open>Reconcile\<close>

datatype reconcile_return =
    SkipKeyError string
  | ListerError string
  | SetFinalizersFailed client_error
  | ClearFinalizersFailed client_error
  | UpdateStatusFailed client_error
  | ReturnedEvent reconcile_event

record reconcile_out =
  ro_writes :: "api_write list"
  ro_events :: "recorded list"
  ro_err :: "reconcile_return option"

abbreviation quiet :: "reconcile_return option \<Rightarrow> reconcile_out" where
  "quiet e \<equiv> \<lparr>ro_writes = [], ro_events = [], ro_err = e\<rparr>"

text \<open>Reporting the event a method returned.\<close>

definition report_event :: "reconcile_event option \<Rightarrow> recorded list \<times> reconcile_return option" where
  "report_event event =
     (case event of
        None \<Rightarrow> ([], None)
      | Some ev \<Rightarrow>
          (case EventAs ev of
             Some e \<Rightarrow> ([e], case ev of ReconcilerEvent _ _ \<Rightarrow> None | _ \<Rightarrow> Some (ReturnedEvent ev))
           | None \<Rightarrow>
               ((case ev of
                   SkipKeyEvent _ \<Rightarrow> [] | RequeueKeyEvent _ \<Rightarrow> [] | ConflictEvent _ \<Rightarrow> []
                 | _ \<Rightarrow> [(EventTypeWarning, ''InternalError'')]),
                Some (ReturnedEvent ev))))"

text \<open>Synchronising the status, and reporting the event.\<close>

definition synchronize_status ::
  "reconciler_impl \<Rightarrow> source_client \<Rightarrow> run_key \<Rightarrow> yipyap_source \<Rightarrow> yipyap_source \<Rightarrow> reconcile_event option \<Rightarrow>
   api_write list \<Rightarrow> recorded list \<Rightarrow> reconcile_out" where
  "synchronize_status r cl s original resource event ws evs =
     (let (status_writes, err) =
            (if ri_skipStatusUpdates r then ([], None)
             else if DeepEqual_status (y_status original) (y_status resource) then ([], None)
             else if \<not> k_isLeader s then ([], None)
             else updateStatus cl original resource);
          ws = ws @ map WriteStatus status_writes
      in case err of
           Some e \<Rightarrow> \<lparr>ro_writes = ws, ro_events = evs @ [(EventTypeWarning, ''UpdateFailed'')], ro_err = Some (UpdateStatusFailed e)\<rparr>
         | None \<Rightarrow> (let (evs', e) = report_event event in \<lparr>ro_writes = ws, ro_events = evs @ evs', ro_err = e\<rparr>))"

definition reconcile_kind_case ::
  "reconciler_impl \<Rightarrow> source_client \<Rightarrow> apis_context \<Rightarrow> clock \<Rightarrow> run_key \<Rightarrow> doReconcile \<Rightarrow> yipyap_source \<Rightarrow> reconcile_out option" where
  "reconcile_kind_case r cl ctx clk s do original =
     (let f = setFinalizerIfFinalizer r cl original in
      case fr_result f of
        Inl e \<Rightarrow> Some \<lparr>ro_writes = map PatchSource (fr_patches f), ro_events = fr_events f, ro_err = Some (SetFinalizersFailed e)\<rparr>
      | Inr resource \<Rightarrow>
          let (clk, resource) = (if ri_skipStatusUpdates r then (clk, resource) else PreProcessReconcile ctx (clk, resource)) in
          map_option
            (\<lambda>a. let (clk, resource) =
                       (if ri_skipStatusUpdates r then (at_clock a, at_src a) else PostProcessReconcile original (at_clock a, at_src a))
                 in synchronize_status r cl s original resource (at_event a)
                      (map PatchSource (fr_patches f) @ map KubeWrite (at_writes a)) (fr_events f))
            (do clk resource))"

definition finalize_kind_case ::
  "reconciler_impl \<Rightarrow> source_client \<Rightarrow> clock \<Rightarrow> run_key \<Rightarrow> doReconcile \<Rightarrow> yipyap_source \<Rightarrow> reconcile_out option" where
  "finalize_kind_case r cl clk s do original =
     map_option
       (\<lambda>a. let f = clearFinalizer r cl (at_src a) (at_event a);
                ws = map KubeWrite (at_writes a) @ map PatchSource (fr_patches f)
            in case fr_result f of
                 Inl e \<Rightarrow> \<lparr>ro_writes = ws, ro_events = fr_events f, ro_err = Some (ClearFinalizersFailed e)\<rparr>
               | Inr resource \<Rightarrow> synchronize_status r cl s original resource (at_event a) ws (fr_events f))
       (do clk original)"

definition observe_kind_case ::
  "reconciler_impl \<Rightarrow> source_client \<Rightarrow> clock \<Rightarrow> run_key \<Rightarrow> doReconcile \<Rightarrow> yipyap_source \<Rightarrow> reconcile_out option" where
  "observe_kind_case r cl clk s do original =
     map_option (\<lambda>a. synchronize_status r cl s original (at_src a) (at_event a) (map KubeWrite (at_writes a)) []) (do clk original)"

definition Reconcile ::
  "reconciler_impl \<Rightarrow> source_client \<Rightarrow> (string \<Rightarrow> string \<Rightarrow> yipyap_source api_get) \<Rightarrow> apis_context \<Rightarrow> clock \<Rightarrow> string \<Rightarrow>
   reconcile_out option" where
  "Reconcile r cl lister ctx clk key =
     (case newState key r of
        None \<Rightarrow> Some (quiet None)
      | Some s \<Rightarrow>
          if isNotLeaderNorObserver s then Some (quiet (Some (SkipKeyError key)))
          else
            (case lister (k_namespace s) (k_name s) of
               GetNotFound \<Rightarrow>
                 (case ki_ObserveDeletion (ri_reconciler r) of
                    Some del \<Rightarrow>
                      Some (quiet (map_option ReturnedEvent (del \<lparr>nn_namespace = k_namespace s, nn_name = k_name s\<rparr>)))
                  | None \<Rightarrow> Some (quiet None))
             | GetError e \<Rightarrow> Some (quiet (Some (ListerError e)))
             | GetFound original \<Rightarrow>
                 (case reconcileMethodFor (ri_reconciler r) s original of
                    DoReconcileKind do \<Rightarrow> reconcile_kind_case r cl ctx clk s do original
                  | DoFinalizeKind do \<Rightarrow> finalize_kind_case r cl clk s do original
                  | DoObserveKind do \<Rightarrow> observe_kind_case r cl clk s do original
                  | UnknownMethod \<Rightarrow> Some (synchronize_status r cl s original original None [] []))))"

subsection \<open>The reconciler of the YipYap source\<close>

text \<open>
  The Go type implements \<open>ReconcileKind\<close> only. Its errors wrap the client's error; \<open>is_conflict\<close> says
  which of those are conflicts.
\<close>

fun error_text :: "reconcile_error \<Rightarrow> string" where
  "error_text (ResolveSink e) = e"
| "error_text (CreateDeploymentFailed e) = e"
| "error_text (GetDeploymentFailed e) = e"
| "error_text (UpdateDeploymentFailed e) = e"

definition event_of :: "(string \<Rightarrow> bool) \<Rightarrow> reconcile_error \<Rightarrow> reconcile_event" where
  "event_of is_conflict e = (if is_conflict (error_text e) then ConflictEvent (error_text e) else PlainError (error_text e))"

definition yipyap_kind :: "(string \<Rightarrow> bool) \<Rightarrow> reconciler \<Rightarrow> kind_reconciler" where
  "yipyap_kind is_conflict rc =
     \<lparr>ki_ReconcileKind = (\<lambda>clk src. map_option
        (\<lambda>k. \<lparr>at_clock = rk_clock k, at_src = rk_src k, at_writes = rk_writes k,
              at_event = map_option (event_of is_conflict) (rk_event k)\<rparr>)
        (ReconcileKind rc clk src)),
      ki_FinalizeKind = None, ki_ObserveKind = None, ki_ObserveDeletion = None\<rparr>"

definition defaultFinalizerName :: string where "defaultFinalizerName = ''yipyapsources.sources.yipyap.run''"

definition yipyap_impl :: "(string \<Rightarrow> bool) \<Rightarrow> reconciler \<Rightarrow> (string \<times> bucket) list \<Rightarrow> reconciler_impl" where
  "yipyap_impl is_conflict rc bkts =
     \<lparr>ri_buckets = bkts, ri_reconciler = yipyap_kind is_conflict rc, ri_finalizerName = defaultFinalizerName,
      ri_useServerSideApply = False, ri_finalizerFieldManager = '''', ri_forceApply = False, ri_skipStatusUpdates = False\<rparr>"

subsection \<open>Laws of the status update\<close>

text \<open>Where an object that is written comes from: the cached object, or a read made for a retry.\<close>

definition known_base :: "source_client \<Rightarrow> yipyap_source \<Rightarrow> yipyap_source \<Rightarrow> yipyap_source \<Rightarrow> bool" where
  "known_base cl desired existing base \<longleftrightarrow>
     base = existing \<or> (\<exists>i > 0. cl_Get cl i (om_namespace (y_meta desired)) (om_name (y_meta desired)) = Inr base)"

lemma update_once_writes:
  assumes "update_once cl desired a existing = (ex, ws, e)"
  shows "length ws \<le> 1" "w \<in> set ws \<Longrightarrow> \<exists>base. w = base\<lparr>y_status := y_status desired\<rparr> \<and> (a = 0 \<and> base = existing \<or>
    (\<exists>i > 0. cl_Get cl i (om_namespace (y_meta desired)) (om_name (y_meta desired)) = Inr base))"
  using assms by (fastforce simp: update_once_def Let_def split: sum.splits if_splits)+

lemma RetryUpdateConflicts_writes:
  assumes "RetryUpdateConflicts cl desired n a existing = (ws, e)"
  shows "length ws \<le> n \<and> (\<forall>w \<in> set ws. \<exists>base. w = base\<lparr>y_status := y_status desired\<rparr> \<and>
    (a = 0 \<and> base = existing \<or> (\<exists>i > 0. cl_Get cl i (om_namespace (y_meta desired)) (om_name (y_meta desired)) = Inr base)))"
  using assms
proof (induction n arbitrary: a existing ws e)
  case (Suc n)
  obtain ex ws1 e1 where once: "update_once cl desired a existing = (ex, ws1, e1)" by (metis prod_cases3)
  note w1 = update_once_writes [OF once]
  show ?case
  proof (cases "\<exists>err. e1 = Some err \<and> IsConflict err \<and> n > 0")
    case True
    obtain ws2 where ws2: "RetryUpdateConflicts cl desired n (Suc a) ex = (ws2, e)" "ws = ws1 @ ws2"
      using Suc.prems once True by (auto split: prod.splits)
    from Suc.IH [OF ws2(1)] w1 ws2(2) show ?thesis by (auto; blast)
  next
    case False
    then have "ws = ws1" using Suc.prems once by (auto split: option.splits if_splits)
    with w1 show ?thesis by (auto intro: le_SucI)
  qed
qed simp

lemma updateStatus_writes:
  assumes "updateStatus cl existing desired = (ws, e)"
  shows "length ws \<le> 5"
    "w \<in> set ws \<Longrightarrow> \<exists>base. w = base\<lparr>y_status := y_status desired\<rparr> \<and> known_base cl desired existing base"
  using RetryUpdateConflicts_writes [OF assms [unfolded updateStatus_def]]
  by (auto simp: DefaultRetry_Steps_def known_base_def; blast)+

text \<open>An update that reports success ends with the wanted status stored, or found there already.\<close>

lemma update_once_success:
  assumes "update_once cl desired a existing = (ex, ws, None)"
  shows "(ws \<noteq> [] \<and> (\<exists>i. cl_UpdateStatus cl i (last ws) = None)) \<or>
    (\<exists>base. (a = 0 \<and> base = existing \<or>
         (\<exists>i > 0. cl_Get cl i (om_namespace (y_meta desired)) (om_name (y_meta desired)) = Inr base)) \<and>
       DeepEqual_status (y_status base) (y_status desired))"
proof -
  define g where "g = (if a > 0 then cl_Get cl a (om_namespace (y_meta desired)) (om_name (y_meta desired)) else Inr existing)"
  from assms obtain base where g: "g = Inr base" by (auto simp: update_once_def g_def [symmetric] split: sum.splits)
  have base: "a = 0 \<and> base = existing \<or> (\<exists>i > 0. cl_Get cl i (om_namespace (y_meta desired)) (om_name (y_meta desired)) = Inr base)"
    using g by (auto simp: g_def split: if_splits)
  show ?thesis
  proof (cases "DeepEqual_status (y_status base) (y_status desired)")
    case True
    with base show ?thesis by blast
  next
    case False
    with assms g show ?thesis by (auto simp: update_once_def g_def [symmetric] Let_def)
  qed
qed

lemma RetryUpdateConflicts_success:
  assumes "RetryUpdateConflicts cl desired n a existing = (ws, None)" "n > 0"
  shows "(ws \<noteq> [] \<and> (\<exists>i. cl_UpdateStatus cl i (last ws) = None)) \<or>
    (\<exists>base. (a = 0 \<and> base = existing \<or>
         (\<exists>i > 0. cl_Get cl i (om_namespace (y_meta desired)) (om_name (y_meta desired)) = Inr base)) \<and>
       DeepEqual_status (y_status base) (y_status desired))"
  using assms
proof (induction n arbitrary: a existing ws)
  case (Suc n)
  obtain ex ws1 e1 where once: "update_once cl desired a existing = (ex, ws1, e1)" by (metis prod_cases3)
  show ?case
  proof (cases e1)
    case None
    then have "ws = ws1" using Suc.prems once by simp
    with update_once_success [OF once [unfolded None]] show ?thesis by blast
  next
    case (Some err)
    then obtain ws2 where ws2: "RetryUpdateConflicts cl desired n (Suc a) ex = (ws2, None)" "ws = ws1 @ ws2" "n > 0"
      using Suc.prems once by (auto split: prod.splits if_splits)
    from Suc.IH [OF ws2(1,3)] ws2(2) show ?thesis by auto
  qed
qed simp

subsection \<open>Laws of one reconciliation\<close>

text \<open>The objects whose status a run writes, and its other writes.\<close>

definition status_writes :: "reconcile_out \<Rightarrow> yipyap_source list" where
  "status_writes out = List.map_filter (\<lambda>w. case w of WriteStatus y \<Rightarrow> Some y | _ \<Rightarrow> None) (ro_writes out)"

definition kube_writes :: "reconcile_out \<Rightarrow> kube_write list" where
  "kube_writes out = List.map_filter (\<lambda>w. case w of KubeWrite k \<Rightarrow> Some k | _ \<Rightarrow> None) (ro_writes out)"

definition patches :: "reconcile_out \<Rightarrow> finalizer_patch list" where
  "patches out = List.map_filter (\<lambda>w. case w of PatchSource p \<Rightarrow> Some p | _ \<Rightarrow> None) (ro_writes out)"

lemma map_filter_append: "List.map_filter f (xs @ ys) = List.map_filter f xs @ List.map_filter f ys"
  by (simp add: List.map_filter_def)

lemma map_filter_map_None: "(\<And>x. f (g x) = None) \<Longrightarrow> List.map_filter f (map g xs) = []"
  by (induction xs) (simp_all add: List.map_filter_simps)

lemma map_filter_map_Some: "(\<And>x. f (g x) = Some x) \<Longrightarrow> List.map_filter f (map g xs) = xs"
  by (induction xs) (simp_all add: List.map_filter_simps)

lemmas write_projections = status_writes_def kube_writes_def patches_def map_filter_append
  map_filter_map_None map_filter_map_Some List.map_filter_simps

lemma synchronize_status_writes:
  fixes r cl s original resource event ps ks
  defines "out ev \<equiv> synchronize_status r cl s original resource event (map PatchSource ps @ map KubeWrite ks) ev"
  shows "kube_writes (out ev) = ks" "patches (out ev) = ps" "length (status_writes (out ev)) \<le> 5"
    "w \<in> set (status_writes (out ev)) \<Longrightarrow>
       \<exists>base. w = base\<lparr>y_status := y_status resource\<rparr> \<and> known_base cl resource original base \<and> k_isLeader s \<and>
         \<not> DeepEqual_status (y_status original) (y_status resource)"
proof -
  define sw where "sw = (if ri_skipStatusUpdates r \<or> DeepEqual_status (y_status original) (y_status resource) \<or> \<not> k_isLeader s
    then [] else fst (updateStatus cl original resource))"
  have out: "ro_writes (out ev) = map PatchSource ps @ map KubeWrite ks @ map WriteStatus sw"
    by (auto simp: out_def synchronize_status_def sw_def Let_def split: prod.splits option.splits)
  show "kube_writes (out ev) = ks" "patches (out ev) = ps" by (simp_all add: write_projections out)
  have sws: "status_writes (out ev) = sw" by (simp add: write_projections out)
  show "length (status_writes (out ev)) \<le> 5"
    using updateStatus_writes(1) [of cl original resource "fst (updateStatus cl original resource)" "snd (updateStatus cl original resource)"]
    by (simp add: sws sw_def)
  show "w \<in> set (status_writes (out ev)) \<Longrightarrow>
       \<exists>base. w = base\<lparr>y_status := y_status resource\<rparr> \<and> known_base cl resource original base \<and> k_isLeader s \<and>
         \<not> DeepEqual_status (y_status original) (y_status resource)"
    using updateStatus_writes(2) [of cl original resource "fst (updateStatus cl original resource)" "snd (updateStatus cl original resource)" w]
    by (auto simp: sws sw_def split: if_splits)
qed

subsection \<open>Pre- and post-processing keep the status well formed\<close>

lemma groom_same [simp]: "ctype (groom_condition now old c) = ctype c" "cstatus (groom_condition now old c) = cstatus c"
  "severity (groom_condition now old c) = severity c" "reason (groom_condition now old c) = reason c"
  "message (groom_condition now old c) = message c"
proof -
  have "\<exists>t. groom_condition now old c = c\<lparr>lastTransition := t\<rparr>"
    unfolding groom_condition_def Let_def by (cases "GetCondition (ctype c) old") (simp; metis)+
  then obtain t where t: "groom_condition now old c = c\<lparr>lastTransition := t\<rparr>" by blast
  show "ctype (groom_condition now old c) = ctype c" "cstatus (groom_condition now old c) = cstatus c"
    "severity (groom_condition now old c) = severity c" "reason (groom_condition now old c) = reason c"
    "message (groom_condition now old c) = message c"
    by (simp_all add: t)
qed

lemma GetCondition_groom:
  "GetCondition t (map (groom_condition now old) cs) = map_option (groom_condition now old) (GetCondition t cs)"
  by (induction cs) (simp_all add: GetCondition_def)

lemma groom_status [simp]:
  "cond_status t (groomConditionsTransitionTime now old s) = cond_status t s"
  "status_ok (groomConditionsTransitionTime now old s) = status_ok s"
  "IsReady (groomConditionsTransitionTime now old s) = IsReady s"
  "ready_iff (groomConditionsTransitionTime now old s) = ready_iff s"
proof -
  show cs: "cond_status t (groomConditionsTransitionTime now old s) = cond_status t s" for t
    by (simp add: cond_status_def status_of_def groomConditionsTransitionTime_def GetCondition_groom option.map_comp comp_def)
  show "status_ok (groomConditionsTransitionTime now old s) = status_ok s"
    by (simp add: status_ok_def managed_ok_def groomConditionsTransitionTime_def comp_def image_image)
  show rd: "IsReady (groomConditionsTransitionTime now old s) = IsReady s"
    using cs [of "happy condSet"] by (simp add: IsReady_def IsHappy_status cond_status_def)
  show "ready_iff (groomConditionsTransitionTime now old s) = ready_iff s" by (simp add: ready_iff_def cs rd)
qed

lemma MarkUnknown_happy_ok:
  assumes ok: "managed_ok r (snd m)" and proper: "proper_set r"
  shows "managed_ok r (snd (MarkUnknown r (happy r) rsn msg m))"
proof -
  let ?m = "SetCondition (mk_condition (happy r) ConditionUnknown (cond_severity r (happy r)) rsn msg) m"
  have m: "managed_ok r (snd ?m)" using ok by (rule set_happy) simp
  then have F: "managed_ok r (snd (MarkFalse r (happy r) rsn msg ?m))"
    unfolding MarkFalse_happy [OF proper] by (rule set_happy) simp
  have "happy r \<notin> set (dependents r)" using proper by (simp add: proper_set_def)
  with m F show ?thesis by (simp add: MarkUnknown_def mark_unknown_loop_cases Let_def del: cond_severity_terminal)
qed

lemma PreProcess_frame:
  assumes "PreProcessReconcile ctx (clk, y) = (clk', y')" "status_ok (y_status y)"
  shows "status_ok (y_status y')" "y_meta y' = y_meta y" "y_spec y' = Spec_SetDefaults (WithinParent ctx (y_meta y)) (y_spec y)"
proof -
  let ?i = "Manage (InitializeConditions condSet) (clk, y_status y)"
  have i: "status_ok (snd ?i)" using InitializeConditions_ok [of condSet "(clk, st_conditions (y_status y))"] assms(2)
    by (simp add: status_ok_def Manage_conditions)
  have "status_ok (snd (Manage (MarkUnknown condSet (happy condSet) failedGenerationBump msg) ?i))" for msg
    using i MarkUnknown_happy_ok [of condSet "(fst ?i, st_conditions (snd ?i))"] by (simp add: status_ok_def Manage_conditions)
  with i assms(1) show "status_ok (y_status y')" by (auto simp: PreProcessReconcile_def Let_def split: if_splits)
  show "y_meta y' = y_meta y" "y_spec y' = Spec_SetDefaults (WithinParent ctx (y_meta y)) (y_spec y)"
    using assms(1) by (auto simp: PreProcessReconcile_def Let_def split: if_splits)
qed

subsection \<open>The YipYap reconciler in the generated one\<close>

lemma yipyap_impl_simps [simp]:
  "ki_FinalizeKind (ri_reconciler (yipyap_impl c rc bkts)) = None" "ki_ObserveKind (ri_reconciler (yipyap_impl c rc bkts)) = None"
  "ki_ObserveDeletion (ri_reconciler (yipyap_impl c rc bkts)) = None" "\<not> ri_skipStatusUpdates (yipyap_impl c rc bkts)"
  "ri_buckets (yipyap_impl c rc bkts) = bkts"
  by (simp_all add: yipyap_impl_def yipyap_kind_def)

lemma groom_observed [simp]: "st_observedGeneration (groomConditionsTransitionTime now old s) = st_observedGeneration s"
  by (simp add: groomConditionsTransitionTime_def)

lemma ready_iff_observed [simp]: "ready_iff (s\<lparr>st_observedGeneration := g\<rparr>) = ready_iff s"
  by (simp add: ready_iff_def IsReady_def)

text \<open>The resource as it stands when the status is synchronised, with the writes of \<open>ReconcileKind\<close>.\<close>

lemma yipyap_kind_run:
  assumes "status_ok (y_status original)" "reconcile_kind_case (yipyap_impl c rc bkts) cl ctx clk s
    (ki_ReconcileKind (ri_reconciler (yipyap_impl c rc bkts))) original = Some out"
  obtains src x resource clk' where "y_meta src = y_meta original"
    "y_spec src = Spec_SetDefaults (WithinParent ctx (y_meta original)) (y_spec original)" "status_ok (y_status src)"
    "ReconcileKind rc clk' src = Some x" "status_ok (y_status resource)"
    "out = synchronize_status (yipyap_impl c rc bkts) cl s original resource (map_option (event_of c) (rk_event x)) (map KubeWrite (rk_writes x)) []"
    "y_meta resource = y_meta original" "ready_iff (y_status resource)"
    "st_observedGeneration (y_status resource) = om_generation (y_meta original)"
proof -
  obtain clk1 src where pre: "PreProcessReconcile ctx (clk, original) = (clk1, src)" by fastforce
  note src = PreProcess_frame [OF pre assms(1)]
  obtain x where x: "ReconcileKind rc clk1 src = Some x" "status_ok (y_status (rk_src x))"
      "ready_iff (y_status (rk_src x))" "y_meta (rk_src x) = y_meta src"
    by (rule ReconcileKind_cases [OF src(1), of rc clk1]) auto
  obtain clk2 resource where post: "PostProcessReconcile original (rk_clock x, rk_src x) = (clk2, resource)" by fastforce
  have "out = synchronize_status (yipyap_impl c rc bkts) cl s original resource (map_option (event_of c) (rk_event x))
      (map KubeWrite (rk_writes x)) []"
    using assms(2) pre post x(1)
    by (simp add: reconcile_kind_case_def setFinalizerIfFinalizer_def)
       (simp add: yipyap_impl_def yipyap_kind_def)
  moreover have "y_meta resource = y_meta original" "status_ok (y_status resource)" "ready_iff (y_status resource)"
    "st_observedGeneration (y_status resource) = om_generation (y_meta original)"
    using post x(2-4) src(2) by (auto simp: PostProcessReconcile_def Let_def)
  ultimately show ?thesis using that src(2,3,1) x(1) by blast
qed

lemma yipyap_reconcile_kind:
  assumes "status_ok (y_status original)" "reconcile_kind_case (yipyap_impl c rc bkts) cl ctx clk s
    (ki_ReconcileKind (ri_reconciler (yipyap_impl c rc bkts))) original = Some out"
  obtains resource event ks where
    "out = synchronize_status (yipyap_impl c rc bkts) cl s original resource event (map KubeWrite ks) []"
    "y_meta resource = y_meta original" "length ks \<le> 1" "status_ok (y_status resource)" "ready_iff (y_status resource)"
    "st_observedGeneration (y_status resource) = om_generation (y_meta original)" "event \<in> insert None (range (Some \<circ> event_of c))"
proof (rule yipyap_kind_run [OF assms])
  fix src x resource clk'
  assume src: "status_ok (y_status src)" and x: "ReconcileKind rc clk' src = Some x"
    and rest: "out = synchronize_status (yipyap_impl c rc bkts) cl s original resource (map_option (event_of c) (rk_event x)) (map KubeWrite (rk_writes x)) []"
      "y_meta resource = y_meta original" "status_ok (y_status resource)" "ready_iff (y_status resource)"
      "st_observedGeneration (y_status resource) = om_generation (y_meta original)"
  have "length (rk_writes x) \<le> 1"
    by (rule ReconcileKind_cases [OF src, of rc clk']) (use x in \<open>auto elim!: deployment_outcomeE\<close>)
  moreover have "map_option (event_of c) (rk_event x) \<in> insert None (range (Some \<circ> event_of c))"
    by (cases "rk_event x") auto
  ultimately show thesis using that rest by blast
qed

lemma Reconcile_yipyap_writes:
  assumes "Reconcile (yipyap_impl c rc bkts) cl lister ctx clk key = Some out" "SplitMetaNamespaceKey key = Some (ns, name)"
    and "\<forall>y. lister ns name = GetFound y \<longrightarrow> status_ok (y_status y)"
  shows "patches out = [] \<and> length (kube_writes out) \<le> 1 \<and> length (status_writes out) \<le> 5 \<and>
    (\<forall>w \<in> set (status_writes out). \<exists>original base. lister ns name = GetFound original \<and> known_base cl original original base \<and>
       y_meta w = y_meta base \<and> y_spec w = y_spec base \<and> ready_iff (y_status w) \<and> status_ok (y_status w) \<and>
       st_observedGeneration (y_status w) = om_generation (y_meta original) \<and> \<not> DeepEqual_status (y_status original) (y_status w))"
proof -
  let ?r = "yipyap_impl c rc bkts"
  obtain s where s: "newState key ?r = Some s" "k_namespace s = ns" "k_name s = name"
    using assms(2) by (simp add: newState_def)
  consider (quiet) "ro_writes out = []"
    | (run) original where "lister ns name = GetFound original"
        "reconcile_kind_case ?r cl ctx clk s (ki_ReconcileKind (ri_reconciler ?r)) original = Some out"
    using assms(1) s that(1)
    by (auto simp: Reconcile_def reconcileMethodFor_def synchronize_status_def DeepEqual_status_def same_map_def list_all_iff Let_def
        split: api_get.splits if_splits prod.splits option.splits)
  then show ?thesis
  proof cases
    case quiet
    then show ?thesis by (simp add: write_projections)
  next
    case (run original)
    obtain resource event ks where res: "out = synchronize_status ?r cl s original resource event (map KubeWrite ks) []"
      "y_meta resource = y_meta original" "length ks \<le> 1" "status_ok (y_status resource)" "ready_iff (y_status resource)"
      "st_observedGeneration (y_status resource) = om_generation (y_meta original)"
      using yipyap_reconcile_kind [OF _ run(2)] assms(3) run(1) by blast
    note w = synchronize_status_writes [where r = ?r and cl = cl and s = s and original = original and resource = resource and
        event = event and ps = "[]" and ks = ks and ev = "[]", simplified, folded res(1)]
    have "\<exists>base. lister ns name = GetFound original \<and> known_base cl original original base \<and>
       y_meta v = y_meta base \<and> y_spec v = y_spec base \<and> ready_iff (y_status v) \<and> status_ok (y_status v) \<and>
       st_observedGeneration (y_status v) = om_generation (y_meta original) \<and> \<not> DeepEqual_status (y_status original) (y_status v)"
      if "v \<in> set (status_writes out)" for v
      using w(4) [OF that] res(2-6) run(1) by (auto simp: known_base_def)
    then show ?thesis using w(1-3) res(3) by blast
  qed
qed

lemma Reconcile_yipyap_total:
  assumes "SplitMetaNamespaceKey key = Some (ns, name)" "\<forall>y. lister ns name = GetFound y \<longrightarrow> status_ok (y_status y)"
  shows "\<exists>out. Reconcile (yipyap_impl c rc bkts) cl lister ctx clk key = Some out"
proof -
  have "\<exists>out. reconcile_kind_case (yipyap_impl c rc bkts) cl ctx clk s (ki_ReconcileKind (ri_reconciler (yipyap_impl c rc bkts))) y = Some out"
    if ok: "status_ok (y_status y)" for s y
  proof -
    obtain clk1 src where pre: "PreProcessReconcile ctx (clk, y) = (clk1, src)" by fastforce
    obtain x where "ReconcileKind rc clk1 src = Some x"
      by (rule ReconcileKind_cases [OF PreProcess_frame(1) [OF pre ok], of rc clk1]) auto
    with pre show ?thesis
      by (simp add: reconcile_kind_case_def setFinalizerIfFinalizer_def) (simp add: yipyap_impl_def yipyap_kind_def)
  qed
  with assms show ?thesis
    by (auto simp: Reconcile_def newState_def reconcileMethodFor_def split: api_get.split)
qed

subsection \<open>Properties\<close>

text \<open>
  C9: A replica that is not the leader for a key writes nothing: no status, no finalizer, no Deployment.
  The contract of an observer is that it does not write itself; a reconciler without one, such as the
  YipYap reconciler, is not even called and the key is skipped.
\<close>
theorem nonleader_writes_nothing:
  assumes "SplitMetaNamespaceKey key = Some (ns, name)" "\<not> IsLeaderFor r \<lparr>nn_namespace = ns, nn_name = name\<rparr>"
    and "\<forall>f clk y a. ki_ObserveKind (ri_reconciler r) = Some f \<longrightarrow> f clk y = Some a \<longrightarrow> at_writes a = []"
    and "Reconcile r cl lister ctx clk key = Some out"
  shows "ro_writes out = [] \<and> (ki_ObserveKind (ri_reconciler r) = None \<longrightarrow> ro_err out = Some (SkipKeyError key))"
proof -
  obtain s where s: "newState key r = Some s" "\<not> k_isLeader s" "k_isROI s = (ki_ObserveKind (ri_reconciler r) \<noteq> None)"
    using assms(1,2) by (simp add: newState_def)
  have sync: "ro_writes (synchronize_status r cl s original resource event [] evs) = []" for original resource event evs
    using s(2) by (simp add: synchronize_status_def Let_def split: prod.split)
  show ?thesis
  proof (cases "ki_ObserveKind (ri_reconciler r)")
    case None
    with s assms(4) show ?thesis by (auto simp: Reconcile_def isNotLeaderNorObserver_def)
  next
    case (Some f)
    with assms(3,4) s sync show ?thesis
      by (auto simp: Reconcile_def isNotLeaderNorObserver_def reconcileMethodFor_def observe_kind_case_def
          split: api_get.splits option.splits if_splits)
  qed
qed

text \<open>A server that accepts every update, for the witnesses.\<close>

definition demo_source_client :: source_client where
  "demo_source_client = \<lparr>cl_Get = (\<lambda>_ _ _. Inr demo_src), cl_UpdateStatus = (\<lambda>_ _. None), cl_Patch = (\<lambda>_. Inr demo_src),
     cl_ObjectKinds = Some [GetGroupVersionKind]\<rparr>"

theorem nonleader_writes_nothing_witness:
  "\<exists>out. Reconcile (yipyap_impl (\<lambda>_. False) (store_reconciler demo_resolve ''img'' (\<lambda>_. None)) []) demo_source_client (\<lambda>_ _. GetFound demo_src) demo_context (\<lambda>n. int n) ''ops/alerts'' =
     Some out \<and> ro_writes out = []"
proof -
  let ?r = "yipyap_impl (\<lambda>_. False) (store_reconciler demo_resolve ''img'' (\<lambda>_. None)) []"
  have key: "SplitMetaNamespaceKey ''ops/alerts'' = Some (''ops'', ''alerts'')" by (simp add: SplitMetaNamespaceKey_def)
  have nl: "\<not> IsLeaderFor ?r \<lparr>nn_namespace = ''ops'', nn_name = ''alerts''\<rparr>" by (simp add: IsLeaderFor_def)
  obtain out where "Reconcile ?r demo_source_client (\<lambda>_ _. GetFound demo_src) demo_context (\<lambda>n. int n) ''ops/alerts'' = Some out"
    using key nl by (simp add: Reconcile_def newState_def isNotLeaderNorObserver_def)
  from this nonleader_writes_nothing [OF key nl _ this] show ?thesis by auto
qed

text \<open>
  C5: A run of the generated reconciler for a YipYap source never panics. It patches no finalizer, writes at most one
  Deployment, and the status at most five times. Every status written has Ready coherent with its
  dependents and the generation that was reconciled, differs from the cached one, and is written onto the
  cached object or a freshly read one, whose metadata and spec are sent back unchanged.
\<close>
theorem reconcile_writes:
  assumes "SplitMetaNamespaceKey key = Some (ns, name)" "\<forall>y. lister ns name = GetFound y \<longrightarrow> status_ok (y_status y)"
  shows "\<exists>out. Reconcile (yipyap_impl c rc bkts) cl lister ctx clk key = Some out \<and>
    patches out = [] \<and> length (kube_writes out) \<le> 1 \<and> length (status_writes out) \<le> 5 \<and>
    (\<forall>w \<in> set (status_writes out). \<exists>original base. lister ns name = GetFound original \<and> known_base cl original original base \<and>
       y_meta w = y_meta base \<and> y_spec w = y_spec base \<and> ready_iff (y_status w) \<and> status_ok (y_status w) \<and>
       st_observedGeneration (y_status w) = om_generation (y_meta original) \<and> \<not> DeepEqual_status (y_status original) (y_status w))"
proof -
  obtain out where "Reconcile (yipyap_impl c rc bkts) cl lister ctx clk key = Some out"
    using Reconcile_yipyap_total [where lister = lister, OF assms] by blast
  with Reconcile_yipyap_writes [where lister = lister, OF this assms] show ?thesis by blast
qed

theorem reconcile_writes_witness:
  "\<exists>out. Reconcile (yipyap_impl (\<lambda>_. False) (store_reconciler demo_resolve ''img'' (\<lambda>_. None)) [('''', UniversalBucket)]) demo_source_client
     (\<lambda>_ _. GetFound demo_src) demo_context (\<lambda>n. int n) ''ops/alerts'' = Some out \<and> length (kube_writes out) \<le> 1"
  using reconcile_writes [of "''ops/alerts''" "''ops''" "''alerts''" "\<lambda>_ _. GetFound demo_src"
      "\<lambda>_. False" "store_reconciler demo_resolve ''img'' (\<lambda>_. None)" "[('''', UniversalBucket)]" demo_source_client demo_context "\<lambda>n. int n"]
  by (auto simp: SplitMetaNamespaceKey_def)

text \<open>
  What a patch does to the finalizers at the server: a merge patch replaces the list, a server-side apply
  replaces what the field manager owns, which is the own finalizer and nothing else.
\<close>

fun patched :: "string \<Rightarrow> finalizer_patch \<Rightarrow> string set \<Rightarrow> string set" where
  "patched own (MergePatch _ _ fs _) old = set fs"
| "patched own (ApplyPatch _ _ _ fs _ _) old = (old - {own}) \<union> set fs"

definition has_kind :: "source_client \<Rightarrow> bool" where
  "has_kind cl \<longleftrightarrow> (case cl_ObjectKinds cl of Some (_ # _) \<Rightarrow> True | _ \<Rightarrow> False)"

lemma updateFinalizersFiltered_patches:
  assumes "has_kind cl" "desired = insert (ri_finalizerName r) old \<or> desired = old - {ri_finalizerName r} \<or> desired = old"
    and "old = set (om_finalizers (y_meta y))"
  shows "fold (patched (ri_finalizerName r)) (fr_patches (updateFinalizersFiltered r cl y desired)) old = desired"
proof -
  obtain g gs where "cl_ObjectKinds cl = Some (g # gs)" using assms(1) by (auto simp: has_kind_def split: option.splits list.splits)
  with assms(2,3) show ?thesis
    by (auto simp: updateFinalizersFiltered_def updateFinalizersFilteredServerSideApply_def updateFinalizersFilteredMergePatch_def
        Let_def send_patch_def)
qed

text \<open>
  The reconciler manages its own finalizer and no other, in both patch modes: the patches sent for a live
  object leave it with its finalizers and the own one, those sent after finalizing take the own one away
  exactly when the finalizer returned nothing or a Normal event, and nothing is patched for a reconciler
  without a finalizer.
\<close>
theorem finalizers_own_only:
  assumes "has_kind cl"
  shows "fold (patched (ri_finalizerName r)) (fr_patches (setFinalizerIfFinalizer r cl y)) (set (om_finalizers (y_meta y))) =
      (if ki_FinalizeKind (ri_reconciler r) \<noteq> None \<and> om_deletionTimestamp (y_meta y) = None
       then insert (ri_finalizerName r) (set (om_finalizers (y_meta y))) else set (om_finalizers (y_meta y))) \<and>
    fold (patched (ri_finalizerName r)) (fr_patches (clearFinalizer r cl y event)) (set (om_finalizers (y_meta y))) =
      (if ki_FinalizeKind (ri_reconciler r) \<noteq> None \<and> om_deletionTimestamp (y_meta y) \<noteq> None \<and>
          (event = None \<or> (\<exists>ev reason. event = Some ev \<and> EventAs ev = Some (EventTypeNormal, reason)))
       then set (om_finalizers (y_meta y)) - {ri_finalizerName r} else set (om_finalizers (y_meta y)))" (is "?set \<and> ?clear")
proof
  note patches = updateFinalizersFiltered_patches [OF assms, where y = y and r = r]
  show ?set by (auto simp: setFinalizerIfFinalizer_def patches)
  have same: "fr_patches (case fr_result f of Inr _ \<Rightarrow> f | Inl e \<Rightarrow>
      (case g of Inl ge \<Rightarrow> if IsNotFound ge then f\<lparr>fr_result := Inr y\<rparr> else f | Inr _ \<Rightarrow> f)) = fr_patches f" for f g
    by (simp split: sum.split)
  have keep: "fold (patched (ri_finalizerName r)) (fr_patches (updateFinalizersFiltered r cl y (set (om_finalizers (y_meta y)))))
      (set (om_finalizers (y_meta y))) = set (om_finalizers (y_meta y))"
    and drop: "fold (patched (ri_finalizerName r)) (fr_patches (updateFinalizersFiltered r cl y (set (om_finalizers (y_meta y)) - {ri_finalizerName r})))
      (set (om_finalizers (y_meta y))) = set (om_finalizers (y_meta y)) - {ri_finalizerName r}"
    by (rule patches; simp)+
  show ?clear
    by (cases event; cases "map_option EventAs event") (auto simp: clearFinalizer_def Let_def same keep drop split: option.split)
qed

definition demo_finalizing :: reconciler_impl where
  "demo_finalizing = (yipyap_impl (\<lambda>_. False) (store_reconciler demo_resolve ''img'' (\<lambda>_. None)) [])\<lparr>ri_reconciler :=
     \<lparr>ki_ReconcileKind = (\<lambda>_ _. None), ki_FinalizeKind = Some (\<lambda>_ _. None), ki_ObserveKind = None, ki_ObserveDeletion = None\<rparr>\<rparr>"

theorem finalizers_own_only_witness:
  "fold (patched defaultFinalizerName) (fr_patches (setFinalizerIfFinalizer demo_finalizing demo_source_client demo_src)) {} =
     {defaultFinalizerName}"
proof -
  have "has_kind demo_source_client" by (simp add: has_kind_def demo_source_client_def)
  from finalizers_own_only [OF this, of demo_finalizing demo_src None] show ?thesis
    by (simp add: demo_finalizing_def demo_meta_def yipyap_impl_def)
qed

subsection \<open>Leadership over time\<close>

datatype lead_op = OpPromote bucket | OpDemote bucket

fun op_bucket :: "lead_op \<Rightarrow> bucket" where
  "op_bucket (OpPromote b) = b"
| "op_bucket (OpDemote b) = b"

fun lead :: "lead_op \<Rightarrow> reconciler_impl \<Rightarrow> reconciler_impl" where
  "lead (OpPromote b) r = fst (Promote None (Inr []) b r)"
| "lead (OpDemote b) r = Demote b r"

text \<open>The last operation on a bucket name decides whether the bucket is held.\<close>

definition holds_bucket :: "lead_op list \<Rightarrow> string \<Rightarrow> bucket option" where
  "holds_bucket ops n =
     (case find (\<lambda>p. b_Name (op_bucket p) = n) (rev ops) of
        None \<Rightarrow> None
      | Some (OpPromote b) \<Rightarrow> Some b
      | Some (OpDemote _) \<Rightarrow> None)"

lemma holds_bucket_snoc:
  "holds_bucket (ops @ [p]) n =
     (if b_Name (op_bucket p) = n then (case p of OpPromote b \<Rightarrow> Some b | OpDemote _ \<Rightarrow> None) else holds_bucket ops n)"
  by (simp add: holds_bucket_def)

lemma map_of_filter_key: "map_of (filter (\<lambda>(n, _). n \<noteq> k) xs) = (map_of xs)(k := None)"
  by (induction xs) auto

lemma lead_buckets:
  assumes "ri_buckets r = []"
  shows "distinct (map fst (ri_buckets (fold lead ops r))) \<and> map_of (ri_buckets (fold lead ops r)) = holds_bucket ops"
proof (induction ops rule: rev_induct)
  case (snoc p ops)
  from snoc show ?case
    by (cases p) (auto simp: map_of_filter_key Promote_def Demote_def distinct_assoc_set holds_bucket_snoc distinct_map_filter fun_eq_iff)
qed (use assms in \<open>auto simp: holds_bucket_def fun_eq_iff\<close>)

text \<open>
  C33: A replica is the leader for a key exactly when it was last promoted, and not demoted since, for some
  bucket that has the key, whatever the sequence of promotions and demotions; a promotion enqueues
  exactly the listed sources of the bucket that pass the filter.
\<close>
theorem leadership:
  assumes "ri_buckets r = []"
  shows "(IsLeaderFor (fold lead ops r) key \<longleftrightarrow> (\<exists>n b. holds_bucket ops n = Some b \<and> b_Has b key)) \<and>
    (\<forall>flt b srcs. set (projr (snd (Promote flt (Inr srcs) b r))) =
       {k. b_Has b k \<and> (\<exists>y \<in> set srcs. (\<forall>f. flt = Some f \<longrightarrow> f y) \<and> k = \<lparr>nn_namespace = om_namespace (y_meta y), nn_name = om_name (y_meta y)\<rparr>)})"
proof
  note b = lead_buckets [OF assms, of ops]
  have "IsLeaderFor (fold lead ops r) key \<longleftrightarrow> (\<exists>n b. (n, b) \<in> set (ri_buckets (fold lead ops r)) \<and> b_Has b key)"
    by (auto simp: IsLeaderFor_def list_ex_iff)
  with b show "IsLeaderFor (fold lead ops r) key \<longleftrightarrow> (\<exists>n b. holds_bucket ops n = Some b \<and> b_Has b key)"
    by (metis map_of_eq_Some_iff)
qed (auto simp: Promote_def promote_keys_def split: option.splits)

theorem leadership_witness:
  "\<not> IsLeaderFor (fold lead [OpPromote UniversalBucket, OpDemote UniversalBucket] demo_finalizing) \<lparr>nn_namespace = ''ops'', nn_name = ''alerts''\<rparr>"
proof -
  have "ri_buckets demo_finalizing = []" by (simp add: demo_finalizing_def)
  moreover have "holds_bucket [OpPromote UniversalBucket, OpDemote UniversalBucket] n = None" for n
    by (simp add: holds_bucket_def)
  ultimately show ?thesis
    using leadership [of demo_finalizing "[OpPromote UniversalBucket, OpDemote UniversalBucket]"
        "\<lparr>nn_namespace = ''ops'', nn_name = ''alerts''\<rparr>"] by (simp del: fold_simps)
qed

end
