(* ===== verification/Steady_State.thy ===== *)
theory Steady_State
  imports Generic_Reconciler
begin

text \<open>
  The fixed point of the controller: reconciling a source that is Ready, whose Deployment is as rendered and
  available, changes nothing. The operations of the condition manager are shown to leave a condition list
  alone that says already what they would make it say, and this is carried through \<open>ReconcileKind\<close> and the
  generated \<open>Reconcile\<close>: no write, no event, no error, so that the controller does not wake itself up.
\<close>

subsection \<open>Marks that change nothing\<close>

lemma set_condition_loop_steady:
  "view (ctype cond) cs = Some (cond\<lparr>lastTransition := 0\<rparr>) \<Longrightarrow> set_condition_loop cond cs = None"
proof (induction cs)
  case (Cons c cs)
  show ?case
  proof (cases "ctype c = ctype cond")
    case True
    with Cons.prems have "c\<lparr>lastTransition := 0\<rparr> = cond\<lparr>lastTransition := 0\<rparr>" by (simp add: view_def GetCondition_def)
    then have "cond\<lparr>lastTransition := lastTransition c\<rparr> = c"
      by (metis condition.surjective condition.update_convs(4))
    with True show ?thesis by simp
  next
    case False
    with Cons show ?thesis by (simp add: view_def GetCondition_def)
  qed
qed (simp add: view_def GetCondition_def)

lemma SetCondition_steady: "view (ctype cond) (snd m) = Some (cond\<lparr>lastTransition := 0\<rparr>) \<Longrightarrow> SetCondition cond m = m"
  by (simp add: SetCondition_def set_condition_loop_steady)

text \<open>All three conditions are True, with nothing to say about it.\<close>

definition all_true :: "condition list \<Rightarrow> bool" where
  "all_true cs \<longleftrightarrow> managed_ok condSet cs \<and>
     (\<forall>t \<in> {ConditionReady, SinkProvided, Deployed}. view t cs = Some (mk_condition t ConditionTrue ConditionSeverityError '''' ''''))"

lemma all_true_overall: "all_true cs \<Longrightarrow> findUnhappyDependent condSet cs = None"
  using findUnhappyDependent_status [of condSet cs]
  by (auto simp: all_true_def overall_def status_of_view split: option.splits)

lemma MarkTrue_steady:
  assumes "all_true cs" "t \<in> {SinkProvided, Deployed}"
  shows "MarkTrue condSet t (clk, cs) = (clk, cs)"
proof -
  have sev: "cond_severity condSet t = ConditionSeverityError" using assms(2) by auto
  have "SetCondition (mk_condition t ConditionTrue (cond_severity condSet t) '''' '''') (clk, cs) = (clk, cs)"
    using assms by (intro SetCondition_steady) (auto simp: all_true_def sev)
  moreover have "SetCondition (mk_condition ConditionReady ConditionTrue ConditionSeverityError '''' '''') (clk, cs) = (clk, cs)"
    using assms(1) by (intro SetCondition_steady) (simp add: all_true_def)
  ultimately show ?thesis
    using assms all_true_overall [OF assms(1)] cond_severity_terminal(1) [of condSet]
    by (auto simp: MarkTrue_def recomputeHappiness_def)
qed

lemma InitializeConditions_steady:
  assumes "all_true cs"
  shows "InitializeConditions condSet (clk, cs) = (clk, cs)"
proof -
  have "\<exists>c. GetCondition t cs = Some c" if "t \<in> {ConditionReady, SinkProvided, Deployed}" for t
    using assms that by (auto simp: all_true_def view_def)
  then obtain r s d where "GetCondition ConditionReady cs = Some r" "GetCondition SinkProvided cs = Some s"
      "GetCondition Deployed cs = Some d"
    by (metis insertCI)
  then show ?thesis by (simp add: InitializeConditions_def initializeTerminalCondition_def)
qed

lemma Manage_steady: "f (clk, st_conditions s) = (clk, st_conditions s) \<Longrightarrow> Manage f (clk, s) = (clk, s)"
  by (simp add: Manage_def)

subsection \<open>Reconciliations that change nothing\<close>

text \<open>A source that reports being ready, for the generation, sink and Deployment it has.\<close>

definition reports_ready :: "yipyap_source \<Rightarrow> url \<Rightarrow> string \<Rightarrow> bool" where
  "reports_ready src u dep \<longleftrightarrow>
     all_true (st_conditions (y_status src)) \<and> st_observedGeneration (y_status src) = om_generation (y_meta src) \<and>
     st_ceAttributes (y_status src) = knownCloudEventAttributes \<and> st_sinkURI (y_status src) = Some u \<and>
     st_deploymentName (y_status src) = dep"

lemma MarkSink_steady:
  assumes "reports_ready src u dep" "url_String u \<noteq> ''''"
  shows "MarkSink (Some u) (start_reconcile clk src) = (clk, y_status src)"
proof -
  have init: "Status_InitializeConditions (clk, y_status src) = (clk, y_status src)"
    unfolding Status_InitializeConditions_def
    by (rule Manage_steady) (use assms(1) InitializeConditions_steady in \<open>auto simp: reports_ready_def\<close>)
  have "start_reconcile clk src = (clk, y_status src)"
    using assms(1) by (simp add: start_reconcile_def init reports_ready_def)
  moreover have "Manage (MarkTrue condSet SinkProvided) (clk, y_status src) = (clk, y_status src)"
    by (rule Manage_steady) (use assms(1) MarkTrue_steady in \<open>auto simp: reports_ready_def\<close>)
  moreover have "(y_status src)\<lparr>st_sinkURI := Some u\<rparr> = y_status src"
    using assms(1) by (simp add: reports_ready_def)
  ultimately show ?thesis using assms(2) by (simp add: MarkSink_def)
qed

lemma propagate_steady:
  assumes "all_true (st_conditions s)" "available_status dep = Some ConditionTrue"
  shows "propagateDeploymentAvailability dep (clk, s) = (clk, s)"
proof -
  have m: "MarkDeployed (clk, s) = (clk, s)"
    unfolding MarkDeployed_def by (rule Manage_steady) (use assms(1) MarkTrue_steady in auto)
  have "propagate_conditions cs (clk, s) = (clk, s)"
    if "map_option dc_status (find (\<lambda>c. dc_type c = DeploymentAvailable) cs) = Some ConditionTrue" for cs
    using that by (induction cs) (auto simp: m split: if_splits)
  with assms(2) show ?thesis by (simp add: propagateDeploymentAvailability_def available_status_def)
qed

definition as_rendered :: "reconciler \<Rightarrow> yipyap_source \<Rightarrow> deployment \<Rightarrow> deployment \<Rightarrow> bool" where
  "as_rendered rc src expected dep \<longleftrightarrow>
     rc_get rc (om_namespace (y_meta src)) (om_name (dep_meta expected)) = GetFound dep \<and>
     DeepEqual_template (dep_template expected) (dep_template dep) \<and> dep_replicas expected = dep_replicas dep \<and>
     om_name (dep_meta dep) = om_name (dep_meta expected) \<and> available_status dep = Some ConditionTrue"

lemma ReconcileKind_steady:
  assumes "reports_ready src u (om_name (dep_meta expected))" "url_String u \<noteq> ''''"
    and "snd (rc_resolve rc (sink_destination src)) = Inr (Some u)"
    and "MakeAdapterDeployment src (Some u) (rc_adapterImage rc) = Some expected" "as_rendered rc src expected dep"
  shows "ReconcileKind rc clk src = Some \<lparr>rk_clock = clk, rk_src = src, rk_writes = [], rk_event = None\<rparr>"
proof -
  have all: "all_true (st_conditions (y_status src))" "(y_status src)\<lparr>st_deploymentName := om_name (dep_meta dep)\<rparr> = y_status src"
    using assms(1,5) by (simp_all add: reports_ready_def as_rendered_def)
  have "finish_reconcile src (clk, y_status src) [] dep = \<lparr>rk_clock = clk, rk_src = src, rk_writes = [], rk_event = None\<rparr>"
    using assms(5) all propagate_steady [OF all(1), of dep clk] by (simp add: finish_reconcile_def as_rendered_def)
  then show ?thesis
    using assms(3-5) MarkSink_steady [OF assms(1,2), of clk]
    by (simp add: ReconcileKind_def reconcile_deployment_def as_rendered_def)
qed

lemma groom_steady:
  assumes "distinct (map ctype (st_conditions s))"
  shows "groomConditionsTransitionTime now s s = s"
proof -
  have "groom_condition now (st_conditions s) c = c" if "c \<in> set (st_conditions s)" for c
  proof -
    have "GetCondition (ctype c) (st_conditions s) = Some c"
      using assms that by (simp add: GetCondition_def find_key_distinct)
    then show ?thesis by (simp add: groom_condition_def)
  qed
  then have "map (groom_condition now (st_conditions s)) (st_conditions s) = st_conditions s" by (simp add: map_idI)
  then show ?thesis by (simp add: groomConditionsTransitionTime_def)
qed

lemma DeepEqual_status_refl [simp]: "DeepEqual_status s s"
  by (simp add: DeepEqual_status_def same_map_def list_all_iff)

subsection \<open>Properties\<close>

text \<open>
  C7: The controller comes to rest. Reconciling a source that reports being ready for its current
  generation, sink and Deployment, where the sink still resolves to the reported address and the Deployment
  is available and as the controller renders it for the defaulted source, makes no write of any kind,
  records no event and returns no error.
\<close>
theorem steady_state:
  assumes "SplitMetaNamespaceKey key = Some (ns, name)" "lister ns name = GetFound original"
    and "IsLeaderFor (yipyap_impl c rc bkts) \<lparr>nn_namespace = ns, nn_name = name\<rparr>" "om_deletionTimestamp (y_meta original) = None"
    and "SetDefaults ctx (Some original) = Some src"
    and "reports_ready original u (om_name (dep_meta expected))" "url_String u \<noteq> ''''"
    and "snd (rc_resolve rc (sink_destination src)) = Inr (Some u)"
    and "MakeAdapterDeployment src (Some u) (rc_adapterImage rc) = Some expected" "as_rendered rc src expected dep"
  shows "Reconcile (yipyap_impl c rc bkts) cl lister ctx clk key = Some \<lparr>ro_writes = [], ro_events = [], ro_err = None\<rparr>"
proof -
  let ?r = "yipyap_impl c rc bkts"
  have src: "y_meta src = y_meta original" "y_status src = y_status original" using assms(5) by auto
  have ready: "reports_ready src u (om_name (dep_meta expected))" using assms(6) by (simp add: reports_ready_def src)
  have pre: "PreProcessReconcile ctx (clk, original) = (clk, src)"
  proof -
    have "Manage (InitializeConditions condSet) (clk, y_status original) = (clk, y_status original)"
      by (rule Manage_steady) (use assms(6) InitializeConditions_steady in \<open>auto simp: reports_ready_def\<close>)
    then show ?thesis using assms(5,6) by (auto simp: PreProcessReconcile_def reports_ready_def)
  qed
  note run = ReconcileKind_steady [OF ready assms(7-10), of clk]
  have "distinct (map ctype (st_conditions (y_status original)))"
    using assms(6) by (simp add: reports_ready_def all_true_def managed_ok_def)
  then have groom: "groomConditionsTransitionTime (clk 0) (y_status original) (y_status original) = y_status original"
    by (rule groom_steady)
  have "(y_status original)\<lparr>st_observedGeneration := om_generation (y_meta original)\<rparr> = y_status original"
    using assms(6) by (simp add: reports_ready_def)
  with groom have post: "PostProcessReconcile original (clk, src) = (tick clk, src)"
    using src by (simp add: PostProcessReconcile_def)
  have "reconcile_kind_case ?r cl ctx clk s (ki_ReconcileKind (ri_reconciler ?r)) original =
      Some \<lparr>ro_writes = [], ro_events = [], ro_err = None\<rparr>" for s
    using run pre post src
    by (simp add: reconcile_kind_case_def setFinalizerIfFinalizer_def synchronize_status_def report_event_def)
       (simp add: yipyap_impl_def yipyap_kind_def report_event_def)
  with assms(1-4) show ?thesis
    by (simp add: Reconcile_def newState_def isNotLeaderNorObserver_def reconcileMethodFor_def)
qed

definition steady_src :: "string \<Rightarrow> yipyap_source" where
  "steady_src dep = demo_src\<lparr>y_status := empty_status\<lparr>st_observedGeneration := 3, st_ceAttributes := knownCloudEventAttributes,
     st_sinkURI := Some demo_url, st_deploymentName := dep, st_conditions :=
       map (\<lambda>t. (mk_condition t ConditionTrue ConditionSeverityError '''' '''')\<lparr>lastTransition := 17\<rparr>) [Deployed, ConditionReady, SinkProvided]\<rparr>\<rparr>"

definition available_dep :: "deployment \<Rightarrow> deployment" where
  "available_dep d = d\<lparr>dep_conditions := [\<lparr>dc_type = ''Available'', dc_status = ConditionTrue, dc_reason = '''', dc_message = ''''\<rparr>]\<rparr>"

theorem steady_state_witness:
  "\<exists>e. MakeAdapterDeployment demo_src (Some demo_url) ''img'' = Some e \<and>
     Reconcile (yipyap_impl (\<lambda>_. False) (store_reconciler demo_resolve ''img'' (\<lambda>_. Some (available_dep e))) [('''', UniversalBucket)])
       demo_source_client (\<lambda>_ _. GetFound (steady_src (om_name (dep_meta e)))) demo_context (\<lambda>n. int n) ''ops/alerts'' =
     Some \<lparr>ro_writes = [], ro_events = [], ro_err = None\<rparr>"
proof -
  obtain e where e: "MakeAdapterDeployment demo_src (Some demo_url) ''img'' = Some e"
    by (rule MakeAdapterDeployment_total)
  let ?src = "steady_src (om_name (dep_meta e))"
  let ?rc = "store_reconciler demo_resolve ''img'' (\<lambda>_. Some (available_dep e))"
  have frame: "y_meta ?src = demo_meta" "y_spec ?src = demo_spec" by (simp_all add: steady_src_def)
  have "reports_ready ?src demo_url (om_name (dep_meta e))"
    by (simp add: reports_ready_def steady_src_def all_true_def managed_ok_def view_def GetCondition_def mk_condition_def
        cond_type_defs demo_meta_def)
  moreover have "Spec_SetDefaults (WithinParent demo_context (y_meta ?src)) (y_spec ?src) = y_spec ?src"
    by (simp add: frame Spec_SetDefaults_def Destination_SetDefaults_def demo_spec_def)
  then have "SetDefaults demo_context (Some ?src) = Some ?src" by simp
  moreover have "sink_destination ?src = sink_destination demo_src" by (simp only: sink_destination_def frame demo_src_status)
  then have "snd (rc_resolve ?rc (sink_destination ?src)) = Inr (Some demo_url)" using demo_resolves by simp
  moreover have "MakeAdapterDeployment ?src (Some demo_url) (rc_adapterImage ?rc) = Some e"
    using e by (simp only: MakeAdapterDeployment_def Labels_def adapter_pod_spec_def adapter_env_def frame demo_src_status store_reconciler_simps)
  moreover have "as_rendered ?rc ?src e (available_dep e)"
    by (simp add: as_rendered_def available_dep_def available_status_def DeploymentAvailable_def)
  moreover have "url_String demo_url \<noteq> ''''" by (rule url_String_scheme) (simp add: demo_url_def IsAbs_def)
  ultimately have "Reconcile (yipyap_impl (\<lambda>_. False) ?rc [('''', UniversalBucket)]) demo_source_client (\<lambda>_ _. GetFound ?src) demo_context
      (\<lambda>n. int n) ''ops/alerts'' = Some \<lparr>ro_writes = [], ro_events = [], ro_err = None\<rparr>"
    by (intro steady_state [of "''ops/alerts''" "''ops''" "''alerts''"])
       (simp_all add: SplitMetaNamespaceKey_def IsLeaderFor_def UniversalBucket_def frame demo_meta_def)
  with e show ?thesis by blast
qed

end
