(* ===== verification/Object_Store.thy ===== *)
theory Object_Store
  imports Prelude
begin

text \<open>
  The store behind every informer: \<open>vendor/k8s.io/client-go/tools/cache/thread_safe_store.go\<close>, objects by
  key with indices kept beside them. Go's maps are association lists with distinct keys (iteration in list
  order), its string sets are lists without repetition; a Go panic is a value on the left of a sum. The
  objects and the index functions are parameters. Shown: no operation panics while the index functions do
  not fail, the indices agree with the objects after every sequence of operations, and the store is a
  map from keys to objects.
\<close>

subsection \<open>Indices\<close>

datatype index_panic = NoIndexer string | IndexFailed string string string

type_synonym 'o index_func = "'o \<Rightarrow> string + string list"
type_synonym cache_index = "(string \<times> string list) list"

record 'o store_index =
  si_indexers :: "(string \<times> 'o index_func) list"
  si_indices :: "(string \<times> cache_index) list"

text \<open>\<open>idx[value]\<close>: the nil set and the empty set read alike.\<close>

definition keys_at :: "string \<Rightarrow> cache_index \<Rightarrow> string list" where
  "keys_at v idx = (case map_of idx v of None \<Rightarrow> [] | Some ks \<Rightarrow> ks)"

definition index_named :: "string \<Rightarrow> 'o store_index \<Rightarrow> cache_index" where
  "index_named name si = (case map_of (si_indices si) name of None \<Rightarrow> [] | Some idx \<Rightarrow> idx)"

definition addKeyToIndex :: "string \<Rightarrow> string \<Rightarrow> cache_index \<Rightarrow> cache_index" where
  "addKeyToIndex key v idx =
     (case map_of idx v of
        None \<Rightarrow> assoc_set v (List.insert key []) idx
      | Some ks \<Rightarrow> assoc_set v (List.insert key ks) idx)"

definition deleteKeyFromIndex :: "string \<Rightarrow> string \<Rightarrow> cache_index \<Rightarrow> cache_index" where
  "deleteKeyFromIndex key v idx =
     (case map_of idx v of
        None \<Rightarrow> idx
      | Some ks \<Rightarrow>
          let ks = removeAll key ks
          in if length ks = 0 then filter (\<lambda>(v', _). v' \<noteq> v) idx else assoc_set v ks idx)"

definition index_values :: "'o index_func \<Rightarrow> 'o option \<Rightarrow> string + string list" where
  "index_values f obj = (case obj of Some x \<Rightarrow> f x | None \<Rightarrow> Inr [])"

definition updateSingleIndex ::
  "string \<Rightarrow> 'o option \<Rightarrow> 'o option \<Rightarrow> string \<Rightarrow> 'o store_index \<Rightarrow> index_panic + 'o store_index" where
  "updateSingleIndex name oldObj newObj key si =
     (case map_of (si_indexers si) name of
        None \<Rightarrow> Inl (NoIndexer name)
      | Some f \<Rightarrow>
          (case index_values f oldObj of
             Inl e \<Rightarrow> Inl (IndexFailed key name e)
           | Inr oldIndexValues \<Rightarrow>
               (case index_values f newObj of
                  Inl e \<Rightarrow> Inl (IndexFailed key name e)
                | Inr indexValues \<Rightarrow>
                    let idx = index_named name si;
                        idx = (if length indexValues = 1 \<and> length oldIndexValues = 1 \<and> indexValues ! 0 = oldIndexValues ! 0 then idx
                               else fold (addKeyToIndex key) indexValues (fold (deleteKeyFromIndex key) oldIndexValues idx))
                    in Inr (si\<lparr>si_indices := assoc_set name idx (si_indices si)\<rparr>))))"

fun update_named :: "string list \<Rightarrow> 'o option \<Rightarrow> 'o option \<Rightarrow> string \<Rightarrow> 'o store_index \<Rightarrow> index_panic + 'o store_index" where
  "update_named [] oldObj newObj key si = Inr si"
| "update_named (name # names) oldObj newObj key si =
     (case updateSingleIndex name oldObj newObj key si of
        Inl p \<Rightarrow> Inl p
      | Inr si' \<Rightarrow> update_named names oldObj newObj key si')"

definition updateIndices :: "'o option \<Rightarrow> 'o option \<Rightarrow> string \<Rightarrow> 'o store_index \<Rightarrow> index_panic + 'o store_index" where
  "updateIndices oldObj newObj key si = update_named (map fst (si_indexers si)) oldObj newObj key si"

definition getKeysFromIndex :: "string \<Rightarrow> 'o \<Rightarrow> 'o store_index \<Rightarrow> string + string list" where
  "getKeysFromIndex indexName obj si =
     (case map_of (si_indexers si) indexName of
        None \<Rightarrow> Inl (''Index with name '' @ indexName @ '' does not exist'')
      | Some f \<Rightarrow>
          (case f obj of
             Inl e \<Rightarrow> Inl e
           | Inr indexedValues \<Rightarrow>
               let idx = index_named indexName si
               in Inr (if length indexedValues = 1 then keys_at (indexedValues ! 0) idx
                       else fold (\<lambda>v. fold List.insert (keys_at v idx)) indexedValues [])))"

definition getKeysByIndex :: "string \<Rightarrow> string \<Rightarrow> 'o store_index \<Rightarrow> string + string list" where
  "getKeysByIndex indexName indexedValue si =
     (case map_of (si_indexers si) indexName of
        None \<Rightarrow> Inl (''Index with name '' @ indexName @ '' does not exist'')
      | Some f \<Rightarrow> Inr (keys_at indexedValue (index_named indexName si)))"

definition getIndexValues :: "string \<Rightarrow> 'o store_index \<Rightarrow> string list" where
  "getIndexValues indexName si = map fst (index_named indexName si)"

definition addIndexers :: "(string \<times> 'o index_func) list \<Rightarrow> 'o store_index \<Rightarrow> string + 'o store_index" where
  "addIndexers newIndexers si =
     (if list_ex (\<lambda>(k, _). k \<in> fst ` set (si_indexers si)) newIndexers then Inl ''indexer conflict''
      else Inr (si\<lparr>si_indexers := fold (\<lambda>(k, f). assoc_set k f) newIndexers (si_indexers si)\<rparr>))"

subsection \<open>The store\<close>

record 'o thread_safe_map =
  items :: "(string \<times> 'o) list"
  index :: "'o store_index"

definition NewThreadSafeStore :: "(string \<times> 'o index_func) list \<Rightarrow> 'o thread_safe_map" where
  "NewThreadSafeStore indexers = \<lparr>items = [], index = \<lparr>si_indexers = indexers, si_indices = []\<rparr>\<rparr>"

definition updateLocked :: "string \<Rightarrow> 'o \<Rightarrow> 'o thread_safe_map \<Rightarrow> index_panic + 'o thread_safe_map" where
  "updateLocked key obj c =
     (case updateIndices (map_of (items c) key) (Some obj) key (index c) of
        Inl p \<Rightarrow> Inl p
      | Inr si \<Rightarrow> Inr (c\<lparr>items := assoc_set key obj (items c), index := si\<rparr>))"

definition addLocked :: "string \<Rightarrow> 'o \<Rightarrow> 'o thread_safe_map \<Rightarrow> index_panic + 'o thread_safe_map" where
  "addLocked = updateLocked"

definition deleteLocked :: "string \<Rightarrow> 'o thread_safe_map \<Rightarrow> index_panic + 'o thread_safe_map" where
  "deleteLocked key c =
     (case map_of (items c) key of
        None \<Rightarrow> Inr c
      | Some obj \<Rightarrow>
          (case updateIndices (Some obj) None key (index c) of
             Inl p \<Rightarrow> Inl p
           | Inr si \<Rightarrow> Inr (c\<lparr>items := filter (\<lambda>(k, _). k \<noteq> key) (items c), index := si\<rparr>)))"

definition ts_Get :: "string \<Rightarrow> 'o thread_safe_map \<Rightarrow> 'o option" where
  "ts_Get key c = map_of (items c) key"

definition ts_List :: "'o thread_safe_map \<Rightarrow> 'o list" where
  "ts_List c = map snd (items c)"

definition ts_ListKeys :: "'o thread_safe_map \<Rightarrow> string list" where
  "ts_ListKeys c = map fst (items c)"

text \<open>Indexing objects that are in the store already.\<close>

fun index_items :: "(string \<times> 'o) list \<Rightarrow> 'o store_index \<Rightarrow> index_panic + 'o store_index" where
  "index_items [] si = Inr si"
| "index_items ((key, item) # rest) si =
     (case updateIndices None (Some item) key si of Inl p \<Rightarrow> Inl p | Inr si' \<Rightarrow> index_items rest si')"

definition ts_Replace :: "(string \<times> 'o) list \<Rightarrow> 'o thread_safe_map \<Rightarrow> index_panic + 'o thread_safe_map" where
  "ts_Replace new c =
     (case index_items new ((index c)\<lparr>si_indices := []\<rparr>) of
        Inl p \<Rightarrow> Inl p
      | Inr si \<Rightarrow> Inr (c\<lparr>items := new, index := si\<rparr>))"

text \<open>\<open>c.items[key]\<close> of a key that is missing would be a nil object in the list.\<close>

definition ts_Index :: "string \<Rightarrow> 'o \<Rightarrow> 'o thread_safe_map \<Rightarrow> string + 'o option list" where
  "ts_Index indexName obj c =
     (case getKeysFromIndex indexName obj (index c) of Inl e \<Rightarrow> Inl e | Inr ks \<Rightarrow> Inr (map (map_of (items c)) ks))"

definition ts_ByIndex :: "string \<Rightarrow> string \<Rightarrow> 'o thread_safe_map \<Rightarrow> string + 'o option list" where
  "ts_ByIndex indexName indexedValue c =
     (case getKeysByIndex indexName indexedValue (index c) of Inl e \<Rightarrow> Inl e | Inr ks \<Rightarrow> Inr (map (map_of (items c)) ks))"

definition ts_IndexKeys :: "string \<Rightarrow> string \<Rightarrow> 'o thread_safe_map \<Rightarrow> string + string list" where
  "ts_IndexKeys indexName indexedValue c =
     (case getKeysByIndex indexName indexedValue (index c) of Inl e \<Rightarrow> Inl e | Inr ks \<Rightarrow> Inr (sort ks))"

datatype 'o transaction = TransactionAdd string 'o | TransactionUpdate string 'o | TransactionDelete string

fun transact :: "'o transaction \<Rightarrow> 'o thread_safe_map \<Rightarrow> index_panic + 'o thread_safe_map" where
  "transact (TransactionAdd key obj) c = addLocked key obj c"
| "transact (TransactionUpdate key obj) c = updateLocked key obj c"
| "transact (TransactionDelete key) c = deleteLocked key c"

fun Transaction :: "'o transaction list \<Rightarrow> 'o thread_safe_map \<Rightarrow> index_panic + 'o thread_safe_map" where
  "Transaction [] c = Inr c"
| "Transaction (txn # txns) c = (case transact txn c of Inl p \<Rightarrow> Inl p | Inr c' \<Rightarrow> Transaction txns c')"

text \<open>\<open>AddIndexers\<close>: the items are indexed under the new names only; its error is a value, a panic another.\<close>

fun index_items_under :: "string list \<Rightarrow> (string \<times> 'o) list \<Rightarrow> 'o store_index \<Rightarrow> index_panic + 'o store_index" where
  "index_items_under names [] si = Inr si"
| "index_items_under names ((key, item) # rest) si =
     (case update_named names None (Some item) key si of Inl p \<Rightarrow> Inl p | Inr si' \<Rightarrow> index_items_under names rest si')"

definition AddIndexers :: "(string \<times> 'o index_func) list \<Rightarrow> 'o thread_safe_map \<Rightarrow> index_panic + string + 'o thread_safe_map" where
  "AddIndexers newIndexers c =
     (case addIndexers newIndexers (index c) of
        Inl e \<Rightarrow> Inr (Inl e)
      | Inr si \<Rightarrow>
          (case index_items_under (map fst newIndexers) (items c) si of
             Inl p \<Rightarrow> Inl p
           | Inr si \<Rightarrow> Inr (Inr (c\<lparr>index := si\<rparr>))))"

subsection \<open>Laws of the index\<close>

definition index_wf :: "cache_index \<Rightarrow> bool" where
  "index_wf idx \<longleftrightarrow> distinct (map fst idx) \<and> (\<forall>ks \<in> snd ` set idx. ks \<noteq> [] \<and> distinct ks)"

lemma index_wf_empty [simp]: "index_wf []"
  by (simp add: index_wf_def)

lemma snd_assoc_set: "ks \<in> snd ` set (assoc_set k v m) \<Longrightarrow> ks = v \<or> ks \<in> snd ` set m"
  by (induction k v m rule: assoc_set.induct) (auto split: if_splits)

lemma map_of_filter_neq: "map_of (filter (\<lambda>(k', _). k' \<noteq> k) m) = (map_of m)(k := None)"
  by (induction m) (auto simp: fun_eq_iff)

lemma distinct_filter_keys: "distinct (map fst m) \<Longrightarrow> distinct (map fst (filter P m))"
  by (induction m) auto

lemma index_wf_at: "index_wf idx \<Longrightarrow> map_of idx v = Some ks \<Longrightarrow> ks \<noteq> [] \<and> distinct ks"
  by (auto simp: index_wf_def dest!: map_of_SomeD)

lemma index_wf_set:
  assumes "index_wf idx" "ks \<noteq> []" "distinct ks"
  shows "index_wf (assoc_set v ks idx)"
proof -
  have "\<forall>ks' \<in> snd ` set (assoc_set v ks idx). ks' \<noteq> [] \<and> distinct ks'"
  proof
    fix ks' assume "ks' \<in> snd ` set (assoc_set v ks idx)"
    then have "ks' = ks \<or> ks' \<in> snd ` set idx" by (rule snd_assoc_set)
    with assms show "ks' \<noteq> [] \<and> distinct ks'" by (auto simp: index_wf_def)
  qed
  moreover have "distinct (map fst (assoc_set v ks idx))"
    using assms(1) by (simp add: index_wf_def distinct_assoc_set)
  ultimately show ?thesis by (simp add: index_wf_def)
qed

lemma distinct_keys_at: "index_wf idx \<Longrightarrow> distinct (keys_at v idx)"
  using index_wf_at [of idx v] by (cases "map_of idx v") (auto simp: keys_at_def)

lemma addKeyToIndex_wf:
  assumes "index_wf idx"
  shows "index_wf (addKeyToIndex key v idx)"
proof (cases "map_of idx v")
  case None
  with index_wf_set [OF assms, of "[key]" v] show ?thesis by (simp add: addKeyToIndex_def)
next
  case (Some ks)
  from Some index_wf_set [OF assms, of "List.insert key ks" v] index_wf_at [OF assms Some]
  show ?thesis by (auto simp: addKeyToIndex_def List.insert_def)
qed

lemma keys_at_add [simp]:
  "set (keys_at v' (addKeyToIndex key v idx)) = (if v' = v then insert key (set (keys_at v idx)) else set (keys_at v' idx))"
  by (auto simp: addKeyToIndex_def keys_at_def split: option.splits)

lemma deleteKeyFromIndex_wf:
  assumes "index_wf idx"
  shows "index_wf (deleteKeyFromIndex key v idx)"
proof (cases "map_of idx v")
  case None
  with assms show ?thesis by (simp add: deleteKeyFromIndex_def)
next
  case (Some ks)
  have "index_wf (filter (\<lambda>(v', _). v' \<noteq> v) idx)"
    using assms by (auto simp: index_wf_def distinct_filter_keys)
  with Some index_wf_set [OF assms, of "removeAll key ks" v] index_wf_at [OF assms Some]
  show ?thesis by (auto simp: deleteKeyFromIndex_def Let_def distinct_removeAll)
qed

lemma keys_at_delete [simp]:
  "set (keys_at v' (deleteKeyFromIndex key v idx)) = (if v' = v then set (keys_at v idx) - {key} else set (keys_at v' idx))"
proof (cases "map_of idx v")
  case (Some ks)
  have "set ks - {key} = {}" if "removeAll key ks = []"
    using that by (metis set_removeAll empty_set)
  with Some show ?thesis
    by (cases "v' = v"; cases "removeAll key ks = []") (auto simp: deleteKeyFromIndex_def keys_at_def Let_def map_of_filter_neq)
qed (auto simp: deleteKeyFromIndex_def keys_at_def split: option.splits)

lemma fold_add:
  "index_wf idx \<Longrightarrow> index_wf (fold (addKeyToIndex key) vs idx) \<and>
     (\<forall>v. set (keys_at v (fold (addKeyToIndex key) vs idx)) =
        (if v \<in> set vs then insert key (set (keys_at v idx)) else set (keys_at v idx)))"
  by (induction vs arbitrary: idx) (auto simp: addKeyToIndex_wf split: if_splits)

lemma fold_delete:
  "index_wf idx \<Longrightarrow> index_wf (fold (deleteKeyFromIndex key) vs idx) \<and>
     (\<forall>v. set (keys_at v (fold (deleteKeyFromIndex key) vs idx)) =
        (if v \<in> set vs then set (keys_at v idx) - {key} else set (keys_at v idx)))"
  by (induction vs arbitrary: idx) (auto simp: deleteKeyFromIndex_wf split: if_splits)

text \<open>An index agrees with the objects: it holds a key under a value when the object has the value.\<close>

definition index_ok :: "'o index_func \<Rightarrow> (string \<Rightarrow> 'o option) \<Rightarrow> cache_index \<Rightarrow> bool" where
  "index_ok f objs idx \<longleftrightarrow> index_wf idx \<and>
     (\<forall>v k. k \<in> set (keys_at v idx) \<longleftrightarrow> (\<exists>x vs. objs k = Some x \<and> f x = Inr vs \<and> v \<in> set vs))"

definition never_fails :: "'o index_func \<Rightarrow> bool" where
  "never_fails f \<longleftrightarrow> (\<forall>x. \<exists>vs. f x = Inr vs)"

lemma index_values_total: "never_fails f \<Longrightarrow> \<exists>vs. index_values f obj = Inr vs"
  by (auto simp: never_fails_def index_values_def split: option.splits)

lemma index_values_iff:
  "index_values f obj = Inr vs \<Longrightarrow> v \<in> set vs \<longleftrightarrow> (\<exists>x ws. obj = Some x \<and> f x = Inr ws \<and> v \<in> set ws)"
  by (auto simp: index_values_def split: option.splits)

lemma index_move:
  assumes "index_ok f objs idx" "index_values f (objs key) = Inr old" "index_values f new = Inr vs"
  shows "index_ok f (objs(key := new)) (fold (addKeyToIndex key) vs (fold (deleteKeyFromIndex key) old idx))"
proof -
  let ?deleted = "fold (deleteKeyFromIndex key) old idx"
  let ?moved = "fold (addKeyToIndex key) vs ?deleted"
  have wf: "index_wf idx" and agree: "\<And>v k. k \<in> set (keys_at v idx) \<longleftrightarrow> (\<exists>x vs. objs k = Some x \<and> f x = Inr vs \<and> v \<in> set vs)"
    using assms(1) by (simp_all add: index_ok_def)
  note d = fold_delete [OF wf, of key old]
  note a = fold_add [OF d [THEN conjunct1], of key vs]
  have "k \<in> set (keys_at v ?moved) \<longleftrightarrow> (\<exists>x vs. (objs(key := new)) k = Some x \<and> f x = Inr vs \<and> v \<in> set vs)" for v k
  proof (cases "k = key")
    case True
    have "key \<notin> set (keys_at v ?deleted)"
      using d agree [of key v] index_values_iff [OF assms(2), of v] by auto
    then have "k \<in> set (keys_at v ?moved) \<longleftrightarrow> v \<in> set vs" using a True by auto
    with True index_values_iff [OF assms(3), of v] show ?thesis by simp
  next
    case False
    then have "k \<in> set (keys_at v ?moved) \<longleftrightarrow> k \<in> set (keys_at v idx)" using a d by auto
    with False agree show ?thesis by simp
  qed
  with a show ?thesis by (simp add: index_ok_def)
qed

lemma index_same:
  assumes "index_ok f objs idx" "index_values f (objs key) = Inr vs" "index_values f new = Inr vs"
  shows "index_ok f (objs(key := new)) idx"
proof -
  have agree: "\<And>v k. k \<in> set (keys_at v idx) \<longleftrightarrow> (\<exists>x vs. objs k = Some x \<and> f x = Inr vs \<and> v \<in> set vs)"
    using assms(1) by (simp add: index_ok_def)
  have "k \<in> set (keys_at v idx) \<longleftrightarrow> (\<exists>x vs. (objs(key := new)) k = Some x \<and> f x = Inr vs \<and> v \<in> set vs)" for v k
    using agree [of k v] index_values_iff [OF assms(2), of v] index_values_iff [OF assms(3), of v] by auto
  with assms(1) show ?thesis by (simp add: index_ok_def)
qed

lemma updateSingleIndex_ok:
  assumes "map_of (si_indexers si) name = Some f" "never_fails f" "index_ok f objs (index_named name si)"
  obtains si' where "updateSingleIndex name (objs key) new key si = Inr si'" "si_indexers si' = si_indexers si"
    "index_ok f (objs(key := new)) (index_named name si')" "\<And>n. n \<noteq> name \<Longrightarrow> index_named n si' = index_named n si"
proof -
  obtain old vs where values_: "index_values f (objs key) = Inr old" "index_values f new = Inr vs"
    using index_values_total [OF assms(2)] by metis
  let ?same = "length vs = 1 \<and> length old = 1 \<and> vs ! 0 = old ! 0"
  let ?idx = "if ?same then index_named name si
    else fold (addKeyToIndex key) vs (fold (deleteKeyFromIndex key) old (index_named name si))"
  have same: "old = vs" if ?same using that by (cases old; cases vs) auto
  have "index_ok f (objs(key := new)) ?idx"
    using index_move [OF assms(3) values_] index_same [OF assms(3)] values_ same by auto
  moreover have "updateSingleIndex name (objs key) new key si = Inr (si\<lparr>si_indices := assoc_set name ?idx (si_indices si)\<rparr>)"
    using assms(1) values_ by (simp add: updateSingleIndex_def Let_def)
  ultimately show ?thesis
    using that [of "si\<lparr>si_indices := assoc_set name ?idx (si_indices si)\<rparr>"] by (simp add: index_named_def)
qed

text \<open>The indexers in use, with their indices agreeing with the objects.\<close>

definition indices_ok :: "(string \<Rightarrow> 'o option) \<Rightarrow> 'o store_index \<Rightarrow> bool" where
  "indices_ok objs si \<longleftrightarrow> distinct (map fst (si_indexers si)) \<and>
     (\<forall>(name, f) \<in> set (si_indexers si). never_fails f \<and> index_ok f objs (index_named name si)) \<and>
     (\<forall>name. name \<notin> fst ` set (si_indexers si) \<longrightarrow> index_named name si = [])"

lemma update_named_ok:
  assumes "distinct names" "\<And>name. name \<in> set names \<Longrightarrow>
      \<exists>f. map_of (si_indexers si) name = Some f \<and> never_fails f \<and> index_ok f objs (index_named name si)"
  shows "\<exists>si'. update_named names (objs key) new key si = Inr si' \<and> si_indexers si' = si_indexers si \<and>
     (\<forall>name f. name \<in> set names \<longrightarrow> map_of (si_indexers si) name = Some f \<longrightarrow> index_ok f (objs(key := new)) (index_named name si')) \<and>
     (\<forall>name. name \<notin> set names \<longrightarrow> index_named name si' = index_named name si)"
  using assms
proof (induction names arbitrary: si)
  case (Cons name names)
  from Cons.prems(2) [of name] obtain f where f: "map_of (si_indexers si) name = Some f" "never_fails f"
      "index_ok f objs (index_named name si)" by auto
  obtain si1 where s1: "updateSingleIndex name (objs key) new key si = Inr si1" "si_indexers si1 = si_indexers si"
      "index_ok f (objs(key := new)) (index_named name si1)" "\<And>n. n \<noteq> name \<Longrightarrow> index_named n si1 = index_named n si"
    using updateSingleIndex_ok [OF f, of key new] by blast
  have "\<exists>g. map_of (si_indexers si1) n = Some g \<and> never_fails g \<and> index_ok g objs (index_named n si1)" if "n \<in> set names" for n
  proof -
    have "n \<noteq> name" using that Cons.prems(1) by auto
    with Cons.prems(2) [of n] that s1(2,4) show ?thesis by auto
  qed
  from Cons.IH [OF _ this] Cons.prems(1) obtain si2 where s2: "update_named names (objs key) new key si1 = Inr si2"
      "si_indexers si2 = si_indexers si1"
      "\<And>n g. n \<in> set names \<Longrightarrow> map_of (si_indexers si1) n = Some g \<Longrightarrow> index_ok g (objs(key := new)) (index_named n si2)"
      "\<And>n. n \<notin> set names \<Longrightarrow> index_named n si2 = index_named n si1"
    by (metis distinct.simps(2))
  have "index_ok g (objs(key := new)) (index_named n si2)" if "n \<in> set (name # names)" "map_of (si_indexers si) n = Some g" for n g
    using that s1 s2(3) [of n g] s2(4) [of n] f(1) Cons.prems(1) by (cases "n = name") auto
  moreover have "index_named n si2 = index_named n si" if "n \<notin> set (name # names)" for n
    using that s1(4) s2(4) by simp
  ultimately show ?case using s1(1,2) s2(1,2) by (simp del: fun_upd_apply)
qed simp

lemma updateIndices_ok:
  assumes "indices_ok objs si"
  obtains si' where "updateIndices (objs key) new key si = Inr si'" "indices_ok (objs(key := new)) si'"
    "si_indexers si' = si_indexers si"
proof -
  have d: "distinct (map fst (si_indexers si))" using assms by (simp add: indices_ok_def)
  have "\<exists>f. map_of (si_indexers si) name = Some f \<and> never_fails f \<and> index_ok f objs (index_named name si)"
    if "name \<in> set (map fst (si_indexers si))" for name
  proof -
    from that obtain f where "(name, f) \<in> set (si_indexers si)" by auto
    with assms d show ?thesis by (auto simp: indices_ok_def)
  qed
  from update_named_ok [OF d this, of key new] obtain si' where
    "updateIndices (objs key) new key si = Inr si'" "si_indexers si' = si_indexers si"
    "\<And>name f. name \<in> set (map fst (si_indexers si)) \<Longrightarrow> map_of (si_indexers si) name = Some f \<Longrightarrow>
        index_ok f (objs(key := new)) (index_named name si')"
    "\<And>name. name \<notin> set (map fst (si_indexers si)) \<Longrightarrow> index_named name si' = index_named name si"
    unfolding updateIndices_def by blast
  moreover from this assms d have "indices_ok (objs(key := new)) si'"
    by (force simp: indices_ok_def)
  ultimately show ?thesis using that by blast
qed

lemma index_items_ok:
  "indices_ok objs si \<Longrightarrow> distinct (map fst its) \<Longrightarrow> (\<forall>k \<in> fst ` set its. objs k = None) \<Longrightarrow>
     \<exists>si'. index_items its si = Inr si' \<and> indices_ok (objs ++ map_of its) si' \<and> si_indexers si' = si_indexers si"
proof (induction its arbitrary: objs si)
  case (Cons kv its)
  obtain k x where kv: "kv = (k, x)" by (cases kv)
  have none: "objs k = None" using Cons.prems(3) kv by simp
  obtain si1 where s1: "updateIndices (objs k) (Some x) k si = Inr si1" "indices_ok (objs(k \<mapsto> x)) si1"
      "si_indexers si1 = si_indexers si"
    using updateIndices_ok [OF Cons.prems(1)] by metis
  have "\<forall>k' \<in> fst ` set its. (objs(k \<mapsto> x)) k' = None" using Cons.prems(2,3) kv by auto
  moreover have "distinct (map fst its)" using Cons.prems(2) by simp
  ultimately obtain si2 where
    s2: "index_items its si1 = Inr si2" "indices_ok (objs(k \<mapsto> x) ++ map_of its) si2" "si_indexers si2 = si_indexers si1"
    using Cons.IH [OF s1(2)] by blast
  have "map_of its k = None" using Cons.prems(2) kv by (auto simp: map_of_eq_None_iff)
  then have "objs(k \<mapsto> x) ++ map_of its = objs ++ map_of (kv # its)"
    using kv by (auto simp: fun_eq_iff map_add_def split: option.splits)
  with s1 s2 none kv show ?case by (simp del: fun_upd_apply)
qed simp

subsection \<open>Laws of the store\<close>

definition store_ok :: "'o thread_safe_map \<Rightarrow> bool" where
  "store_ok c \<longleftrightarrow> distinct (map fst (items c)) \<and> indices_ok (map_of (items c)) (index c)"

lemma store_ok_new:
  assumes "distinct (map fst indexers)" "\<forall>f \<in> snd ` set indexers. never_fails f"
  shows "store_ok (NewThreadSafeStore indexers)"
  using assms by (force simp: store_ok_def NewThreadSafeStore_def indices_ok_def index_named_def index_ok_def keys_at_def)

lemma updateLocked_ok:
  assumes "store_ok c"
  shows "\<exists>c'. updateLocked key obj c = Inr c' \<and> store_ok c' \<and> map_of (items c') = (map_of (items c))(key \<mapsto> obj) \<and>
     si_indexers (index c') = si_indexers (index c)"
proof -
  from assms have ok: "distinct (map fst (items c))" "indices_ok (map_of (items c)) (index c)" by (simp_all add: store_ok_def)
  obtain si where si: "updateIndices (map_of (items c) key) (Some obj) key (index c) = Inr si"
      "indices_ok ((map_of (items c))(key \<mapsto> obj)) si" "si_indexers si = si_indexers (index c)"
    using updateIndices_ok [OF ok(2)] by metis
  then show ?thesis
    using ok(1) by (simp add: updateLocked_def store_ok_def distinct_assoc_set)
qed

lemma deleteLocked_ok:
  assumes "store_ok c"
  shows "\<exists>c'. deleteLocked key c = Inr c' \<and> store_ok c' \<and> map_of (items c') = (map_of (items c))(key := None) \<and>
     si_indexers (index c') = si_indexers (index c)"
proof (cases "map_of (items c) key")
  case None
  then have "(map_of (items c))(key := None) = map_of (items c)" by (auto simp: fun_eq_iff)
  with None assms show ?thesis by (simp add: deleteLocked_def)
next
  case (Some obj)
  from assms have ok: "distinct (map fst (items c))" "indices_ok (map_of (items c)) (index c)" by (simp_all add: store_ok_def)
  obtain si where si: "updateIndices (map_of (items c) key) None key (index c) = Inr si"
      "indices_ok ((map_of (items c))(key := None)) si" "si_indexers si = si_indexers (index c)"
    using updateIndices_ok [OF ok(2)] by metis
  with Some ok(1) show ?thesis
    by (simp add: deleteLocked_def store_ok_def map_of_filter_neq distinct_filter_keys)
qed

lemma ts_Replace_ok:
  assumes "store_ok c" "distinct (map fst new)"
  shows "\<exists>c'. ts_Replace new c = Inr c' \<and> store_ok c' \<and> items c' = new \<and> si_indexers (index c') = si_indexers (index c)"
proof -
  have "indices_ok Map.empty ((index c)\<lparr>si_indices := []\<rparr>)"
    using assms(1) by (fastforce simp: store_ok_def indices_ok_def index_named_def index_ok_def keys_at_def)
  from index_items_ok [OF this assms(2)] obtain si where
    "index_items new ((index c)\<lparr>si_indices := []\<rparr>) = Inr si" "indices_ok (Map.empty ++ map_of new) si" "si_indexers si = si_indexers (index c)"
    by auto
  then show ?thesis using assms(2) by (simp add: ts_Replace_def store_ok_def)
qed

text \<open>What a store promises its clients: it is a map from keys to objects that never panics.\<close>

locale keyed_store =
  fixes ok :: "'s \<Rightarrow> bool"
    and lookup :: "string \<Rightarrow> 's \<Rightarrow> 'o option"
    and put :: "string \<Rightarrow> 'o \<Rightarrow> 's \<Rightarrow> 'p + 's"
    and del :: "string \<Rightarrow> 's \<Rightarrow> 'p + 's"
  assumes put_total: "ok s \<Longrightarrow> \<exists>s'. put k x s = Inr s' \<and> ok s' \<and> (\<forall>k'. lookup k' s' = (if k' = k then Some x else lookup k' s))"
    and del_total: "ok s \<Longrightarrow> \<exists>s'. del k s = Inr s' \<and> ok s' \<and> (\<forall>k'. lookup k' s' = (if k' = k then None else lookup k' s))"
begin

fun perform :: "(string \<times> 'o option) list \<Rightarrow> 's \<Rightarrow> 'p + 's" where
  "perform [] s = Inr s"
| "perform ((k, Some x) # ops) s = (case put k x s of Inl p \<Rightarrow> Inl p | Inr s' \<Rightarrow> perform ops s')"
| "perform ((k, None) # ops) s = (case del k s of Inl p \<Rightarrow> Inl p | Inr s' \<Rightarrow> perform ops s')"

lemma perform_refines:
  "ok s \<Longrightarrow> \<exists>s'. perform ops s = Inr s' \<and> ok s' \<and>
     (\<forall>k. lookup k s' = fold (\<lambda>(k, x) m. m(k := x)) ops (\<lambda>k. lookup k s) k)"
proof (induction ops s rule: perform.induct)
  case (2 k x ops s)
  obtain s' where s': "put k x s = Inr s'" "ok s'" "\<And>k'. lookup k' s' = (if k' = k then Some x else lookup k' s)"
    using put_total [OF "2.prems"] by metis
  then have "(\<lambda>k'. lookup k' s') = (\<lambda>k'. lookup k' s)(k \<mapsto> x)" by auto
  with "2.IH" [OF s'(1,2)] s'(1) show ?case by (simp del: fun_upd_apply)
next
  case (3 k ops s)
  obtain s' where s': "del k s = Inr s'" "ok s'" "\<And>k'. lookup k' s' = (if k' = k then None else lookup k' s)"
    using del_total [OF "3.prems"] by metis
  then have "(\<lambda>k'. lookup k' s') = (\<lambda>k'. lookup k' s)(k := None)" by auto
  with "3.IH" [OF s'(1,2)] s'(1) show ?case by (simp del: fun_upd_apply)
qed simp

end

interpretation object_store: keyed_store store_ok ts_Get updateLocked deleteLocked
proof
  fix s :: "'a thread_safe_map" and k x
  assume ok: "store_ok s"
  from updateLocked_ok [OF ok, of k x]
  show "\<exists>s'. updateLocked k x s = Inr s' \<and> store_ok s' \<and> (\<forall>k'. ts_Get k' s' = (if k' = k then Some x else ts_Get k' s))"
    by (auto simp: ts_Get_def)
  from deleteLocked_ok [OF ok, of k]
  show "\<exists>s'. deleteLocked k s = Inr s' \<and> store_ok s' \<and> (\<forall>k'. ts_Get k' s' = (if k' = k then None else ts_Get k' s))"
    by (auto simp: ts_Get_def)
qed

text \<open>Adding indexers to a store that holds objects already.\<close>

lemma index_items_under_ok:
  assumes "distinct names" "\<And>name. name \<in> set names \<Longrightarrow>
      \<exists>f. map_of (si_indexers si) name = Some f \<and> never_fails f \<and> index_ok f objs (index_named name si)"
    and "distinct (map fst its)" "\<forall>k \<in> fst ` set its. objs k = None"
  shows "\<exists>si'. index_items_under names its si = Inr si' \<and> si_indexers si' = si_indexers si \<and>
     (\<forall>name f. name \<in> set names \<longrightarrow> map_of (si_indexers si) name = Some f \<longrightarrow> index_ok f (objs ++ map_of its) (index_named name si')) \<and>
     (\<forall>name. name \<notin> set names \<longrightarrow> index_named name si' = index_named name si)"
  using assms(2-)
proof (induction its arbitrary: objs si)
  case Nil
  show ?case
  proof (intro exI [of _ si] conjI allI impI)
    fix name f assume "name \<in> set names" "map_of (si_indexers si) name = Some f"
    with Nil.prems(1) [of name] show "index_ok f (objs ++ map_of []) (index_named name si)" by auto
  qed simp_all
next
  case (Cons kv its)
  obtain k x where kv: "kv = (k, x)" by (cases kv)
  have none: "objs k = None" using Cons.prems(3) kv by simp
  from update_named_ok [OF assms(1) Cons.prems(1), where new = "Some x" and key = k] obtain si1 where
    s1: "update_named names (objs k) (Some x) k si = Inr si1" "si_indexers si1 = si_indexers si"
      "\<And>name f. name \<in> set names \<Longrightarrow> map_of (si_indexers si) name = Some f \<Longrightarrow> index_ok f (objs(k \<mapsto> x)) (index_named name si1)"
      "\<And>name. name \<notin> set names \<Longrightarrow> index_named name si1 = index_named name si"
    by blast
  have "\<exists>f. map_of (si_indexers si1) name = Some f \<and> never_fails f \<and> index_ok f (objs(k \<mapsto> x)) (index_named name si1)"
    if "name \<in> set names" for name
    using Cons.prems(1) [OF that] s1(2) s1(3) [OF that] by auto
  moreover have "distinct (map fst its)" "\<forall>k' \<in> fst ` set its. (objs(k \<mapsto> x)) k' = None"
    using Cons.prems(2,3) kv by auto
  ultimately obtain si2 where s2: "index_items_under names its si1 = Inr si2" "si_indexers si2 = si_indexers si1"
      "\<And>name f. name \<in> set names \<Longrightarrow> map_of (si_indexers si1) name = Some f \<Longrightarrow> index_ok f (objs(k \<mapsto> x) ++ map_of its) (index_named name si2)"
      "\<And>name. name \<notin> set names \<Longrightarrow> index_named name si2 = index_named name si1"
    using Cons.IH [of si1 "objs(k \<mapsto> x)"] by metis
  have "map_of its k = None" using Cons.prems(2) kv by (auto simp: map_of_eq_None_iff)
  then have objs: "objs(k \<mapsto> x) ++ map_of its = objs ++ map_of (kv # its)"
    using kv by (auto simp: fun_eq_iff map_add_def split: option.splits)
  show ?case
  proof (intro exI [of _ si2] conjI allI impI)
    show "index_items_under names (kv # its) si = Inr si2" using s1(1) s2(1) none kv by simp
    show "si_indexers si2 = si_indexers si" using s1(2) s2(2) by simp
    show "index_ok f (objs ++ map_of (kv # its)) (index_named name si2)"
      if "name \<in> set names" "map_of (si_indexers si) name = Some f" for name f
      using s2(3) [of name f] that s1(2) unfolding objs by simp
    show "index_named name si2 = index_named name si" if "name \<notin> set names" for name
      using s1(4) s2(4) that by simp
  qed
qed

lemma AddIndexers_ok:
  assumes "store_ok c" "distinct (map fst new)" "\<forall>f \<in> snd ` set new. never_fails f"
    and "fst ` set new \<inter> fst ` set (si_indexers (index c)) = {}"
  shows "\<exists>c'. AddIndexers new c = Inr (Inr c') \<and> store_ok c' \<and> items c' = items c \<and>
     si_indexers (index c') = si_indexers (index c) @ new"
proof -
  let ?old = "si_indexers (index c)" and ?objs = "map_of (items c)"
  let ?si = "(index c)\<lparr>si_indexers := ?old @ new\<rparr>"
  have ok: "distinct (map fst (items c))" "distinct (map fst ?old)"
      "\<And>name f. (name, f) \<in> set ?old \<Longrightarrow> never_fails f \<and> index_ok f ?objs (index_named name (index c))"
      "\<And>name. name \<notin> fst ` set ?old \<Longrightarrow> index_named name (index c) = []"
    using assms(1) by (auto simp: store_ok_def indices_ok_def)
  have named: "index_named name ?si = index_named name (index c)" for name by (simp add: index_named_def)
  have distinct_: "distinct (map fst (?old @ new))" using ok(2) assms(2,4) by auto
  have add: "addIndexers new (index c) = Inr ?si"
    using assms(4) fold_assoc_set [OF distinct_] by (force simp: addIndexers_def list_ex_iff)
  have "\<exists>f. map_of (si_indexers ?si) name = Some f \<and> never_fails f \<and> index_ok f Map.empty (index_named name ?si)"
    if "name \<in> set (map fst new)" for name
  proof -
    from that obtain f where f: "(name, f) \<in> set new" by auto
    then have "(name, f) \<in> set (?old @ new)" by simp
    then have "map_of (si_indexers ?si) name = Some f" using map_of_is_SomeI [OF distinct_] by simp
    moreover have "index_named name ?si = []" using ok(4) assms(4) f unfolding named by force
    ultimately show ?thesis using assms(3) f by (force simp: index_ok_def keys_at_def)
  qed
  from index_items_under_ok [OF assms(2) this ok(1)] obtain si where
    si: "index_items_under (map fst new) (items c) ?si = Inr si" "si_indexers si = ?old @ new"
      "\<And>name f. name \<in> fst ` set new \<Longrightarrow> map_of (?old @ new) name = Some f \<Longrightarrow> index_ok f ?objs (index_named name si)"
      "\<And>name. name \<notin> fst ` set new \<Longrightarrow> index_named name si = index_named name (index c)"
    unfolding named by auto
  have "never_fails f \<and> index_ok f ?objs (index_named name si)" if "(name, f) \<in> set (?old @ new)" for name f
  proof (cases "name \<in> fst ` set new")
    case True
    have "map_of (?old @ new) name = Some f" using that distinct_ by (metis map_of_is_SomeI)
    moreover have "(name, f) \<in> set new" using True that assms(4) by force
    ultimately show ?thesis using si(3) [OF True] assms(3) by auto
  next
    case False
    with that have "(name, f) \<in> set ?old" by force
    with ok(3) si(4) [OF False] show ?thesis by simp
  qed
  then have "indices_ok ?objs si"
    using si(2,4) ok(4) distinct_ by (auto simp: indices_ok_def image_Un)
  then show ?thesis using add si(1,2) ok(1) by (simp add: AddIndexers_def store_ok_def)
qed

subsection \<open>Lookups through an index\<close>

lemma mset_lookups:
  assumes "distinct (map fst its)" "distinct ks" "set ks = fst ` set (filter P its)"
  shows "mset (map (map_of its) ks) = mset (map (\<lambda>(k, x). Some x) (filter P its))"
proof -
  have "mset ks = mset (map fst (filter P its))"
    using assms set_eq_iff_mset_eq_distinct [of ks "map fst (filter P its)"] by (simp add: distinct_filter_keys del: mset_map)
  then have "mset (map (map_of its) ks) = mset (map (map_of its) (map fst (filter P its)))"
    by (metis mset_map)
  also have "map (map_of its) (map fst (filter P its)) = map (\<lambda>(k, x). Some x) (filter P its)"
    using assms(1) by (auto simp: map_of_is_SomeI)
  finally show ?thesis .
qed

lemma keys_at_filter:
  assumes "store_ok c" "map_of (si_indexers (index c)) name = Some f"
  shows "distinct (keys_at v (index_named name (index c)))"
    and "set (keys_at v (index_named name (index c))) = fst ` set (filter (\<lambda>(k, x). v \<in> set (projr (f x))) (items c))"
proof -
  have d: "distinct (map fst (items c))" and ok: "never_fails f" "index_ok f (map_of (items c)) (index_named name (index c))"
    using assms map_of_SomeD [OF assms(2)] by (auto simp: store_ok_def indices_ok_def)
  then show "distinct (keys_at v (index_named name (index c)))" by (simp add: index_ok_def distinct_keys_at)
  have "k \<in> set (keys_at v (index_named name (index c))) \<longleftrightarrow> (\<exists>x. (k, x) \<in> set (items c) \<and> v \<in> set (projr (f x)))" for k
  proof -
    have "k \<in> set (keys_at v (index_named name (index c))) \<longleftrightarrow> (\<exists>x vs. map_of (items c) k = Some x \<and> f x = Inr vs \<and> v \<in> set vs)"
      using ok(2) by (simp add: index_ok_def)
    also have "\<dots> \<longleftrightarrow> (\<exists>x. (k, x) \<in> set (items c) \<and> v \<in> set (projr (f x)))"
      using d ok(1) unfolding never_fails_def by (metis map_of_is_SomeI map_of_SomeD sum.sel(2))
    finally show ?thesis .
  qed
  then show "set (keys_at v (index_named name (index c))) = fst ` set (filter (\<lambda>(k, x). v \<in> set (projr (f x))) (items c))"
    by force
qed

lemma ts_ByIndex_ok:
  assumes "store_ok c" "map_of (si_indexers (index c)) name = Some f"
  shows "\<exists>found. ts_ByIndex name v c = Inr found \<and> mset found = mset (map Some (filter (\<lambda>x. v \<in> set (projr (f x))) (ts_List c)))"
proof -
  have d: "distinct (map fst (items c))" using assms(1) by (simp add: store_ok_def)
  have "map (\<lambda>(k, x). Some x) (filter (\<lambda>(k, x). v \<in> set (projr (f x))) its) =
      map Some (filter (\<lambda>x. v \<in> set (projr (f x))) (map snd its))" for its :: "(string \<times> 'a) list"
    by (induction its) auto
  with mset_lookups [OF d keys_at_filter [OF assms]] assms(2) show ?thesis
    unfolding ts_ByIndex_def getKeysByIndex_def ts_List_def by (metis option.case(2) sum.case(2))
qed

text \<open>An object with one value under an index is looked up by that value.\<close>

lemma ts_Index_single:
  assumes "map_of (si_indexers (index c)) name = Some f" "f obj = Inr [v]"
  shows "ts_Index name obj c = ts_ByIndex name v c"
  using assms by (simp add: ts_Index_def ts_ByIndex_def getKeysFromIndex_def getKeysByIndex_def)

subsection \<open>Properties\<close>

fun effect :: "'o transaction \<Rightarrow> string \<times> 'o option" where
  "effect (TransactionAdd key obj) = (key, Some obj)"
| "effect (TransactionUpdate key obj) = (key, Some obj)"
| "effect (TransactionDelete key) = (key, None)"

lemma Transaction_perform: "Transaction txns c = object_store.perform (map effect txns) c"
proof (induction txns arbitrary: c)
  case (Cons txn txns)
  then show ?case by (cases txn) (simp_all add: addLocked_def cong: sum.case_cong)
qed simp

lemma Transaction_indexers:
  "store_ok c \<Longrightarrow> Transaction txns c = Inr c' \<Longrightarrow> si_indexers (index c') = si_indexers (index c)"
proof (induction txns arbitrary: c)
  case (Cons txn txns)
  have "\<exists>c1. transact txn c = Inr c1 \<and> store_ok c1 \<and> si_indexers (index c1) = si_indexers (index c)"
    using updateLocked_ok [OF Cons.prems(1)] deleteLocked_ok [OF Cons.prems(1)]
    by (cases txn) (fastforce simp: addLocked_def)+
  with Cons.prems Cons.IH show ?case by auto
qed simp

text \<open>
  C15: The store behind an informer is a map with indices that never lie. Start it empty with any indexers
  whose functions do not fail and perform any sequence of additions, updates and deletions: no operation
  panics, every key reads as the last operation on it left it, and a lookup through any index returns
  exactly the stored objects that have the value asked for, each once, and never a nil object.
\<close>
theorem store_refines_map:
  assumes "distinct (map fst indexers)" "\<forall>f \<in> snd ` set indexers. never_fails f"
  shows "\<exists>c. Transaction txns (NewThreadSafeStore indexers) = Inr c \<and>
     (\<forall>key. ts_Get key c = fold (\<lambda>(k, x) m. m(k := x)) (map effect txns) Map.empty key) \<and>
     (\<forall>name f v. map_of indexers name = Some f \<longrightarrow>
        (\<exists>found. ts_ByIndex name v c = Inr found \<and> mset found = mset (map Some (filter (\<lambda>x. v \<in> set (projr (f x))) (ts_List c)))))"
proof -
  let ?new = "NewThreadSafeStore indexers"
  have ok: "store_ok ?new" using assms by (rule store_ok_new)
  have empty: "(\<lambda>k. ts_Get k ?new) = Map.empty" by (simp add: ts_Get_def NewThreadSafeStore_def)
  obtain c where c: "Transaction txns ?new = Inr c" "store_ok c"
      "\<And>key. ts_Get key c = fold (\<lambda>(k, x) m. m(k := x)) (map effect txns) Map.empty key"
    using object_store.perform_refines [OF ok, of "map effect txns"] unfolding Transaction_perform empty by blast
  have "si_indexers (index c) = indexers"
    using Transaction_indexers [OF ok c(1)] by (simp add: NewThreadSafeStore_def)
  with c ts_ByIndex_ok [OF c(2)] show ?thesis by blast
qed

definition demo_indexers :: "(string \<times> string index_func) list" where
  "demo_indexers = [(''length'', (\<lambda>s. Inr [if length s = 0 then ''empty'' else ''other'']))]"

theorem store_refines_map_witness:
  "\<exists>c. Transaction [TransactionAdd ''a'' ''one'', TransactionAdd ''b'' '''', TransactionUpdate ''a'' '''', TransactionDelete ''b'']
        (NewThreadSafeStore demo_indexers) = Inr c \<and> ts_Get ''a'' c = Some '''' \<and> ts_Get ''b'' c = None"
proof -
  have "distinct (map fst demo_indexers)" "\<forall>f \<in> snd ` set demo_indexers. never_fails f"
    by (simp_all add: demo_indexers_def never_fails_def)
  from store_refines_map [OF this, of "[TransactionAdd ''a'' ''one'', TransactionAdd ''b'' '''', TransactionUpdate ''a'' '''', TransactionDelete ''b'']"]
  obtain c where c: "Transaction [TransactionAdd ''a'' ''one'', TransactionAdd ''b'' '''', TransactionUpdate ''a'' '''', TransactionDelete ''b'']
        (NewThreadSafeStore demo_indexers) = Inr c"
      "\<And>key. ts_Get key c = fold (\<lambda>(k, x) m. m(k := x)) (map effect [TransactionAdd ''a'' ''one'', TransactionAdd ''b'' '''', TransactionUpdate ''a'' '''', TransactionDelete ''b'']) Map.empty key"
    by blast
  from c(1) c(2) [of "''a''"] c(2) [of "''b''"] show ?thesis by simp
qed

end
