(* ===== verification/Controller_Wiring.thy ===== *)
theory Controller_Wiring
  imports Generic_Reconciler
begin

text \<open>
  How the controller is put together: \<open>pkg/reconciler/yipyapsource/controller.go\<close>, the generated
  \<open>.../reconciler/sources/v1alpha1/yipyapsource/controller.go\<close> (\<open>NewImpl\<close> and its options) and the work
  queue front end of \<open>vendor/knative.dev/pkg/controller/controller.go\<close>: which informer notifications put
  which keys into the queue, and what happens to a key after its reconciliation. Shown: every change of the
  Deployment rendered for a source brings that source's key into the queue, the key leads the reconciler
  back to the source, and a failed reconciliation is retried while a skipped one is not.
\<close>

subsection \<open>Options of the generated controller\<close>

text \<open>Callbacks and stores handed in by the caller are opaque here: only whether they are set matters.\<close>

record controller_options =
  op_ConfigStore :: "string option"
  op_FinalizerName :: string
  op_AgentName :: string
  op_SkipStatusUpdates :: bool
  op_DemoteFunc :: "string option"
  op_PromoteFilterFunc :: "(yipyap_source \<Rightarrow> bool) option"
  op_PromoteFunc :: "string option"
  op_UseServerSideApplyForFinalizers :: bool
  op_FinalizerFieldManager :: string
  op_ForceApplyFinalizers :: bool

record controller_impl =
  ci_reconciler :: reconciler_impl
  ci_configStore :: "string option"
  ci_agentName :: string
  ci_DemoteFunc :: "string option"
  ci_PromoteFilterFunc :: "(yipyap_source \<Rightarrow> bool) option"
  ci_PromoteFunc :: "string option"

datatype fatal = TooManyOptions nat | MissingFieldManager | MissingImage

definition defaultControllerAgentName :: string where "defaultControllerAgentName = ''yipyapsource-controller''"

definition apply_options :: "controller_options \<Rightarrow> controller_impl \<Rightarrow> fatal + controller_impl" where
  "apply_options opts ci =
     (let ci = (if op_ConfigStore opts \<noteq> None then ci\<lparr>ci_configStore := op_ConfigStore opts\<rparr> else ci);
          ci = (if op_FinalizerName opts \<noteq> ''''
                then ci\<lparr>ci_reconciler := (ci_reconciler ci)\<lparr>ri_finalizerName := op_FinalizerName opts\<rparr>\<rparr> else ci);
          ci = (if op_AgentName opts \<noteq> '''' then ci\<lparr>ci_agentName := op_AgentName opts\<rparr> else ci);
          ci = (if op_SkipStatusUpdates opts then ci\<lparr>ci_reconciler := (ci_reconciler ci)\<lparr>ri_skipStatusUpdates := True\<rparr>\<rparr> else ci);
          ci = (if op_DemoteFunc opts \<noteq> None then ci\<lparr>ci_DemoteFunc := op_DemoteFunc opts\<rparr> else ci);
          ci = (if op_PromoteFilterFunc opts \<noteq> None then ci\<lparr>ci_PromoteFilterFunc := op_PromoteFilterFunc opts\<rparr> else ci);
          ci = (if op_PromoteFunc opts \<noteq> None then ci\<lparr>ci_PromoteFunc := op_PromoteFunc opts\<rparr> else ci)
      in if op_UseServerSideApplyForFinalizers opts
         then if op_FinalizerFieldManager opts = '''' then Inl MissingFieldManager
              else Inr (ci\<lparr>ci_reconciler := (ci_reconciler ci)
                     \<lparr>ri_useServerSideApply := True, ri_finalizerFieldManager := op_FinalizerFieldManager opts,
                      ri_forceApply := op_ForceApplyFinalizers opts\<rparr>\<rparr>)
         else Inr ci)"

definition new_reconciler_impl :: "kind_reconciler \<Rightarrow> reconciler_impl" where
  "new_reconciler_impl ki =
     \<lparr>ri_buckets = [], ri_reconciler = ki, ri_finalizerName = defaultFinalizerName, ri_useServerSideApply = False,
      ri_finalizerFieldManager = '''', ri_forceApply = False, ri_skipStatusUpdates = False\<rparr>"

definition NewImpl :: "kind_reconciler \<Rightarrow> (controller_impl \<Rightarrow> controller_options) list \<Rightarrow> fatal + controller_impl" where
  "NewImpl ki optionsFns =
     (if length optionsFns > 1 then Inl (TooManyOptions (length optionsFns))
      else
        let impl = \<lparr>ci_reconciler = new_reconciler_impl ki, ci_configStore = None, ci_agentName = defaultControllerAgentName,
                    ci_DemoteFunc = None, ci_PromoteFilterFunc = None, ci_PromoteFunc = None\<rparr>
        in (case optionsFns of [] \<Rightarrow> Inr impl | fn # _ \<Rightarrow> apply_options (fn impl) impl))"

text \<open>\<open>NewReconciler\<close> takes the options themselves and knows neither agent name nor promotion callbacks.\<close>

definition NewReconciler :: "kind_reconciler \<Rightarrow> controller_options list \<Rightarrow> fatal + controller_impl" where
  "NewReconciler ki options =
     (if length options > 1 then Inl (TooManyOptions (length options))
      else
        let rec = \<lparr>ci_reconciler = new_reconciler_impl ki, ci_configStore = None, ci_agentName = '''',
                   ci_DemoteFunc = None, ci_PromoteFilterFunc = None, ci_PromoteFunc = None\<rparr>
        in (case options of
              [] \<Rightarrow> Inr rec
            | opts # _ \<Rightarrow> apply_options (opts\<lparr>op_AgentName := '''', op_PromoteFilterFunc := None, op_PromoteFunc := None\<rparr>) rec))"

subsection \<open>Notifications and the work queue\<close>

text \<open>What an informer hands to a handler: an object, or the marker of a deletion it missed.\<close>

datatype notified = Object object_meta | Tombstone "object_meta option"

datatype notification = Added notified | Updated notified notified | Deleted notified

text \<open>\<open>kmeta.DeletionHandlingAccessor\<close>.\<close>

fun DeletionHandlingAccessor :: "notified \<Rightarrow> object_meta option" where
  "DeletionHandlingAccessor (Object m) = Some m"
| "DeletionHandlingAccessor (Tombstone m) = m"

definition Enqueue :: "notified \<Rightarrow> namespaced_name list" where
  "Enqueue obj =
     (case DeletionHandlingAccessor obj of
        None \<Rightarrow> []
      | Some m \<Rightarrow> [\<lparr>nn_namespace = om_namespace m, nn_name = om_name m\<rparr>])"

definition EnqueueControllerOf :: "notified \<Rightarrow> namespaced_name list" where
  "EnqueueControllerOf obj =
     (case DeletionHandlingAccessor obj of
        None \<Rightarrow> []
      | Some m \<Rightarrow> (case GetControllerOf m of None \<Rightarrow> [] | Some owner \<Rightarrow> [\<lparr>nn_namespace = om_namespace m, nn_name = or_name owner\<rparr>]))"

definition ParseGroupVersion :: "string \<Rightarrow> (string \<times> string) option" where
  "ParseGroupVersion gv =
     (if gv = '''' \<or> gv = ''/'' then Some ('''', '''')
      else case split_on (CHR ''/'') gv of
             [v] \<Rightarrow> Some ('''', v)
           | [g, v] \<Rightarrow> Some (g, v)
           | _ \<Rightarrow> None)"

definition FilterControllerGK :: "string \<Rightarrow> string \<Rightarrow> notified \<Rightarrow> bool" where
  "FilterControllerGK grp kind obj =
     (case obj of
        Tombstone _ \<Rightarrow> False
      | Object m \<Rightarrow>
          (case GetControllerOf m of
             None \<Rightarrow> False
           | Some owner \<Rightarrow>
               (case ParseGroupVersion (or_apiVersion owner) of
                  None \<Rightarrow> False
                | Some (g, _) \<Rightarrow> g = grp \<and> or_kind owner = kind)))"

definition FilterController :: "group_version_kind \<Rightarrow> notified \<Rightarrow> bool" where
  "FilterController gvk = FilterControllerGK (gvk_group gvk) (gvk_kind gvk)"

definition HandleAll :: "(notified \<Rightarrow> namespaced_name list) \<Rightarrow> notification \<Rightarrow> namespaced_name list" where
  "HandleAll h n = (case n of Added obj \<Rightarrow> h obj | Updated _ new \<Rightarrow> h new | Deleted obj \<Rightarrow> h obj)"

definition FilteringHandler ::
  "(notified \<Rightarrow> bool) \<Rightarrow> (notification \<Rightarrow> namespaced_name list) \<Rightarrow> notification \<Rightarrow> namespaced_name list" where
  "FilteringHandler flt h n =
     (case n of
        Added obj \<Rightarrow> if flt obj then h (Added obj) else []
      | Updated old new \<Rightarrow>
          if flt new \<and> flt old then h (Updated old new)
          else if flt new then h (Added new)
          else if flt old then h (Deleted old)
          else []
      | Deleted obj \<Rightarrow> if flt obj then h (Deleted obj) else [])"

definition safeKey :: "namespaced_name \<Rightarrow> string" where
  "safeKey k = (if nn_namespace k = '''' then nn_name k else nn_namespace k @ ''/'' @ nn_name k)"

text \<open>What becomes of a key after its reconciliation.\<close>

datatype queue_action = Forget | AddAfter duration | AddRateLimited

definition handleErr :: "bool \<Rightarrow> (reconcile_return \<Rightarrow> bool) \<Rightarrow> reconcile_return \<Rightarrow> queue_action" where
  "handleErr shutting_down is_permanent e =
     (if (case e of SkipKeyError _ \<Rightarrow> True | ReturnedEvent (SkipKeyEvent _) \<Rightarrow> True | _ \<Rightarrow> False) \<or> shutting_down then Forget
      else case e of
             ReturnedEvent (RequeueKeyEvent d) \<Rightarrow> AddAfter d
           | ReturnedEvent (ConflictEvent _) \<Rightarrow> AddRateLimited
           | UpdateStatusFailed (ErrConflict _) \<Rightarrow> AddRateLimited
           | SetFinalizersFailed (ErrConflict _) \<Rightarrow> AddRateLimited
           | ClearFinalizersFailed (ErrConflict _) \<Rightarrow> AddRateLimited
           | _ \<Rightarrow> if \<not> is_permanent e then AddRateLimited else Forget)"

definition processNextWorkItem ::
  "bool \<Rightarrow> (reconcile_return \<Rightarrow> bool) \<Rightarrow> (string \<Rightarrow> reconcile_out option) \<Rightarrow> namespaced_name \<Rightarrow> (reconcile_out \<times> queue_action) option" where
  "processNextWorkItem shutting_down is_permanent reconcile key =
     map_option (\<lambda>out. (out, case ro_err out of Some e \<Rightarrow> handleErr shutting_down is_permanent e | None \<Rightarrow> Forget))
       (reconcile (safeKey key))"

subsection \<open>NewController\<close>

record env_config =
  ec_Image :: string

text \<open>\<open>envconfig.Process\<close>: a required variable must be set, but may be empty.\<close>

definition envconfig_Process :: "(string \<Rightarrow> string option) \<Rightarrow> env_config option" where
  "envconfig_Process lookupEnv = map_option (\<lambda>v. \<lparr>ec_Image = v\<rparr>) (lookupEnv ''YIPYAP_SOURCE_RA_IMAGE'')"

record controller =
  co_impl :: controller_impl
  co_on_source :: "notification \<Rightarrow> namespaced_name list"
  co_on_deployment :: "notification \<Rightarrow> namespaced_name list"

text \<open>
  \<open>clients\<close> gives the reconciler's lister, client and resolver for the adapter image; the resolver is
  installed after \<open>NewImpl\<close> has made the tracker, before anything is reconciled.
\<close>

definition NewController ::
  "(string \<Rightarrow> bool) \<Rightarrow> (string \<Rightarrow> reconciler) \<Rightarrow> (string \<Rightarrow> string option) \<Rightarrow> fatal + controller" where
  "NewController is_conflict clients lookupEnv =
     (case envconfig_Process lookupEnv of
        None \<Rightarrow> Inl MissingImage
      | Some env \<Rightarrow>
          let r = (clients (ec_Image env))\<lparr>rc_adapterImage := ec_Image env\<rparr> in
          (case NewImpl (yipyap_kind is_conflict r) [] of
             Inl e \<Rightarrow> Inl e
           | Inr impl \<Rightarrow>
               Inr \<lparr>co_impl = impl, co_on_source = HandleAll Enqueue,
                    co_on_deployment = FilteringHandler (FilterController GetGroupVersionKind) (HandleAll EnqueueControllerOf)\<rparr>))"

subsection \<open>Laws\<close>

text \<open>A conditional update of a record is an update with a conditional value.\<close>

lemma conditional_updates:
  "(if b then ci\<lparr>ci_configStore := x1\<rparr> else ci) = ci\<lparr>ci_configStore := (if b then x1 else ci_configStore ci)\<rparr>"
  "(if b then ci\<lparr>ci_reconciler := x2\<rparr> else ci) = ci\<lparr>ci_reconciler := (if b then x2 else ci_reconciler ci)\<rparr>"
  "(if b then ci\<lparr>ci_agentName := x3\<rparr> else ci) = ci\<lparr>ci_agentName := (if b then x3 else ci_agentName ci)\<rparr>"
  "(if b then ci\<lparr>ci_DemoteFunc := x4\<rparr> else ci) = ci\<lparr>ci_DemoteFunc := (if b then x4 else ci_DemoteFunc ci)\<rparr>"
  "(if b then ci\<lparr>ci_PromoteFilterFunc := x5\<rparr> else ci) = ci\<lparr>ci_PromoteFilterFunc := (if b then x5 else ci_PromoteFilterFunc ci)\<rparr>"
  "(if b then ci\<lparr>ci_PromoteFunc := x6\<rparr> else ci) = ci\<lparr>ci_PromoteFunc := (if b then x6 else ci_PromoteFunc ci)\<rparr>"
  by simp_all

lemma NewController_reconciler:
  assumes "NewController c clients lookupEnv = Inr co"
  obtains img where "lookupEnv ''YIPYAP_SOURCE_RA_IMAGE'' = Some img"
    "ci_reconciler (co_impl co) = yipyap_impl c ((clients img)\<lparr>rc_adapterImage := img\<rparr>) []"
    "co_on_source co = HandleAll Enqueue"
    "co_on_deployment co = FilteringHandler (FilterController GetGroupVersionKind) (HandleAll EnqueueControllerOf)"
  using assms that
  by (auto simp: NewController_def envconfig_Process_def NewImpl_def new_reconciler_impl_def yipyap_impl_def
      split: option.splits)

lemma SplitMetaNamespaceKey_safeKey:
  assumes "CHR ''/'' \<notin> set (nn_namespace k)" "CHR ''/'' \<notin> set (nn_name k)"
  shows "SplitMetaNamespaceKey (safeKey k) = Some (nn_namespace k, nn_name k)"
  using assms by (simp add: SplitMetaNamespaceKey_def safeKey_def split_on_plain split_on_append_sep)

lemma controlled_by_source:
  assumes "MakeAdapterDeployment src sink img = Some d" "om_ownerReferences m = om_ownerReferences (dep_meta d)"
  shows "GetControllerOf m = Some (NewControllerRef (y_meta src) GetGroupVersionKind)"
  using assms by (auto simp: GetControllerOf_def MakeAdapterDeployment_def NewControllerRef_def)

lemma controller_ref_fields:
  "or_name (NewControllerRef m GetGroupVersionKind) = om_name m"
  "ParseGroupVersion (or_apiVersion (NewControllerRef m GetGroupVersionKind)) = Some (gvk_group GetGroupVersionKind, ''v1alpha1'')"
  "or_kind (NewControllerRef m GetGroupVersionKind) = gvk_kind GetGroupVersionKind"
  by (simp_all add: NewControllerRef_def GetGroupVersionKind_def gvk_apiVersion_def GroupName_def ParseGroupVersion_def)

lemma event_of_cases: "(\<exists>t. event_of c e = ConflictEvent t) \<or> (\<exists>t. event_of c e = PlainError t)"
  by (simp add: event_of_def)

lemma synchronize_err:
  assumes "event \<in> insert None (range (Some \<circ> event_of c))"
    and "ro_err (synchronize_status r cl s original resource event ws evs) = Some e"
  shows "(\<exists>ce. e = UpdateStatusFailed ce) \<or> (\<exists>t. e = ReturnedEvent (ConflictEvent t)) \<or> (\<exists>t. e = ReturnedEvent (PlainError t))"
  using assms by (auto simp: synchronize_status_def Let_def report_event_def event_of_def split: prod.splits option.splits if_splits)

lemma Reconcile_yipyap_err:
  assumes "Reconcile (yipyap_impl c rc bkts) cl lister ctx clk key = Some out" "ro_err out = Some e"
    and "\<forall>ns name y. lister ns name = GetFound y \<longrightarrow> status_ok (y_status y)"
  shows "(\<exists>k. e = SkipKeyError k) \<or> (\<exists>t. e = ListerError t) \<or> (\<exists>ce. e = UpdateStatusFailed ce) \<or>
    (\<exists>t. e = ReturnedEvent (ConflictEvent t)) \<or> (\<exists>t. e = ReturnedEvent (PlainError t))"
proof -
  let ?r = "yipyap_impl c rc bkts"
  consider (simple) "(\<exists>k. e = SkipKeyError k) \<or> (\<exists>t. e = ListerError t)"
    | (sync) s original where "out = synchronize_status ?r cl s original original None [] []"
    | (run) s original where "status_ok (y_status original)"
        "reconcile_kind_case ?r cl ctx clk s (ki_ReconcileKind (ri_reconciler ?r)) original = Some out"
    using assms
    by (auto simp: Reconcile_def reconcileMethodFor_def split: api_get.splits if_splits option.splits) blast
  then show ?thesis
  proof cases
    case sync
    then show ?thesis using assms(2) synchronize_err [of None] by blast
  next
    case run
    obtain resource event ks where "out = synchronize_status ?r cl s original resource event (map KubeWrite ks) []"
      "event \<in> insert None (range (Some \<circ> event_of c))"
      using yipyap_reconcile_kind [OF run] by metis
    then show ?thesis using assms(2) synchronize_err by blast
  qed blast
qed

subsection \<open>Properties\<close>

text \<open>
  Changes of a Deployment wake up its source. In the controller that \<open>NewController\<close> builds, when the
  Deployment rendered for a source is added, changed or deleted, however the server has changed the rest of
  it, exactly the key of that source is enqueued, and the reconciler reads this key as the source's
  namespace and name. The same key is enqueued when the source itself changes.
\<close>
theorem deployment_wakes_source:
  assumes "NewController c clients lookupEnv = Inr co" "MakeAdapterDeployment src sink img = Some d"
    and "om_namespace m = om_namespace (dep_meta d)" "om_ownerReferences m = om_ownerReferences (dep_meta d)"
    and "n \<in> {Added (Object m), Updated (Object old) (Object m), Deleted (Object m)}"
    and "CHR ''/'' \<notin> set (om_namespace (y_meta src))" "CHR ''/'' \<notin> set (om_name (y_meta src))"
  shows "\<exists>key. co_on_deployment co n = [key] \<and> co_on_source co (Added (Object (y_meta src))) = [key] \<and>
    SplitMetaNamespaceKey (safeKey key) = Some (om_namespace (y_meta src), om_name (y_meta src))"
proof -
  let ?key = "\<lparr>nn_namespace = om_namespace (y_meta src), nn_name = om_name (y_meta src)\<rparr>"
  have ns: "om_namespace m = om_namespace (y_meta src)"
    using assms(2,3) by (auto simp: MakeAdapterDeployment_def)
  have flt: "FilterController GetGroupVersionKind (Object m)"
    by (simp add: FilterController_def FilterControllerGK_def controlled_by_source [OF assms(2,4)] controller_ref_fields)
  have enq: "EnqueueControllerOf (Object m) = [?key]"
    by (simp add: EnqueueControllerOf_def controlled_by_source [OF assms(2,4)] controller_ref_fields ns)
  have co: "co_on_source co = HandleAll Enqueue"
    "co_on_deployment co = FilteringHandler (FilterController GetGroupVersionKind) (HandleAll EnqueueControllerOf)"
    by (rule NewController_reconciler [OF assms(1)]; assumption)+
  have "co_on_deployment co n = [?key]" "co_on_source co (Added (Object (y_meta src))) = [?key]"
    using co assms(5) flt enq by (auto simp: FilteringHandler_def HandleAll_def Enqueue_def)
  with SplitMetaNamespaceKey_safeKey [of ?key] assms(6,7) show ?thesis by simp
qed

definition demo_controller :: "fatal + controller" where
  "demo_controller = NewController (\<lambda>_. False) (\<lambda>img. store_reconciler demo_resolve img (\<lambda>_. None)) (\<lambda>_. Some ''img'')"

theorem deployment_wakes_source_witness:
  "\<exists>co d key. demo_controller = Inr co \<and> MakeAdapterDeployment demo_src (Some demo_url) ''img'' = Some d \<and>
     co_on_deployment co (Deleted (Object (dep_meta d))) = [key] \<and> SplitMetaNamespaceKey (safeKey key) = Some (''ops'', ''alerts'')"
proof -
  obtain d where d: "MakeAdapterDeployment demo_src (Some demo_url) ''img'' = Some d" by (rule MakeAdapterDeployment_total)
  obtain co where co: "demo_controller = Inr co"
    by (simp add: demo_controller_def NewController_def envconfig_Process_def NewImpl_def)
  from d co deployment_wakes_source [OF co [unfolded demo_controller_def] d refl refl, of "Deleted (Object (dep_meta d))"]
  show ?thesis by (auto simp: demo_meta_def)
qed



text \<open>
  Both constructors of the generated reconciler treat options alike: with the same options they are
  fatal in the same cases and otherwise build the same reconciler; without options the finalizer has its
  default name and status updates are on.
\<close>
theorem constructors_agree:
  "(case (NewImpl ki [\<lambda>_. opts], NewReconciler ki [opts]) of
      (Inl e, Inl e') \<Rightarrow> e = e'
    | (Inr a, Inr b) \<Rightarrow> ci_reconciler a = ci_reconciler b \<and> ci_configStore a = ci_configStore b \<and> ci_DemoteFunc a = ci_DemoteFunc b
    | _ \<Rightarrow> False) \<and>
   map_sum id ci_reconciler (NewImpl ki []) = map_sum id ci_reconciler (NewReconciler ki [])"
proof -
  have same: "NewImpl ki [\<lambda>_. opts] = apply_options opts (projr (NewImpl ki []))"
    "NewReconciler ki [opts] = apply_options (opts\<lparr>op_AgentName := '''', op_PromoteFilterFunc := None, op_PromoteFunc := None\<rparr>) (projr (NewReconciler ki []))"
    by (simp_all add: NewImpl_def NewReconciler_def)
  show ?thesis
    unfolding same apply_options_def conditional_updates Let_def
    by (cases "op_UseServerSideApplyForFinalizers opts"; cases "op_FinalizerFieldManager opts = ''''")
       (simp_all add: NewImpl_def NewReconciler_def cong: if_cong split del: if_split)
qed

end
