(* ===== verification/Source_Cache.thy ===== *)
theory Source_Cache
  imports Object_Store Controller_Wiring Go_Json
begin

text \<open>
  The cache the controller reads its sources from: the loop that feeds the store from the watch
  (\<open>processDeltas\<close> of \<open>vendor/k8s.io/client-go/tools/cache/controller.go\<close>), the generated lister
  \<open>pkg/client/listers/sources/v1alpha1/yipyapsource.go\<close> over \<open>client-go/listers/generic_helpers.go\<close> and
  \<open>tools/cache/listers.go\<close>, and the label selectors of \<open>apimachinery/pkg/labels\<close>. The type of the objects
  is a parameter, with the function that reads their metadata. Shown: listing a namespace through the index
  finds what a search of the whole cache finds, and the key that a change puts into the work queue leads
  the lister to the object the change stored.
\<close>

subsection \<open>Label selectors\<close>

datatype selection_operator =
    DoesNotExist | Equals | DoubleEquals | In | NotEquals | NotIn | Exists | GreaterThan | LessThan

record requirement =
  rq_key :: string
  rq_operator :: selection_operator
  rq_strValues :: "string list"

datatype selector = NothingSelector | InternalSelector "requirement list"

definition Everything :: selector where "Everything = InternalSelector []"

definition MatchesNothing :: "selector \<Rightarrow> bool" where "MatchesNothing sel \<longleftrightarrow> sel = NothingSelector"

definition sel_Empty :: "selector \<Rightarrow> bool" where
  "sel_Empty sel = (case sel of NothingSelector \<Rightarrow> False | InternalSelector rs \<Rightarrow> length rs = 0)"

text \<open>\<open>strconv.ParseInt\<close> in base 10 takes a sign of either kind.\<close>

definition ParseInt :: "string \<Rightarrow> int option" where
  "ParseInt t =
     (case t of
        c # ds \<Rightarrow> if c = CHR ''+'' then (if ds \<noteq> [] \<and> list_all is_digit ds then ParseInt64 ds else None) else ParseInt64 t
      | [] \<Rightarrow> None)"

definition hasValue :: "requirement \<Rightarrow> string \<Rightarrow> bool" where
  "hasValue r v = list_ex (\<lambda>s. s = v) (rq_strValues r)"

definition requirement_Matches :: "requirement \<Rightarrow> (string \<times> string) list \<Rightarrow> bool" where
  "requirement_Matches r ls =
     (if rq_operator r \<in> {In, Equals, DoubleEquals} then
        (case map_of ls (rq_key r) of None \<Rightarrow> False | Some val \<Rightarrow> hasValue r val)
      else if rq_operator r \<in> {NotIn, NotEquals} then
        (case map_of ls (rq_key r) of None \<Rightarrow> True | Some val \<Rightarrow> \<not> hasValue r val)
      else if rq_operator r = Exists then map_of ls (rq_key r) \<noteq> None
      else if rq_operator r = DoesNotExist then map_of ls (rq_key r) = None
      else
        (case map_of ls (rq_key r) of
           None \<Rightarrow> False
         | Some val \<Rightarrow>
             (case ParseInt val of
                None \<Rightarrow> False
              | Some lsValue \<Rightarrow>
                  if length (rq_strValues r) \<noteq> 1 then False
                  else (case ParseInt (rq_strValues r ! 0) of
                          None \<Rightarrow> False
                        | Some rValue \<Rightarrow>
                            (rq_operator r = GreaterThan \<and> lsValue > rValue) \<or> (rq_operator r = LessThan \<and> lsValue < rValue)))))"

definition Matches :: "selector \<Rightarrow> (string \<times> string) list \<Rightarrow> bool" where
  "Matches sel ls = (case sel of NothingSelector \<Rightarrow> False | InternalSelector rs \<Rightarrow> list_all (\<lambda>r. requirement_Matches r ls) rs)"

lemma empty_matches: "sel_Empty sel \<Longrightarrow> Matches sel ls"
  by (auto simp: sel_Empty_def Matches_def split: selector.splits)

subsection \<open>Keys and index of an object\<close>

text \<open>What is handed to the store: an object of the resource, or bare metadata (a search argument).\<close>

datatype 'o api_object = Typed 'o | BareMeta object_meta

definition Accessor :: "('o \<Rightarrow> object_meta) \<Rightarrow> 'o api_object \<Rightarrow> object_meta" where
  "Accessor acc obj = (case obj of Typed x \<Rightarrow> acc x | BareMeta m \<Rightarrow> m)"

definition MetaNamespaceKeyFunc :: "object_meta \<Rightarrow> string" where
  "MetaNamespaceKeyFunc m =
     (if length (om_namespace m) > 0 then om_namespace m @ ''/'' @ om_name m else om_name m)"

definition NamespaceIndex :: string where "NamespaceIndex = ''namespace''"

definition MetaNamespaceIndexFunc :: "('o \<Rightarrow> object_meta) \<Rightarrow> 'o api_object index_func" where
  "MetaNamespaceIndexFunc acc obj = Inr [om_namespace (Accessor acc obj)]"

text \<open>The store of a resource informer.\<close>

type_synonym 'o indexer = "'o api_object thread_safe_map"

definition NewIndexer :: "(string \<times> 'o api_object index_func) list \<Rightarrow> 'o indexer" where
  "NewIndexer indexers = NewThreadSafeStore indexers"

definition informer_indexers :: "('o \<Rightarrow> object_meta) \<Rightarrow> (string \<times> 'o api_object index_func) list" where
  "informer_indexers acc = [(NamespaceIndex, MetaNamespaceIndexFunc acc)]"

subsection \<open>Feeding the store\<close>

text \<open>A change seen by the watch; a deletion that was missed comes with the key and the last known object.\<close>

datatype upsert_type = SyncDelta | ReplacedDelta | AddedDelta | UpdatedDelta

datatype 'o delta = Upsert upsert_type 'o | DeletedDelta 'o | DeletedFinalStateUnknown string 'o

fun delta_key :: "('o \<Rightarrow> object_meta) \<Rightarrow> 'o delta \<Rightarrow> string" where
  "delta_key acc (Upsert _ x) = MetaNamespaceKeyFunc (acc x)"
| "delta_key acc (DeletedDelta x) = MetaNamespaceKeyFunc (acc x)"
| "delta_key acc (DeletedFinalStateUnknown key _) = key"

definition deliver :: "('o \<Rightarrow> object_meta) \<Rightarrow> 'o delta \<Rightarrow> 'o indexer \<Rightarrow> index_panic + 'o indexer \<times> notification" where
  "deliver acc d c =
     (let key = delta_key acc d in
      case d of
        Upsert _ x \<Rightarrow>
          (case ts_Get key c of
             Some old \<Rightarrow>
               (case updateLocked key (Typed x) c of
                  Inl p \<Rightarrow> Inl p
                | Inr c' \<Rightarrow> Inr (c', Updated (Object (Accessor acc old)) (Object (acc x))))
           | None \<Rightarrow>
               (case addLocked key (Typed x) c of
                  Inl p \<Rightarrow> Inl p
                | Inr c' \<Rightarrow> Inr (c', Added (Object (acc x)))))
      | DeletedDelta x \<Rightarrow>
          (case deleteLocked key c of Inl p \<Rightarrow> Inl p | Inr c' \<Rightarrow> Inr (c', Deleted (Object (acc x))))
      | DeletedFinalStateUnknown _ x \<Rightarrow>
          (case deleteLocked key c of Inl p \<Rightarrow> Inl p | Inr c' \<Rightarrow> Inr (c', Deleted (Tombstone (Some (acc x))))))"

fun processDeltas :: "('o \<Rightarrow> object_meta) \<Rightarrow> 'o delta list \<Rightarrow> 'o indexer \<Rightarrow> index_panic + 'o indexer \<times> notification list" where
  "processDeltas acc [] c = Inr (c, [])"
| "processDeltas acc (d # ds) c =
     (case deliver acc d c of
        Inl p \<Rightarrow> Inl p
      | Inr (c', n) \<Rightarrow> (case processDeltas acc ds c' of Inl p \<Rightarrow> Inl p | Inr (c'', ns) \<Rightarrow> Inr (c'', n # ns)))"

subsection \<open>The lister\<close>

definition errNotObject :: string where "errNotObject = ''object does not implement the Object interfaces''"

text \<open>The loop of \<open>ListAll\<close> and \<open>ListAllByNamespace\<close>: what was appended, and the error that ended it.\<close>

fun append_selected ::
  "('o \<Rightarrow> object_meta) \<Rightarrow> selector \<Rightarrow> 'o api_object option list \<Rightarrow> 'o api_object option list \<times> string option" where
  "append_selected acc sel [] = ([], None)"
| "append_selected acc sel (m # ms) =
     (let (ret, err) = append_selected acc sel ms in
      if sel_Empty sel then (m # ret, err)
      else (case m of
              None \<Rightarrow> ([], Some errNotObject)
            | Some obj \<Rightarrow> if Matches sel (om_labels (Accessor acc obj)) then (m # ret, err) else (ret, err)))"

definition ListAll :: "('o \<Rightarrow> object_meta) \<Rightarrow> 'o indexer \<Rightarrow> selector \<Rightarrow> 'o api_object option list \<times> string option" where
  "ListAll acc store sel =
     (if MatchesNothing sel then ([], None) else append_selected acc sel (map Some (ts_List store)))"

definition blank_meta :: object_meta where
  "blank_meta = \<lparr>om_name = '''', om_namespace = '''', om_uid = '''', om_resourceVersion = '''', om_generation = 0,
     om_deletionTimestamp = None, om_labels = [], om_annotations = [], om_ownerReferences = [], om_finalizers = []\<rparr>"

definition ListAllByNamespace ::
  "('o \<Rightarrow> object_meta) \<Rightarrow> 'o indexer \<Rightarrow> string \<Rightarrow> selector \<Rightarrow> 'o api_object option list \<times> string option" where
  "ListAllByNamespace acc indexer ns sel =
     (if MatchesNothing sel then ([], None)
      else if ns = '''' then ListAll acc indexer sel
      else
        (case ts_Index NamespaceIndex (BareMeta (blank_meta\<lparr>om_namespace := ns\<rparr>)) indexer of
           Inl _ \<Rightarrow>
             (map Some (filter (\<lambda>obj. om_namespace (Accessor acc obj) = ns \<and> Matches sel (om_labels (Accessor acc obj)))
                (ts_List indexer)), None)
         | Inr found \<Rightarrow> append_selected acc sel found))"

record 'o resource_indexer =
  rx_indexer :: "'o indexer"
  rx_resource :: "string \<times> string"
  rx_namespace :: string

text \<open>The type assertion \<open>m.(T)\<close>; \<open>None\<close> is its panic.\<close>

definition assert_type :: "'o api_object option \<Rightarrow> 'o option" where
  "assert_type m = (case m of Some (Typed x) \<Rightarrow> Some x | _ \<Rightarrow> None)"

definition lister_List :: "('o \<Rightarrow> object_meta) \<Rightarrow> 'o resource_indexer \<Rightarrow> selector \<Rightarrow> ('o list \<times> string option) option" where
  "lister_List acc l sel =
     (let (ret, err) = ListAllByNamespace acc (rx_indexer l) (rx_namespace l) sel
      in map_option (\<lambda>xs. (xs, err)) (those (map assert_type ret)))"

definition lister_Get :: "'o resource_indexer \<Rightarrow> string \<Rightarrow> 'o api_get option" where
  "lister_Get l name =
     (let key = (if rx_namespace l = '''' then name else rx_namespace l @ ''/'' @ name) in
      case ts_Get key (rx_indexer l) of
        None \<Rightarrow> Some GetNotFound
      | Some obj \<Rightarrow> map_option GetFound (assert_type (Some obj)))"

definition NewYipYapSourceLister :: "yipyap_source indexer \<Rightarrow> yipyap_source resource_indexer" where
  "NewYipYapSourceLister indexer = \<lparr>rx_indexer = indexer, rx_resource = (GroupName, ''yipyapsource''), rx_namespace = ''''\<rparr>"

definition lister_YipYapSources :: "yipyap_source resource_indexer \<Rightarrow> string \<Rightarrow> yipyap_source resource_indexer" where
  "lister_YipYapSources l ns = \<lparr>rx_indexer = rx_indexer l, rx_resource = rx_resource l, rx_namespace = ns\<rparr>"

subsection \<open>Laws\<close>

definition cache_ok :: "('o \<Rightarrow> object_meta) \<Rightarrow> 'o indexer \<Rightarrow> bool" where
  "cache_ok acc c \<longleftrightarrow> store_ok c \<and> si_indexers (index c) = informer_indexers acc \<and>
     (\<forall>k obj. ts_Get k c = Some obj \<longrightarrow> (\<exists>x. obj = Typed x \<and> k = MetaNamespaceKeyFunc (acc x)))"

lemma cache_ok_new: "cache_ok acc (NewIndexer (informer_indexers acc))"
proof -
  have "store_ok (NewThreadSafeStore (informer_indexers acc))"
    by (rule store_ok_new) (simp_all add: informer_indexers_def never_fails_def MetaNamespaceIndexFunc_def)
  then show ?thesis by (simp add: cache_ok_def NewIndexer_def NewThreadSafeStore_def ts_Get_def)
qed

fun delta_value :: "'o delta \<Rightarrow> 'o option" where
  "delta_value (Upsert _ x) = Some x"
| "delta_value (DeletedDelta _) = None"
| "delta_value (DeletedFinalStateUnknown _ _) = None"

text \<open>The informer gives a missed deletion the key under which it stored the object.\<close>

fun key_known :: "('o \<Rightarrow> object_meta) \<Rightarrow> 'o delta \<Rightarrow> bool" where
  "key_known acc (DeletedFinalStateUnknown key x) = (key = MetaNamespaceKeyFunc (acc x))"
| "key_known acc _ = True"

lemma safeKey_meta: "safeKey \<lparr>nn_namespace = om_namespace m, nn_name = om_name m\<rparr> = MetaNamespaceKeyFunc m"
  by (simp add: safeKey_def MetaNamespaceKeyFunc_def)

lemma deliver_ok:
  assumes "cache_ok acc c"
  obtains c' n where "deliver acc d c = Inr (c', n)" "cache_ok acc c'"
    "\<And>k. ts_Get k c' = (if k = delta_key acc d then map_option Typed (delta_value d) else ts_Get k c)"
    "key_known acc d \<Longrightarrow> map safeKey (HandleAll Enqueue n) = [delta_key acc d]"
proof -
  have ok: "store_ok c" and ix: "si_indexers (index c) = informer_indexers acc"
    and typed: "\<And>k obj. ts_Get k c = Some obj \<Longrightarrow> \<exists>x. obj = Typed x \<and> k = MetaNamespaceKeyFunc (acc x)"
    using assms by (auto simp: cache_ok_def)
  let ?k = "delta_key acc d"
  have put: "\<exists>c'. updateLocked ?k (Typed x) c = Inr c' \<and> cache_ok acc c' \<and>
      (\<forall>k. ts_Get k c' = (if k = ?k then Some (Typed x) else ts_Get k c))" if "?k = MetaNamespaceKeyFunc (acc x)" for x
    using updateLocked_ok [OF ok, of ?k "Typed x"] that typed ix by (auto simp: cache_ok_def ts_Get_def split: if_splits)
  have del: "\<exists>c'. deleteLocked ?k c = Inr c' \<and> cache_ok acc c' \<and> (\<forall>k. ts_Get k c' = (if k = ?k then None else ts_Get k c))"
    using deleteLocked_ok [OF ok, of ?k] typed ix by (auto simp: cache_ok_def ts_Get_def split: if_splits)
  show ?thesis
  proof (cases d)
    case (Upsert t x)
    with put [of x] obtain c' where c': "updateLocked ?k (Typed x) c = Inr c'" "cache_ok acc c'"
        "\<And>k. ts_Get k c' = (if k = ?k then Some (Typed x) else ts_Get k c)" by auto
    with Upsert that [of c'] show ?thesis
      by (cases "ts_Get ?k c")
         (simp_all add: deliver_def addLocked_def HandleAll_def Enqueue_def safeKey_meta Let_def)
  next
    case (DeletedDelta x)
    with del that show ?thesis by (fastforce simp: deliver_def HandleAll_def Enqueue_def safeKey_meta)
  next
    case (DeletedFinalStateUnknown key x)
    with del that show ?thesis by (fastforce simp: deliver_def HandleAll_def Enqueue_def safeKey_meta)
  qed
qed

text \<open>The object a sequence of changes leaves under a key.\<close>

definition last_value :: "('o \<Rightarrow> object_meta) \<Rightarrow> 'o delta list \<Rightarrow> string \<Rightarrow> 'o option \<Rightarrow> 'o option" where
  "last_value acc ds key = fold (\<lambda>d v. if delta_key acc d = key then delta_value d else v) ds"

lemma processDeltas_ok:
  assumes "cache_ok acc c"
  obtains c' ns where "processDeltas acc ds c = Inr (c', ns)" "cache_ok acc c'"
    "\<And>k v. ts_Get k c = map_option Typed v \<Longrightarrow> ts_Get k c' = map_option Typed (last_value acc ds k v)"
    "list_all (key_known acc) ds \<Longrightarrow> map safeKey (concat (map (HandleAll Enqueue) ns)) = map (delta_key acc) ds"
  using assms
proof (induction ds arbitrary: c thesis)
  case Nil
  then show ?case by (simp add: last_value_def)
next
  case (Cons d ds)
  obtain c1 n where d: "deliver acc d c = Inr (c1, n)" "cache_ok acc c1"
      "\<And>k. ts_Get k c1 = (if k = delta_key acc d then map_option Typed (delta_value d) else ts_Get k c)"
      "key_known acc d \<Longrightarrow> map safeKey (HandleAll Enqueue n) = [delta_key acc d]"
    using deliver_ok [OF Cons.prems(2), of d] by blast
  obtain c2 ns where ds: "processDeltas acc ds c1 = Inr (c2, ns)" "cache_ok acc c2"
      "\<And>k v. ts_Get k c1 = map_option Typed v \<Longrightarrow> ts_Get k c2 = map_option Typed (last_value acc ds k v)"
      "list_all (key_known acc) ds \<Longrightarrow> map safeKey (concat (map (HandleAll Enqueue) ns)) = map (delta_key acc) ds"
    using Cons.IH [OF _ d(2)] by blast
  show ?case
  proof (rule Cons.prems(1) [of c2 "n # ns"])
    show "processDeltas acc (d # ds) c = Inr (c2, n # ns)" using d(1) ds(1) by simp
    show "cache_ok acc c2" by (rule ds(2))
    show "ts_Get k c2 = map_option Typed (last_value acc (d # ds) k v)" if "ts_Get k c = map_option Typed v" for k v
      using ds(3) [of k "if delta_key acc d = k then delta_value d else v"] d(3) [of k] that by (auto simp: last_value_def)
    show "map safeKey (concat (map (HandleAll Enqueue) (n # ns))) = map (delta_key acc) (d # ds)" if "list_all (key_known acc) (d # ds)"
      using d(4) ds(4) that by simp
  qed
qed

lemma append_selected_typed:
  "append_selected acc sel (map (Some \<circ> Typed) xs) =
     (map (Some \<circ> Typed) (filter (\<lambda>x. Matches sel (om_labels (acc x))) xs), None)"
  by (induction xs) (auto simp: Accessor_def Let_def empty_matches split: if_splits)

lemma those_typed: "those (map assert_type (map (Some \<circ> Typed) xs)) = Some xs"
  by (induction xs) (simp_all add: assert_type_def)

lemma typed_permutation:
  assumes "mset found = mset (map (Some \<circ> Typed) zs)"
  obtains ys where "found = map (Some \<circ> Typed) ys" "mset ys = mset zs"
proof
  let ?h = "the \<circ> assert_type"
  have h: "?h ((Some \<circ> Typed) x) = x" for x :: 'a by (simp add: assert_type_def)
  have "set found = set (map (Some \<circ> Typed) zs)" using assms by (rule mset_eq_setD)
  then have "\<forall>m \<in> set found. (Some \<circ> Typed) (?h m) = m" using h by auto
  then show "found = map (Some \<circ> Typed) (map ?h found)" by (simp add: map_idI)
  have "mset (map ?h found) = image_mset ?h (mset (map (Some \<circ> Typed) zs))" using assms by simp
  also have "\<dots> = mset (map ?h (map (Some \<circ> Typed) zs))" by (metis mset_map)
  also have "map ?h (map (Some \<circ> Typed) zs) = zs" using h by (simp add: map_idI)
  finally show "mset (map ?h found) = mset zs" .
qed

lemma cache_typed:
  assumes "cache_ok acc c"
  obtains xs where "ts_List c = map Typed xs"
proof -
  have "\<exists>x. obj = Typed x" if "obj \<in> set (ts_List c)" for obj
  proof -
    from that obtain k where "(k, obj) \<in> set (items c)" by (auto simp: ts_List_def)
    then have "ts_Get k c = Some obj"
      using assms by (auto simp: cache_ok_def store_ok_def ts_Get_def intro: map_of_is_SomeI)
    with assms show ?thesis by (auto simp: cache_ok_def)
  qed
  then have "\<exists>f. \<forall>obj \<in> set (ts_List c). obj = Typed (f obj)" by metis
  then obtain f where "\<forall>obj \<in> set (ts_List c). Typed (f obj) = obj" by metis
  then have "map Typed (map f (ts_List c)) = ts_List c" by (simp add: map_idI)
  then show ?thesis using that by metis
qed

lemma lister_List_all:
  assumes "ts_List (rx_indexer l) = map Typed xs" "rx_namespace l = ''''"
  shows "lister_List acc l sel = Some (filter (\<lambda>x. Matches sel (om_labels (acc x))) xs, None)"
proof -
  have objs: "map Some (ts_List (rx_indexer l)) = map (Some \<circ> Typed) xs" using assms(1) by simp
  show ?thesis
  proof (cases "MatchesNothing sel")
    case True
    then show ?thesis by (simp add: lister_List_def ListAllByNamespace_def MatchesNothing_def Matches_def)
  next
    case False
    then have "ListAllByNamespace acc (rx_indexer l) (rx_namespace l) sel = append_selected acc sel (map (Some \<circ> Typed) xs)"
      using assms(2) by (simp add: ListAllByNamespace_def ListAll_def objs)
    then show ?thesis unfolding lister_List_def append_selected_typed by (simp only: prod.case Let_def those_typed option.map)
  qed
qed

lemma lister_List_namespace:
  assumes "cache_ok acc (rx_indexer l)" "ts_List (rx_indexer l) = map Typed xs" "rx_namespace l \<noteq> ''''"
  obtains ys where "lister_List acc l sel = Some (filter (\<lambda>x. Matches sel (om_labels (acc x))) ys, None)"
    "mset ys = mset (filter (\<lambda>x. om_namespace (acc x) = rx_namespace l) xs)"
proof -
  let ?ns = "rx_namespace l" and ?c = "rx_indexer l"
  have ok: "store_ok ?c" and ix: "map_of (si_indexers (index ?c)) NamespaceIndex = Some (MetaNamespaceIndexFunc acc)"
    using assms(1) by (simp_all add: cache_ok_def informer_indexers_def)
  obtain found where found: "ts_ByIndex NamespaceIndex ?ns ?c = Inr found"
      "mset found = mset (map Some (filter (\<lambda>x. ?ns \<in> set (projr (MetaNamespaceIndexFunc acc x))) (ts_List ?c)))"
    using ts_ByIndex_ok [OF ok ix] by blast
  have "map Some (filter (\<lambda>x. ?ns \<in> set (projr (MetaNamespaceIndexFunc acc x))) (map Typed xs)) =
      map (Some \<circ> Typed) (filter (\<lambda>x. om_namespace (acc x) = ?ns) xs)"
    by (induction xs) (auto simp: MetaNamespaceIndexFunc_def Accessor_def)
  with found(2) assms(2) have "mset found = mset (map (Some \<circ> Typed) (filter (\<lambda>x. om_namespace (acc x) = ?ns) xs))" by metis
  then obtain ys where ys: "found = map (Some \<circ> Typed) ys" "mset ys = mset (filter (\<lambda>x. om_namespace (acc x) = ?ns) xs)"
    by (rule typed_permutation)
  have "ts_Index NamespaceIndex (BareMeta (blank_meta\<lparr>om_namespace := ?ns\<rparr>)) ?c = Inr found"
    using found(1) ts_Index_single [OF ix] by (simp add: MetaNamespaceIndexFunc_def Accessor_def)
  then have "ListAllByNamespace acc ?c ?ns sel =
      (if MatchesNothing sel then ([], None) else append_selected acc sel (map (Some \<circ> Typed) ys))"
    using assms(3) ys(1) by (simp add: ListAllByNamespace_def)
  moreover have "filter (\<lambda>x. Matches sel (om_labels (acc x))) ys = []" if "MatchesNothing sel"
    using that by (simp add: MatchesNothing_def Matches_def)
  ultimately have "lister_List acc l sel = Some (filter (\<lambda>x. Matches sel (om_labels (acc x))) ys, None)"
    unfolding lister_List_def append_selected_typed
    by (cases "MatchesNothing sel") (simp_all only: prod.case Let_def those_typed option.map if_True if_False list.map those.simps)
  with ys(2) show ?thesis using that by blast
qed

lemma lister_Get_key:
  assumes "cache_ok acc (rx_indexer l)" "rx_namespace l \<noteq> ''''"
  shows "lister_Get l name =
     Some (case ts_Get (rx_namespace l @ ''/'' @ name) (rx_indexer l) of Some (Typed x) \<Rightarrow> GetFound x | _ \<Rightarrow> GetNotFound)"
proof (cases "ts_Get (rx_namespace l @ ''/'' @ name) (rx_indexer l)")
  case None
  with assms(2) show ?thesis by (simp add: lister_Get_def)
next
  case (Some obj)
  with assms obtain x where "obj = Typed x" by (auto simp: cache_ok_def)
  with Some assms(2) show ?thesis by (simp add: lister_Get_def assert_type_def)
qed

subsection \<open>Properties\<close>


definition demo_deltas :: "yipyap_source delta list" where
  "demo_deltas = [Upsert ReplacedDelta demo_src, Upsert UpdatedDelta (demo_src\<lparr>y_meta := demo_meta\<lparr>om_generation := 4\<rparr>\<rparr>)]"


lemma SplitMetaNamespaceKey_join:
  assumes "SplitMetaNamespaceKey key = Some (ns, name)" "ns \<noteq> ''''"
  shows "key = ns @ ''/'' @ name"
proof -
  have "split_on (CHR ''/'') key = [ns, name]"
    using assms by (auto simp: SplitMetaNamespaceKey_def split: list.splits)
  with join_split_on [of "CHR ''/''" key] show ?thesis by simp
qed

text \<open>
  The key a change puts into the work queue leads back to what the change stored. For every sequence of
  changes from the watch, missed deletions included, the store never panics, the handler on sources enqueues
  exactly one key per change, in order, and the key is the one the store uses; taking a namespaced key apart
  as the reconciler does and asking the lister for it returns the object of the last change under that key,
  or not-found when there was none or it was a deletion.
\<close>
theorem queued_key_leads_to_object:
  assumes "list_all (key_known y_meta) ds" "SplitMetaNamespaceKey key = Some (ns, name)" "ns \<noteq> ''''"
  shows "\<exists>c nts. processDeltas y_meta ds (NewIndexer (informer_indexers y_meta)) = Inr (c, nts) \<and>
     map safeKey (concat (map (HandleAll Enqueue) nts)) = map (delta_key y_meta) ds \<and>
     lister_Get (lister_YipYapSources (NewYipYapSourceLister c) ns) name =
       Some (case last_value y_meta ds key None of None \<Rightarrow> GetNotFound | Some y \<Rightarrow> GetFound y)"
proof -
  obtain c nts where c: "processDeltas y_meta ds (NewIndexer (informer_indexers y_meta)) = Inr (c, nts)" "cache_ok y_meta c"
      "\<And>k v. ts_Get k (NewIndexer (informer_indexers y_meta)) = map_option Typed v \<Longrightarrow> ts_Get k c = map_option Typed (last_value y_meta ds k v)"
      "map safeKey (concat (map (HandleAll Enqueue) nts)) = map (delta_key y_meta) ds"
    by (rule processDeltas_ok [OF cache_ok_new, of y_meta ds]) (use assms(1) in blast)
  let ?l = "lister_YipYapSources (NewYipYapSourceLister c) ns"
  have views: "rx_indexer ?l = c" "rx_namespace ?l = ns" by (simp_all add: NewYipYapSourceLister_def lister_YipYapSources_def)
  have "ts_Get key c = map_option Typed (last_value y_meta ds key None)"
    by (rule c(3)) (simp add: NewIndexer_def NewThreadSafeStore_def ts_Get_def)
  with SplitMetaNamespaceKey_join [OF assms(2,3)]
  have "lister_Get ?l name = Some (case last_value y_meta ds key None of None \<Rightarrow> GetNotFound | Some y \<Rightarrow> GetFound y)"
    using lister_Get_key [of y_meta ?l name] c(2) assms(3) unfolding views by (cases "last_value y_meta ds key None") simp_all
  with c(1,4) show ?thesis by blast
qed

theorem queued_key_leads_to_object_witness:
  "\<exists>c nts. processDeltas y_meta demo_deltas (NewIndexer (informer_indexers y_meta)) = Inr (c, nts) \<and>
     map safeKey (concat (map (HandleAll Enqueue) nts)) = [''ops/alerts'', ''ops/alerts''] \<and>
     lister_Get (lister_YipYapSources (NewYipYapSourceLister c) ''ops'') ''alerts'' =
       Some (GetFound (demo_src\<lparr>y_meta := demo_meta\<lparr>om_generation := 4\<rparr>\<rparr>))"
proof -
  have "list_all (key_known y_meta) demo_deltas" by (simp add: demo_deltas_def)
  moreover have "SplitMetaNamespaceKey ''ops/alerts'' = Some (''ops'', ''alerts'')" by (simp add: SplitMetaNamespaceKey_def)
  moreover have "map (delta_key y_meta) demo_deltas = [''ops/alerts'', ''ops/alerts'']"
    "last_value y_meta demo_deltas ''ops/alerts'' None = Some (demo_src\<lparr>y_meta := demo_meta\<lparr>om_generation := 4\<rparr>\<rparr>)"
    by (simp_all add: demo_deltas_def last_value_def MetaNamespaceKeyFunc_def demo_meta_def)
  ultimately show ?thesis using queued_key_leads_to_object [of demo_deltas "''ops/alerts''" "''ops''" "''alerts''"] by simp
qed

end
