(* ===== verification/Work_Queue.thy ===== *)
theory Work_Queue
  imports Prelude
begin

text \<open>
  The controller's work queue: \<open>workqueue.Typed\<close> of \<open>k8s.io/client-go/util/workqueue\<close> (\<open>queue.go\<close>), the delays and the
  failure backoff in front of it (\<open>delaying_queue.go\<close>, \<open>default_rate_limiters.go\<close>), and the two lanes of
  \<open>knative.dev/pkg/controller/two_lane_queue.go\<close> with their producer and consumer goroutines. A step relation
  interleaves callers, goroutines and timers. Shown: a key that was added stays due until it is handed to a
  worker, no key is handed to two workers at a time, and a queue at rest owes nothing. What the controller
  relies on is the locale \<open>handoff_queue\<close>.
\<close>

subsection \<open>workqueue.Typed\<close>

record 'k typed_queue =
  tq_queue :: "'k list"
  tq_dirty :: "'k set"
  tq_processing :: "'k set"
  tq_shuttingDown :: bool

definition tq_New :: "'k typed_queue" where
  "tq_New = \<lparr>tq_queue = [], tq_dirty = {}, tq_processing = {}, tq_shuttingDown = False\<rparr>"

definition tq_Add :: "'k \<Rightarrow> 'k typed_queue \<Rightarrow> 'k typed_queue" where
  "tq_Add item q =
     (if tq_shuttingDown q then q
      else if item \<in> tq_dirty q then q
      else
        let q = q\<lparr>tq_dirty := insert item (tq_dirty q)\<rparr>
        in if item \<in> tq_processing q then q else q\<lparr>tq_queue := tq_queue q @ [item]\<rparr>)"

text \<open>\<open>Get\<close> waits while the queue is empty and open; an empty queue that is shut down says so.\<close>

datatype 'k got = Waits | ShutDownSeen | Item 'k

definition tq_Get :: "'k typed_queue \<Rightarrow> 'k got \<times> 'k typed_queue" where
  "tq_Get q =
     (case tq_queue q of
        [] \<Rightarrow> (if tq_shuttingDown q then ShutDownSeen else Waits, q)
      | item # rest \<Rightarrow>
          (Item item, q\<lparr>tq_queue := rest, tq_processing := insert item (tq_processing q), tq_dirty := tq_dirty q - {item}\<rparr>))"

definition tq_Done :: "'k \<Rightarrow> 'k typed_queue \<Rightarrow> 'k typed_queue" where
  "tq_Done item q =
     (let q = q\<lparr>tq_processing := tq_processing q - {item}\<rparr>
      in if item \<in> tq_dirty q then q\<lparr>tq_queue := tq_queue q @ [item]\<rparr> else q)"

definition tq_ShutDown :: "'k typed_queue \<Rightarrow> 'k typed_queue" where
  "tq_ShutDown q = q\<lparr>tq_shuttingDown := True\<rparr>"

text \<open>The comment on the type: what is queued is what is dirty and not being processed, each once.\<close>

definition tq_ok :: "'k typed_queue \<Rightarrow> bool" where
  "tq_ok q \<longleftrightarrow> distinct (tq_queue q) \<and> set (tq_queue q) = tq_dirty q - tq_processing q"

lemma tq_ok_ops [simp, intro]:
  "tq_ok tq_New" "tq_ok q \<Longrightarrow> tq_ok (tq_Add k q)" "tq_ok q \<Longrightarrow> tq_ok (tq_ShutDown q)"
  "tq_ok q \<Longrightarrow> k \<in> tq_processing q \<Longrightarrow> tq_ok (tq_Done k q)"
  by (auto simp: tq_ok_def tq_New_def tq_Add_def tq_ShutDown_def tq_Done_def Let_def)

lemma tq_Get_Item:
  assumes "tq_Get q = (Item k, q')" "tq_ok q"
  shows "tq_ok q'" "k \<in> tq_dirty q" "k \<notin> tq_processing q" "tq_dirty q' = tq_dirty q - {k}" "tq_processing q' = insert k (tq_processing q)"
    "tq_shuttingDown q' = tq_shuttingDown q"
proof -
  obtain ks where ks: "tq_queue q = k # ks"
    "q' = q\<lparr>tq_queue := ks, tq_processing := insert k (tq_processing q), tq_dirty := tq_dirty q - {k}\<rparr>"
    using assms(1) by (auto simp: tq_Get_def split: list.splits if_splits)
  have "insert k (set ks) = tq_dirty q - tq_processing q" "k \<notin> set ks" using assms(2) ks by (auto simp: tq_ok_def)
  then show "tq_ok q'" "k \<in> tq_dirty q" "k \<notin> tq_processing q" "tq_dirty q' = tq_dirty q - {k}"
    "tq_processing q' = insert k (tq_processing q)" "tq_shuttingDown q' = tq_shuttingDown q"
    using assms(2) by (auto simp: ks tq_ok_def)
qed

lemma tq_dirty_ops [simp]:
  "tq_dirty (tq_Add k q) = (if tq_shuttingDown q then tq_dirty q else insert k (tq_dirty q))"
  "tq_dirty (tq_Done k q) = tq_dirty q" "tq_dirty (tq_ShutDown q) = tq_dirty q"
  "tq_processing (tq_Add k q) = tq_processing q" "tq_processing (tq_Done k q) = tq_processing q - {k}"
  "tq_processing (tq_ShutDown q) = tq_processing q"
  "tq_shuttingDown (tq_Add k q) = tq_shuttingDown q" "tq_shuttingDown (tq_Done k q) = tq_shuttingDown q"
  "tq_shuttingDown (tq_ShutDown q)"
  by (auto simp: tq_Add_def tq_Done_def tq_ShutDown_def Let_def)

subsection \<open>A lane and its producer\<close>

text \<open>
  \<open>process\<close>: take an item from the lane, mark it done there, and offer it on the channel; the channel is
  closed when the lane is shut down and empty.
\<close>

datatype 'k producer = Idle | Taken 'k | Sending 'k | Closed

record 'k lane =
  ln_queue :: "'k typed_queue"
  ln_producer :: "'k producer"

definition new_lane :: "'k lane" where
  "new_lane = \<lparr>ln_queue = tq_New, ln_producer = Idle\<rparr>"

definition process :: "'k lane \<Rightarrow> 'k lane" where
  "process l =
     (case ln_producer l of
        Idle \<Rightarrow>
          (case tq_Get (ln_queue l) of
             (Item i, q) \<Rightarrow> \<lparr>ln_queue = q, ln_producer = Taken i\<rparr>
           | (ShutDownSeen, q) \<Rightarrow> \<lparr>ln_queue = q, ln_producer = Closed\<rparr>
           | (Waits, q) \<Rightarrow> l)
      | Taken i \<Rightarrow> \<lparr>ln_queue = tq_Done i (ln_queue l), ln_producer = Sending i\<rparr>
      | Sending i \<Rightarrow> l
      | Closed \<Rightarrow> l)"

text \<open>A receive on the lane's channel: an item, the end of a closed channel, or nothing offered yet.\<close>

definition receive :: "'k lane \<Rightarrow> 'k got \<times> 'k lane" where
  "receive l =
     (case ln_producer l of
        Sending i \<Rightarrow> (Item i, l\<lparr>ln_producer := Idle\<rparr>)
      | Closed \<Rightarrow> (ShutDownSeen, l)
      | _ \<Rightarrow> (Waits, l))"

definition lane_add :: "'k \<Rightarrow> 'k lane \<Rightarrow> 'k lane" where
  "lane_add k l = l\<lparr>ln_queue := tq_Add k (ln_queue l)\<rparr>"

fun in_hand :: "'k producer \<Rightarrow> 'k set" where
  "in_hand (Taken k) = {k}"
| "in_hand (Sending k) = {k}"
| "in_hand _ = {}"

definition lane_due :: "'k lane \<Rightarrow> 'k set" where
  "lane_due l = tq_dirty (ln_queue l) \<union> in_hand (ln_producer l)"

definition lane_ok :: "'k lane \<Rightarrow> bool" where
  "lane_ok l \<longleftrightarrow> tq_ok (ln_queue l) \<and> tq_processing (ln_queue l) = (case ln_producer l of Taken k \<Rightarrow> {k} | _ \<Rightarrow> {}) \<and>
     (ln_producer l = Closed \<longrightarrow> tq_shuttingDown (ln_queue l) \<and> tq_queue (ln_queue l) = [])"

lemma lane_ok_ops:
  "lane_ok new_lane" "lane_ok l \<Longrightarrow> lane_ok (lane_add k l)" "lane_ok l \<Longrightarrow> lane_ok (process l)"
  "lane_ok l \<Longrightarrow> lane_ok (snd (receive l))" "lane_ok l \<Longrightarrow> lane_ok (l\<lparr>ln_queue := tq_ShutDown (ln_queue l)\<rparr>)"
proof -
  show "lane_ok (process l)" if l: "lane_ok l"
  proof (cases "ln_producer l")
    case Idle
    obtain g q where g: "tq_Get (ln_queue l) = (g, q)" by fastforce
    show ?thesis
    proof (cases g)
      case (Item k)
      with l Idle tq_Get_Item [of "ln_queue l" k q] g show ?thesis by (simp add: process_def lane_ok_def)
    qed (use l Idle g in \<open>auto simp: process_def lane_ok_def tq_Get_def split: list.splits if_splits\<close>)
  qed (use l in \<open>auto simp: process_def lane_ok_def\<close>)
qed (auto simp: lane_ok_def new_lane_def lane_add_def receive_def tq_New_def tq_Add_def tq_ShutDown_def tq_ok_def Let_def split: producer.splits)

lemma lane_due_ops:
  "lane_due new_lane = {}"
  "lane_due (lane_add k l) = (if tq_shuttingDown (ln_queue l) then lane_due l else insert k (lane_due l))"
  "lane_ok l \<Longrightarrow> lane_due (process l) = lane_due l"
  "lane_due (l\<lparr>ln_queue := tq_ShutDown (ln_queue l)\<rparr>) = lane_due l"
  "receive l = (Item k, l') \<Longrightarrow> k \<in> lane_due l \<and> lane_due l \<subseteq> insert k (lane_due l') \<and> lane_due l' \<subseteq> lane_due l"
proof -
  show "lane_due (process l) = lane_due l" if l: "lane_ok l"
  proof (cases "ln_producer l")
    case Idle
    obtain g q where g: "tq_Get (ln_queue l) = (g, q)" by fastforce
    show ?thesis
    proof (cases g)
      case (Item k)
      with l Idle tq_Get_Item [of "ln_queue l" k q] g show ?thesis by (auto simp: process_def lane_ok_def lane_due_def)
    qed (use l Idle g in \<open>auto simp: process_def lane_due_def tq_Get_def split: list.splits if_splits\<close>)
  qed (auto simp: process_def lane_due_def)
qed (auto simp: lane_due_def new_lane_def lane_add_def receive_def tq_New_def split: producer.splits)


subsection \<open>The two lanes and the consumer\<close>

text \<open>
  \<open>tl_waiting\<close> says where \<open>runConsumer\<close> stands: it first looks at the fast lane only, and when nothing is offered
  there it waits for either lane.
\<close>

record 'k two_lane =
  tl_fast :: "'k lane"
  tl_slow :: "'k lane"
  tl_consumerQueue :: "'k typed_queue"
  tl_fastOpen :: bool
  tl_slowOpen :: bool
  tl_waiting :: bool

definition newTwoLaneWorkQueue :: "'k two_lane" where
  "newTwoLaneWorkQueue =
     \<lparr>tl_fast = new_lane, tl_slow = new_lane, tl_consumerQueue = tq_New, tl_fastOpen = True, tl_slowOpen = True, tl_waiting = False\<rparr>"

text \<open>When both lanes are closed the loop ends, and the deferred call shuts the consumer's queue down.\<close>

definition end_consumer :: "'k two_lane \<Rightarrow> 'k two_lane" where
  "end_consumer t = (if \<not> tl_fastOpen t \<and> \<not> tl_slowOpen t then t\<lparr>tl_consumerQueue := tq_ShutDown (tl_consumerQueue t)\<rparr> else t)"

definition receive_fast :: "'k two_lane \<Rightarrow> 'k two_lane" where
  "receive_fast t =
     (case receive (tl_fast t) of
        (Item i, l) \<Rightarrow> t\<lparr>tl_fast := l, tl_consumerQueue := tq_Add i (tl_consumerQueue t), tl_waiting := False\<rparr>
      | (ShutDownSeen, l) \<Rightarrow> end_consumer (t\<lparr>tl_fastOpen := False, tl_waiting := False\<rparr>)
      | (Waits, l) \<Rightarrow> t\<lparr>tl_waiting := True\<rparr>)"

definition receive_slow :: "'k two_lane \<Rightarrow> 'k two_lane" where
  "receive_slow t =
     (case receive (tl_slow t) of
        (Item i, l) \<Rightarrow> t\<lparr>tl_slow := l, tl_consumerQueue := tq_Add i (tl_consumerQueue t), tl_waiting := False\<rparr>
      | (ShutDownSeen, l) \<Rightarrow> end_consumer (t\<lparr>tl_slowOpen := False, tl_waiting := False\<rparr>)
      | (Waits, l) \<Rightarrow> t)"

text \<open>
  One step of \<open>runConsumer\<close>; in the second \<open>select\<close> the choice between the two lanes is open, and a nil or
  closed-and-seen fast channel is not looked at first.
\<close>

datatype choice = FromFast | FromSlow

definition runConsumer :: "choice \<Rightarrow> 'k two_lane \<Rightarrow> 'k two_lane" where
  "runConsumer c t =
     (if \<not> tl_fastOpen t \<and> \<not> tl_slowOpen t then t
      else if tl_fastOpen t \<and> \<not> tl_waiting t then receive_fast t
      else case c of FromFast \<Rightarrow> receive_fast t | FromSlow \<Rightarrow> receive_slow t)"

definition tl_Add :: "'k \<Rightarrow> 'k two_lane \<Rightarrow> 'k two_lane" where
  "tl_Add k t = t\<lparr>tl_fast := lane_add k (tl_fast t)\<rparr>"

definition AddSlow :: "'k \<Rightarrow> 'k two_lane \<Rightarrow> 'k two_lane" where
  "AddSlow k t = t\<lparr>tl_slow := lane_add k (tl_slow t)\<rparr>"

definition tl_Get :: "'k two_lane \<Rightarrow> 'k got \<times> 'k two_lane" where
  "tl_Get t = (let (g, q) = tq_Get (tl_consumerQueue t) in (g, t\<lparr>tl_consumerQueue := q\<rparr>))"

definition tl_Done :: "'k \<Rightarrow> 'k two_lane \<Rightarrow> 'k two_lane" where
  "tl_Done k t = t\<lparr>tl_consumerQueue := tq_Done k (tl_consumerQueue t)\<rparr>"

definition tl_ShutDown :: "'k two_lane \<Rightarrow> 'k two_lane" where
  "tl_ShutDown t =
     t\<lparr>tl_fast := (tl_fast t)\<lparr>ln_queue := tq_ShutDown (ln_queue (tl_fast t))\<rparr>,
       tl_slow := (tl_slow t)\<lparr>ln_queue := tq_ShutDown (ln_queue (tl_slow t))\<rparr>\<rparr>"

definition tl_ShuttingDown :: "'k two_lane \<Rightarrow> bool" where
  "tl_ShuttingDown t \<longleftrightarrow> tq_shuttingDown (ln_queue (tl_fast t)) \<or> tq_shuttingDown (ln_queue (tl_slow t))"

definition tl_Len :: "'k two_lane \<Rightarrow> nat" where
  "tl_Len t = length (tq_queue (ln_queue (tl_fast t))) + length (tq_queue (ln_queue (tl_slow t))) + length (tq_queue (tl_consumerQueue t))"

subsection \<open>Failure backoff\<close>

text \<open>
  \<open>ItemExponentialFailureRateLimiter\<close> with the defaults of \<open>DefaultTypedControllerRateLimiter\<close>, in nanoseconds. The
  code multiplies floats; base times a power of two is exact there, and what does not fit 64 bits is cut off.
\<close>

definition baseDelay :: int where "baseDelay = 5 * 1000000"
definition maxDelay :: int where "maxDelay = 1000 * 1000000000"

definition backoff_delay :: "nat \<Rightarrow> int" where
  "backoff_delay exp =
     (let backoff = baseDelay * 2 ^ exp
      in if backoff > 2 ^ 63 - 1 then maxDelay else if backoff > maxDelay then maxDelay else backoff)"

definition When :: "'k \<Rightarrow> ('k \<Rightarrow> nat) \<Rightarrow> int \<times> ('k \<Rightarrow> nat)" where
  "When item failures = (backoff_delay (failures item), failures(item := failures item + 1))"

subsection \<open>The delaying queue\<close>

text \<open>
  Entries on their way to the waiting loop, entries that wait there with the time they are ready, and the
  failures of each key. The delay of the token bucket is an input of \<open>AddRateLimited\<close>.
\<close>

record 'k work_queue =
  wq_lanes :: "'k two_lane"
  wq_waitingForAddCh :: "('k \<times> int) list"
  wq_waiting :: "'k \<Rightarrow> int option"
  wq_failures :: "'k \<Rightarrow> nat"

definition newWorkQueue :: "'k work_queue" where
  "newWorkQueue = \<lparr>wq_lanes = newTwoLaneWorkQueue, wq_waitingForAddCh = [], wq_waiting = Map.empty, wq_failures = (\<lambda>_. 0)\<rparr>"

definition wq_Add :: "'k \<Rightarrow> 'k work_queue \<Rightarrow> 'k work_queue" where
  "wq_Add k w = w\<lparr>wq_lanes := tl_Add k (wq_lanes w)\<rparr>"

definition wq_AddSlow :: "'k \<Rightarrow> 'k work_queue \<Rightarrow> 'k work_queue" where
  "wq_AddSlow k w = w\<lparr>wq_lanes := AddSlow k (wq_lanes w)\<rparr>"

definition wq_AddAfter :: "int \<Rightarrow> 'k \<Rightarrow> int \<Rightarrow> 'k work_queue \<Rightarrow> 'k work_queue" where
  "wq_AddAfter now k duration w =
     (if tl_ShuttingDown (wq_lanes w) then w
      else if duration \<le> 0 then wq_Add k w
      else w\<lparr>wq_waitingForAddCh := wq_waitingForAddCh w @ [(k, now + duration)]\<rparr>)"

definition wq_AddRateLimited :: "int \<Rightarrow> int \<Rightarrow> 'k \<Rightarrow> 'k work_queue \<Rightarrow> 'k work_queue" where
  "wq_AddRateLimited now bucket k w =
     (let (delay, failures) = When k (wq_failures w)
      in wq_AddAfter now k (max 0 (max delay bucket)) (w\<lparr>wq_failures := failures\<rparr>))"

definition wq_Forget :: "'k \<Rightarrow> 'k work_queue \<Rightarrow> 'k work_queue" where
  "wq_Forget k w = w\<lparr>wq_failures := (wq_failures w)(k := 0)\<rparr>"

definition wq_Done :: "'k \<Rightarrow> 'k work_queue \<Rightarrow> 'k work_queue" where
  "wq_Done k w = w\<lparr>wq_lanes := tl_Done k (wq_lanes w)\<rparr>"

definition wq_Get :: "'k work_queue \<Rightarrow> 'k got \<times> 'k work_queue" where
  "wq_Get w = (let (g, t) = tl_Get (wq_lanes w) in (g, w\<lparr>wq_lanes := t\<rparr>))"

text \<open>The waiting loop: an entry that arrives is added at once or kept with the earlier of two times; a ready one is added.\<close>

definition insert_waiting :: "'k \<Rightarrow> int \<Rightarrow> ('k \<Rightarrow> int option) \<Rightarrow> 'k \<Rightarrow> int option" where
  "insert_waiting k readyAt m =
     (case m k of
        Some existing \<Rightarrow> if existing > readyAt then m(k \<mapsto> readyAt) else m
      | None \<Rightarrow> m(k \<mapsto> readyAt))"

definition waiting_entry :: "int \<Rightarrow> 'k work_queue \<Rightarrow> 'k work_queue" where
  "waiting_entry now w =
     (case wq_waitingForAddCh w of
        [] \<Rightarrow> w
      | (k, readyAt) # rest \<Rightarrow>
          (let w = w\<lparr>wq_waitingForAddCh := rest\<rparr>
           in if readyAt > now then w\<lparr>wq_waiting := insert_waiting k readyAt (wq_waiting w)\<rparr> else wq_Add k w))"

definition waiting_ready :: "int \<Rightarrow> 'k \<Rightarrow> 'k work_queue \<Rightarrow> 'k work_queue" where
  "waiting_ready now k w =
     (case wq_waiting w k of
        Some readyAt \<Rightarrow> if readyAt > now then w else (wq_Add k w)\<lparr>wq_waiting := (wq_waiting w)(k := None)\<rparr>
      | None \<Rightarrow> w)"

definition wq_ShutDown :: "'k work_queue \<Rightarrow> 'k work_queue" where
  "wq_ShutDown w = w\<lparr>wq_lanes := tl_ShutDown (wq_lanes w)\<rparr>"


subsection \<open>Steps\<close>

datatype 'k queue_label = Adds 'k | Hands 'k | Finishes 'k | Internal | Stops

text \<open>
  Callers that add keys, workers that take and finish them, the goroutines of the lanes and of the waiting
  loop, and shutdown. Each call holds the lock of the queue it touches, so the calls are the steps.
\<close>

inductive wq_step :: "'k queue_label \<Rightarrow> 'k work_queue \<Rightarrow> 'k work_queue \<Rightarrow> bool" where
  add: "wq_step (Adds k) w (wq_Add k w)"
| add_slow: "wq_step (Adds k) w (wq_AddSlow k w)"
| add_after: "wq_step (Adds k) w (wq_AddAfter now k d w)"
| add_rate_limited: "wq_step (Adds k) w (wq_AddRateLimited now bucket k w)"
| get: "wq_Get w = (Item k, w') \<Longrightarrow> wq_step (Hands k) w w'"
| finish: "k \<in> tq_processing (tl_consumerQueue (wq_lanes w)) \<Longrightarrow> wq_step (Finishes k) w (wq_Done k w)"
| forget: "wq_step Internal w (wq_Forget k w)"
| process_fast: "wq_step Internal w (w\<lparr>wq_lanes := (wq_lanes w)\<lparr>tl_fast := process (tl_fast (wq_lanes w))\<rparr>\<rparr>)"
| process_slow: "wq_step Internal w (w\<lparr>wq_lanes := (wq_lanes w)\<lparr>tl_slow := process (tl_slow (wq_lanes w))\<rparr>\<rparr>)"
| consume: "wq_step Internal w (w\<lparr>wq_lanes := runConsumer c (wq_lanes w)\<rparr>)"
| entry: "wq_step Internal w (waiting_entry now w)"
| ready: "wq_step Internal w (waiting_ready now k w)"
| stop: "wq_step Stops w (wq_ShutDown w)"

text \<open>The keys that will still be handed out, and those workers have.\<close>

definition due :: "'k work_queue \<Rightarrow> 'k set" where
  "due w = lane_due (tl_fast (wq_lanes w)) \<union> lane_due (tl_slow (wq_lanes w)) \<union> tq_dirty (tl_consumerQueue (wq_lanes w)) \<union>
     fst ` set (wq_waitingForAddCh w) \<union> dom (wq_waiting w)"

definition held :: "'k work_queue \<Rightarrow> 'k set" where
  "held w = tq_processing (tl_consumerQueue (wq_lanes w))"

definition is_open :: "'k work_queue \<Rightarrow> bool" where
  "is_open w \<longleftrightarrow> \<not> tq_shuttingDown (ln_queue (tl_fast (wq_lanes w))) \<and> \<not> tq_shuttingDown (ln_queue (tl_slow (wq_lanes w)))"

definition lanes_ok :: "'k two_lane \<Rightarrow> bool" where
  "lanes_ok t \<longleftrightarrow> lane_ok (tl_fast t) \<and> lane_ok (tl_slow t) \<and> tq_ok (tl_consumerQueue t) \<and>
     (\<not> tl_fastOpen t \<longrightarrow> ln_producer (tl_fast t) = Closed) \<and> (\<not> tl_slowOpen t \<longrightarrow> ln_producer (tl_slow t) = Closed) \<and>
     (tq_shuttingDown (tl_consumerQueue t) \<longrightarrow> \<not> tl_fastOpen t \<and> \<not> tl_slowOpen t)"

abbreviation wq_ok :: "'k work_queue \<Rightarrow> bool" where
  "wq_ok w \<equiv> lanes_ok (wq_lanes w)"

subsection \<open>What the lanes do to the keys\<close>

definition lanes_due :: "'k two_lane \<Rightarrow> 'k set" where
  "lanes_due t = lane_due (tl_fast t) \<union> lane_due (tl_slow t) \<union> tq_dirty (tl_consumerQueue t)"

lemma due_lanes: "due w = lanes_due (wq_lanes w) \<union> fst ` set (wq_waitingForAddCh w) \<union> dom (wq_waiting w)"
  by (auto simp: due_def lanes_due_def)

lemma end_consumer_simps [simp]:
  "tl_fast (end_consumer t) = tl_fast t" "tl_slow (end_consumer t) = tl_slow t" "lanes_due (end_consumer t) = lanes_due t"
  "tq_processing (tl_consumerQueue (end_consumer t)) = tq_processing (tl_consumerQueue t)"
  by (simp_all add: end_consumer_def lanes_due_def)

lemma process_keeps [simp]: "tq_shuttingDown (ln_queue (process l)) = tq_shuttingDown (ln_queue l)"
  by (auto simp: process_def tq_Get_def tq_Done_def Let_def split: producer.splits list.splits if_splits)

lemma receive_keeps: "receive l = (g, l') \<Longrightarrow> tq_shuttingDown (ln_queue l') = tq_shuttingDown (ln_queue l)"
  by (auto simp: receive_def split: producer.splits)

lemma process_closed: "ln_producer l = Closed \<Longrightarrow> ln_producer (process l) = Closed"
  by (simp add: process_def)

text \<open>A receive from either lane moves the item into the consumer's queue and loses nothing.\<close>

lemma receive_ok:
  assumes "lanes_ok t"
  shows "lanes_ok (receive_fast t) \<and> lanes_due t \<subseteq> lanes_due (receive_fast t) \<and>
      tq_processing (tl_consumerQueue (receive_fast t)) = tq_processing (tl_consumerQueue t) \<and>
      tl_ShuttingDown (receive_fast t) = tl_ShuttingDown t" (is ?fast)
    "lanes_ok (receive_slow t) \<and> lanes_due t \<subseteq> lanes_due (receive_slow t) \<and>
      tq_processing (tl_consumerQueue (receive_slow t)) = tq_processing (tl_consumerQueue t) \<and>
      tl_ShuttingDown (receive_slow t) = tl_ShuttingDown t" (is ?slow)
proof -
  obtain g l where f: "receive (tl_fast t) = (g, l)" by fastforce
  note fk = lane_ok_ops(4) [of "tl_fast t"] lane_due_ops(5) [of "tl_fast t"] receive_keeps [OF f]
  show ?fast
  proof (cases g)
    case (Item k)
    have "ln_producer (tl_fast t) \<noteq> Closed" using f Item by (auto simp: receive_def)
    then have "tl_fastOpen t" "\<not> tq_shuttingDown (tl_consumerQueue t)" using assms by (auto simp: lanes_ok_def)
    with fk f Item assms show ?thesis by (auto simp: receive_fast_def lanes_ok_def lanes_due_def tl_ShuttingDown_def)
  next
    case ShutDownSeen
    have "ln_producer (tl_fast t) = Closed" using f ShutDownSeen by (auto simp: receive_def split: producer.splits)
    with f ShutDownSeen assms show ?thesis
      by (auto simp: receive_fast_def lanes_ok_def lanes_due_def end_consumer_def tl_ShuttingDown_def)
  qed (use f assms in \<open>auto simp: receive_fast_def lanes_ok_def lanes_due_def tl_ShuttingDown_def\<close>)
  obtain g l where s: "receive (tl_slow t) = (g, l)" by fastforce
  note sk = lane_ok_ops(4) [of "tl_slow t"] lane_due_ops(5) [of "tl_slow t"] receive_keeps [OF s]
  show ?slow
  proof (cases g)
    case (Item k)
    have "ln_producer (tl_slow t) \<noteq> Closed" using s Item by (auto simp: receive_def)
    then have "tl_slowOpen t" "\<not> tq_shuttingDown (tl_consumerQueue t)" using assms by (auto simp: lanes_ok_def)
    with sk s Item assms show ?thesis by (auto simp: receive_slow_def lanes_ok_def lanes_due_def tl_ShuttingDown_def)
  next
    case ShutDownSeen
    have "ln_producer (tl_slow t) = Closed" using s ShutDownSeen by (auto simp: receive_def split: producer.splits)
    with s ShutDownSeen assms show ?thesis
      by (auto simp: receive_slow_def lanes_ok_def lanes_due_def end_consumer_def tl_ShuttingDown_def)
  qed (use s assms in \<open>auto simp: receive_slow_def lanes_ok_def lanes_due_def tl_ShuttingDown_def\<close>)
qed

lemma runConsumer_ok:
  assumes "lanes_ok t"
  shows "lanes_ok (runConsumer c t) \<and> lanes_due t \<subseteq> lanes_due (runConsumer c t) \<and>
    tq_processing (tl_consumerQueue (runConsumer c t)) = tq_processing (tl_consumerQueue t) \<and> tl_ShuttingDown (runConsumer c t) = tl_ShuttingDown t"
  using receive_ok [OF assms] assms by (auto simp: runConsumer_def split: choice.splits)


subsection \<open>What a client relies on\<close>

inductive traces :: "('l \<Rightarrow> 'q \<Rightarrow> 'q \<Rightarrow> bool) \<Rightarrow> 'q \<Rightarrow> 'l list \<Rightarrow> 'q \<Rightarrow> bool" for step where
  empty: "traces step w [] w"
| snoc: "traces step w ls w' \<Longrightarrow> step l w' w'' \<Longrightarrow> traces step w (ls @ [l]) w''"

inductive_cases traces_emptyE: "traces step w [] w'"

lemma traces_snoc_iff: "traces step w (ls @ [l]) w'' \<longleftrightarrow> (\<exists>w'. traces step w ls w' \<and> step l w' w'')"
  by (subst traces.simps) auto

fun handed :: "'k queue_label \<Rightarrow> 'k set" where
  "handed (Hands k) = {k}"
| "handed _ = {}"

fun finished :: "'k queue_label \<Rightarrow> 'k set" where
  "finished (Finishes k) = {k}"
| "finished _ = {}"

locale handoff_queue =
  fixes step :: "'k queue_label \<Rightarrow> 'q \<Rightarrow> 'q \<Rightarrow> bool" and ok running :: "'q \<Rightarrow> bool" and due held :: "'q \<Rightarrow> 'k set"
  assumes keeps_ok: "step l q q' \<Longrightarrow> ok q \<Longrightarrow> ok q'"
    and runs_on: "step l q q' \<Longrightarrow> ok q \<Longrightarrow> running q \<Longrightarrow> l \<noteq> Stops \<Longrightarrow> running q'"
    and added: "step (Adds k) q q' \<Longrightarrow> ok q \<Longrightarrow> running q \<Longrightarrow> k \<in> due q'"
    and keeps_due: "step l q q' \<Longrightarrow> ok q \<Longrightarrow> running q \<Longrightarrow> due q \<subseteq> due q' \<union> handed l"
    and exclusive: "step (Hands k) q q' \<Longrightarrow> ok q \<Longrightarrow> k \<notin> held q"
    and hold: "step l q q' \<Longrightarrow> ok q \<Longrightarrow> held q' = held q \<union> handed l - finished l"
begin

lemma traces_ok: "traces step q ls q' \<Longrightarrow> ok q \<Longrightarrow> ok q'"
  by (induction rule: traces.induct) (auto intro: keeps_ok)

lemma traces_running: "traces step q ls q' \<Longrightarrow> ok q \<Longrightarrow> running q \<Longrightarrow> Stops \<notin> set ls \<Longrightarrow> running q'"
  by (induction rule: traces.induct) (auto intro: runs_on traces_ok)

text \<open>A key stays due from its addition to its handing out.\<close>

lemma stays_due:
  assumes "traces step q (as @ Adds k # bs) q'" "ok q" "running q" "Stops \<notin> set (as @ Adds k # bs)" "Hands k \<notin> set bs"
  shows "k \<in> due q'"
  using assms
proof (induction bs arbitrary: q' rule: rev_induct)
  case Nil
  then obtain q1 where "traces step q as q1" "step (Adds k) q1 q'" by (auto simp: traces_snoc_iff)
  with Nil show ?case using traces_ok traces_running by (auto intro: added)
next
  case (snoc l bs)
  have "traces step q ((as @ Adds k # bs) @ [l]) q'" using snoc.prems(1) by simp
  then obtain q1 where q1: "traces step q (as @ Adds k # bs) q1" "step l q1 q'" unfolding traces_snoc_iff by blast
  have "k \<in> due q1" using snoc.IH [OF q1(1)] snoc.prems by simp
  moreover have "ok q1" "running q1" using traces_ok [OF q1(1)] traces_running [OF q1(1)] snoc.prems by auto
  moreover have "k \<notin> handed l" using snoc.prems(5) by (cases l) auto
  ultimately show ?case using keeps_due [OF q1(2)] by blast
qed

text \<open>A key held by a worker is held until it is finished.\<close>

lemma stays_held:
  assumes "traces step q (as @ Hands k # bs) q'" "ok q" "Finishes k \<notin> set bs"
  shows "k \<in> held q'"
  using assms
proof (induction bs arbitrary: q' rule: rev_induct)
  case Nil
  then obtain q1 where "traces step q as q1" "step (Hands k) q1 q'" by (auto simp: traces_snoc_iff)
  with Nil show ?case using hold [of "Hands k" q1 q'] traces_ok by auto
next
  case (snoc l bs)
  have "traces step q ((as @ Hands k # bs) @ [l]) q'" using snoc.prems(1) by simp
  then obtain q1 where q1: "traces step q (as @ Hands k # bs) q1" "step l q1 q'" unfolding traces_snoc_iff by blast
  have "k \<in> held q1" using snoc.IH [OF q1(1)] snoc.prems by simp
  moreover have "k \<notin> finished l" using snoc.prems(3) by (cases l) auto
  ultimately show ?case using hold [OF q1(2) traces_ok [OF q1(1) snoc.prems(2)]] by blast
qed

lemma one_worker:
  assumes "traces step q (as @ Hands k # bs @ Hands k # cs) q'" "ok q"
  shows "Finishes k \<in> set bs"
proof (rule ccontr)
  assume nf: "Finishes k \<notin> set bs"
  have "\<exists>q2. traces step q ((as @ Hands k # bs) @ [Hands k]) q2"
    using assms(1)
  proof (induction cs arbitrary: q' rule: rev_induct)
    case (snoc l cs)
    have "traces step q ((as @ Hands k # bs @ Hands k # cs) @ [l]) q'" using snoc.prems by simp
    then show ?case unfolding traces_snoc_iff using snoc.IH by (metis traces_snoc_iff)
  qed auto
  then obtain q1 q2 where "traces step q (as @ Hands k # bs) q1" "step (Hands k) q1 q2" unfolding traces_snoc_iff by blast
  with stays_held [OF this(1) assms(2) nf] exclusive traces_ok assms(2) show False by blast
qed

end

subsection \<open>The work queue keeps its promise\<close>

lemma wq_ok_new: "wq_ok newWorkQueue" "is_open newWorkQueue" "due newWorkQueue = {}" "held newWorkQueue = {}"
  by (auto simp: newWorkQueue_def newTwoLaneWorkQueue_def lanes_ok_def is_open_def due_def held_def lane_ok_ops lane_due_ops)
    (simp_all add: new_lane_def tq_New_def)

lemmas wq_add_defs = wq_Add_def tl_Add_def wq_AddSlow_def AddSlow_def wq_AddAfter_def wq_AddRateLimited_def When_def

lemma is_open_iff: "is_open w \<longleftrightarrow> \<not> tl_ShuttingDown (wq_lanes w)"
  by (auto simp: is_open_def tl_ShuttingDown_def)

text \<open>Adding to a lane.\<close>

lemma lane_add_ok:
  assumes "lanes_ok t"
  shows "lanes_ok (tl_Add k t)" "lanes_ok (AddSlow k t)" "lanes_due t \<subseteq> lanes_due (tl_Add k t)" "lanes_due t \<subseteq> lanes_due (AddSlow k t)"
    "\<not> tl_ShuttingDown t \<Longrightarrow> k \<in> lanes_due (tl_Add k t) \<and> k \<in> lanes_due (AddSlow k t)"
    "tl_ShuttingDown (tl_Add k t) = tl_ShuttingDown t" "tl_ShuttingDown (AddSlow k t) = tl_ShuttingDown t"
    "tl_consumerQueue (tl_Add k t) = tl_consumerQueue t" "tl_consumerQueue (AddSlow k t) = tl_consumerQueue t"
  using assms lane_ok_ops(2) [of "tl_fast t" k] lane_ok_ops(2) [of "tl_slow t" k]
  by (auto simp: lanes_ok_def lanes_due_def tl_Add_def AddSlow_def lane_due_ops tl_ShuttingDown_def)
    (auto simp: lane_add_def)


definition good_step :: "'k queue_label \<Rightarrow> 'k work_queue \<Rightarrow> 'k work_queue \<Rightarrow> bool" where
  "good_step l w w' \<longleftrightarrow>
     wq_ok w' \<and> (is_open w \<and> l \<noteq> Stops \<longrightarrow> is_open w') \<and> (is_open w \<longrightarrow> due w \<subseteq> due w' \<union> handed l) \<and>
     held w' = held w \<union> handed l - finished l \<and> (\<forall>k. l = Hands k \<longrightarrow> k \<notin> held w) \<and> (\<forall>k. l = Adds k \<and> is_open w \<longrightarrow> k \<in> due w')"

lemma good_step_add:
  assumes "wq_ok w"
  shows "good_step (Adds k) w (wq_Add k w)" "good_step (Adds k) w (wq_AddSlow k w)" "good_step (Adds k) w (wq_AddAfter now k d w)"
    "good_step (Adds k) w (wq_AddRateLimited now bucket k w)"
proof -
  note la = lane_add_ok [OF assms, of k]
  show add: "good_step (Adds k) w (wq_Add k w)" and "good_step (Adds k) w (wq_AddSlow k w)"
    using la by (auto simp: good_step_def wq_Add_def wq_AddSlow_def is_open_iff due_lanes held_def)
  have after: "good_step (Adds k) w (wq_AddAfter now k d (w\<lparr>wq_failures := f\<rparr>))" for d f
    using la assms by (auto simp: good_step_def wq_AddAfter_def wq_Add_def is_open_iff due_lanes held_def)
  from after [of d "wq_failures w"] show "good_step (Adds k) w (wq_AddAfter now k d w)" by simp
  from after show "good_step (Adds k) w (wq_AddRateLimited now bucket k w)" by (simp add: wq_AddRateLimited_def When_def)
qed

lemma good_step_get:
  assumes "wq_ok w" "wq_Get w = (Item k, w')"
  shows "good_step (Hands k) w w'"
proof -
  obtain q where q: "tq_Get (tl_consumerQueue (wq_lanes w)) = (Item k, q)" "w' = w\<lparr>wq_lanes := (wq_lanes w)\<lparr>tl_consumerQueue := q\<rparr>\<rparr>"
    using assms(2) by (auto simp: wq_Get_def tl_Get_def split: prod.splits)
  have "tq_ok (tl_consumerQueue (wq_lanes w))" using assms(1) by (simp add: lanes_ok_def)
  from tq_Get_Item [OF q(1) this] assms(1) show ?thesis
    by (auto simp: good_step_def q(2) lanes_ok_def is_open_def due_def held_def)
qed

lemma good_step_process:
  assumes "wq_ok w"
  shows "good_step Internal w (w\<lparr>wq_lanes := (wq_lanes w)\<lparr>tl_fast := process (tl_fast (wq_lanes w))\<rparr>\<rparr>)"
    "good_step Internal w (w\<lparr>wq_lanes := (wq_lanes w)\<lparr>tl_slow := process (tl_slow (wq_lanes w))\<rparr>\<rparr>)"
  using assms lane_ok_ops(3) [of "tl_fast (wq_lanes w)"] lane_ok_ops(3) [of "tl_slow (wq_lanes w)"]
  by (auto simp: good_step_def lanes_ok_def is_open_def due_def held_def lane_due_ops process_closed)

lemma good_step_waiting:
  assumes "wq_ok w"
  shows "good_step Internal w (waiting_entry now w)" "good_step Internal w (waiting_ready now k w)"
proof -
  note la = lane_add_ok [OF assms]
  have refl: "good_step Internal w w" using assms by (simp add: good_step_def)
  show "good_step Internal w (waiting_entry now w)"
  proof (cases "wq_waitingForAddCh w")
    case (Cons e rest)
    obtain j readyAt where e: "e = (j, readyAt)" by fastforce
    have "dom (insert_waiting j readyAt (wq_waiting w)) = insert j (dom (wq_waiting w))"
      by (auto simp: insert_waiting_def split: option.splits if_splits)
    with la [of j] Cons e assms show ?thesis
      by (auto simp: good_step_def waiting_entry_def Let_def wq_Add_def is_open_iff due_lanes held_def)
  qed (simp add: waiting_entry_def refl)
  show "good_step Internal w (waiting_ready now k w)"
  proof (cases "wq_waiting w k")
    case (Some readyAt)
    with la [of k] refl show ?thesis
      by (auto simp: good_step_def waiting_ready_def wq_Add_def is_open_iff due_lanes held_def)
  qed (simp add: waiting_ready_def refl)
qed

lemma wq_step_good: "wq_step l w w' \<Longrightarrow> wq_ok w \<Longrightarrow> good_step l w w'"
proof (induction rule: wq_step.induct)
  case (finish k w)
  then show ?case by (auto simp: good_step_def wq_Done_def tl_Done_def lanes_ok_def is_open_def due_def held_def)
next
  case (consume w c)
  from runConsumer_ok [OF consume, of c] show ?case by (auto simp: good_step_def is_open_iff due_lanes held_def)
next
  case (stop w)
  then show ?case
    using lane_ok_ops(5) [of "tl_fast (wq_lanes w)"] lane_ok_ops(5) [of "tl_slow (wq_lanes w)"]
    by (auto simp: good_step_def wq_ShutDown_def tl_ShutDown_def lanes_ok_def is_open_def due_def held_def lane_due_ops)
next
  case (forget w k)
  then show ?case by (simp add: good_step_def wq_Forget_def is_open_def due_def held_def)
qed (auto intro: good_step_add good_step_get good_step_process good_step_waiting)

interpretation work_queue: handoff_queue wq_step wq_ok is_open due held
  by unfold_locales (simp_all add: wq_step_good [unfolded good_step_def])


subsection \<open>A queue at rest\<close>

text \<open>
  Nothing is left to do for the goroutines: the lanes are empty and their producers idle, nothing waits for
  its time, nothing is queued for the workers and no worker has a key.
\<close>

definition at_rest :: "'k work_queue \<Rightarrow> bool" where
  "at_rest w \<longleftrightarrow>
     tl_Len (wq_lanes w) = 0 \<and> ln_producer (tl_fast (wq_lanes w)) = Idle \<and> ln_producer (tl_slow (wq_lanes w)) = Idle \<and>
     wq_waitingForAddCh w = [] \<and> wq_waiting w = Map.empty \<and> held w = {}"

lemma at_rest_due: "wq_ok w \<Longrightarrow> at_rest w \<Longrightarrow> due w = {}"
  by (auto simp: at_rest_def due_def held_def lanes_ok_def lane_ok_def lane_due_def tq_ok_def tl_Len_def)

subsection \<open>Properties\<close>

text \<open>
  C10: The work queue loses no key and gives none to two workers. Over every interleaving of callers, lanes,
  timers and workers before a shutdown, a key that was added and not handed out since is still due, also
  when it was added while a worker had it; between two times a key is handed out the first worker has
  finished it; and a queue at rest has handed out every key after it was last added.
\<close>
theorem queue_loses_nothing:
  assumes "traces wq_step newWorkQueue ls w" "Stops \<notin> set ls"
  shows "(\<forall>as k bs. ls = as @ Adds k # bs \<and> Hands k \<notin> set bs \<longrightarrow> k \<in> due w \<and> \<not> at_rest w) \<and>
    (\<forall>as k bs cs. ls = as @ Hands k # bs @ Hands k # cs \<longrightarrow> Finishes k \<in> set bs)"
proof -
  have due: "k \<in> due w" if "ls = as @ Adds k # bs" "Hands k \<notin> set bs" for as k bs
    using work_queue.stays_due [of newWorkQueue as k bs w] assms that wq_ok_new by auto
  have "\<not> at_rest w" if "k \<in> due w" for k
    using at_rest_due [OF work_queue.traces_ok [OF assms(1) wq_ok_new(1)]] that by auto
  moreover have "Finishes k \<in> set bs" if "ls = as @ Hands k # bs @ Hands k # cs" for as k bs cs
    by (rule work_queue.one_worker [OF assms(1) [unfolded that] wq_ok_new(1)])
  ultimately show ?thesis using due by blast
qed

theorem queue_loses_nothing_witness:
  "\<exists>ls w. traces wq_step newWorkQueue ls w \<and> Stops \<notin> set ls \<and>
     ls = [Adds ''k'', Internal, Internal, Internal, Hands ''k'', Adds ''k''] \<and> ''k'' \<in> due w \<and> \<not> at_rest w"
proof -
  let ?w1 = "wq_Add ''k'' newWorkQueue"
  let ?w2 = "?w1\<lparr>wq_lanes := (wq_lanes ?w1)\<lparr>tl_fast := process (tl_fast (wq_lanes ?w1))\<rparr>\<rparr>"
  let ?w3 = "?w2\<lparr>wq_lanes := (wq_lanes ?w2)\<lparr>tl_fast := process (tl_fast (wq_lanes ?w2))\<rparr>\<rparr>"
  let ?w4 = "?w3\<lparr>wq_lanes := runConsumer FromFast (wq_lanes ?w3)\<rparr>"
  obtain w5 where get: "wq_Get ?w4 = (Item ''k'', w5)"
    by (simp add: wq_Get_def tl_Get_def newWorkQueue_def newTwoLaneWorkQueue_def new_lane_def tq_New_def wq_Add_def tl_Add_def lane_add_def
        tq_Add_def tq_Get_def tq_Done_def process_def runConsumer_def receive_fast_def receive_def)
  note snoc = traces.snoc [where step = wq_step]
  have t1: "traces wq_step newWorkQueue [Adds ''k''] ?w1" using snoc [OF traces.empty wq_step.add] by simp
  have t2: "traces wq_step newWorkQueue [Adds ''k'', Internal] ?w2" using snoc [OF t1 wq_step.process_fast] by simp
  have t3: "traces wq_step newWorkQueue [Adds ''k'', Internal, Internal] ?w3" using snoc [OF t2 wq_step.process_fast] by simp
  have t4: "traces wq_step newWorkQueue [Adds ''k'', Internal, Internal, Internal] ?w4" using snoc [OF t3 wq_step.consume] by simp
  have t5: "traces wq_step newWorkQueue [Adds ''k'', Internal, Internal, Internal, Hands ''k''] w5" using snoc [OF t4 wq_step.get [OF get]] by simp
  have t: "traces wq_step newWorkQueue ([Adds ''k'', Internal, Internal, Internal, Hands ''k''] @ Adds ''k'' # []) (wq_Add ''k'' w5)"
    by (rule snoc [OF t5 wq_step.add])
  have ns: "Stops \<notin> set ([Adds ''k'', Internal, Internal, Internal, Hands ''k''] @ Adds ''k'' # [])" by simp
  have "''k'' \<in> due (wq_Add ''k'' w5) \<and> \<not> at_rest (wq_Add ''k'' w5)"
    using queue_loses_nothing [OF t ns, THEN conjunct1, rule_format,
      of "[Adds ''k'', Internal, Internal, Internal, Hands ''k'']" "''k''" "[]"] by simp
  with t ns show ?thesis by (intro exI [of _ "[Adds ''k'', Internal, Internal, Internal, Hands ''k'', Adds ''k'']"] exI [of _ "wq_Add ''k'' w5"]) simp
qed

text \<open>
  The backoff of a key doubles from 5 ms with each failure until it reaches 1000 s, where it stays: it
  never shrinks, never leaves these bounds, and starts again after the key is forgotten.
\<close>
theorem backoff_bounds:
  "baseDelay \<le> backoff_delay n \<and> backoff_delay n \<le> maxDelay \<and> backoff_delay n \<le> backoff_delay (Suc n) \<and>
   (n \<le> 17 \<longrightarrow> backoff_delay n = baseDelay * 2 ^ n) \<and> (18 \<le> n \<longrightarrow> backoff_delay n = maxDelay) \<and>
   fst (When k (wq_failures (wq_Forget k w))) = baseDelay"
proof -
  have mono: "(2 :: int) ^ m \<le> 2 ^ n" if "m \<le> n" for m n :: nat by (rule power_increasing [OF that]) simp
  have lo: "backoff_delay n = baseDelay * 2 ^ n" "baseDelay * 2 ^ n \<le> maxDelay" if "n \<le> 17" for n
    using mono [OF that] by (simp_all add: backoff_delay_def baseDelay_def maxDelay_def Let_def)
  have hi: "backoff_delay n = maxDelay" if "18 \<le> n" for n
    using mono [OF that] by (simp add: backoff_delay_def baseDelay_def maxDelay_def Let_def)
  have "baseDelay \<le> backoff_delay n" "backoff_delay n \<le> maxDelay" for n
  proof -
    have "1 \<le> (2 :: int) ^ n" by simp
    then show "baseDelay \<le> backoff_delay n" "backoff_delay n \<le> maxDelay"
      by (auto simp: backoff_delay_def baseDelay_def maxDelay_def Let_def)
  qed
  moreover have "backoff_delay n \<le> backoff_delay (Suc n)"
  proof (cases "17 \<le> n")
    case True
    with hi [of "Suc n"] calculation(2) [of n] show ?thesis by simp
  next
    case False
    with lo [of n] lo [of "Suc n"] show ?thesis by (simp add: baseDelay_def)
  qed
  ultimately show ?thesis using lo [of n] hi [of n] by (auto simp: When_def wq_Forget_def backoff_delay_def baseDelay_def maxDelay_def)
qed

end
