(* ===== verification/Control_Loop.thy ===== *)
theory Control_Loop
  imports Source_Cache Work_Queue
begin

text \<open>
  The controller as a whole: the API server, the two informers with their caches, the handlers of
  \<open>NewController\<close>, the work queue, and the workers that run the generated \<open>Reconcile\<close> with the
  \<open>ReconcileKind\<close> of this repository, interleaved in a step relation. Users and other controllers may change
  sources and Deployments at any moment, watch events are delivered late, a worker reads the two caches at
  different times and writes on the strength of what it read, and the API server may answer any call with
  an error. Shown: at every moment every source either has its Deployment as rendered, or its key is in the
  queue, or an event that will put it there is on its way, or a worker is on it that has read the current
  state, will write the Deployment, or will put the key back; and so, when nothing is left to do, every
  Deployment is as rendered.
\<close>

subsection \<open>A resource on the server and in its informer\<close>

record 'o feed =
  fd_server :: "string \<Rightarrow> 'o option"
  fd_events :: "'o delta list"
  fd_cache :: "'o indexer"

definition new_feed :: "('o \<Rightarrow> object_meta) \<Rightarrow> 'o feed" where
  "new_feed acc = \<lparr>fd_server = Map.empty, fd_events = [], fd_cache = NewIndexer (informer_indexers acc)\<rparr>"

text \<open>A change on the server, and the event the watch will bring; a deletion carries the last object.\<close>

definition change :: "string \<Rightarrow> 'o option \<Rightarrow> 'o feed \<Rightarrow> 'o feed" where
  "change key new f =
     (case (fd_server f key, new) of
        (None, None) \<Rightarrow> f
      | (None, Some x) \<Rightarrow> f\<lparr>fd_server := (fd_server f)(key \<mapsto> x), fd_events := fd_events f @ [Upsert AddedDelta x]\<rparr>
      | (Some _, Some x) \<Rightarrow> f\<lparr>fd_server := (fd_server f)(key \<mapsto> x), fd_events := fd_events f @ [Upsert UpdatedDelta x]\<rparr>
      | (Some x, None) \<Rightarrow> f\<lparr>fd_server := (fd_server f)(key := None), fd_events := fd_events f @ [DeletedDelta x]\<rparr>)"

definition cached :: "'o indexer \<Rightarrow> string \<Rightarrow> 'o option" where
  "cached c key = (case ts_Get key c of Some (Typed x) \<Rightarrow> Some x | _ \<Rightarrow> None)"

definition pending :: "('o \<Rightarrow> object_meta) \<Rightarrow> 'o feed \<Rightarrow> string \<Rightarrow> bool" where
  "pending acc f key \<longleftrightarrow> (\<exists>d \<in> set (fd_events f). delta_key acc d = key)"

fun delta_object :: "'o delta \<Rightarrow> 'o" where
  "delta_object (Upsert _ x) = x"
| "delta_object (DeletedDelta x) = x"
| "delta_object (DeletedFinalStateUnknown _ x) = x"

fun is_seen :: "'o delta \<Rightarrow> bool" where
  "is_seen (DeletedFinalStateUnknown _ _) = False"
| "is_seen _ = True"

text \<open>
  The cache and the events on their way make up the server's state, every object that is anywhere in the
  feed is as \<open>P\<close> demands, and lies under its own key.
\<close>

definition feed_ok :: "('o \<Rightarrow> object_meta) \<Rightarrow> (string \<Rightarrow> 'o \<Rightarrow> bool) \<Rightarrow> 'o feed \<Rightarrow> bool" where
  "feed_ok acc P f \<longleftrightarrow> cache_ok acc (fd_cache f) \<and>
     (\<forall>key. last_value acc (fd_events f) key (cached (fd_cache f) key) = fd_server f key) \<and>
     (\<forall>key x. fd_server f key = Some x \<longrightarrow> P key x \<and> MetaNamespaceKeyFunc (acc x) = key) \<and>
     (\<forall>d \<in> set (fd_events f). is_seen d \<and> P (delta_key acc d) (delta_object d)) \<and>
     (\<forall>key x. cached (fd_cache f) key = Some x \<longrightarrow> P key x)"

lemma cached_get: "cache_ok acc c \<Longrightarrow> ts_Get key c = map_option Typed (cached c key)"
  by (cases "ts_Get key c") (force simp: cache_ok_def cached_def)+

lemma last_value_snoc: "last_value acc (ds @ [d]) key v = (if delta_key acc d = key then delta_value d else last_value acc ds key v)"
  by (simp add: last_value_def)

lemma feed_ok_new: "feed_ok acc P (new_feed acc)"
  using cache_ok_new [of acc]
  by (simp add: feed_ok_def new_feed_def cached_def NewIndexer_def NewThreadSafeStore_def ts_Get_def last_value_def)

lemma feed_ok_change:
  assumes "feed_ok acc P f" "\<And>x. new = Some x \<Longrightarrow> P key x \<and> MetaNamespaceKeyFunc (acc x) = key"
  shows "feed_ok acc P (change key new f)"
proof (cases "fd_server f key"; cases new)
  fix x assume c: "fd_server f key = None" "new = Some x"
  then show ?thesis using assms by (auto simp: feed_ok_def change_def last_value_snoc)
next
  fix y x assume c: "fd_server f key = Some y" "new = Some x"
  then show ?thesis using assms by (auto simp: feed_ok_def change_def last_value_snoc)
next
  fix x assume c: "fd_server f key = Some x" "new = None"
  then have "P key x" "MetaNamespaceKeyFunc (acc x) = key" using assms(1) by (auto simp: feed_ok_def)
  with c show ?thesis using assms(1) by (auto simp: feed_ok_def change_def last_value_snoc)
qed (use assms in \<open>simp add: change_def\<close>)

lemma change_server [simp]: "fd_server (change key new f) = (fd_server f)(key := new)"
  by (auto simp: change_def split: option.splits)

lemma pending_change:
  assumes "feed_ok acc P f" "\<And>x. new = Some x \<Longrightarrow> MetaNamespaceKeyFunc (acc x) = key"
  shows "pending acc f k \<Longrightarrow> pending acc (change key new f) k"
    and "fd_server f key \<noteq> None \<or> new \<noteq> None \<Longrightarrow> pending acc (change key new f) key"
  using assms by (auto simp: pending_def change_def feed_ok_def split: option.splits)

lemma feed_current: "feed_ok acc P f \<Longrightarrow> \<not> pending acc f key \<Longrightarrow> cached (fd_cache f) key = fd_server f key"
proof -
  assume ok: "feed_ok acc P f" and none: "\<not> pending acc f key"
  have "last_value acc ds key v = v" if "\<forall>d \<in> set ds. delta_key acc d \<noteq> key" for ds v
    using that by (induction ds) (simp_all add: last_value_def)
  with none have "last_value acc (fd_events f) key (cached (fd_cache f) key) = cached (fd_cache f) key"
    by (auto simp: pending_def)
  with ok show ?thesis by (simp add: feed_ok_def)
qed

text \<open>Delivering the oldest event.\<close>

lemma feed_ok_deliver:
  assumes "feed_ok acc P f" "fd_events f = d # ds" "deliver acc d (fd_cache f) = Inr (c, n)"
  shows "feed_ok acc P (f\<lparr>fd_events := ds, fd_cache := c\<rparr>)"
    and "P (delta_key acc d) (delta_object d)" "is_seen d"
    and "pending acc f key \<Longrightarrow> pending acc (f\<lparr>fd_events := ds, fd_cache := c\<rparr>) key \<or> delta_key acc d = key"
proof -
  have ok: "cache_ok acc (fd_cache f)" using assms(1) by (simp add: feed_ok_def)
  obtain c' n' where d: "deliver acc d (fd_cache f) = Inr (c', n')" "cache_ok acc c'"
      "\<And>k. ts_Get k c' = (if k = delta_key acc d then map_option Typed (delta_value d) else ts_Get k (fd_cache f))"
    by (rule deliver_ok [OF ok, of d]) blast
  with assms(3) have c: "cache_ok acc c"
      "\<And>k. ts_Get k c = (if k = delta_key acc d then map_option Typed (delta_value d) else ts_Get k (fd_cache f))" by auto
  have cached: "cached c k = (if k = delta_key acc d then delta_value d else cached (fd_cache f) k)" for k
    by (cases "delta_value d") (simp_all add: cached_def c(2))
  show P: "P (delta_key acc d) (delta_object d)" "is_seen d" using assms(1,2) by (simp_all add: feed_ok_def)
  have "P k x" if "cached c k = Some x" for k x
  proof (cases "k = delta_key acc d")
    case True
    with that cached P show ?thesis by (cases d) auto
  next
    case False
    with that cached assms(1) show ?thesis by (simp add: feed_ok_def)
  qed
  moreover have "last_value acc ds k (cached c k) = fd_server f k" for k
  proof -
    have "last_value acc (d # ds) k (cached (fd_cache f) k) = fd_server f k" using assms(1,2) by (simp add: feed_ok_def)
    then show ?thesis unfolding cached by (simp add: last_value_def split: if_splits)
  qed
  ultimately show "feed_ok acc P (f\<lparr>fd_events := ds, fd_cache := c\<rparr>)"
    using assms(1,2) c(1) by (simp add: feed_ok_def)
  show "pending acc f key \<Longrightarrow> pending acc (f\<lparr>fd_events := ds, fd_cache := c\<rparr>) key \<or> delta_key acc d = key"
    using assms(2) by (auto simp: pending_def)
qed

subsection \<open>The loop\<close>

text \<open>How far a worker has come with its key: what it has read, and what it has yet to write.\<close>

datatype stage =
    Started
  | HasSource "yipyap_source api_get"
  | HasBoth "yipyap_source api_get" "string \<Rightarrow> string \<Rightarrow> deployment api_get"
  | Writing "api_write list" queue_action

record loop =
  lp_sources :: "yipyap_source feed"
  lp_deployments :: "deployment feed"
  lp_queue :: "namespaced_name work_queue"
  lp_workers :: "namespaced_name \<Rightarrow> stage option"

definition new_loop :: loop where
  "new_loop = \<lparr>lp_sources = new_feed y_meta, lp_deployments = new_feed dep_meta, lp_queue = newWorkQueue, lp_workers = Map.empty\<rparr>"

text \<open>The name of the Deployment of a source, as a key of the server.\<close>

definition adapter_key :: "object_meta \<Rightarrow> string" where
  "adapter_key m = om_namespace m @ ''/'' @ the (ChildName (om_name m @ ''-source-'') (om_uid m))"

text \<open>A Deployment that says which source it belongs to, in the words the handler looks for.\<close>

definition controlled_by :: "object_meta \<Rightarrow> object_meta \<Rightarrow> bool" where
  "controlled_by m dm \<longleftrightarrow> om_namespace dm = om_namespace m \<and>
     (case GetControllerOf dm of
        None \<Rightarrow> False
      | Some owner \<Rightarrow>
          or_name owner = om_name m \<and> or_kind owner = gvk_kind GetGroupVersionKind \<and>
          (case ParseGroupVersion (or_apiVersion owner) of None \<Rightarrow> False | Some (g, _) \<Rightarrow> g = gvk_group GetGroupVersionKind))"

text \<open>
  The metadata of the sources that ever exist are among \<open>known\<close>: they have a namespace and names without a
  slash, and no two sources share the name of their Deployment. Objects that others store keep to that:
  what lies under the name of a source's Deployment is controlled by the source.
\<close>

definition fair_names :: "(object_meta \<Rightarrow> bool) \<Rightarrow> bool" where
  "fair_names known \<longleftrightarrow>
     (\<forall>m. known m \<longrightarrow> om_namespace m \<noteq> '''' \<and> CHR ''/'' \<notin> set (om_namespace m) \<and> CHR ''/'' \<notin> set (om_name m)) \<and>
     (\<forall>m m'. known m \<longrightarrow> known m' \<longrightarrow> adapter_key m = adapter_key m' \<longrightarrow> om_namespace m = om_namespace m' \<and> om_name m = om_name m')"

lemma fair_legal:
  assumes "fair_names known" "known m"
  shows "om_namespace m \<noteq> ''''" "CHR ''/'' \<notin> set (om_namespace m)" "CHR ''/'' \<notin> set (om_name m)"
  using assms unfolding fair_names_def by blast+

lemma fair_unique:
  assumes "fair_names known" "known m" "known m'" "adapter_key m = adapter_key m'"
  shows "om_namespace m = om_namespace m'" "om_name m = om_name m'"
  using assms unfolding fair_names_def by blast+

definition source_ok :: "(object_meta \<Rightarrow> bool) \<Rightarrow> string \<Rightarrow> yipyap_source \<Rightarrow> bool" where
  "source_ok known key y \<longleftrightarrow> known (y_meta y) \<and> MetaNamespaceKeyFunc (y_meta y) = key \<and> status_ok (y_status y)"

definition deployment_ok :: "(object_meta \<Rightarrow> bool) \<Rightarrow> string \<Rightarrow> deployment \<Rightarrow> bool" where
  "deployment_ok known key d \<longleftrightarrow> MetaNamespaceKeyFunc (dep_meta d) = key \<and>
     (\<forall>m. known m \<longrightarrow> adapter_key m = key \<longrightarrow> controlled_by m (dep_meta d))"

text \<open>The listers over the two caches; an informer's cache never holds anything but its objects.\<close>

definition source_lister :: "loop \<Rightarrow> string \<Rightarrow> string \<Rightarrow> yipyap_source api_get option" where
  "source_lister s ns name = lister_Get (lister_YipYapSources (NewYipYapSourceLister (fd_cache (lp_sources s))) ns) name"

definition deployment_lister :: "loop \<Rightarrow> string \<Rightarrow> string \<Rightarrow> deployment api_get option" where
  "deployment_lister s ns name =
     lister_Get \<lparr>rx_indexer = fd_cache (lp_deployments s), rx_resource = (''apps'', ''deployment''), rx_namespace = ns\<rparr> name"

text \<open>The server answers a write with the object it stores: the same object by name, namespace and owners.\<close>

definition same_identity :: "deployment \<Rightarrow> deployment \<Rightarrow> bool" where
  "same_identity d d' \<longleftrightarrow> om_namespace (dep_meta d') = om_namespace (dep_meta d) \<and> om_name (dep_meta d') = om_name (dep_meta d) \<and>
     om_ownerReferences (dep_meta d') = om_ownerReferences (dep_meta d)"

definition honest :: "reconciler \<Rightarrow> bool" where
  "honest rc \<longleftrightarrow> (\<forall>ns d d'. (rc_create rc ns d = Inr d' \<or> rc_update rc ns d = Inr d') \<longrightarrow> same_identity d d')"

text \<open>The writes of a reconciliation that the server accepts, with the objects it stores.\<close>

definition accepted :: "reconciler \<Rightarrow> (yipyap_source \<Rightarrow> bool) \<Rightarrow> api_write \<Rightarrow> api_write list" where
  "accepted rc takes w =
     (case w of
        KubeWrite (CreateDeployment ns d) \<Rightarrow> (case rc_create rc ns d of Inl _ \<Rightarrow> [] | Inr d' \<Rightarrow> [KubeWrite (CreateDeployment ns d')])
      | KubeWrite (UpdateDeployment ns d) \<Rightarrow> (case rc_update rc ns d of Inl _ \<Rightarrow> [] | Inr d' \<Rightarrow> [KubeWrite (UpdateDeployment ns d')])
      | WriteStatus y \<Rightarrow> if takes y then [WriteStatus y] else []
      | PatchSource _ \<Rightarrow> [])"

text \<open>Storing one write. The status goes to the status subresource: the server keeps the rest of what it has.\<close>

definition store_write :: "api_write \<Rightarrow> loop \<Rightarrow> loop" where
  "store_write w s =
     (case w of
        KubeWrite (CreateDeployment ns d) \<Rightarrow> s\<lparr>lp_deployments := change (MetaNamespaceKeyFunc (dep_meta d)) (Some d) (lp_deployments s)\<rparr>
      | KubeWrite (UpdateDeployment ns d) \<Rightarrow> s\<lparr>lp_deployments := change (MetaNamespaceKeyFunc (dep_meta d)) (Some d) (lp_deployments s)\<rparr>
      | WriteStatus y \<Rightarrow>
          let key = MetaNamespaceKeyFunc (y_meta y)
          in s\<lparr>lp_sources := change key (map_option (\<lambda>base. base\<lparr>y_status := y_status y\<rparr>) (fd_server (lp_sources s) key)) (lp_sources s)\<rparr>
      | PatchSource _ \<Rightarrow> s)"

fun after :: "namespaced_name \<Rightarrow> queue_action \<Rightarrow> namespaced_name queue_label list" where
  "after k Forget = [Internal, Finishes k]"
| "after k (AddAfter _) = [Adds k, Finishes k]"
| "after k AddRateLimited = [Adds k, Finishes k]"

definition leads :: "(string \<times> bucket) list" where "leads = [('''', UniversalBucket)]"

text \<open>
  One step of anyone. \<open>co\<close> is the controller, \<open>resolve\<close> the sink resolver and \<open>img\<close> the adapter image; the
  answers of the server to one reconciliation are \<open>rc\<close> and \<open>cl\<close>, arbitrary but honest.
\<close>

inductive loop_step ::
  "(object_meta \<Rightarrow> bool) \<Rightarrow> controller \<Rightarrow> (destination \<Rightarrow> kreference list \<times> (string + url option)) \<Rightarrow> string \<Rightarrow> (string \<Rightarrow> bool) \<Rightarrow>
   apis_context \<Rightarrow> loop \<Rightarrow> loop \<Rightarrow> bool"
  for known co resolve img is_conflict ctx
where
  source_changes: "(\<forall>y. new = Some y \<longrightarrow> source_ok known key y) \<Longrightarrow>
    loop_step known co resolve img is_conflict ctx s (s\<lparr>lp_sources := change key new (lp_sources s)\<rparr>)"
| deployment_changes: "(\<forall>d. new = Some d \<longrightarrow> deployment_ok known key d) \<Longrightarrow>
    loop_step known co resolve img is_conflict ctx s (s\<lparr>lp_deployments := change key new (lp_deployments s)\<rparr>)"
| source_event: "fd_events (lp_sources s) = d # ds \<Longrightarrow> deliver y_meta d (fd_cache (lp_sources s)) = Inr (c, n) \<Longrightarrow>
    traces wq_step (lp_queue s) (map Adds (co_on_source co n)) q \<Longrightarrow>
    loop_step known co resolve img is_conflict ctx s
      (s\<lparr>lp_sources := (lp_sources s)\<lparr>fd_events := ds, fd_cache := c\<rparr>, lp_queue := q\<rparr>)"
| deployment_event: "fd_events (lp_deployments s) = d # ds \<Longrightarrow> deliver dep_meta d (fd_cache (lp_deployments s)) = Inr (c, n) \<Longrightarrow>
    traces wq_step (lp_queue s) (map Adds (co_on_deployment co n)) q \<Longrightarrow>
    loop_step known co resolve img is_conflict ctx s
      (s\<lparr>lp_deployments := (lp_deployments s)\<lparr>fd_events := ds, fd_cache := c\<rparr>, lp_queue := q\<rparr>)"
| resync: "wq_step (Adds k) (lp_queue s) q \<Longrightarrow> loop_step known co resolve img is_conflict ctx s (s\<lparr>lp_queue := q\<rparr>)"
| queue_moves: "wq_step Internal (lp_queue s) q \<Longrightarrow> loop_step known co resolve img is_conflict ctx s (s\<lparr>lp_queue := q\<rparr>)"
| take_key: "wq_step (Hands k) (lp_queue s) q \<Longrightarrow>
    loop_step known co resolve img is_conflict ctx s (s\<lparr>lp_queue := q, lp_workers := (lp_workers s)(k \<mapsto> Started)\<rparr>)"
| read_source: "lp_workers s k = Some Started \<Longrightarrow> source_lister s (nn_namespace k) (nn_name k) = Some g \<Longrightarrow>
    loop_step known co resolve img is_conflict ctx s (s\<lparr>lp_workers := (lp_workers s)(k \<mapsto> HasSource g)\<rparr>)"
| read_deployments: "lp_workers s k = Some (HasSource g) \<Longrightarrow> (\<forall>ns n. deployment_lister s ns n = Some (lookup ns n)) \<Longrightarrow>
    loop_step known co resolve img is_conflict ctx s (s\<lparr>lp_workers := (lp_workers s)(k \<mapsto> HasBoth g lookup)\<rparr>)"
| reconcile: "lp_workers s k = Some (HasBoth g lookup) \<Longrightarrow>
    rc_get rc = lookup \<Longrightarrow> rc_resolve rc = resolve \<Longrightarrow> rc_adapterImage rc = img \<Longrightarrow> honest rc \<Longrightarrow>
    processNextWorkItem False (\<lambda>_. False) (Reconcile (yipyap_impl is_conflict rc leads) cl (\<lambda>_ _. g) ctx clk) k = Some (out, act) \<Longrightarrow>
    loop_step known co resolve img is_conflict ctx s
      (s\<lparr>lp_workers := (lp_workers s)(k \<mapsto> Writing (concat (map (accepted rc takes) (ro_writes out))) act)\<rparr>)"
| write_reaches: "lp_workers s k = Some (Writing (w # ws) act) \<Longrightarrow>
    loop_step known co resolve img is_conflict ctx s ((store_write w s)\<lparr>lp_workers := (lp_workers s)(k \<mapsto> Writing ws act)\<rparr>)"
| finish_key: "lp_workers s k = Some (Writing [] act) \<Longrightarrow> traces wq_step (lp_queue s) (after k act) q \<Longrightarrow>
    loop_step known co resolve img is_conflict ctx s (s\<lparr>lp_queue := q, lp_workers := (lp_workers s)(k := None)\<rparr>)"

subsection \<open>What one reconciliation does\<close>

definition defaulted :: "apis_context \<Rightarrow> yipyap_source \<Rightarrow> yipyap_source" where
  "defaulted ctx y = y\<lparr>y_spec := Spec_SetDefaults (WithinParent ctx (y_meta y)) (y_spec y)\<rparr>"

lemma rendering_frame:
  assumes "y_meta a = y_meta b" "y_spec a = y_spec b"
  shows "MakeAdapterDeployment a u img = MakeAdapterDeployment b u img" "sink_destination a = sink_destination b"
  using assms by (simp_all only: MakeAdapterDeployment_def Labels_def adapter_pod_spec_def adapter_env_def sink_destination_def)

lemma rendered_key:
  assumes "MakeAdapterDeployment src u img = Some d"
  shows "MetaNamespaceKeyFunc (dep_meta d) = (if om_namespace (y_meta src) = '''' then om_name (dep_meta d) else adapter_key (y_meta src))"
    and "adapter_key (y_meta src) = om_namespace (y_meta src) @ ''/'' @ om_name (dep_meta d)"
    and "controlled_by (y_meta src) (dep_meta d)"
proof -
  obtain n where n: "ChildName (om_name (y_meta src) @ ''-source-'') (om_uid (y_meta src)) = Some n" "om_name (dep_meta d) = n"
      "om_namespace (dep_meta d) = om_namespace (y_meta src)"
    using assms by (auto simp: MakeAdapterDeployment_def)
  then show "adapter_key (y_meta src) = om_namespace (y_meta src) @ ''/'' @ om_name (dep_meta d)"
    by (simp add: adapter_key_def)
  with n show "MetaNamespaceKeyFunc (dep_meta d) = (if om_namespace (y_meta src) = '''' then om_name (dep_meta d) else adapter_key (y_meta src))"
    by (simp add: MetaNamespaceKeyFunc_def)
  show "controlled_by (y_meta src) (dep_meta d)"
    using controlled_by_source [OF assms refl] n(3) by (simp add: controlled_by_def controller_ref_fields)
qed

lemma yipyap_run:
  assumes "Reconcile (yipyap_impl c rc bkts) cl (\<lambda>_ _. g) ctx clk key = Some out" "\<And>y. g = GetFound y \<Longrightarrow> status_ok (y_status y)"
  obtains (quiet) "ro_writes out = []"
      "\<And>y ns name. g = GetFound y \<Longrightarrow> SplitMetaNamespaceKey key = Some (ns, name) \<Longrightarrow>
         IsLeaderFor (yipyap_impl c rc bkts) \<lparr>nn_namespace = ns, nn_name = name\<rparr> \<Longrightarrow> om_deletionTimestamp (y_meta y) \<noteq> None"
  | (run) y src x resource s clk' where "g = GetFound y" "y_meta src = y_meta y"
      "y_spec src = Spec_SetDefaults (WithinParent ctx (y_meta y)) (y_spec y)" "status_ok (y_status src)"
      "ReconcileKind rc clk' src = Some x" "status_ok (y_status resource)"
      "out = synchronize_status (yipyap_impl c rc bkts) cl s y resource (map_option (event_of c) (rk_event x)) (map KubeWrite (rk_writes x)) []"
proof -
  let ?r = "yipyap_impl c rc bkts"
  have "(ro_writes out = [] \<and> (\<forall>y ns name. g = GetFound y \<longrightarrow> SplitMetaNamespaceKey key = Some (ns, name) \<longrightarrow>
         IsLeaderFor ?r \<lparr>nn_namespace = ns, nn_name = name\<rparr> \<longrightarrow> om_deletionTimestamp (y_meta y) \<noteq> None)) \<or>
      (\<exists>s y. g = GetFound y \<and> reconcile_kind_case ?r cl ctx clk s (ki_ReconcileKind (ri_reconciler ?r)) y = Some out)"
    using assms(1)
    by (auto simp: Reconcile_def newState_def reconcileMethodFor_def isNotLeaderNorObserver_def synchronize_status_def DeepEqual_status_def
        same_map_def list_all_iff Let_def split: api_get.splits if_splits prod.splits option.splits)
  then consider (still) "ro_writes out = []"
      "\<And>y ns name. g = GetFound y \<Longrightarrow> SplitMetaNamespaceKey key = Some (ns, name) \<Longrightarrow>
         IsLeaderFor ?r \<lparr>nn_namespace = ns, nn_name = name\<rparr> \<Longrightarrow> om_deletionTimestamp (y_meta y) \<noteq> None"
    | (act) s y where "g = GetFound y"
        "reconcile_kind_case ?r cl ctx clk s (ki_ReconcileKind (ri_reconciler ?r)) y = Some out"
    by blast
  then show ?thesis
  proof cases
    case still
    then show ?thesis by (rule quiet)
  next
    case (act s y)
    show ?thesis by (rule yipyap_kind_run [OF assms(2) [OF act(1)] act(2)]) (rule run [OF act(1)])
  qed
qed

fun write_ok :: "(object_meta \<Rightarrow> bool) \<Rightarrow> api_write \<Rightarrow> bool" where
  "write_ok known (KubeWrite (CreateDeployment ns d)) = deployment_ok known (MetaNamespaceKeyFunc (dep_meta d)) d"
| "write_ok known (KubeWrite (UpdateDeployment ns d)) = deployment_ok known (MetaNamespaceKeyFunc (dep_meta d)) d"
| "write_ok known (WriteStatus y) = status_ok (y_status y)"
| "write_ok known (PatchSource _) = True"

fun writes_to :: "api_write \<Rightarrow> string option" where
  "writes_to (KubeWrite (CreateDeployment ns d)) = Some (MetaNamespaceKeyFunc (dep_meta d))"
| "writes_to (KubeWrite (UpdateDeployment ns d)) = Some (MetaNamespaceKeyFunc (dep_meta d))"
| "writes_to (WriteStatus y) = None"
| "writes_to (PatchSource p) = None"

definition lookup_key :: "string \<Rightarrow> string \<Rightarrow> string" where
  "lookup_key ns n = (if ns = '''' then n else ns @ ''/'' @ n)"

definition lookups_ok :: "(object_meta \<Rightarrow> bool) \<Rightarrow> (string \<Rightarrow> string \<Rightarrow> deployment api_get) \<Rightarrow> bool" where
  "lookups_ok known lookup \<longleftrightarrow> (\<forall>ns n d. lookup ns n = GetFound d \<longrightarrow> deployment_ok known (lookup_key ns n) d)"

lemma GetControllerOf_cong: "om_ownerReferences m = om_ownerReferences m' \<Longrightarrow> GetControllerOf m = GetControllerOf m'"
  by (simp add: GetControllerOf_def)

lemma same_identity_ok:
  assumes "same_identity d d'" "deployment_ok known key d"
  shows "deployment_ok known key d'" "MetaNamespaceKeyFunc (dep_meta d') = key"
proof -
  have "MetaNamespaceKeyFunc (dep_meta d') = MetaNamespaceKeyFunc (dep_meta d)"
    using assms(1) by (simp add: same_identity_def MetaNamespaceKeyFunc_def)
  moreover have "controlled_by m (dep_meta d') \<longleftrightarrow> controlled_by m (dep_meta d)" for m
    using assms(1) GetControllerOf_cong [of "dep_meta d'" "dep_meta d"] by (simp add: same_identity_def controlled_by_def)
  ultimately show "deployment_ok known key d'" "MetaNamespaceKeyFunc (dep_meta d') = key"
    using assms(2) by (simp_all add: deployment_ok_def)
qed

lemma controlled_by_cong:
  assumes "om_namespace m = om_namespace m'" "om_name m = om_name m'"
  shows "controlled_by m dm = controlled_by m' dm"
  unfolding controlled_by_def assms ..

lemma rendered_ok:
  assumes "fair_names known" "known (y_meta src)" "MakeAdapterDeployment src u img = Some d"
  shows "deployment_ok known (adapter_key (y_meta src)) d"
proof -
  have "controlled_by m (dep_meta d)" if "known m" "adapter_key m = adapter_key (y_meta src)" for m
  proof -
    have "om_namespace m = om_namespace (y_meta src) \<and> om_name m = om_name (y_meta src)"
      using fair_unique [OF assms(1) that(1) assms(2) that(2)] by blast
    then show ?thesis using rendered_key(3) [OF assms(3)] controlled_by_cong by metis
  qed
  moreover have "om_namespace (y_meta src) \<noteq> ''''" by (rule fair_legal [OF assms(1,2)])
  ultimately show ?thesis using rendered_key(1) [OF assms(3)] by (simp add: deployment_ok_def)
qed

text \<open>What an outcome of \<open>ReconcileKind\<close> sends to the server, as far as the server takes it.\<close>

lemma outcome_writes:
  assumes "deployment_outcome rc (om_namespace (y_meta src)) expected old ws ev st" "honest rc" "lookups_ok known (rc_get rc)"
    and "deployment_ok known (adapter_key (y_meta src)) expected" "om_namespace (y_meta src) \<noteq> ''''"
    and "adapter_key (y_meta src) = om_namespace (y_meta src) @ ''/'' @ om_name (dep_meta expected)"
  shows "\<forall>w \<in> set (concat (map (accepted rc takes) (map KubeWrite ws))). write_ok known w \<and> writes_to w = Some (adapter_key (y_meta src))"
    and "ev = None \<Longrightarrow>
      (\<exists>w \<in> set (concat (map (accepted rc takes) (map KubeWrite ws))). writes_to w = Some (adapter_key (y_meta src))) \<or>
      (\<exists>d. rc_get rc (om_namespace (y_meta src)) (om_name (dep_meta expected)) = GetFound d \<and>
         DeepEqual_template (dep_template expected) (dep_template d) \<and> dep_replicas expected = dep_replicas d)"
proof -
  have found: "deployment_ok known (adapter_key (y_meta src)) d"
    if "rc_get rc (om_namespace (y_meta src)) (om_name (dep_meta expected)) = GetFound d" for d
    using assms(3,5,6) that by (fastforce simp: lookups_ok_def lookup_key_def)
  have edited: "deployment_ok known (adapter_key (y_meta src)) (d\<lparr>dep_template := t, dep_replicas := r\<rparr>)"
    if "rc_get rc (om_namespace (y_meta src)) (om_name (dep_meta expected)) = GetFound d" for d t r
    by (rule same_identity_ok(1) [OF _ found [OF that]]) (simp add: same_identity_def)
  have create: "deployment_ok known (adapter_key (y_meta src)) d \<and> MetaNamespaceKeyFunc (dep_meta d) = adapter_key (y_meta src)"
    if "rc_create rc ns expected = Inr d" for ns d
    using assms(2,4) that same_identity_ok [of expected d] by (auto simp: honest_def)
  have update: "deployment_ok known (adapter_key (y_meta src)) d' \<and> MetaNamespaceKeyFunc (dep_meta d') = adapter_key (y_meta src)"
    if "rc_update rc ns (d\<lparr>dep_template := t, dep_replicas := r\<rparr>) = Inr d'"
      "rc_get rc (om_namespace (y_meta src)) (om_name (dep_meta expected)) = GetFound d" for ns d d' t r
    using assms(2) that edited [OF that(2), where t = t and r = r] same_identity_ok [of "d\<lparr>dep_template := t, dep_replicas := r\<rparr>" d']
    by (auto simp: honest_def)
  show "\<forall>w \<in> set (concat (map (accepted rc takes) (map KubeWrite ws))). write_ok known w \<and> writes_to w = Some (adapter_key (y_meta src))"
    using assms(1) by (cases rule: deployment_outcome.cases) (auto simp: accepted_def dest: create update)
  show "ev = None \<Longrightarrow>
      (\<exists>w \<in> set (concat (map (accepted rc takes) (map KubeWrite ws))). writes_to w = Some (adapter_key (y_meta src))) \<or>
      (\<exists>d. rc_get rc (om_namespace (y_meta src)) (om_name (dep_meta expected)) = GetFound d \<and>
         DeepEqual_template (dep_template expected) (dep_template d) \<and> dep_replicas expected = dep_replicas d)"
    using assms(1) by (cases rule: deployment_outcome.cases) (auto simp: accepted_def dest: create update)
qed

lemma synchronize_status_shape:
  "\<exists>sw. ro_writes (synchronize_status r cl s original resource event ws evs) = ws @ map WriteStatus sw \<and>
     (\<forall>w \<in> set sw. y_status w = y_status resource)"
proof -
  let ?sw = "if ri_skipStatusUpdates r \<or> DeepEqual_status (y_status original) (y_status resource) \<or> \<not> k_isLeader s
    then [] else fst (updateStatus cl original resource)"
  have "ro_writes (synchronize_status r cl s original resource event ws evs) = ws @ map WriteStatus ?sw"
    by (auto simp: synchronize_status_def Let_def split: prod.splits option.splits)
  moreover have "y_status w = y_status resource" if "w \<in> set ?sw" for w
    using updateStatus_writes(2) [of cl original resource "fst (updateStatus cl original resource)" "snd (updateStatus cl original resource)" w] that
    by (auto split: if_splits)
  ultimately show ?thesis by blast
qed

lemma run_writes:
  assumes "fair_names known" "honest rc" "lookups_ok known (rc_get rc)"
    and source: "\<And>y. g = GetFound y \<Longrightarrow> known (y_meta y) \<and> status_ok (y_status y)"
    and "Reconcile (yipyap_impl c rc bkts) cl (\<lambda>_ _. g) ctx clk key = Some out"
  shows "\<forall>w \<in> set (concat (map (accepted rc takes) (ro_writes out))). write_ok known w"
proof (rule yipyap_run [OF assms(5)])
  show "status_ok (y_status y)" if "g = GetFound y" for y using source that by blast
next
  assume "ro_writes out = []"
  then show ?thesis by simp
next
  fix y src x resource s clk'
  assume y: "g = GetFound y" "y_meta src = y_meta y" and src: "status_ok (y_status src)"
    and x: "ReconcileKind rc clk' src = Some x" and resource: "status_ok (y_status resource)"
    and out: "out = synchronize_status (yipyap_impl c rc bkts) cl s y resource (map_option (event_of c) (rk_event x)) (map KubeWrite (rk_writes x)) []"
  obtain sw where sw: "ro_writes out = map KubeWrite (rk_writes x) @ map WriteStatus sw" "\<And>w. w \<in> set sw \<Longrightarrow> y_status w = y_status resource"
    using synchronize_status_shape [of "yipyap_impl c rc bkts" cl s y resource "map_option (event_of c) (rk_event x)" "map KubeWrite (rk_writes x)" "[]"]
    unfolding out by blast
  have known: "known (y_meta src)" using source y by metis
  have "\<forall>w \<in> set (concat (map (accepted rc takes) (map KubeWrite (rk_writes x)))). write_ok known w"
  proof (rule ReconcileKind_cases [OF src, of rc clk'])
    fix x' e assume "ReconcileKind rc clk' src = Some x'" "rk_writes x' = []"
    with x show ?thesis by simp
  next
    fix x' uri expected
    assume x': "ReconcileKind rc clk' src = Some x'" and e: "MakeAdapterDeployment src uri (rc_adapterImage rc) = Some expected"
      and o: "deployment_outcome rc (om_namespace (y_meta src)) expected (Some (initial_status Deployed (y_status src)))
         (rk_writes x') (rk_event x') (cond_status Deployed (y_status (rk_src x')))"
    have "x' = x" using x x' by simp
    with outcome_writes(1) [OF o assms(2,3) rendered_ok [OF assms(1) known e] fair_legal(1) [OF assms(1) known] rendered_key(2) [OF e]]
    show ?thesis by blast
  qed
  moreover have "\<forall>w \<in> set (concat (map (accepted rc takes) (map WriteStatus sw))). write_ok known w"
    using sw(2) resource by (auto simp: accepted_def split: if_splits)
  ultimately show ?thesis unfolding sw(1) by auto
qed

text \<open>A reconciliation of a source that ends without an error has seen to the Deployment.\<close>

definition in_place ::
  "(destination \<Rightarrow> kreference list \<times> (string + url option)) \<Rightarrow> string \<Rightarrow> apis_context \<Rightarrow> (string \<Rightarrow> deployment option) \<Rightarrow> yipyap_source \<Rightarrow> bool" where
  "in_place resolve img ctx server y \<longleftrightarrow>
     (\<exists>uri expected d. snd (resolve (sink_destination (defaulted ctx y))) = Inr uri \<and>
        MakeAdapterDeployment (defaulted ctx y) uri img = Some expected \<and> server (adapter_key (y_meta y)) = Some d \<and>
        DeepEqual_template (dep_template expected) (dep_template d) \<and> dep_replicas expected = dep_replicas d)"

definition adapter_name :: "object_meta \<Rightarrow> string" where
  "adapter_name m = the (ChildName (om_name m @ ''-source-'') (om_uid m))"

definition view_of :: "'a option \<Rightarrow> 'a api_get" where
  "view_of v = (case v of None \<Rightarrow> GetNotFound | Some x \<Rightarrow> GetFound x)"

lemma synchronize_quiet:
  assumes "ro_err (synchronize_status r cl s original resource (map_option (event_of c) ev) ws evs) = None"
  shows "ev = None"
  using assms by (cases ev) (auto simp: synchronize_status_def Let_def report_event_def event_of_def split: prod.splits option.splits if_splits)

text \<open>The leader does reconcile a source that is not being deleted.\<close>

lemma leader_run:
  assumes "fair_names known" "known (y_meta y)" "status_ok (y_status y)" "om_deletionTimestamp (y_meta y) = None"
    and run: "Reconcile (yipyap_impl c rc leads) cl (\<lambda>_ _. GetFound y) ctx clk (MetaNamespaceKeyFunc (y_meta y)) = Some out"
  obtains src x resource s clk' where "y_meta src = y_meta y" "y_spec src = y_spec (defaulted ctx y)"
    "status_ok (y_status src)" "ReconcileKind rc clk' src = Some x"
    "out = synchronize_status (yipyap_impl c rc leads) cl s y resource (map_option (event_of c) (rk_event x)) (map KubeWrite (rk_writes x)) []"
proof (rule yipyap_run [OF run])
  show "status_ok (y_status y')" if "GetFound y = GetFound y'" for y' using that assms(3) by simp
next
  have "SplitMetaNamespaceKey (MetaNamespaceKeyFunc (y_meta y)) = Some (om_namespace (y_meta y), om_name (y_meta y))"
    using SplitMetaNamespaceKey_safeKey [of "\<lparr>nn_namespace = om_namespace (y_meta y), nn_name = om_name (y_meta y)\<rparr>"]
      fair_legal [OF assms(1,2)] by (simp add: safeKey_meta)
  moreover have "IsLeaderFor (yipyap_impl c rc leads) k" for k by (simp add: IsLeaderFor_def leads_def UniversalBucket_def)
  moreover assume "\<And>y' ns name. GetFound y = GetFound y' \<Longrightarrow> SplitMetaNamespaceKey (MetaNamespaceKeyFunc (y_meta y)) = Some (ns, name) \<Longrightarrow>
         IsLeaderFor (yipyap_impl c rc leads) \<lparr>nn_namespace = ns, nn_name = name\<rparr> \<Longrightarrow> om_deletionTimestamp (y_meta y') \<noteq> None"
  ultimately show thesis using assms(4) by blast
next
  fix y' src x resource s clk'
  assume "GetFound y = GetFound y'" "y_meta src = y_meta y'" "y_spec src = Spec_SetDefaults (WithinParent ctx (y_meta y')) (y_spec y')"
    "status_ok (y_status src)" "ReconcileKind rc clk' src = Some x"
    "out = synchronize_status (yipyap_impl c rc leads) cl s y' resource (map_option (event_of c) (rk_event x)) (map KubeWrite (rk_writes x)) []"
  then show thesis using that by (simp add: defaulted_def)
qed

text \<open>An error brings the key back, unless it is one that is never returned here.\<close>

lemma run_retries:
  assumes "fair_names known" "known (y_meta y)" "status_ok (y_status y)" "om_deletionTimestamp (y_meta y) = None"
    and "Reconcile (yipyap_impl c rc leads) cl (\<lambda>_ _. GetFound y) ctx clk (MetaNamespaceKeyFunc (y_meta y)) = Some out" "ro_err out = Some e"
  shows "handleErr False (\<lambda>_. False) e \<noteq> Forget"
proof (rule leader_run [OF assms(1-5)])
  fix src x resource s
  assume out: "out = synchronize_status (yipyap_impl c rc leads) cl s y resource (map_option (event_of c) (rk_event x)) (map KubeWrite (rk_writes x)) []"
  have "map_option (event_of c) (rk_event x) \<in> insert None (range (Some \<circ> event_of c))" by (cases "rk_event x") auto
  from synchronize_err [OF this assms(6) [unfolded out]] show ?thesis
    by (auto simp: handleErr_def split: client_error.splits)
qed

lemma run_settles:
  assumes "fair_names known" "honest rc" "lookups_ok known (rc_get rc)" "known (y_meta y)" "status_ok (y_status y)"
    and "Reconcile (yipyap_impl c rc leads) cl (\<lambda>_ _. GetFound y) ctx clk (MetaNamespaceKeyFunc (y_meta y)) = Some out"
    and "om_deletionTimestamp (y_meta y) = None" "ro_err out = None"
    and "rc_get rc (om_namespace (y_meta y)) (adapter_name (y_meta y)) = view_of (server (adapter_key (y_meta y)))"
  shows "(\<exists>w \<in> set (concat (map (accepted rc takes) (ro_writes out))). writes_to w = Some (adapter_key (y_meta y))) \<or>
     in_place (rc_resolve rc) (rc_adapterImage rc) ctx server y"
proof (rule leader_run [OF assms(1,4,5,7,6)])
  fix src x resource s clk'
  assume m: "y_meta src = y_meta y" and spec: "y_spec src = y_spec (defaulted ctx y)"
    and src: "status_ok (y_status src)" and x: "ReconcileKind rc clk' src = Some x"
    and out: "out = synchronize_status (yipyap_impl c rc leads) cl s y resource (map_option (event_of c) (rk_event x)) (map KubeWrite (rk_writes x)) []"
  have ev: "rk_event x = None" using assms(8) unfolding out by (rule synchronize_quiet)
  obtain sw where sw: "ro_writes out = map KubeWrite (rk_writes x) @ map WriteStatus sw"
    using synchronize_status_shape [of "yipyap_impl c rc leads" cl s y resource "map_option (event_of c) (rk_event x)" "map KubeWrite (rk_writes x)" "[]"]
    unfolding out by blast
  have known: "known (y_meta src)" using assms(4) m by simp
  have frame: "y_meta src = y_meta (defaulted ctx y)" "y_spec src = y_spec (defaulted ctx y)"
    using m spec by (simp_all add: defaulted_def)
  show ?thesis
  proof (rule ReconcileKind_cases [OF src, of rc clk'])
    fix x' e assume "ReconcileKind rc clk' src = Some x'" "rk_event x' = Some (ResolveSink e)"
    with x ev show ?thesis by simp
  next
    fix x' uri expected
    assume x': "ReconcileKind rc clk' src = Some x'" and u: "snd (rc_resolve rc (sink_destination src)) = Inr uri"
      and e: "MakeAdapterDeployment src uri (rc_adapterImage rc) = Some expected"
      and o: "deployment_outcome rc (om_namespace (y_meta src)) expected (Some (initial_status Deployed (y_status src)))
         (rk_writes x') (rk_event x') (cond_status Deployed (y_status (rk_src x')))"
    have same: "x' = x" using x x' by simp
    have name: "om_name (dep_meta expected) = adapter_name (y_meta y)"
      using rendered_key(2) [OF e] m by (simp add: adapter_key_def adapter_name_def)
    have "(\<exists>w \<in> set (concat (map (accepted rc takes) (map KubeWrite (rk_writes x)))). writes_to w = Some (adapter_key (y_meta y))) \<or>
      (\<exists>d. rc_get rc (om_namespace (y_meta y)) (adapter_name (y_meta y)) = GetFound d \<and>
         DeepEqual_template (dep_template expected) (dep_template d) \<and> dep_replicas expected = dep_replicas d)"
      using outcome_writes(2) [OF o assms(2,3) rendered_ok [OF assms(1) known e] fair_legal(1) [OF assms(1) known] rendered_key(2) [OF e]]
        ev same m name by simp
    moreover have "server (adapter_key (y_meta y)) = Some d"
      if "rc_get rc (om_namespace (y_meta y)) (adapter_name (y_meta y)) = GetFound d" for d
      using that assms(9) by (simp add: view_of_def split: option.splits)
    moreover have "snd (rc_resolve rc (sink_destination (defaulted ctx y))) = Inr uri"
      "MakeAdapterDeployment (defaulted ctx y) uri (rc_adapterImage rc) = Some expected"
      using u e unfolding rendering_frame [OF frame] by simp_all
    ultimately show ?thesis unfolding in_place_def sw by auto
  qed
qed

subsection \<open>The invariant\<close>

definition key_of :: "object_meta \<Rightarrow> namespaced_name" where
  "key_of m = \<lparr>nn_namespace = om_namespace m, nn_name = om_name m\<rparr>"

lemma safeKey_key_of [simp]: "safeKey (key_of m) = MetaNamespaceKeyFunc m"
  by (simp add: key_of_def safeKey_meta)

lemma key_of_unique:
  assumes "fair_names known" "known m" "known m'" "MetaNamespaceKeyFunc m = MetaNamespaceKeyFunc m'"
  shows "key_of m = key_of m'"
proof -
  have split: "SplitMetaNamespaceKey (MetaNamespaceKeyFunc m) = Some (om_namespace m, om_name m)" if "known m" for m
    using SplitMetaNamespaceKey_safeKey [of "key_of m"] fair_legal [OF assms(1) that] by (simp add: key_of_def safeKey_meta)
  show ?thesis using split [OF assms(2)] split [OF assms(3)] assms(4) by (simp add: key_of_def)
qed

text \<open>Everything a worker has read or is about to write is as the server would have it.\<close>

fun stage_ok :: "(object_meta \<Rightarrow> bool) \<Rightarrow> namespaced_name \<Rightarrow> stage \<Rightarrow> bool" where
  "stage_ok known k Started = True"
| "stage_ok known k (HasSource g) = (\<forall>y. g = GetFound y \<longrightarrow> source_ok known (safeKey k) y)"
| "stage_ok known k (HasBoth g lookup) = ((\<forall>y. g = GetFound y \<longrightarrow> source_ok known (safeKey k) y) \<and> lookups_ok known lookup)"
| "stage_ok known k (Writing ws act) = (\<forall>w \<in> set ws. write_ok known w)"

definition loop_ok :: "(object_meta \<Rightarrow> bool) \<Rightarrow> loop \<Rightarrow> bool" where
  "loop_ok known s \<longleftrightarrow>
     feed_ok y_meta (source_ok known) (lp_sources s) \<and> feed_ok dep_meta (deployment_ok known) (lp_deployments s) \<and>
     wq_ok (lp_queue s) \<and> is_open (lp_queue s) \<and> held (lp_queue s) = dom (lp_workers s) \<and>
     (\<forall>k st. lp_workers s k = Some st \<longrightarrow> stage_ok known k st)"

text \<open>A worker that works from the current state, or will see to it that the key comes back.\<close>

fun working :: "loop \<Rightarrow> yipyap_source \<Rightarrow> stage \<Rightarrow> bool" where
  "working s y Started = True"
| "working s y (HasSource g) = (g = GetFound y)"
| "working s y (HasBoth g lookup) = (g = GetFound y \<and>
     lookup (om_namespace (y_meta y)) (adapter_name (y_meta y)) = view_of (fd_server (lp_deployments s) (adapter_key (y_meta y))))"
| "working s y (Writing ws act) = (act \<noteq> Forget \<or> (\<exists>w \<in> set ws. writes_to w = Some (adapter_key (y_meta y))))"

definition attended :: "loop \<Rightarrow> yipyap_source \<Rightarrow> bool" where
  "attended s y \<longleftrightarrow>
     key_of (y_meta y) \<in> due (lp_queue s) \<or>
     pending y_meta (lp_sources s) (MetaNamespaceKeyFunc (y_meta y)) \<or>
     pending dep_meta (lp_deployments s) (adapter_key (y_meta y)) \<or>
     (\<exists>st. lp_workers s (key_of (y_meta y)) = Some st \<and> working s y st)"

lemma attended_cases:
  assumes "attended s y"
  obtains "key_of (y_meta y) \<in> due (lp_queue s)"
    | "pending y_meta (lp_sources s) (MetaNamespaceKeyFunc (y_meta y))"
    | "pending dep_meta (lp_deployments s) (adapter_key (y_meta y))"
    | st where "lp_workers s (key_of (y_meta y)) = Some st" "working s y st"
  using assms by (auto simp: attended_def)

lemma in_place_cong:
  "server (adapter_key (y_meta y)) = server' (adapter_key (y_meta y)) \<Longrightarrow> in_place resolve img ctx server y = in_place resolve img ctx server' y"
  by (simp add: in_place_def)

lemma working_cong:
  assumes "fd_server (lp_deployments s) (adapter_key (y_meta y)) = fd_server (lp_deployments s') (adapter_key (y_meta y))"
  shows "working s y st = working s' y st"
  using assms by (cases st) simp_all

text \<open>What a step has to keep for a source to stay looked after.\<close>

lemma looked_after_keep:
  assumes "attended s y \<or> in_place resolve img ctx (fd_server (lp_deployments s)) y"
    and "fd_server (lp_deployments s') (adapter_key (y_meta y)) = fd_server (lp_deployments s) (adapter_key (y_meta y)) \<or>
      pending dep_meta (lp_deployments s') (adapter_key (y_meta y))"
    and "key_of (y_meta y) \<in> due (lp_queue s) \<Longrightarrow> attended s' y"
    and "pending y_meta (lp_sources s) (MetaNamespaceKeyFunc (y_meta y)) \<Longrightarrow> attended s' y"
    and "pending dep_meta (lp_deployments s) (adapter_key (y_meta y)) \<Longrightarrow> attended s' y"
    and "\<And>st. lp_workers s (key_of (y_meta y)) = Some st \<Longrightarrow> working s y st \<Longrightarrow>
      attended s' y \<or> in_place resolve img ctx (fd_server (lp_deployments s')) y"
  shows "attended s' y \<or> in_place resolve img ctx (fd_server (lp_deployments s')) y"
  using assms(1)
proof
  assume "attended s y"
  then show ?thesis by (cases rule: attended_cases) (use assms(3-6) in blast)+
next
  assume "in_place resolve img ctx (fd_server (lp_deployments s)) y"
  with assms(2) in_place_cong [of "fd_server (lp_deployments s')" y "fd_server (lp_deployments s)"] show ?thesis
    by (auto simp: attended_def)
qed

subsection \<open>Steps of the queue\<close>

lemma wq_step_keeps:
  assumes "wq_step l q q'" "wq_ok q" "is_open q" "l \<noteq> Stops"
  shows "wq_ok q'" "is_open q'" "held q' = held q \<union> handed l - finished l" "due q \<subseteq> due q' \<union> handed l"
  using work_queue.keeps_ok [OF assms(1,2)] work_queue.runs_on [OF assms] work_queue.hold [OF assms(1,2)]
    work_queue.keeps_due [OF assms(1-3)] by auto

lemma traces_Adds:
  "traces wq_step q ls q' \<Longrightarrow> ls = map Adds ks \<Longrightarrow> wq_ok q \<Longrightarrow> is_open q \<Longrightarrow>
     wq_ok q' \<and> is_open q' \<and> held q' = held q \<and> due q \<union> set ks \<subseteq> due q'"
proof (induction arbitrary: ks rule: traces.induct)
  case (snoc w ls w' l w'')
  then obtain ks' k where ks: "ks = ks' @ [k]" "ls = map Adds ks'" "l = Adds k" by (auto simp: map_eq_append_conv append_eq_map_conv)
  from snoc.IH [OF ks(2) snoc.prems(2,3)] have ih: "wq_ok w'" "is_open w'" "held w' = held w" "due w \<union> set ks' \<subseteq> due w'" by blast+
  note step = wq_step_keeps [OF snoc.hyps(2) ih(1,2)]
  moreover have "k \<in> due w''" using work_queue.added snoc.hyps(2) ih(1,2) ks(3) by metis
  ultimately show ?case using ih ks by auto
qed simp

lemma traces_two: "traces step w [l1, l2] w' \<Longrightarrow> \<exists>w1. step l1 w w1 \<and> step l2 w1 w'"
  using traces_snoc_iff [of step w "[l1]" l2 w'] traces_snoc_iff [of step w "[]" l1] by (auto elim!: traces_emptyE)

lemma traces_after:
  assumes "traces wq_step q (after k act) q'" "wq_ok q" "is_open q"
  shows "wq_ok q'" "is_open q'" "held q' = held q - {k}" "due q \<subseteq> due q'" "act \<noteq> Forget \<Longrightarrow> k \<in> due q'"
proof -
  obtain l where l: "after k act = [l, Finishes k]" "l = Internal \<or> l = Adds k" "act \<noteq> Forget \<Longrightarrow> l = Adds k"
    by (cases act) auto
  obtain q1 where steps: "wq_step l q q1" "wq_step (Finishes k) q1 q'"
    using traces_two [OF assms(1) [unfolded l(1)]] by blast
  have "l \<noteq> Stops" "handed l = {}" "finished l = {}" using l(2) by auto
  then have s1: "wq_ok q1" "is_open q1" "held q1 = held q" "due q \<subseteq> due q1"
    using wq_step_keeps [OF steps(1) assms(2,3)] by auto
  have s2: "wq_ok q'" "is_open q'" "held q' = held q1 - {k}" "due q1 \<subseteq> due q'"
    using wq_step_keeps [OF steps(2) s1(1,2)] by auto
  show "wq_ok q'" "is_open q'" by (fact s2)+
  show "held q' = held q - {k}" "due q \<subseteq> due q'" using s1 s2 by auto
  show "act \<noteq> Forget \<Longrightarrow> k \<in> due q'"
    using work_queue.added [OF _ assms(2,3)] steps(1) l(3) s2(4) by blast
qed

subsection \<open>Handlers\<close>

definition handlers :: "controller \<Rightarrow> bool" where
  "handlers co \<longleftrightarrow> co_on_source co = HandleAll Enqueue \<and>
     co_on_deployment co = FilteringHandler (FilterController GetGroupVersionKind) (HandleAll EnqueueControllerOf)"

lemma deliver_notifies:
  assumes "deliver acc d c = Inr (c', n)" "is_seen d"
  obtains old where "n \<in> {Added (Object (acc (delta_object d))), Updated (Object old) (Object (acc (delta_object d))), Deleted (Object (acc (delta_object d)))}"
  using assms by (cases d) (auto simp: deliver_def Let_def split: option.splits sum.splits)

lemma source_event_keys:
  assumes "handlers co" "deliver y_meta d c = Inr (c', n)" "is_seen d"
  shows "co_on_source co n = [key_of (y_meta (delta_object d))]"
proof -
  obtain old where "n \<in> {Added (Object (y_meta (delta_object d))), Updated (Object old) (Object (y_meta (delta_object d))), Deleted (Object (y_meta (delta_object d)))}"
    by (rule deliver_notifies [OF assms(2,3)])
  with assms(1) show ?thesis by (auto simp: handlers_def HandleAll_def Enqueue_def key_of_def)
qed

lemma deployment_event_keys:
  assumes "handlers co" "deliver dep_meta d c = Inr (c', n)" "is_seen d" "controlled_by m (dep_meta (delta_object d))"
  shows "co_on_deployment co n = [key_of m]"
proof -
  let ?dm = "dep_meta (delta_object d)"
  obtain old where n: "n \<in> {Added (Object ?dm), Updated (Object old) (Object ?dm), Deleted (Object ?dm)}"
    by (rule deliver_notifies [OF assms(2,3)])
  have "FilterController GetGroupVersionKind (Object ?dm)" "EnqueueControllerOf (Object ?dm) = [key_of m]"
    using assms(4)
    by (auto simp: controlled_by_def FilterController_def FilterControllerGK_def EnqueueControllerOf_def key_of_def split: option.splits)
  with assms(1) n show ?thesis by (auto simp: handlers_def FilteringHandler_def HandleAll_def)
qed

lemma NewController_handlers: "NewController c clients lookupEnv = Inr co \<Longrightarrow> handlers co"
  by (erule NewController_reconciler) (simp add: handlers_def)

subsection \<open>Every step keeps the state well formed\<close>

lemma cached_ok: "feed_ok acc P f \<Longrightarrow> cached (fd_cache f) key = Some x \<Longrightarrow> P key x"
  by (simp add: feed_ok_def)

lemma lister_view:
  assumes "feed_ok acc P f"
  shows "lister_Get \<lparr>rx_indexer = fd_cache f, rx_resource = r, rx_namespace = ns\<rparr> name = Some (view_of (cached (fd_cache f) (lookup_key ns name)))"
proof -
  have "cache_ok acc (fd_cache f)" using assms by (simp add: feed_ok_def)
  from cached_get [OF this] show ?thesis
    by (cases "cached (fd_cache f) (lookup_key ns name)") (auto simp: lister_Get_def lookup_key_def view_of_def assert_type_def)
qed

lemma source_lister_view:
  assumes "loop_ok known s"
  shows "source_lister s (nn_namespace k) (nn_name k) = Some (view_of (cached (fd_cache (lp_sources s)) (safeKey k)))"
proof -
  have "feed_ok y_meta (source_ok known) (lp_sources s)" using assms by (simp add: loop_ok_def)
  moreover have "lookup_key (nn_namespace k) (nn_name k) = safeKey k" by (simp add: lookup_key_def safeKey_def)
  ultimately show ?thesis
    by (simp add: source_lister_def lister_YipYapSources_def NewYipYapSourceLister_def lister_view)
qed

lemma deployment_lister_view:
  "loop_ok known s \<Longrightarrow> deployment_lister s ns n = Some (view_of (cached (fd_cache (lp_deployments s)) (lookup_key ns n)))"
  unfolding deployment_lister_def loop_ok_def by (rule lister_view) blast

lemma view_of_found [simp]: "view_of v = GetFound x \<longleftrightarrow> v = Some x"
  by (simp add: view_of_def split: option.splits)

lemma store_write_frame [simp]:
  "lp_queue (store_write w s) = lp_queue s" "lp_workers (store_write w s) = lp_workers s"
  by (cases w rule: writes_to.cases; simp add: store_write_def Let_def)+

lemma store_write_ok:
  assumes "loop_ok known s" "write_ok known w"
  shows "feed_ok y_meta (source_ok known) (lp_sources (store_write w s))"
    and "feed_ok dep_meta (deployment_ok known) (lp_deployments (store_write w s))"
proof -
  have src: "feed_ok y_meta (source_ok known) (lp_sources s)" and dep: "feed_ok dep_meta (deployment_ok known) (lp_deployments s)"
    using assms(1) by (simp_all add: loop_ok_def)
  have base: "source_ok known key b \<and> MetaNamespaceKeyFunc (y_meta b) = key" if "fd_server (lp_sources s) key = Some b" for key b
    using src that by (simp add: feed_ok_def)
  show "feed_ok y_meta (source_ok known) (lp_sources (store_write w s))"
  proof (cases w rule: writes_to.cases)
    case (3 y)
    then show ?thesis using src assms(2) base
      by (auto simp: store_write_def Let_def source_ok_def intro!: feed_ok_change)
  qed (use src in \<open>simp_all add: store_write_def\<close>)
  show "feed_ok dep_meta (deployment_ok known) (lp_deployments (store_write w s))"
    by (cases w rule: writes_to.cases) (use dep assms(2) in \<open>auto simp: store_write_def Let_def intro!: feed_ok_change\<close>)
qed

lemma loop_ok_worker:
  assumes "loop_ok known s" "lp_workers s k \<noteq> None" "stage_ok known k st"
  shows "loop_ok known (s\<lparr>lp_workers := (lp_workers s)(k \<mapsto> st)\<rparr>)"
  using assms by (auto simp: loop_ok_def)

lemma loop_ok_feeds:
  assumes "loop_ok known s" "feed_ok y_meta (source_ok known) fs" "feed_ok dep_meta (deployment_ok known) fd"
    and "wq_ok q" "is_open q" "held q = held (lp_queue s)"
  shows "loop_ok known (s\<lparr>lp_sources := fs, lp_deployments := fd, lp_queue := q\<rparr>)"
  using assms by (simp add: loop_ok_def)

lemma loop_okD:
  assumes "loop_ok known s"
  shows "feed_ok y_meta (source_ok known) (lp_sources s)" "feed_ok dep_meta (deployment_ok known) (lp_deployments s)"
    "wq_ok (lp_queue s)" "is_open (lp_queue s)" "held (lp_queue s) = dom (lp_workers s)"
    "lp_workers s k = Some st \<Longrightarrow> stage_ok known k st"
  using assms by (simp_all add: loop_ok_def)

lemma reconcile_stage_ok:
  assumes "loop_ok known s" "fair_names known" "lp_workers s k = Some (HasBoth g (rc_get rc))" "honest rc"
    and "processNextWorkItem False (\<lambda>_. False) (Reconcile (yipyap_impl is_conflict rc leads) cl (\<lambda>_ _. g) ctx clk) k = Some (out, act)"
  shows "stage_ok known k (Writing (concat (map (accepted rc takes) (ro_writes out))) act)"
proof -
  have hb: "stage_ok known k (HasBoth g (rc_get rc))" by (rule loop_okD(6) [OF assms(1,3)])
  have "Reconcile (yipyap_impl is_conflict rc leads) cl (\<lambda>_ _. g) ctx clk (safeKey k) = Some out"
    using assms(5) by (auto simp: processNextWorkItem_def)
  from run_writes [OF assms(2,4) _ _ this, of takes] hb show ?thesis by (simp add: source_ok_def)
qed

lemma loop_step_ok:
  assumes "loop_step known co resolve img is_conflict ctx s s'" "loop_ok known s" "fair_names known"
  shows "loop_ok known s'"
  using assms(1)
proof (cases rule: loop_step.cases)
  note ok = loop_okD [OF assms(2)]
  {
    case (source_changes new key)
    then have "feed_ok y_meta (source_ok known) (change key new (lp_sources s))"
      by (intro feed_ok_change [OF ok(1)]) (simp add: source_ok_def)
    with source_changes(1) loop_ok_feeds [OF assms(2) _ ok(2-4)] show ?thesis by simp
  next
    case (deployment_changes new key)
    then have "feed_ok dep_meta (deployment_ok known) (change key new (lp_deployments s))"
      by (intro feed_ok_change [OF ok(2)]) (simp add: deployment_ok_def)
    with deployment_changes(1) loop_ok_feeds [OF assms(2) ok(1) _ ok(3,4)] show ?thesis by simp
  next
    case (source_event d ds c n q')
    with loop_ok_feeds [OF assms(2) feed_ok_deliver(1) [OF ok(1) source_event(2,3)] ok(2)] traces_Adds [OF source_event(4) refl ok(3,4)]
    show ?thesis by simp
  next
    case (deployment_event d ds c n q')
    with loop_ok_feeds [OF assms(2) ok(1) feed_ok_deliver(1) [OF ok(2) deployment_event(2,3)]] traces_Adds [OF deployment_event(4) refl ok(3,4)]
    show ?thesis by simp
  next
    case (resync k q')
    with loop_ok_feeds [OF assms(2) ok(1,2)] wq_step_keeps [OF resync(2) ok(3,4)] show ?thesis by simp
  next
    case (queue_moves q')
    with loop_ok_feeds [OF assms(2) ok(1,2)] wq_step_keeps [OF queue_moves(2) ok(3,4)] show ?thesis by simp
  next
    case (take_key k q')
    with assms(2) wq_step_keeps [OF take_key(2) ok(3,4)] show ?thesis by (auto simp: loop_ok_def)
  next
    case (read_source k g)
    then have "stage_ok known k (HasSource g)"
      using source_lister_view [OF assms(2), of k] cached_ok [OF ok(1)] by auto
    with read_source(1,2) loop_ok_worker [OF assms(2)] show ?thesis by simp
  next
    case (read_deployments k g lookup)
    then have "lookup ns n = view_of (cached (fd_cache (lp_deployments s)) (lookup_key ns n))" for ns n
      using deployment_lister_view [OF assms(2), of ns n] by simp
    then have "stage_ok known k (HasBoth g lookup)"
      using cached_ok [OF ok(2)] ok(6) [OF read_deployments(2)] by (simp add: lookups_ok_def)
    with read_deployments(1,2) loop_ok_worker [OF assms(2)] show ?thesis by simp
  next
    case (reconcile k g lookup rc cl clk out act takes)
    with loop_ok_worker [OF assms(2)] reconcile_stage_ok [OF assms(2,3) _ reconcile(6,7)] show ?thesis by simp
  next
    case (write_reaches k w ws act)
    then have w: "write_ok known w" "stage_ok known k (Writing ws act)" using ok(6) [OF write_reaches(2)] by simp_all
    have "loop_ok known (store_write w s)"
      using store_write_ok [OF assms(2) w(1)] assms(2) by (simp add: loop_ok_def)
    from loop_ok_worker [OF this _ w(2)] write_reaches(1,2) show ?thesis by simp
  next
    case (finish_key k act q')
    with assms(2) traces_after(1-3) [OF finish_key(3) ok(3,4)] show ?thesis by (auto simp: loop_ok_def)
  }
qed

subsection \<open>Every step keeps every source looked after\<close>

text \<open>\<open>cares\<close>: the claim for one source.\<close>

definition cares ::
  "(destination \<Rightarrow> kreference list \<times> (string + url option)) \<Rightarrow> string \<Rightarrow> apis_context \<Rightarrow> loop \<Rightarrow> yipyap_source \<Rightarrow> bool" where
  "cares resolve img ctx s y \<longleftrightarrow> attended s y \<or> in_place resolve img ctx (fd_server (lp_deployments s)) y"

lemma attendedI:
  "key_of (y_meta y) \<in> due (lp_queue s) \<Longrightarrow> attended s y"
  "pending y_meta (lp_sources s) (MetaNamespaceKeyFunc (y_meta y)) \<Longrightarrow> attended s y"
  "pending dep_meta (lp_deployments s) (adapter_key (y_meta y)) \<Longrightarrow> attended s y"
  "lp_workers s (key_of (y_meta y)) = Some st \<Longrightarrow> working s y st \<Longrightarrow> attended s y"
  by (auto simp: attended_def)

text \<open>A step that leaves the worker of the source and its Deployment alone.\<close>

lemma cares_keep:
  assumes "cares resolve img ctx s y"
    and "fd_server (lp_deployments s') (adapter_key (y_meta y)) = fd_server (lp_deployments s) (adapter_key (y_meta y))"
    and "key_of (y_meta y) \<in> due (lp_queue s) \<Longrightarrow> attended s' y"
    and "pending y_meta (lp_sources s) (MetaNamespaceKeyFunc (y_meta y)) \<Longrightarrow> attended s' y"
    and "pending dep_meta (lp_deployments s) (adapter_key (y_meta y)) \<Longrightarrow> attended s' y"
    and "lp_workers s' (key_of (y_meta y)) = lp_workers s (key_of (y_meta y))"
  shows "cares resolve img ctx s' y"
  unfolding cares_def
proof (rule looked_after_keep [OF assms(1) [unfolded cares_def]])
  show "attended s' y \<or> in_place resolve img ctx (fd_server (lp_deployments s')) y"
    if "lp_workers s (key_of (y_meta y)) = Some st" "working s y st" for st
    using that assms(6) attendedI(4) [of s' y st] working_cong [OF assms(2)] by simp
qed (use assms(2-5) in blast)+

text \<open>A step of a worker: it changes its own stage and nothing else.\<close>

lemma cares_worker:
  assumes "cares resolve img ctx s y"
    and "\<And>st. k = key_of (y_meta y) \<Longrightarrow> lp_workers s k = Some st \<Longrightarrow> working s y st \<Longrightarrow>
      \<not> pending y_meta (lp_sources s) (MetaNamespaceKeyFunc (y_meta y)) \<Longrightarrow>
      \<not> pending dep_meta (lp_deployments s) (adapter_key (y_meta y)) \<Longrightarrow>
      working s y new \<or> in_place resolve img ctx (fd_server (lp_deployments s)) y"
  shows "cares resolve img ctx (s\<lparr>lp_workers := (lp_workers s)(k \<mapsto> new)\<rparr>) y"
proof -
  let ?s' = "s\<lparr>lp_workers := (lp_workers s)(k \<mapsto> new)\<rparr>"
  have same: "working ?s' y st = working s y st" for st by (rule working_cong) simp
  show ?thesis unfolding cares_def
  proof (rule looked_after_keep [OF assms(1) [unfolded cares_def]])
    show "attended ?s' y \<or> in_place resolve img ctx (fd_server (lp_deployments ?s')) y"
      if st: "lp_workers s (key_of (y_meta y)) = Some st" "working s y st" for st
    proof (cases "k = key_of (y_meta y)")
      case True
      then show ?thesis using assms(2) [OF True] st same attendedI(2,3,4) [of ?s' y] by fastforce
    next
      case False
      then show ?thesis using attendedI(4) [of ?s' y st] st same by simp
    qed
  qed (auto intro: attendedI)
qed

lemma reconcile_cares:
  assumes "loop_ok known s" "fair_names known" "lp_workers s (key_of (y_meta y)) = Some (HasBoth g (rc_get rc))" "honest rc"
    and "processNextWorkItem False (\<lambda>_. False) (Reconcile (yipyap_impl is_conflict rc leads) cl (\<lambda>_ _. g) ctx clk) (key_of (y_meta y)) = Some (out, act)"
    and "working s y (HasBoth g (rc_get rc))" "om_deletionTimestamp (y_meta y) = None"
  shows "working s y (Writing (concat (map (accepted rc takes) (ro_writes out))) act) \<or>
     in_place (rc_resolve rc) (rc_adapterImage rc) ctx (fd_server (lp_deployments s)) y"
proof -
  have g: "g = GetFound y" and view: "rc_get rc (om_namespace (y_meta y)) (adapter_name (y_meta y)) = view_of (fd_server (lp_deployments s) (adapter_key (y_meta y)))"
    using assms(6) by simp_all
  have "stage_ok known (key_of (y_meta y)) (HasBoth g (rc_get rc))" by (rule loop_okD(6) [OF assms(1,3)])
  then have y: "known (y_meta y)" "status_ok (y_status y)" "lookups_ok known (rc_get rc)" using g by (simp_all add: source_ok_def)
  have run: "Reconcile (yipyap_impl is_conflict rc leads) cl (\<lambda>_ _. GetFound y) ctx clk (MetaNamespaceKeyFunc (y_meta y)) = Some out"
    and act: "act = (case ro_err out of Some e \<Rightarrow> handleErr False (\<lambda>_. False) e | None \<Rightarrow> Forget)"
    using assms(5) g by (auto simp: processNextWorkItem_def)
  show ?thesis
  proof (cases "ro_err out")
    case None
    from run_settles [where server = "fd_server (lp_deployments s)" and takes = takes, OF assms(2,4) y(3,1,2) run assms(7) None view] show ?thesis by (simp only: working.simps) blast
  next
    case (Some e)
    with run_retries [OF assms(2) y(1,2) assms(7) run] act show ?thesis by simp
  qed
qed

lemma source_change_cares:
  assumes "loop_ok known s" "fd_server (lp_sources s) key' = Some y \<Longrightarrow> cares resolve img ctx s y"
    and "\<And>y. new = Some y \<Longrightarrow> MetaNamespaceKeyFunc (y_meta y) = key" "fd_server (change key new (lp_sources s)) key' = Some y"
  shows "cares resolve img ctx (s\<lparr>lp_sources := change key new (lp_sources s)\<rparr>) y"
proof -
  note pend = pending_change [where new = new and key = key, OF loop_okD(1) [OF assms(1)] assms(3)]
  show ?thesis
  proof (cases "key' = key")
    case True
    with assms(3,4) have "new = Some y" "MetaNamespaceKeyFunc (y_meta y) = key" by auto
    with pend(2) show ?thesis by (auto simp: cares_def intro: attendedI(2))
  next
    case False
    with assms(2,4) have "cares resolve img ctx s y" by simp
    then show ?thesis by (rule cares_keep) (auto simp: attended_def pend(1))
  qed
qed

lemma deployment_change_cares:
  assumes "loop_ok known s" "cares resolve img ctx s y" "\<And>d. new = Some d \<Longrightarrow> MetaNamespaceKeyFunc (dep_meta d) = key"
  shows "cares resolve img ctx (s\<lparr>lp_deployments := change key new (lp_deployments s)\<rparr>) y"
proof -
  note pend = pending_change [where new = new and key = key, OF loop_okD(2) [OF assms(1)] assms(3)]
  show ?thesis
  proof (cases "key = adapter_key (y_meta y) \<and> (fd_server (lp_deployments s) key \<noteq> None \<or> new \<noteq> None)")
    case True
    with pend(2) have "pending dep_meta (change key new (lp_deployments s)) (adapter_key (y_meta y))" by blast
    then show ?thesis by (auto simp: cares_def intro: attendedI(3))
  next
    case False
    then have "fd_server (change key new (lp_deployments s)) (adapter_key (y_meta y)) = fd_server (lp_deployments s) (adapter_key (y_meta y))"
      by auto
    then show ?thesis using assms(2) by (intro cares_keep [OF assms(2)]) (auto simp: attended_def pend(1))
  qed
qed

lemma queue_cares:
  assumes "cares resolve img ctx s y" "key_of (y_meta y) \<in> due (lp_queue s) \<Longrightarrow> key_of (y_meta y) \<in> due q"
  shows "cares resolve img ctx (s\<lparr>lp_queue := q\<rparr>) y"
  by (rule cares_keep [OF assms(1)]) (auto simp: attended_def assms(2))

lemma source_event_cares:
  assumes "loop_ok known s" "fair_names known" "handlers co" "known (y_meta y)" "cares resolve img ctx s y"
    and "fd_events (lp_sources s) = d # ds" "deliver y_meta d (fd_cache (lp_sources s)) = Inr (c, n)"
    and "traces wq_step (lp_queue s) (map Adds (co_on_source co n)) q"
  shows "cares resolve img ctx (s\<lparr>lp_sources := (lp_sources s)\<lparr>fd_events := ds, fd_cache := c\<rparr>, lp_queue := q\<rparr>) y"
proof -
  note ok = loop_okD [OF assms(1)]
  note d = feed_ok_deliver [OF ok(1) assms(6,7)]
  note q = traces_Adds [OF assms(8) refl ok(3,4)]
  have "key_of (y_meta y) \<in> due q" if "delta_key y_meta d = MetaNamespaceKeyFunc (y_meta y)"
  proof -
    have "known (y_meta (delta_object d))" "MetaNamespaceKeyFunc (y_meta (delta_object d)) = MetaNamespaceKeyFunc (y_meta y)"
      using d(2) that by (simp_all add: source_ok_def)
    then have "key_of (y_meta (delta_object d)) = key_of (y_meta y)" by (intro key_of_unique [OF assms(2) _ assms(4)])
    then show ?thesis using q source_event_keys [OF assms(3,7) d(3)] by auto
  qed
  then show ?thesis using d(4) q by (intro cares_keep [OF assms(5)]) (auto simp: attended_def)
qed

lemma deployment_event_cares:
  assumes "loop_ok known s" "handlers co" "known (y_meta y)" "cares resolve img ctx s y"
    and "fd_events (lp_deployments s) = d # ds" "deliver dep_meta d (fd_cache (lp_deployments s)) = Inr (c, n)"
    and "traces wq_step (lp_queue s) (map Adds (co_on_deployment co n)) q"
  shows "cares resolve img ctx (s\<lparr>lp_deployments := (lp_deployments s)\<lparr>fd_events := ds, fd_cache := c\<rparr>, lp_queue := q\<rparr>) y"
proof -
  note ok = loop_okD [OF assms(1)]
  note d = feed_ok_deliver [OF ok(2) assms(5,6)]
  note q = traces_Adds [OF assms(7) refl ok(3,4)]
  have "key_of (y_meta y) \<in> due q" if "delta_key dep_meta d = adapter_key (y_meta y)"
  proof -
    have "controlled_by (y_meta y) (dep_meta (delta_object d))" using d(2) that assms(3) by (simp add: deployment_ok_def)
    with q deployment_event_keys [OF assms(2,6) d(3)] show ?thesis by auto
  qed
  then show ?thesis using d(4) q by (intro cares_keep [OF assms(4)]) (auto simp: attended_def)
qed

lemma store_write_cares:
  assumes "loop_ok known s" "fd_server (lp_sources (store_write w s)) key = Some y"
    and "\<And>y. fd_server (lp_sources s) key = Some y \<Longrightarrow> om_deletionTimestamp (y_meta y) = None \<Longrightarrow> cares resolve img ctx s y"
    and "om_deletionTimestamp (y_meta y) = None"
  shows "cares resolve img ctx (store_write w s) y"
    and "writes_to w = Some (adapter_key (y_meta y)) \<Longrightarrow> pending dep_meta (lp_deployments (store_write w s)) (adapter_key (y_meta y))"
proof -
  note ok = loop_okD [OF assms(1)]
  have dep: "cares resolve img ctx (s\<lparr>lp_deployments := change (MetaNamespaceKeyFunc (dep_meta d)) (Some d) (lp_deployments s)\<rparr>) y"
    if "fd_server (lp_sources s) key = Some y" for d
    by (rule deployment_change_cares [OF assms(1) assms(3) [OF that assms(4)]]) simp
  have pend: "pending dep_meta (change (MetaNamespaceKeyFunc (dep_meta d)) (Some d) (lp_deployments s)) (MetaNamespaceKeyFunc (dep_meta d))" for d
    using pending_change(2) [OF ok(2), of "Some d" "MetaNamespaceKeyFunc (dep_meta d)"] by simp
  show "writes_to w = Some (adapter_key (y_meta y)) \<Longrightarrow> pending dep_meta (lp_deployments (store_write w s)) (adapter_key (y_meta y))"
    using pend by (cases w rule: writes_to.cases) (auto simp: store_write_def, metis+)
  show "cares resolve img ctx (store_write w s) y"
  proof (cases w rule: writes_to.cases)
    case (3 z)
    let ?key = "MetaNamespaceKeyFunc (y_meta z)"
    let ?new = "map_option (\<lambda>base. base\<lparr>y_status := y_status z\<rparr>) (fd_server (lp_sources s) ?key)"
    have base: "MetaNamespaceKeyFunc (y_meta b) = k" if "fd_server (lp_sources s) k = Some b" for k b
      using ok(1) that by (simp add: feed_ok_def)
    show ?thesis
    proof (cases "key = ?key")
      case True
      with assms(2) 3 have "MetaNamespaceKeyFunc (y_meta y) = ?key" "fd_server (lp_sources s) ?key \<noteq> None"
        using base by (auto simp: store_write_def Let_def)
      then have "pending y_meta (change ?key ?new (lp_sources s)) (MetaNamespaceKeyFunc (y_meta y))"
        using pending_change(2) [OF ok(1), of ?new ?key] base by auto
      with 3 show ?thesis by (auto simp: cares_def store_write_def Let_def intro: attendedI(2))
    next
      case False
      with assms(2) 3 have y: "fd_server (lp_sources s) key = Some y" by (simp add: store_write_def Let_def)
      have "cares resolve img ctx (s\<lparr>lp_sources := change ?key ?new (lp_sources s)\<rparr>) y"
        by (rule source_change_cares [OF assms(1), of key]) (use y assms(3,4) False base in \<open>auto\<close>)
      with 3 show ?thesis by (simp add: store_write_def Let_def)
    qed
  qed (use assms dep in \<open>simp_all add: store_write_def\<close>)
qed

lemma worker_reads_source:
  assumes "loop_ok known s" "source_lister s (nn_namespace (key_of (y_meta y))) (nn_name (key_of (y_meta y))) = Some g"
    and "fd_server (lp_sources s) (MetaNamespaceKeyFunc (y_meta y)) = Some y"
    and "\<not> pending y_meta (lp_sources s) (MetaNamespaceKeyFunc (y_meta y))"
  shows "working s y (HasSource g)"
  using assms(2,3) source_lister_view [OF assms(1), of "key_of (y_meta y)"] feed_current [OF loop_okD(1) [OF assms(1)] assms(4)]
  by (simp add: view_of_def)

lemma worker_reads_deployment:
  assumes "loop_ok known s" "\<forall>ns n. deployment_lister s ns n = Some (lookup ns n)" "working s y (HasSource g)"
    and "\<not> pending dep_meta (lp_deployments s) (adapter_key (y_meta y))" "om_namespace (y_meta y) \<noteq> ''''"
  shows "working s y (HasBoth g lookup)"
proof -
  have "lookup_key (om_namespace (y_meta y)) (adapter_name (y_meta y)) = adapter_key (y_meta y)"
    using assms(5) by (simp add: lookup_key_def adapter_key_def adapter_name_def)
  moreover have "lookup ns n = view_of (cached (fd_cache (lp_deployments s)) (lookup_key ns n))" for ns n
    using assms(2) deployment_lister_view [OF assms(1), of ns n] by simp
  ultimately show ?thesis
    using assms(3) feed_current [OF loop_okD(2) [OF assms(1)] assms(4)] by simp
qed

lemma take_key_cares:
  assumes "cares resolve img ctx s y" "due (lp_queue s) \<subseteq> insert k (due q)"
  shows "cares resolve img ctx (s\<lparr>lp_queue := q, lp_workers := (lp_workers s)(k \<mapsto> Started)\<rparr>) y"
proof (cases "k = key_of (y_meta y)")
  case True
  then show ?thesis using attendedI(4) [of "s\<lparr>lp_queue := q, lp_workers := (lp_workers s)(k \<mapsto> Started)\<rparr>" y Started] by (simp add: cares_def)
next
  case False
  with assms(2) show ?thesis by (intro cares_keep [OF assms(1)]) (auto simp: attended_def)
qed

lemma finish_key_cares:
  assumes "cares resolve img ctx s y" "lp_workers s k = Some (Writing [] act)"
    and "due (lp_queue s) \<subseteq> due q" "act \<noteq> Forget \<Longrightarrow> k \<in> due q"
  shows "cares resolve img ctx (s\<lparr>lp_queue := q, lp_workers := (lp_workers s)(k := None)\<rparr>) y"
proof (cases "k = key_of (y_meta y)")
  case True
  let ?s' = "s\<lparr>lp_queue := q, lp_workers := (lp_workers s)(k := None)\<rparr>"
  show ?thesis unfolding cares_def
  proof (rule looked_after_keep [OF assms(1) [unfolded cares_def]])
    show "attended ?s' y \<or> in_place resolve img ctx (fd_server (lp_deployments ?s')) y"
      if "lp_workers s (key_of (y_meta y)) = Some st" "working s y st" for st
      using that assms(2,4) True by (auto simp: attended_def)
  qed (use assms(3) in \<open>auto simp: attended_def\<close>)
next
  case False
  with assms(3) show ?thesis by (intro cares_keep [OF assms(1)]) (auto simp: attended_def)
qed

lemma write_reaches_cares:
  assumes "loop_ok known s" "fd_server (lp_sources (store_write w s)) key = Some y" "om_deletionTimestamp (y_meta y) = None"
    and "\<And>y. fd_server (lp_sources s) key = Some y \<Longrightarrow> om_deletionTimestamp (y_meta y) = None \<Longrightarrow> cares resolve img ctx s y"
    and "lp_workers s k = Some (Writing (w # ws) act)"
  shows "cares resolve img ctx ((store_write w s)\<lparr>lp_workers := (lp_workers s)(k \<mapsto> Writing ws act)\<rparr>) y"
proof -
  note c = store_write_cares [OF assms(1,2,4,3)]
  have "cares resolve img ctx ((store_write w s)\<lparr>lp_workers := (lp_workers (store_write w s))(k \<mapsto> Writing ws act)\<rparr>) y"
    by (rule cares_worker [OF c(1)]) (use c(2) assms(5) in auto)
  then show ?thesis by simp
qed

lemma loop_step_cares:
  assumes step: "loop_step known co resolve img is_conflict ctx s s'" and ok: "loop_ok known s" and fair: "fair_names known" and co: "handlers co"
    and all: "\<And>y. fd_server (lp_sources s) key = Some y \<Longrightarrow> om_deletionTimestamp (y_meta y) = None \<Longrightarrow> cares resolve img ctx s y"
    and y: "fd_server (lp_sources s') key = Some y" "om_deletionTimestamp (y_meta y) = None"
  shows "cares resolve img ctx s' y"
proof -
  note oks = loop_okD [OF ok]
  have here: "known (y_meta y) \<and> MetaNamespaceKeyFunc (y_meta y) = key" if "fd_server (lp_sources s) key = Some y"
    using oks(1) that by (auto simp: feed_ok_def source_ok_def)
  show ?thesis using step
  proof (cases rule: loop_step.cases)
    case (source_changes new k)
    with y all show ?thesis
      using source_change_cares [OF ok, of key y resolve img ctx new k] by (auto simp: source_ok_def)
  next
    case (deployment_changes new k)
    with y all deployment_change_cares [OF ok, of resolve img ctx y new k] show ?thesis by (auto simp: deployment_ok_def)
  next
    case (source_event d ds c n q)
    with y all here show ?thesis using source_event_cares [OF ok fair co _ _ source_event(2-4)] by simp
  next
    case (deployment_event d ds c n q)
    with y all here show ?thesis using deployment_event_cares [OF ok co _ _ deployment_event(2-4)] by simp
  next
    case (resync k q)
    with y all show ?thesis using wq_step_keeps(4) [OF resync(2) oks(3,4)] by (auto intro!: queue_cares)
  next
    case (queue_moves q)
    with y all show ?thesis using wq_step_keeps(4) [OF queue_moves(2) oks(3,4)] by (auto intro!: queue_cares)
  next
    case (take_key k q)
    with y all show ?thesis using wq_step_keeps(4) [OF take_key(2) oks(3,4)] by (auto intro!: take_key_cares)
  next
    case (read_source k g)
    with y all here show ?thesis using worker_reads_source [OF ok] by (auto intro!: cares_worker)
  next
    case (read_deployments k g lookup)
    with y all here show ?thesis
      using worker_reads_deployment [OF ok read_deployments(3)] fair_legal(1) [OF fair] by (auto intro!: cares_worker simp del: working.simps)
  next
    case (reconcile k g lookup rc cl clk out act takes)
    then have c: "cares resolve img ctx s y" using y all by simp
    show ?thesis unfolding reconcile(1)
    proof (rule cares_worker [OF c])
      fix st assume k: "k = key_of (y_meta y)" "lp_workers s k = Some st" "working s y st"
      with reconcile(2,3) have w: "lp_workers s (key_of (y_meta y)) = Some (HasBoth g (rc_get rc))" "working s y (HasBoth g (rc_get rc))" by auto
      show "working s y (Writing (concat (map (accepted rc takes) (ro_writes out))) act) \<or>
          in_place resolve img ctx (fd_server (lp_deployments s)) y"
        using reconcile_cares [OF ok fair w(1) reconcile(6) reconcile(7) [unfolded k(1)] w(2) y(2)] reconcile(4,5) by simp
    qed
  next
    case (write_reaches k w ws act)
    with y show ?thesis using write_reaches_cares [OF ok _ y(2) all write_reaches(2)] by simp
  next
    case (finish_key k act q)
    with y all show ?thesis using traces_after(4,5) [OF finish_key(3) oks(3,4)] by (auto intro!: finish_key_cares)
  qed
qed

subsection \<open>Properties\<close>

lemma loop_ok_new: "loop_ok known new_loop"
  by (simp add: loop_ok_def new_loop_def feed_ok_new wq_ok_new)

lemma reachable_cares:
  assumes "(loop_step known co resolve img is_conflict ctx)\<^sup>*\<^sup>* new_loop s" "fair_names known" "handlers co"
  shows "loop_ok known s \<and>
     (\<forall>key y. fd_server (lp_sources s) key = Some y \<longrightarrow> om_deletionTimestamp (y_meta y) = None \<longrightarrow> cares resolve img ctx s y)"
  using assms(1)
proof (induction rule: rtranclp_induct)
  case base
  show ?case using loop_ok_new by (simp add: new_loop_def new_feed_def)
next
  case (step s s')
  then have "loop_ok known s" by blast
  from loop_step_ok [OF step.hyps(2) this assms(2)] loop_step_cares [OF step.hyps(2) this assms(2,3)] step.IH
  show ?case by blast
qed

text \<open>Nothing is left to do: no event is on its way, no key is queued or waiting, no worker is busy.\<close>

definition quiescent :: "loop \<Rightarrow> bool" where
  "quiescent s \<longleftrightarrow> fd_events (lp_sources s) = [] \<and> fd_events (lp_deployments s) = [] \<and> at_rest (lp_queue s)"

lemma quiescent_unattended: "loop_ok known s \<Longrightarrow> quiescent s \<Longrightarrow> \<not> attended s y"
  using at_rest_due [of "lp_queue s"] by (auto simp: loop_ok_def quiescent_def attended_def pending_def at_rest_def dom_def)

text \<open>
  C3: The control loop forgets no source and stops only when the Deployments are in place. Start the
  controller that \<open>NewController\<close> builds with an empty cluster and let anything happen: users and other
  controllers create, change and delete sources and Deployments at any time, events arrive late, workers read
  stale caches, and the API server fails any call it likes. At every moment, for every source on the server
  that is not being deleted, either the Deployment under its adapter name has the template and the replicas
  rendered for the defaulted source and its resolved sink, or the source is attended: its key is due in the
  work queue, an event of the source or its Deployment is on its way, or a worker holds the key that has
  yet to read, has read the current state, has the Deployment still to write, or will put the key back. When
  nothing is left to do, every Deployment is in place. It is required that no two sources share an adapter
  name, that whoever stores a Deployment under the adapter name of a source keeps its controller reference
  to the source, that the informers miss no deletion, and that the sink resolves to the same address
  throughout.
\<close>
theorem control_loop_settles:
  assumes "NewController is_conflict clients lookupEnv = Inr co" "fair_names known"
    and "(loop_step known co resolve img is_conflict ctx)\<^sup>*\<^sup>* new_loop s"
    and "fd_server (lp_sources s) key = Some y" "om_deletionTimestamp (y_meta y) = None"
  shows "(attended s y \<or> in_place resolve img ctx (fd_server (lp_deployments s)) y) \<and>
    (quiescent s \<longrightarrow> in_place resolve img ctx (fd_server (lp_deployments s)) y)"
proof -
  note r = reachable_cares [OF assms(3,2) NewController_handlers [OF assms(1)]]
  then have "cares resolve img ctx s y" using assms(4,5) by blast
  with quiescent_unattended [of known s y] r show ?thesis unfolding cares_def by blast
qed

text \<open>One key through an idle queue: added, taken by the fast lane's producer, sent, received, handed out, done.\<close>

lemma idle_queue_pass:
  fixes k :: namespaced_name
  defines "q1 \<equiv> wq_Add k newWorkQueue"
  defines "q2 \<equiv> q1\<lparr>wq_lanes := (wq_lanes q1)\<lparr>tl_fast := process (tl_fast (wq_lanes q1))\<rparr>\<rparr>"
  defines "q3 \<equiv> q2\<lparr>wq_lanes := (wq_lanes q2)\<lparr>tl_fast := process (tl_fast (wq_lanes q2))\<rparr>\<rparr>"
  defines "q4 \<equiv> q3\<lparr>wq_lanes := runConsumer FromFast (wq_lanes q3)\<rparr>"
  shows "wq_Add k q1 = q1" "\<exists>q5. wq_Get q4 = (Item k, q5) \<and> wq_Done k (wq_Forget k q5) = newWorkQueue \<and> k \<in> held (wq_Forget k q5)"
  unfolding q4_def q3_def q2_def q1_def
  by (simp_all add: wq_Get_def tl_Get_def newWorkQueue_def newTwoLaneWorkQueue_def new_lane_def tq_New_def wq_Add_def tl_Add_def lane_add_def
      tq_Add_def tq_Get_def tq_Done_def process_def runConsumer_def receive_fast_def receive_def wq_Done_def tl_Done_def wq_Forget_def held_def
      fun_eq_iff)

lemma store_write_workers: "store_write w (s\<lparr>lp_queue := q, lp_workers := ws\<rparr>) = (store_write w s)\<lparr>lp_queue := q, lp_workers := ws\<rparr>"
  by (cases w rule: writes_to.cases) (simp_all add: store_write_def Let_def)

lemma writes_reach:
  "(loop_step known co resolve img is_conflict ctx)\<^sup>*\<^sup>* (s\<lparr>lp_queue := q, lp_workers := [k \<mapsto> Writing ws act]\<rparr>)
     ((fold store_write ws s)\<lparr>lp_queue := q, lp_workers := [k \<mapsto> Writing [] act]\<rparr>)"
proof (induction ws arbitrary: s)
  case (Cons w ws)
  let ?s = "s\<lparr>lp_queue := q, lp_workers := [k \<mapsto> Writing (w # ws) act]\<rparr>"
  have "loop_step known co resolve img is_conflict ctx ?s ((store_write w ?s)\<lparr>lp_workers := (lp_workers ?s)(k \<mapsto> Writing ws act)\<rparr>)"
    by (rule loop_step.write_reaches) simp
  then have "loop_step known co resolve img is_conflict ctx ?s ((store_write w s)\<lparr>lp_queue := q, lp_workers := [k \<mapsto> Writing ws act]\<rparr>)"
    by (simp add: store_write_workers)
  from converse_rtranclp_into_rtranclp [OF this Cons.IH [of "store_write w s"]] show ?case by (simp only: fold_simps)
qed simp

text \<open>A worker that takes the only key of the queue and is disturbed by nobody.\<close>

lemma worker_pass:
  assumes ok: "loop_ok known s" and s: "lp_queue s = wq_Add k newWorkQueue" "lp_workers s = Map.empty"
    and rc: "rc_get rc = (\<lambda>ns n. view_of (cached (fd_cache (lp_deployments s)) (lookup_key ns n)))" "honest rc"
    and run: "processNextWorkItem False (\<lambda>_. False) (Reconcile (yipyap_impl is_conflict rc leads) cl
        (\<lambda>_ _. view_of (cached (fd_cache (lp_sources s)) (safeKey k))) ctx clk) k = Some (out, Forget)"
  shows "(loop_step known co (rc_resolve rc) (rc_adapterImage rc) is_conflict ctx)\<^sup>*\<^sup>* s
     ((fold store_write (concat (map (accepted rc takes) (ro_writes out))) s)\<lparr>lp_queue := newWorkQueue, lp_workers := Map.empty\<rparr>)"
proof -
  let ?R = "loop_step known co (rc_resolve rc) (rc_adapterImage rc) is_conflict ctx"
  let ?g = "view_of (cached (fd_cache (lp_sources s)) (safeKey k))" and ?ws = "concat (map (accepted rc takes) (ro_writes out))"
  define q2 where "q2 = (lp_queue s)\<lparr>wq_lanes := (wq_lanes (lp_queue s))\<lparr>tl_fast := process (tl_fast (wq_lanes (lp_queue s)))\<rparr>\<rparr>"
  define q3 where "q3 = q2\<lparr>wq_lanes := (wq_lanes q2)\<lparr>tl_fast := process (tl_fast (wq_lanes q2))\<rparr>\<rparr>"
  define q4 where "q4 = q3\<lparr>wq_lanes := runConsumer FromFast (wq_lanes q3)\<rparr>"
  obtain q5 where q5: "wq_Get q4 = (Item k, q5)" "wq_Done k (wq_Forget k q5) = newWorkQueue" "k \<in> held (wq_Forget k q5)"
    using idle_queue_pass(2) [of k] unfolding q4_def q3_def q2_def s by blast
  let ?at = "\<lambda>st q. s\<lparr>lp_queue := q, lp_workers := [k \<mapsto> st]\<rparr>"
  have q: "?R s (s\<lparr>lp_queue := q2\<rparr>)" "?R (s\<lparr>lp_queue := q2\<rparr>) (s\<lparr>lp_queue := q3\<rparr>)" "?R (s\<lparr>lp_queue := q3\<rparr>) (s\<lparr>lp_queue := q4\<rparr>)"
    using loop_step.queue_moves [of "s" q2] loop_step.queue_moves [of "s\<lparr>lp_queue := q2\<rparr>" q3] loop_step.queue_moves [of "s\<lparr>lp_queue := q3\<rparr>" q4]
      wq_step.process_fast [of "lp_queue s"] wq_step.process_fast [of q2] wq_step.consume [of q3 FromFast]
    unfolding q2_def q3_def q4_def by simp_all
  have take: "?R (s\<lparr>lp_queue := q4\<rparr>) (?at Started q5)"
    using loop_step.take_key [of k "s\<lparr>lp_queue := q4\<rparr>" q5] wq_step.get [OF q5(1)] s(2) by simp
  have read1: "?R (?at Started q5) (?at (HasSource ?g) q5)"
    using loop_step.read_source [of "?at Started q5" k ?g] source_lister_view [OF ok, of k] by (simp add: source_lister_def)
  have read2: "?R (?at (HasSource ?g) q5) (?at (HasBoth ?g (rc_get rc)) q5)"
    using loop_step.read_deployments [of "?at (HasSource ?g) q5" k ?g "rc_get rc"] deployment_lister_view [OF ok] rc(1)
    by (simp add: deployment_lister_def)
  have run': "?R (?at (HasBoth ?g (rc_get rc)) q5) (?at (Writing ?ws Forget) q5)"
    using loop_step.reconcile [of "?at (HasBoth ?g (rc_get rc)) q5" k ?g "rc_get rc" rc, OF _ refl refl refl rc(2) run, of known co takes]
    by simp
  let ?last = "(fold store_write ?ws s)\<lparr>lp_queue := q5, lp_workers := [k \<mapsto> Writing [] Forget]\<rparr>"
  have "traces wq_step q5 ([] @ [Internal]) (wq_Forget k q5)" by (rule traces.snoc [where step = wq_step, OF traces.empty wq_step.forget])
  moreover have "wq_step (Finishes k) (wq_Forget k q5) newWorkQueue"
    using wq_step.finish [of k "wq_Forget k q5"] q5(2,3) by (simp add: held_def)
  ultimately have "traces wq_step q5 (([] @ [Internal]) @ [Finishes k]) newWorkQueue" by (rule traces.snoc)
  then have "traces wq_step q5 (after k Forget) newWorkQueue" by (simp only: after.simps append.simps)
  then have "?R ?last (?last\<lparr>lp_queue := newWorkQueue, lp_workers := (lp_workers ?last)(k := None)\<rparr>)"
    by (intro loop_step.finish_key [where act = Forget]) simp_all
  then have fin: "?R ?last ((fold store_write ?ws s)\<lparr>lp_queue := newWorkQueue, lp_workers := Map.empty\<rparr>)" by simp
  from q take read1 read2 run' have "?R\<^sup>*\<^sup>* s (?at (Writing ?ws Forget) q5)"
    by (meson converse_rtranclp_into_rtranclp rtranclp.rtrancl_refl)
  also have "?R\<^sup>*\<^sup>* (?at (Writing ?ws Forget) q5) ?last" by (rule writes_reach)
  finally show ?thesis using fin by (rule rtranclp.rtrancl_into_rtrancl)
qed

definition demo_known :: "object_meta \<Rightarrow> bool" where "demo_known m \<longleftrightarrow> m = demo_meta"

lemma demo_fair: "fair_names demo_known"
  by (simp add: fair_names_def demo_known_def demo_meta_def)

lemma demo_defaulted: "defaulted demo_context demo_src = demo_src"
proof -
  have "Spec_SetDefaults (WithinParent demo_context demo_meta) demo_spec = demo_spec"
    by (simp add: Spec_SetDefaults_def Destination_SetDefaults_def demo_spec_def)
  then show ?thesis by (simp add: defaulted_def)
qed

lemma store_honest: "honest (store_reconciler resolve img st)"
  by (simp add: honest_def same_identity_def)

text \<open>The reconciliation of the example source against a server without its Deployment, and with it.\<close>

lemma demo_reconcile:
  assumes e: "MakeAdapterDeployment demo_src (Some demo_url) ''img'' = Some e"
    and st: "st (''ops'', om_name (dep_meta e)) \<in> {None, Some e}"
  defines "rc \<equiv> store_reconciler demo_resolve ''img'' st"
  obtains out where
    "Reconcile (yipyap_impl (\<lambda>_. False) rc leads) demo_source_client (\<lambda>_ _. GetFound demo_src) demo_context (\<lambda>n. int n) ''ops/alerts'' = Some out"
    "ro_err out = None"
    "concat (map (accepted rc (\<lambda>_. False)) (ro_writes out)) =
       (case st (''ops'', om_name (dep_meta e)) of None \<Rightarrow> [KubeWrite (CreateDeployment ''ops'' e)] | Some _ \<Rightarrow> [])"
proof -
  have key: "MetaNamespaceKeyFunc (y_meta demo_src) = ''ops/alerts''" "om_namespace demo_meta = ''ops''"
    by (simp_all add: MetaNamespaceKeyFunc_def demo_meta_def)
  obtain out where out: "Reconcile (yipyap_impl (\<lambda>_. False) rc leads) demo_source_client (\<lambda>_ _. GetFound demo_src) demo_context (\<lambda>n. int n) ''ops/alerts'' = Some out"
    using Reconcile_yipyap_total [of "''ops/alerts''" "''ops''" "''alerts''" "\<lambda>_ _. GetFound demo_src"
      "\<lambda>_. False" rc leads demo_source_client demo_context "\<lambda>n. int n"]
    by (auto simp: SplitMetaNamespaceKey_def)
  show ?thesis
  proof (rule leader_run [OF demo_fair _ _ _ out [folded key(1)]])
    fix src x resource s clk'
    assume m: "y_meta src = y_meta demo_src" and spec: "y_spec src = y_spec (defaulted demo_context demo_src)"
      and src: "status_ok (y_status src)" and x: "ReconcileKind rc clk' src = Some x"
      and o: "out = synchronize_status (yipyap_impl (\<lambda>_. False) rc leads) demo_source_client s demo_src resource
         (map_option (event_of (\<lambda>_. False)) (rk_event x)) (map KubeWrite (rk_writes x)) []"
    note frame = rendering_frame [OF m spec [unfolded demo_defaulted]]
    have kind: "rk_event x = None \<and> rk_writes x = (case st (''ops'', om_name (dep_meta e)) of None \<Rightarrow> [CreateDeployment ''ops'' e] | Some _ \<Rightarrow> [])"
    proof (rule ReconcileKind_cases [OF src, of rc clk'])
      fix x' err assume "snd (rc_resolve rc (sink_destination src)) = Inl err"
      then show ?thesis using demo_resolves by (simp add: rc_def frame)
    next
      fix x' uri expected
      assume x': "ReconcileKind rc clk' src = Some x'" and u: "snd (rc_resolve rc (sink_destination src)) = Inr uri"
        and ex: "MakeAdapterDeployment src uri (rc_adapterImage rc) = Some expected"
        and oc: "deployment_outcome rc (om_namespace (y_meta src)) expected (Some (initial_status Deployed (y_status src)))
           (rk_writes x') (rk_event x') (cond_status Deployed (y_status (rk_src x')))"
      have "uri = Some demo_url" using u demo_resolves by (simp add: rc_def frame)
      then have "expected = e" using ex e by (simp add: rc_def frame)
      moreover have "x' = x" using x x' by simp
      ultimately have "deployment_outcome rc ''ops'' e (Some (initial_status Deployed (y_status src))) (rk_writes x) (rk_event x)
          (cond_status Deployed (y_status (rk_src x)))" using oc m key(2) by simp
      then show ?thesis using st by (cases rule: deployment_outcome.cases) (auto simp: rc_def)
    qed
    obtain sw where sw: "ro_writes out = map KubeWrite (rk_writes x) @ map WriteStatus sw"
      using synchronize_status_shape [of "yipyap_impl (\<lambda>_. False) rc leads" demo_source_client s demo_src resource
        "map_option (event_of (\<lambda>_. False)) (rk_event x)" "map KubeWrite (rk_writes x)" "[]"] unfolding o by blast
    have "snd (updateStatus demo_source_client demo_src resource) = None"
      by (simp add: updateStatus_def DefaultRetry_Steps_def eval_nat_numeral update_once_def demo_source_client_def Let_def)
    then have "ro_err out = None" using kind
      by (auto simp: o synchronize_status_def report_event_def Let_def split: prod.splits)
    moreover have "concat (map (accepted rc (\<lambda>_. False)) (map WriteStatus sw)) = []" by (induction sw) (simp_all add: accepted_def)
    then have "concat (map (accepted rc (\<lambda>_. False)) (ro_writes out)) =
       (case st (''ops'', om_name (dep_meta e)) of None \<Rightarrow> [KubeWrite (CreateDeployment ''ops'' e)] | Some _ \<Rightarrow> [])"
      using kind unfolding sw by (auto simp: accepted_def rc_def split: option.splits)
    ultimately show ?thesis using that out by blast
  qed (simp_all add: demo_known_def demo_meta_def)
qed

text \<open>What a delivered change of the only source or of its Deployment does to an idle loop.\<close>

lemma demo_cached:
  assumes "feed_ok acc P f" "fd_events f = []"
  shows "cached (fd_cache f) = fd_server f"
  using feed_current [OF assms(1)] assms(2) by (auto simp: pending_def)

lemma traces_one: "step l w w' \<Longrightarrow> traces step w [l] w'"
  using traces.snoc [of step w "[]" w l w', OF traces.empty] by simp

lemma source_arrives:
  assumes "loop_ok known s" "handlers co" "fd_events (lp_sources s) = [Upsert t y]" "lp_queue s = newWorkQueue"
  obtains c where "loop_step known co resolve img is_conflict ctx s
    (s\<lparr>lp_sources := (lp_sources s)\<lparr>fd_events := [], fd_cache := c\<rparr>, lp_queue := wq_Add (key_of (y_meta y)) newWorkQueue\<rparr>)"
proof -
  have "cache_ok y_meta (fd_cache (lp_sources s))" using loop_okD(1) [OF assms(1)] by (simp add: feed_ok_def)
  then obtain c n where d: "deliver y_meta (Upsert t y) (fd_cache (lp_sources s)) = Inr (c, n)" by (rule deliver_ok) blast
  have "traces wq_step (lp_queue s) (map Adds (co_on_source co n)) (wq_Add (key_of (y_meta y)) newWorkQueue)"
    using source_event_keys [OF assms(2) d] traces_one [of wq_step, OF wq_step.add] assms(4) by simp
  then show ?thesis using that loop_step.source_event [OF assms(3) d] by blast
qed

lemma deployment_arrives:
  assumes "loop_ok known s" "handlers co" "fd_events (lp_deployments s) = [Upsert t d]" "lp_queue s = newWorkQueue" "controlled_by m (dep_meta d)"
  obtains c where "loop_step known co resolve img is_conflict ctx s
    (s\<lparr>lp_deployments := (lp_deployments s)\<lparr>fd_events := [], fd_cache := c\<rparr>, lp_queue := wq_Add (key_of m) newWorkQueue\<rparr>)"
proof -
  have "cache_ok dep_meta (fd_cache (lp_deployments s))" using loop_okD(2) [OF assms(1)] by (simp add: feed_ok_def)
  then obtain c n where d: "deliver dep_meta (Upsert t d) (fd_cache (lp_deployments s)) = Inr (c, n)" by (rule deliver_ok) blast
  have "traces wq_step (lp_queue s) (map Adds (co_on_deployment co n)) (wq_Add (key_of m) newWorkQueue)"
    using deployment_event_keys [OF assms(2) d _, of m] assms(4,5) traces_one [of wq_step, OF wq_step.add] by simp
  then show ?thesis using that loop_step.deployment_event [OF assms(3) d] by blast
qed

lemma demo_pass:
  assumes ok: "loop_ok demo_known s" and s: "lp_queue s = wq_Add (key_of demo_meta) newWorkQueue" "lp_workers s = Map.empty"
    and quiet: "fd_events (lp_sources s) = []" "fd_events (lp_deployments s) = []"
    and src: "fd_server (lp_sources s) ''ops/alerts'' = Some demo_src"
    and e: "MakeAdapterDeployment demo_src (Some demo_url) ''img'' = Some e"
    and dep: "fd_server (lp_deployments s) (adapter_key demo_meta) \<in> {None, Some e}"
  shows "(loop_step demo_known co demo_resolve ''img'' (\<lambda>_. False) demo_context)\<^sup>*\<^sup>* s
     ((fold store_write (case fd_server (lp_deployments s) (adapter_key demo_meta) of
          None \<Rightarrow> [KubeWrite (CreateDeployment ''ops'' e)] | Some _ \<Rightarrow> []) s)\<lparr>lp_queue := newWorkQueue, lp_workers := Map.empty\<rparr>)"
proof -
  let ?st = "\<lambda>(ns, n). cached (fd_cache (lp_deployments s)) (lookup_key ns n)"
  let ?rc = "store_reconciler demo_resolve ''img'' ?st"
  have key: "safeKey (key_of demo_meta) = ''ops/alerts''" "om_namespace demo_meta = ''ops''"
    by (simp_all add: MetaNamespaceKeyFunc_def demo_meta_def)
  have g: "view_of (cached (fd_cache (lp_sources s)) (safeKey (key_of demo_meta))) = GetFound demo_src"
    using demo_cached [OF loop_okD(1) [OF ok] quiet(1)] src unfolding key(1) by simp
  have name: "lookup_key ''ops'' (om_name (dep_meta e)) = adapter_key demo_meta"
    using rendered_key(2) [OF e] key(2) by (simp add: lookup_key_def)
  have st: "?st (''ops'', om_name (dep_meta e)) = fd_server (lp_deployments s) (adapter_key demo_meta)"
    using demo_cached [OF loop_okD(2) [OF ok] quiet(2)] by (simp add: name)
  obtain out where out:
    "Reconcile (yipyap_impl (\<lambda>_. False) ?rc leads) demo_source_client (\<lambda>_ _. GetFound demo_src) demo_context (\<lambda>n. int n) ''ops/alerts'' = Some out"
    "ro_err out = None" "concat (map (accepted ?rc (\<lambda>_. False)) (ro_writes out)) =
      (case fd_server (lp_deployments s) (adapter_key demo_meta) of None \<Rightarrow> [KubeWrite (CreateDeployment ''ops'' e)] | Some _ \<Rightarrow> [])"
    using demo_reconcile [OF e, of ?st] dep unfolding st by blast
  have run: "processNextWorkItem False (\<lambda>_. False) (Reconcile (yipyap_impl (\<lambda>_. False) ?rc leads) demo_source_client
        (\<lambda>_ _. view_of (cached (fd_cache (lp_sources s)) (safeKey (key_of demo_meta)))) demo_context (\<lambda>n. int n)) (key_of demo_meta) = Some (out, Forget)"
    unfolding g unfolding processNextWorkItem_def key(1) by (simp add: out(1,2))
  have get: "rc_get ?rc = (\<lambda>ns n. view_of (cached (fd_cache (lp_deployments s)) (lookup_key ns n)))"
    by (simp add: store_reconciler_def view_of_def fun_eq_iff)
  from worker_pass [where co = co and takes = "\<lambda>_. False", OF ok s get store_honest run] show ?thesis
    by (simp only: store_reconciler_simps out(3))
qed

theorem control_loop_settles_witness:
  "\<exists>co s. demo_controller = Inr co \<and> (loop_step demo_known co demo_resolve ''img'' (\<lambda>_. False) demo_context)\<^sup>*\<^sup>* new_loop s \<and>
     fd_server (lp_sources s) ''ops/alerts'' = Some demo_src \<and> quiescent s \<and>
     in_place demo_resolve ''img'' demo_context (fd_server (lp_deployments s)) demo_src"
proof -
  obtain co where co: "demo_controller = Inr co"
    by (simp add: demo_controller_def NewController_def envconfig_Process_def NewImpl_def)
  have h: "handlers co" by (rule NewController_handlers [OF co [unfolded demo_controller_def]])
  obtain e where e: "MakeAdapterDeployment demo_src (Some demo_url) ''img'' = Some e" by (rule MakeAdapterDeployment_total)
  let ?R = "loop_step demo_known co demo_resolve ''img'' (\<lambda>_. False) demo_context"
  let ?k = "key_of demo_meta"
  have dk: "MetaNamespaceKeyFunc (dep_meta e) = adapter_key demo_meta" using rendered_key(1) [OF e] by (simp add: demo_meta_def)
  note ok = reachable_cares [OF _ demo_fair h, THEN conjunct1]
  define s1 where "s1 = new_loop\<lparr>lp_sources := change ''ops/alerts'' (Some demo_src) (lp_sources new_loop)\<rparr>"
  have "?R new_loop s1" unfolding s1_def
    by (rule loop_step.source_changes) (simp add: source_ok_def demo_known_def MetaNamespaceKeyFunc_def, simp add: demo_meta_def)
  then have r1: "?R\<^sup>*\<^sup>* new_loop s1" by simp
  have s1: "fd_events (lp_sources s1) = [Upsert AddedDelta demo_src]" "fd_server (lp_sources s1) = [''ops/alerts'' \<mapsto> demo_src]"
      "lp_queue s1 = newWorkQueue" "lp_workers s1 = Map.empty" "lp_deployments s1 = new_feed dep_meta"
    by (simp_all add: s1_def new_loop_def change_def new_feed_def)
  have "\<exists>c. ?R s1 (s1\<lparr>lp_sources := (lp_sources s1)\<lparr>fd_events := [], fd_cache := c\<rparr>, lp_queue := wq_Add (key_of (y_meta demo_src)) newWorkQueue\<rparr>)"
    by (rule source_arrives [OF ok [OF r1] h s1(1,3)]) blast
  then obtain c1 where c1: "?R s1 (s1\<lparr>lp_sources := (lp_sources s1)\<lparr>fd_events := [], fd_cache := c1\<rparr>, lp_queue := wq_Add ?k newWorkQueue\<rparr>)"
    unfolding demo_src_status by blast
  let ?s2 = "s1\<lparr>lp_sources := (lp_sources s1)\<lparr>fd_events := [], fd_cache := c1\<rparr>, lp_queue := wq_Add ?k newWorkQueue\<rparr>"
  have r2: "?R\<^sup>*\<^sup>* new_loop ?s2" using r1 c1 by (rule rtranclp.rtrancl_into_rtrancl)
  let ?s3 = "(store_write (KubeWrite (CreateDeployment ''ops'' e)) ?s2)\<lparr>lp_queue := newWorkQueue, lp_workers := Map.empty\<rparr>"
  have "?R\<^sup>*\<^sup>* ?s2 ?s3" using demo_pass [OF ok [OF r2] _ _ _ _ _ e] s1 by (simp add: new_feed_def)
  with r2 have r3: "?R\<^sup>*\<^sup>* new_loop ?s3" by (rule rtranclp_trans)
  have s3: "fd_events (lp_deployments ?s3) = [Upsert AddedDelta e]" "fd_server (lp_deployments ?s3) = [adapter_key demo_meta \<mapsto> e]"
      "fd_events (lp_sources ?s3) = []" "fd_server (lp_sources ?s3) = [''ops/alerts'' \<mapsto> demo_src]"
    using s1 dk by (simp_all add: store_write_def change_def new_feed_def)
  have cb: "controlled_by demo_meta (dep_meta e)" using rendered_key(3) [OF e] by simp
  have "lp_queue ?s3 = newWorkQueue" by simp
  then have "\<exists>c. ?R ?s3 (?s3\<lparr>lp_deployments := (lp_deployments ?s3)\<lparr>fd_events := [], fd_cache := c\<rparr>, lp_queue := wq_Add ?k newWorkQueue\<rparr>)"
    by (rule deployment_arrives [OF ok [OF r3] h s3(1) _ cb]) blast
  then obtain c2 where c2: "?R ?s3 (?s3\<lparr>lp_deployments := (lp_deployments ?s3)\<lparr>fd_events := [], fd_cache := c2\<rparr>, lp_queue := wq_Add ?k newWorkQueue\<rparr>)"
    by blast
  let ?s4 = "?s3\<lparr>lp_deployments := (lp_deployments ?s3)\<lparr>fd_events := [], fd_cache := c2\<rparr>, lp_queue := wq_Add ?k newWorkQueue\<rparr>"
  have r4: "?R\<^sup>*\<^sup>* new_loop ?s4" using r3 c2 by (rule rtranclp.rtrancl_into_rtrancl)
  let ?s5 = "?s4\<lparr>lp_queue := newWorkQueue, lp_workers := Map.empty\<rparr>"
  have "?R\<^sup>*\<^sup>* ?s4 ?s5" using demo_pass [OF ok [OF r4] _ _ _ _ _ e] s3 by simp
  with r4 have r5: "?R\<^sup>*\<^sup>* new_loop ?s5" by (rule rtranclp_trans)
  have s5: "quiescent ?s5" "fd_server (lp_sources ?s5) ''ops/alerts'' = Some demo_src"
    using s3 by (simp_all add: quiescent_def at_rest_def tl_Len_def held_def newWorkQueue_def newTwoLaneWorkQueue_def new_lane_def tq_New_def)
  have "om_deletionTimestamp (y_meta demo_src) = None" by (simp add: demo_meta_def)
  from control_loop_settles [OF co [unfolded demo_controller_def] demo_fair r5 s5(2) this] s5 r5 co show ?thesis by blast
qed

end
