(* ===== verification/Adapter_Config.thy ===== *)
theory Adapter_Config
  imports Go_Json Go_Url
begin

text \<open>
  The receive adapter's configuration: \<open>cmd/receive-adapter/source/config.go\<close>. \<open>LoadConfig\<close> reads the
  environment through a callback. \<open>time.ParseDuration\<close> works on fractions in floating point and is a
  parameter (\<open>Inl\<close> an error text, \<open>Inr\<close> a duration). Shown: exactly which environments are accepted,
  what each field of the configuration becomes, and that the comma-separated filter list written by the
  controller reads back as the list of globs.
\<close>

record config =
  cfg_sink :: string
  cfg_CEOverrides :: string_map
  cfg_APIKey :: string
  cfg_baseURL :: string
  cfg_eventFilters :: "string list"
  cfg_mode :: string
  cfg_pollInterval :: duration
  cfg_cursorPath :: string
  cfg_healthAddr :: string
  cfg_CRModeFilePath :: string

datatype config_error =
    SinkRequired
  | APIKeyRequired
  | InvalidOverrides
  | InvalidPollInterval string string
  | InvalidMode string

definition defaultStr :: "string \<Rightarrow> string \<Rightarrow> string" where
  "defaultStr v d = (if v = '''' then d else v)"

fun keep_filters :: "string list \<Rightarrow> string list" where
  "keep_filters [] = []"
| "keep_filters (part # parts) =
     (let f = TrimSpace part in if f \<noteq> '''' then f # keep_filters parts else keep_filters parts)"

definition parseEventFilters :: "string \<Rightarrow> string list" where
  "parseEventFilters raw = keep_filters (split_on (CHR '','') raw)"

definition load_overrides :: "string \<Rightarrow> config \<Rightarrow> config_error + config" where
  "load_overrides raw cfg =
     (if raw \<noteq> ''''
      then (case unmarshal_extensions raw of
              None \<Rightarrow> Inl InvalidOverrides
            | Some None \<Rightarrow> Inr cfg
            | Some (Some ext) \<Rightarrow> Inr (cfg\<lparr>cfg_CEOverrides := ext\<rparr>))
      else Inr cfg)"

definition load_interval :: "(string \<Rightarrow> string + duration) \<Rightarrow> string \<Rightarrow> config \<Rightarrow> config_error + config" where
  "load_interval ParseDuration raw cfg =
     (if raw \<noteq> ''''
      then (case ParseDuration raw of
              Inl e \<Rightarrow> Inl (InvalidPollInterval raw e)
            | Inr d \<Rightarrow> Inr (cfg\<lparr>cfg_pollInterval := d\<rparr>))
      else Inr cfg)"

abbreviation seconds :: "duration \<Rightarrow> duration" where
  "seconds n \<equiv> n * nanosecond_per_second"

definition LoadConfig :: "(string \<Rightarrow> string + duration) \<Rightarrow> (string \<Rightarrow> string) \<Rightarrow> config_error + config" where
  "LoadConfig ParseDuration getenv =
     (let cfg = \<lparr>cfg_sink = getenv ''K_SINK'', cfg_CEOverrides = [], cfg_APIKey = getenv ''YIPYAP_API_KEY'',
                 cfg_baseURL = defaultStr (getenv ''YIPYAP_BASE_URL'') ''https://console.yipyap.run'',
                 cfg_eventFilters = parseEventFilters (getenv ''YIPYAP_EVENT_FILTER''),
                 cfg_mode = getenv ''YIPYAP_MODE'', cfg_pollInterval = seconds 5,
                 cfg_cursorPath = defaultStr (getenv ''YIPYAP_CURSOR_PATH'') ''/var/run/yipyap/cursor'',
                 cfg_healthAddr = defaultStr (getenv ''YIPYAP_HEALTH_ADDR'') '':8080'',
                 cfg_CRModeFilePath = ''/etc/yipyap/source-mode''\<rparr>
      in if cfg_sink cfg = '''' then Inl SinkRequired
         else if cfg_APIKey cfg = '''' then Inl APIKeyRequired
         else (case load_overrides (getenv ''K_CE_OVERRIDES'') cfg of
                 Inl e \<Rightarrow> Inl e
               | Inr cfg \<Rightarrow>
                   (case load_interval ParseDuration (getenv ''YIPYAP_POLL_INTERVAL'') cfg of
                      Inl e \<Rightarrow> Inl e
                    | Inr cfg \<Rightarrow>
                        if cfg_mode cfg \<in> {'''', ''poll'', ''stream''} then Inr cfg
                        else Inl (InvalidMode (cfg_mode cfg)))))"

subsection \<open>Filters\<close>

lemma keep_filters_id: "(\<forall>f \<in> set fs. f \<noteq> '''' \<and> TrimSpace f = f) \<Longrightarrow> keep_filters fs = fs"
  by (induction fs) (auto simp: Let_def)

lemma keep_filters_filter: "keep_filters ps = filter (\<lambda>f. f \<noteq> '''') (map TrimSpace ps)"
  by (induction ps) (auto simp: Let_def)

lemma parseEventFilters_join:
  assumes "\<forall>f \<in> set fs. f \<noteq> '''' \<and> TrimSpace f = f \<and> CHR '','' \<notin> set f"
  shows "parseEventFilters (join_with '','' fs) = fs"
proof (cases "fs = []")
  case False
  with assms show ?thesis by (simp add: parseEventFilters_def split_on_join keep_filters_id)
qed (simp add: parseEventFilters_def)

lemma set_drop_has_prefix: "has_prefix s p \<Longrightarrow> set (drop (length p) s) \<subseteq> set s"
  by (rule set_drop_subset)

lemma set_trim_left: "set (trim_left rs s) \<subseteq> set s"
  using trim_left_suffix [of s rs] by (metis set_append sup_ge2)

lemma set_TrimSpace: "set (TrimSpace s) \<subseteq> set s"
  using set_trim_left [of "map rev space_runes" "rev (trim_left space_runes s)"] set_trim_left [of space_runes s]
  by (auto simp: TrimSpace_def)

lemma parseEventFilters_shape:
  "f \<in> set (parseEventFilters raw) \<Longrightarrow> f \<noteq> '''' \<and> CHR '','' \<notin> set f"
  using set_TrimSpace split_on_no_sep by (fastforce simp: parseEventFilters_def keep_filters_filter)

subsection \<open>What LoadConfig accepts\<close>

definition overrides_ok :: "string \<Rightarrow> bool" where
  "overrides_ok raw \<longleftrightarrow> raw = '''' \<or> unmarshal_extensions raw \<noteq> None"

definition interval_ok :: "(string \<Rightarrow> string + duration) \<Rightarrow> string \<Rightarrow> bool" where
  "interval_ok ParseDuration raw \<longleftrightarrow> raw = '''' \<or> \<not> isl (ParseDuration raw)"

lemma load_overrides_cases:
  "load_overrides raw cfg =
     (if overrides_ok raw
      then Inr (cfg\<lparr>cfg_CEOverrides :=
             (if raw = '''' then cfg_CEOverrides cfg
              else case unmarshal_extensions raw of Some (Some ext) \<Rightarrow> ext | _ \<Rightarrow> cfg_CEOverrides cfg)\<rparr>)
      else Inl InvalidOverrides)"
  by (auto simp: load_overrides_def overrides_ok_def split: option.split)

lemma load_interval_cases:
  "interval_ok P raw \<Longrightarrow> load_interval P raw cfg =
     Inr (cfg\<lparr>cfg_pollInterval := (if raw = '''' then cfg_pollInterval cfg else projr (P raw))\<rparr>)"
  "\<not> interval_ok P raw \<Longrightarrow> load_interval P raw cfg = Inl (InvalidPollInterval raw (projl (P raw)))"
  by (auto simp: load_interval_def interval_ok_def split: sum.split)

lemma LoadConfig_ok:
  assumes "getenv ''K_SINK'' \<noteq> ''''" "getenv ''YIPYAP_API_KEY'' \<noteq> ''''" "overrides_ok (getenv ''K_CE_OVERRIDES'')"
    "interval_ok P (getenv ''YIPYAP_POLL_INTERVAL'')" "getenv ''YIPYAP_MODE'' \<in> {'''', ''poll'', ''stream''}"
  shows "LoadConfig P getenv = Inr
    \<lparr>cfg_sink = getenv ''K_SINK'',
     cfg_CEOverrides = (if getenv ''K_CE_OVERRIDES'' = '''' then []
       else case unmarshal_extensions (getenv ''K_CE_OVERRIDES'') of Some (Some ext) \<Rightarrow> ext | _ \<Rightarrow> []),
     cfg_APIKey = getenv ''YIPYAP_API_KEY'',
     cfg_baseURL = defaultStr (getenv ''YIPYAP_BASE_URL'') ''https://console.yipyap.run'',
     cfg_eventFilters = parseEventFilters (getenv ''YIPYAP_EVENT_FILTER''),
     cfg_mode = getenv ''YIPYAP_MODE'',
     cfg_pollInterval = (if getenv ''YIPYAP_POLL_INTERVAL'' = '''' then seconds 5 else projr (P (getenv ''YIPYAP_POLL_INTERVAL''))),
     cfg_cursorPath = defaultStr (getenv ''YIPYAP_CURSOR_PATH'') ''/var/run/yipyap/cursor'',
     cfg_healthAddr = defaultStr (getenv ''YIPYAP_HEALTH_ADDR'') '':8080'',
     cfg_CRModeFilePath = ''/etc/yipyap/source-mode''\<rparr>"
  using assms by (auto simp: LoadConfig_def Let_def load_overrides_cases load_interval_cases split: option.split)

lemma LoadConfig_error:
  "LoadConfig P getenv =
     (if getenv ''K_SINK'' = '''' then Inl SinkRequired
      else if getenv ''YIPYAP_API_KEY'' = '''' then Inl APIKeyRequired
      else if \<not> overrides_ok (getenv ''K_CE_OVERRIDES'') then Inl InvalidOverrides
      else if \<not> interval_ok P (getenv ''YIPYAP_POLL_INTERVAL'')
      then Inl (InvalidPollInterval (getenv ''YIPYAP_POLL_INTERVAL'') (projl (P (getenv ''YIPYAP_POLL_INTERVAL''))))
      else if getenv ''YIPYAP_MODE'' \<notin> {'''', ''poll'', ''stream''} then Inl (InvalidMode (getenv ''YIPYAP_MODE''))
      else Inr (projr (LoadConfig P getenv)))"
proof -
  let ?i = "getenv ''YIPYAP_POLL_INTERVAL''"
  show ?thesis
    by (cases "interval_ok P ?i") (auto simp: LoadConfig_def Let_def load_overrides_cases load_interval_cases)
qed

subsection \<open>Properties\<close>

definition config_of :: "(string \<Rightarrow> string + duration) \<Rightarrow> (string \<Rightarrow> string) \<Rightarrow> config" where
  "config_of P getenv =
    \<lparr>cfg_sink = getenv ''K_SINK'',
     cfg_CEOverrides = (if getenv ''K_CE_OVERRIDES'' = '''' then []
       else case unmarshal_extensions (getenv ''K_CE_OVERRIDES'') of Some (Some ext) \<Rightarrow> ext | _ \<Rightarrow> []),
     cfg_APIKey = getenv ''YIPYAP_API_KEY'',
     cfg_baseURL = defaultStr (getenv ''YIPYAP_BASE_URL'') ''https://console.yipyap.run'',
     cfg_eventFilters = parseEventFilters (getenv ''YIPYAP_EVENT_FILTER''),
     cfg_mode = getenv ''YIPYAP_MODE'',
     cfg_pollInterval = (if getenv ''YIPYAP_POLL_INTERVAL'' = '''' then seconds 5 else projr (P (getenv ''YIPYAP_POLL_INTERVAL''))),
     cfg_cursorPath = defaultStr (getenv ''YIPYAP_CURSOR_PATH'') ''/var/run/yipyap/cursor'',
     cfg_healthAddr = defaultStr (getenv ''YIPYAP_HEALTH_ADDR'') '':8080'',
     cfg_CRModeFilePath = ''/etc/yipyap/source-mode''\<rparr>"

text \<open>
  Loading the configuration gives the first applicable error, in the order sink, API key, overrides,
  poll interval, mode, and otherwise the configuration whose fields are the environment's values with the
  documented defaults; the mode \<open>auto\<close> is among the rejected ones.
\<close>
theorem load_config_decides:
  "LoadConfig P getenv =
     (if getenv ''K_SINK'' = '''' then Inl SinkRequired
      else if getenv ''YIPYAP_API_KEY'' = '''' then Inl APIKeyRequired
      else if \<not> overrides_ok (getenv ''K_CE_OVERRIDES'') then Inl InvalidOverrides
      else if \<not> interval_ok P (getenv ''YIPYAP_POLL_INTERVAL'')
      then Inl (InvalidPollInterval (getenv ''YIPYAP_POLL_INTERVAL'') (projl (P (getenv ''YIPYAP_POLL_INTERVAL''))))
      else if getenv ''YIPYAP_MODE'' \<notin> {'''', ''poll'', ''stream''} then Inl (InvalidMode (getenv ''YIPYAP_MODE''))
      else Inr (config_of P getenv))"
proof (cases "getenv ''K_SINK'' = '''' \<or> getenv ''YIPYAP_API_KEY'' = '''' \<or> \<not> overrides_ok (getenv ''K_CE_OVERRIDES'') \<or>
    \<not> interval_ok P (getenv ''YIPYAP_POLL_INTERVAL'') \<or> getenv ''YIPYAP_MODE'' \<notin> {'''', ''poll'', ''stream''}")
  case True
  then show ?thesis using LoadConfig_error [of P getenv] by argo
next
  case False
  then show ?thesis using LoadConfig_ok [of getenv P] by (simp add: config_of_def)
qed

text \<open>
  A list of type globs that are non-empty, without commas and without surrounding white space survives
  the journey through the comma-separated environment variable; whatever the variable holds, the parsed
  globs are non-empty and free of commas.
\<close>
theorem filters_round_trip:
  assumes "\<forall>f \<in> set fs. f \<noteq> '''' \<and> no_edge_space f \<and> CHR '','' \<notin> set f"
  shows "parseEventFilters (join_with '','' fs) = fs \<and>
    (\<forall>raw. \<forall>f \<in> set (parseEventFilters raw). f \<noteq> '''' \<and> CHR '','' \<notin> set f)"
  using assms parseEventFilters_shape by (auto simp: TrimSpace_id intro!: parseEventFilters_join)

theorem filters_round_trip_witness:
  "parseEventFilters ''run.yipyap.alert.*,run.yipyap.monitor.*'' = [''run.yipyap.alert.*'', ''run.yipyap.monitor.*'']"
  using filters_round_trip [of "[''run.yipyap.alert.*'', ''run.yipyap.monitor.*'']"]
  by (simp add: no_edge_space_graph graph_char_def)

end
