(* ===== verification/Go_Http.thy ===== *)
theory Go_Http
  imports Go_Url
begin

text \<open>
  What the adapter uses of \<open>net/http\<close>: requests with canonical header keys and the outcome of \<open>Client.Do\<close>.
  The round trip itself is a parameter of the functions that make it, as is \<open>url.Parse\<close>; \<open>NewRequest\<close>
  parses the printed URL once more, as the library does.
\<close>

record http_request =
  rq_method :: string
  rq_url :: url
  rq_header :: "(string \<times> string) list"
  rq_body :: string

datatype http_result = HttpError string | HttpResponse int string

type_synonym http_client = "http_request \<Rightarrow> http_result"
type_synonym url_parser = "string \<Rightarrow> url option"

subsection \<open>Header keys\<close>

text \<open>The bytes of a header field name (RFC 7230 token characters).\<close>

definition token_byte :: "char \<Rightarrow> bool" where
  "token_byte c \<longleftrightarrow> is_alnum c \<or> c \<in> set ''!#$%&*+-.^_`|~'' \<or> of_char c = (39::nat)"

definition upper_ascii :: "char \<Rightarrow> char" where
  "upper_ascii c = (let n = of_char c :: nat in if 97 \<le> n \<and> n \<le> 122 then char_of (n - 32) else c)"

fun canonical_bytes :: "bool \<Rightarrow> string \<Rightarrow> string" where
  "canonical_bytes upper [] = []"
| "canonical_bytes upper (c # cs) = (if upper then upper_ascii c else lower_char c) # canonical_bytes (c = CHR ''-'') cs"

definition CanonicalHeaderKey :: "string \<Rightarrow> string" where
  "CanonicalHeaderKey k = (if list_all token_byte k then canonical_bytes True k else k)"

definition Header_Set :: "string \<Rightarrow> string \<Rightarrow> (string \<times> string) list \<Rightarrow> (string \<times> string) list" where
  "Header_Set k v h = assoc_set (CanonicalHeaderKey k) v h"

definition header :: "http_request \<Rightarrow> string \<Rightarrow> string option" where
  "header rq k = map_of (rq_header rq) (CanonicalHeaderKey k)"

definition NewRequest :: "url_parser \<Rightarrow> string \<Rightarrow> string \<Rightarrow> string \<Rightarrow> http_request option" where
  "NewRequest url_Parse m u body =
     map_option (\<lambda>v. \<lparr>rq_method = m, rq_url = v, rq_header = [], rq_body = body\<rparr>) (url_Parse u)"

definition SetHeader :: "string \<Rightarrow> string \<Rightarrow> http_request \<Rightarrow> http_request" where
  "SetHeader k v rq = rq\<lparr>rq_header := Header_Set k v (rq_header rq)\<rparr>"

lemma header_SetHeader [simp]:
  "header (SetHeader k v rq) k' = (if CanonicalHeaderKey k' = CanonicalHeaderKey k then Some v else header rq k')"
  by (auto simp: header_def SetHeader_def Header_Set_def)

lemma SetHeader_frame [simp]:
  "rq_method (SetHeader k v rq) = rq_method rq" "rq_url (SetHeader k v rq) = rq_url rq" "rq_body (SetHeader k v rq) = rq_body rq"
  by (simp_all add: SetHeader_def)

subsection \<open>Reading a response\<close>

datatype fetch_error =
    ParseBaseURL
  | NewRequestFailed
  | HttpDo string
  | UnexpectedStatus int string
  | DecodeFailed

text \<open>One GET with bearer token: the body of a 200 response, or the error the caller returns.\<close>

definition authorized_get :: "url_parser \<Rightarrow> http_client \<Rightarrow> string \<Rightarrow> string \<Rightarrow> url \<Rightarrow> fetch_error + string" where
  "authorized_get url_Parse do apiKey accept u =
     (case NewRequest url_Parse ''GET'' (url_String u) '''' of
        None \<Rightarrow> Inl NewRequestFailed
      | Some rq \<Rightarrow>
          (case do (SetHeader ''Accept'' accept (SetHeader ''Authorization'' (''Bearer '' @ apiKey) rq)) of
             HttpError e \<Rightarrow> Inl (HttpDo e)
           | HttpResponse code body \<Rightarrow>
               if code \<noteq> 200 then Inl (UnexpectedStatus code (take 65536 body)) else Inr body))"

end
