(* ===== verification/Adapter_Mode.thy ===== *)
theory Adapter_Mode
  imports Adapter_Config Go_Http
begin

text \<open>
  The mode resolver of \<open>cmd/receive-adapter/source/mode.go\<close>: environment, file written by the controller,
  server hint, default, in this order. Files, the HTTP client and \<open>url.Parse\<close> are parameters. Shown: the
  precedence, that a resolved mode is always \<open>poll\<close> or \<open>stream\<close>, that a loaded configuration always
  resolves, and when the resolved poll interval is positive.
\<close>

record mode_resolution =
  mr_mode :: string
  mr_pollInterval :: duration
  mr_refreshAfter :: duration
  mr_source :: string

record source_config_hint =
  h_recommendedMode :: string
  h_pollIntervalSeconds :: int
  h_refreshAfterSeconds :: int

text \<open>What the resolver reaches outside the process: files, the network and the URL parser.\<close>

record world =
  w_ReadFile :: "string \<Rightarrow> string option"
  w_do :: http_client
  w_url_Parse :: url_parser

definition defaultRefreshAfter :: duration where
  "defaultRefreshAfter = 5 * seconds 60"

definition readCRModeFile :: "(string \<Rightarrow> string option) \<Rightarrow> string \<Rightarrow> string option" where
  "readCRModeFile ReadFile p =
     (case ReadFile p of
        None \<Rightarrow> None
      | Some b \<Rightarrow> let s = ToLower (TrimSpace b) in if s = '''' then None else Some s)"

definition decode_hint :: "json \<Rightarrow> source_config_hint option" where
  "decode_hint =
     decode_struct
       (\<lambda>h k v.
          if is_field ''recommended_mode'' k
          then map_option (\<lambda>x. h\<lparr>h_recommendedMode := x\<rparr>) (decode_string (h_recommendedMode h) v)
          else if is_field ''poll_interval_seconds'' k
          then map_option (\<lambda>x. h\<lparr>h_pollIntervalSeconds := x\<rparr>) (decode_int (h_pollIntervalSeconds h) v)
          else if is_field ''refresh_after_seconds'' k
          then map_option (\<lambda>x. h\<lparr>h_refreshAfterSeconds := x\<rparr>) (decode_int (h_refreshAfterSeconds h) v)
          else Some h)
       \<lparr>h_recommendedMode = '''', h_pollIntervalSeconds = 0, h_refreshAfterSeconds = 0\<rparr>"

definition fetchServerHint :: "world \<Rightarrow> config \<Rightarrow> fetch_error + source_config_hint" where
  "fetchServerHint w cfg =
     (case w_url_Parse w (cfg_baseURL cfg) of
        None \<Rightarrow> Inl ParseBaseURL
      | Some u \<Rightarrow>
          let u = u\<lparr>u_path := path_Join (u_path u) ''/api/v1/knative/source-config''\<rparr> in
          (case authorized_get (w_url_Parse w) (w_do w) (cfg_APIKey cfg) ''application/json'' u of
             Inl e \<Rightarrow> Inl e
           | Inr body \<Rightarrow>
               (case Option.bind (parse_first body) decode_hint of
                  None \<Rightarrow> Inl DecodeFailed
                | Some h \<Rightarrow> Inr h)))"

text \<open>\<open>time.Duration(n) * time.Second\<close> wraps around in 64 bits.\<close>

definition resolutionFromHint :: "source_config_hint \<Rightarrow> config \<Rightarrow> mode_resolution" where
  "resolutionFromHint h cfg =
     \<lparr>mr_mode = (if ToLower (TrimSpace (h_recommendedMode h)) = ''stream'' then ''stream'' else ''poll''),
      mr_pollInterval = (if h_pollIntervalSeconds h > 0 then seconds (word_of_int (h_pollIntervalSeconds h))
                         else cfg_pollInterval cfg),
      mr_refreshAfter = (if h_refreshAfterSeconds h > 0 then seconds (word_of_int (h_refreshAfterSeconds h))
                         else defaultRefreshAfter),
      mr_source = ''server''\<rparr>"

definition resolve_server :: "world \<Rightarrow> config \<Rightarrow> mode_resolution" where
  "resolve_server w cfg =
     (case fetchServerHint w cfg of
        Inr hint \<Rightarrow> resolutionFromHint hint cfg
      | Inl e \<Rightarrow> \<lparr>mr_mode = ''poll'', mr_pollInterval = cfg_pollInterval cfg,
                  mr_refreshAfter = defaultRefreshAfter, mr_source = ''default''\<rparr>)"

definition ResolveMode :: "world \<Rightarrow> config \<Rightarrow> config_error + mode_resolution" where
  "ResolveMode w cfg =
     (let m = ToLower (TrimSpace (cfg_mode cfg)) in
      if m = ''poll''
      then Inr \<lparr>mr_mode = ''poll'', mr_pollInterval = cfg_pollInterval cfg, mr_refreshAfter = defaultRefreshAfter, mr_source = ''env''\<rparr>
      else if m = ''stream''
      then Inr \<lparr>mr_mode = ''stream'', mr_pollInterval = 0, mr_refreshAfter = defaultRefreshAfter, mr_source = ''env''\<rparr>
      else if m \<noteq> '''' \<and> m \<noteq> ''auto'' then Inl (InvalidMode (cfg_mode cfg))
      else
        let crPath = (if cfg_CRModeFilePath cfg = '''' then ''/etc/yipyap/source-mode'' else cfg_CRModeFilePath cfg) in
        (case readCRModeFile (w_ReadFile w) crPath of
           Some m \<Rightarrow>
             if m = ''poll'' \<or> m = ''stream''
             then Inr \<lparr>mr_mode = m, mr_pollInterval = cfg_pollInterval cfg, mr_refreshAfter = defaultRefreshAfter, mr_source = ''cr''\<rparr>
             else Inr (resolve_server w cfg)
         | None \<Rightarrow> Inr (resolve_server w cfg)))"

subsection \<open>Laws\<close>

lemma resolve_server_mode: "mr_mode (resolve_server w cfg) \<in> {''poll'', ''stream''}"
  by (simp add: resolve_server_def resolutionFromHint_def split: sum.split)

lemma ResolveMode_mode:
  assumes "ResolveMode w cfg = Inr r"
  shows "mr_mode r \<in> {''poll'', ''stream''}"
proof -
  consider "mr_mode r = ''poll''" | "mr_mode r = ''stream''" | "r = resolve_server w cfg"
    using assms by (auto simp: ResolveMode_def Let_def split: if_splits option.splits)
  then show ?thesis by cases (use resolve_server_mode in auto)
qed

lemma ToLower_words [simp]: "ToLower '''' = ''''" "ToLower ''poll'' = ''poll''" "ToLower ''stream'' = ''stream''" "ToLower ''auto'' = ''auto''"
  by (simp_all add: ToLower_def lower_char_def Let_def)

lemma no_edge_space_words:
  "no_edge_space ''poll''" "no_edge_space ''stream''" "no_edge_space ''auto''"
  by (rule no_edge_space_graph; simp add: graph_char_def)+

lemmas TrimSpace_words [simp] = no_edge_space_words [THEN TrimSpace_id]

lemma ResolveMode_env:
  assumes "cfg_mode cfg \<in> {''poll'', ''stream''}"
  shows "ResolveMode w cfg = Inr
    \<lparr>mr_mode = cfg_mode cfg, mr_pollInterval = (if cfg_mode cfg = ''poll'' then cfg_pollInterval cfg else 0),
     mr_refreshAfter = defaultRefreshAfter, mr_source = ''env''\<rparr>"
  using assms by (auto simp: ResolveMode_def)

lemma ResolveMode_no_env:
  assumes "cfg_mode cfg = ''''"
  shows "\<exists>r. ResolveMode w cfg = Inr r \<and> mr_source r \<noteq> ''env''"
  using assms
  by (auto simp: ResolveMode_def resolve_server_def resolutionFromHint_def split: option.split sum.split)

subsection \<open>Properties\<close>

lemma LoadConfig_mode: "LoadConfig P getenv = Inr cfg \<Longrightarrow> cfg_mode cfg \<in> {'''', ''poll'', ''stream''}"
  by (auto simp: LoadConfig_def Let_def split: if_splits sum.splits)

text \<open>
  A loaded configuration always resolves to \<open>poll\<close> or \<open>stream\<close>, whatever files, network and URL parser
  do: a mode from the environment wins; otherwise a valid file wins; otherwise the server's hint; and any
  failure to get a hint ends in polling at the configured interval.
\<close>
theorem loaded_config_resolves:
  assumes "LoadConfig P getenv = Inr cfg"
  shows "\<exists>r. ResolveMode w cfg = Inr r \<and> mr_mode r \<in> {''poll'', ''stream''} \<and>
    (cfg_mode cfg \<noteq> '''' \<longrightarrow> mr_mode r = cfg_mode cfg \<and> mr_source r = ''env'') \<and>
    (cfg_mode cfg = '''' \<longrightarrow> readCRModeFile (w_ReadFile w) (cfg_CRModeFilePath cfg) \<in> {Some ''poll'', Some ''stream''} \<longrightarrow>
       mr_source r = ''cr'' \<and> Some (mr_mode r) = readCRModeFile (w_ReadFile w) (cfg_CRModeFilePath cfg)) \<and>
    (cfg_mode cfg = '''' \<longrightarrow> readCRModeFile (w_ReadFile w) (cfg_CRModeFilePath cfg) \<notin> {Some ''poll'', Some ''stream''} \<longrightarrow>
       isl (fetchServerHint w cfg) \<longrightarrow>
       mr_mode r = ''poll'' \<and> mr_pollInterval r = cfg_pollInterval cfg \<and> mr_source r = ''default'')"
proof -
  have mode: "cfg_mode cfg \<in> {'''', ''poll'', ''stream''}" using assms by (rule LoadConfig_mode)
  have path: "cfg_CRModeFilePath cfg = ''/etc/yipyap/source-mode''"
    using assms by (auto simp: LoadConfig_def Let_def load_overrides_def load_interval_def split: if_splits sum.splits option.splits)
  show ?thesis
  proof (cases "cfg_mode cfg = ''''")
    case True
    then obtain r where r: "ResolveMode w cfg = Inr r" using ResolveMode_no_env by blast
    from ResolveMode_mode [OF r] r True path show ?thesis
      by (auto simp: ResolveMode_def resolve_server_def split: option.splits if_splits sum.splits)
  next
    case False
    with mode ResolveMode_env [of cfg w] show ?thesis by auto
  qed
qed

text \<open>The poll interval survives as a positive one when the hint is within the range of a duration.\<close>

lemma seconds_positive:
  assumes "0 < n" "n \<le> 9223372036"
  shows "0 < sint (seconds (word_of_int n))"
proof -
  have eq: "seconds (word_of_int n) = (word_of_int (n * 1000000000) :: 64 word)"
    by simp
  have "signed_take_bit 63 (n * 1000000000) = n * 1000000000"
    by (rule signed_take_bit_int_eq_self) (use assms in auto)
  then have "sint (word_of_int (n * 1000000000) :: 64 word) = n * 1000000000"
    by (subst sint_sbintrunc') simp
  with assms show ?thesis unfolding eq by simp
qed

lemma ResolveMode_interval:
  assumes "ResolveMode w cfg = Inr r" "mr_mode r = ''poll''" "0 < sint (cfg_pollInterval cfg)"
    and "\<forall>h. fetchServerHint w cfg = Inr h \<longrightarrow> h_pollIntervalSeconds h \<le> 9223372036"
  shows "0 < sint (mr_pollInterval r)"
proof -
  have server: "0 < sint (mr_pollInterval (resolve_server w cfg))"
    using assms(3,4) seconds_positive by (auto simp: resolve_server_def resolutionFromHint_def split: sum.split)
  consider "mr_pollInterval r = cfg_pollInterval cfg" | "r = resolve_server w cfg"
    using assms(1,2) by (auto simp: ResolveMode_def Let_def split: if_splits option.splits)
  then show ?thesis by cases (use assms(3) server in auto)
qed

lemma loaded_ResolveMode:
  assumes "LoadConfig P getenv = Inr cfg"
  obtains r where "ResolveMode w cfg = Inr r" "mr_mode r \<in> {''poll'', ''stream''}"
proof -
  have "cfg_mode cfg \<in> {'''', ''poll'', ''stream''}" using assms by (rule LoadConfig_mode)
  then have "\<exists>r. ResolveMode w cfg = Inr r"
    using ResolveMode_no_env [of cfg w] ResolveMode_env [of cfg w] by auto
  then show ?thesis using that ResolveMode_mode by blast
qed

definition offline :: world where
  "offline = \<lparr>w_ReadFile = (\<lambda>_. None), w_do = (\<lambda>_. HttpError ''no route''), w_url_Parse = (\<lambda>_. None)\<rparr>"

definition demo_config :: config where
  "demo_config = config_of (\<lambda>_. Inl ''bad'') (\<lambda>k. if k = ''K_SINK'' then ''http://sink'' else if k = ''YIPYAP_API_KEY'' then ''key'' else '''')"

lemma demo_config_loads:
  "LoadConfig (\<lambda>_. Inl ''bad'') (\<lambda>k. if k = ''K_SINK'' then ''http://sink'' else if k = ''YIPYAP_API_KEY'' then ''key'' else '''') = Inr demo_config"
  by (subst LoadConfig_ok) (simp_all add: demo_config_def config_of_def overrides_ok_def interval_ok_def)

theorem loaded_config_resolves_witness: "\<exists>r. ResolveMode offline demo_config = Inr r \<and> mr_source r = ''default''"
  using loaded_config_resolves [OF demo_config_loads, of offline]
  by (auto simp: demo_config_def config_of_def offline_def readCRModeFile_def fetchServerHint_def)

text \<open>
  A hint of 9223372037 seconds, positive as the server sent it, becomes a negative poll interval: the
  conversion to nanoseconds wraps around.
\<close>
theorem hint_interval_wraps:
  "let h = \<lparr>h_recommendedMode = ''poll'', h_pollIntervalSeconds = 9223372037, h_refreshAfterSeconds = 0\<rparr>
   in 0 < h_pollIntervalSeconds h \<and> sint (mr_pollInterval (resolutionFromHint h cfg)) < 0"
  by (simp add: resolutionFromHint_def)

end
