(* ===== verification/Adapter_Poll.thy ===== *)
theory Adapter_Poll
  imports Adapter_Sink Adapter_Mode
begin

text \<open>
  The poll client of \<open>cmd/receive-adapter/source/poll.go\<close>: one fetch, one tick of \<open>Run\<close>, and the cursor
  file with its atomic replacement. The HTTP client, \<open>url.Parse\<close>, the SDK's event decoder and the results
  of the operating system calls are parameters. Shown: what the request asks for, that a crash at any
  point of a cursor write leaves the old or the new cursor, that the cursor moves only past delivered
  events, and at-least-once delivery over runs with crashes and restarts against a server that keeps its
  contract.
\<close>

record poll_client =
  pc_baseURL :: string
  pc_apiKey :: string
  pc_filters :: "string list"
  pc_interval :: duration
  pc_cursorPath :: string

definition NewPollClient :: "config \<Rightarrow> poll_client" where
  "NewPollClient cfg =
     (let interval = (if sint (cfg_pollInterval cfg) \<le> 0 then seconds 5 else cfg_pollInterval cfg)
      in \<lparr>pc_baseURL = cfg_baseURL cfg, pc_apiKey = cfg_APIKey cfg, pc_filters = cfg_eventFilters cfg,
          pc_interval = interval, pc_cursorPath = cfg_cursorPath cfg\<rparr>)"

subsection \<open>fetch\<close>

definition decode_poll :: "json \<Rightarrow> (string list \<times> string) option" where
  "decode_poll =
     decode_struct
       (\<lambda>(es, c) k v.
          if is_field ''events'' k then map_option (\<lambda>x. (x, c)) (decode_raw_list v)
          else if is_field ''next_cursor'' k then map_option (\<lambda>x. (es, x)) (decode_string c v)
          else Some (es, c))
       ([], '''')"

definition poll_url :: "poll_client \<Rightarrow> string \<Rightarrow> url \<Rightarrow> url" where
  "poll_url p cursor u =
     (let u = u\<lparr>u_path := path_Join (u_path u) ''/api/v1/cloudevents/poll''\<rparr>;
          q = parse_query (u_rawQuery u);
          q = fold (\<lambda>f q. values_Add ''filter'' f q) (pc_filters p) q;
          q = (if cursor \<noteq> '''' then values_Set ''since'' cursor q else q)
      in u\<lparr>u_rawQuery := values_Encode q\<rparr>)"

definition fetch ::
  "url_parser \<Rightarrow> (string \<Rightarrow> ce_event option) \<Rightarrow> http_client \<Rightarrow> poll_client \<Rightarrow> string \<Rightarrow>
   fetch_error + (string \<times> ce_event list)" where
  "fetch url_Parse decode_event do p cursor =
     (case url_Parse (pc_baseURL p) of
        None \<Rightarrow> Inl ParseBaseURL
      | Some u \<Rightarrow>
          (case authorized_get url_Parse do (pc_apiKey p) ''application/json'' (poll_url p cursor u) of
             Inl e \<Rightarrow> Inl e
           | Inr body \<Rightarrow>
               (case Option.bind (parse_first body) decode_poll of
                  None \<Rightarrow> Inl DecodeFailed
                | Some (raws, nxt) \<Rightarrow> Inr (nxt, List.map_filter decode_event raws))))"

subsection \<open>The cursor file\<close>

text \<open>
  Files by path. A write is described by what the operating system answers to each call; a failed
  \<open>WriteString\<close> may have written a part of the text.
\<close>

type_synonym files = "string \<Rightarrow> string option"

record os_results =
  os_mkdir :: "string option"
  os_create :: "string option"
  os_random :: nat
  os_write :: "(nat \<times> string) option"
  os_close :: "string option"
  os_rename :: "string option"
  os_removed :: bool

datatype cursor_error =
    ReadCursor string
  | MkdirCursorDir string
  | CreateTemp string
  | WriteTemp string
  | CloseTemp string
  | RenameTemp string

definition readCursor :: "string option \<Rightarrow> poll_client \<Rightarrow> files \<Rightarrow> cursor_error + string" where
  "readCursor read_error p fs =
     (if pc_cursorPath p = '''' then Inr ''''
      else case read_error of
             Some e \<Rightarrow> Inl (ReadCursor e)
           | None \<Rightarrow> (case fs (pc_cursorPath p) of None \<Rightarrow> Inr '''' | Some b \<Rightarrow> Inr b))"

text \<open>\<open>filepath.Dir\<close> and \<open>filepath.Base\<close>.\<close>

definition strip_slashes :: "string \<Rightarrow> string" where
  "strip_slashes p = rev (dropWhile (\<lambda>c. c = CHR ''/'') (rev p))"

definition filepath_Base :: "string \<Rightarrow> string" where
  "filepath_Base p =
     (if p = '''' then ''.''
      else let s = strip_slashes p in if s = '''' then ''/'' else last (split_on (CHR ''/'') s))"

definition filepath_Dir :: "string \<Rightarrow> string" where
  "filepath_Dir p = path_Clean (rev (dropWhile (\<lambda>c. c \<noteq> CHR ''/'') (rev p)))"

text \<open>
  \<open>os.CreateTemp\<close> puts the random text in the place of the star; it refuses a pattern with a path
  separator.
\<close>

definition temp_path :: "string \<Rightarrow> nat \<Rightarrow> string option" where
  "temp_path p rnd =
     (let base = filepath_Base p; dir = filepath_Dir p in
      if CHR ''/'' \<in> set base then None
      else Some (dir @ (if dir \<noteq> '''' \<and> last dir = CHR ''/'' then '''' else ''/'') @ base @ ''.'' @ show_nat rnd @ ''.tmp''))"

text \<open>
  \<open>writeCursor\<close>: the states the file system passes through, the first one being where it starts and the
  last one where the call leaves it, and the error.
\<close>

definition remove_temp :: "os_results \<Rightarrow> string \<Rightarrow> files \<Rightarrow> files" where
  "remove_temp r tmp fs = (if os_removed r then fs(tmp := None) else fs)"

definition writeCursor :: "os_results \<Rightarrow> poll_client \<Rightarrow> string \<Rightarrow> files \<Rightarrow> files list \<times> cursor_error option" where
  "writeCursor r p cursor fs =
     (if pc_cursorPath p = '''' then ([fs], None)
      else case os_mkdir r of
        Some e \<Rightarrow> ([fs], Some (MkdirCursorDir e))
      | None \<Rightarrow>
          (case (os_create r, temp_path (pc_cursorPath p) (os_random r)) of
             (None, Some tmp) \<Rightarrow>
               (let created = fs(tmp \<mapsto> '''') in
                case os_write r of
                  Some (n, e) \<Rightarrow>
                    (let part = map (\<lambda>i. fs(tmp \<mapsto> take i cursor)) [0..<Suc n];
                         left = fs(tmp \<mapsto> take n cursor)
                     in (fs # created # part @ [remove_temp r tmp left], Some (WriteTemp e)))
                | None \<Rightarrow>
                    (let part = map (\<lambda>i. fs(tmp \<mapsto> take i cursor)) [0..<Suc (length cursor)];
                         written = fs(tmp \<mapsto> cursor)
                     in case os_close r of
                          Some e \<Rightarrow> (fs # created # part @ [remove_temp r tmp written], Some (CloseTemp e))
                        | None \<Rightarrow>
                            (case os_rename r of
                               Some e \<Rightarrow> (fs # created # part @ [remove_temp r tmp written], Some (RenameTemp e))
                             | None \<Rightarrow> (fs # created # part @ [written(tmp := None, pc_cursorPath p \<mapsto> cursor)], None))))
           | (Some e, _) \<Rightarrow> ([fs], Some (CreateTemp e))
           | (None, None) \<Rightarrow> ([fs], Some (CreateTemp ''pattern contains path separator''))))"

subsection \<open>Run\<close>

text \<open>
  Emitting a batch: the attempts made, each with its success, and whether all of them succeeded. The
  callback's answer may differ between attempts, so it is given the index.
\<close>

fun emit_batch :: "(nat \<Rightarrow> ce_event \<Rightarrow> bool) \<Rightarrow> nat \<Rightarrow> ce_event list \<Rightarrow> (ce_event \<times> bool) list \<times> bool" where
  "emit_batch emit i [] = ([], True)"
| "emit_batch emit i (ev # evs) =
     (if emit i ev
      then (let (l, ok) = emit_batch emit (Suc i) evs in ((ev, True) # l, ok))
      else ([(ev, False)], False))"

text \<open>One tick: the cursor in memory, the file system and the attempts.\<close>

definition poll_tick ::
  "url_parser \<Rightarrow> (string \<Rightarrow> ce_event option) \<Rightarrow> http_client \<Rightarrow> (nat \<Rightarrow> ce_event \<Rightarrow> bool) \<Rightarrow> os_results \<Rightarrow> poll_client \<Rightarrow>
   string \<times> files \<Rightarrow> string \<times> files \<times> (ce_event \<times> bool) list" where
  "poll_tick url_Parse decode_event do emit r p = (\<lambda>(cursor, fs).
     case fetch url_Parse decode_event do p cursor of
       Inl e \<Rightarrow> (cursor, fs, [])
     | Inr (nxt, events) \<Rightarrow>
         (let (log, allOK) = emit_batch emit 0 events in
          if \<not> allOK then (cursor, fs, log)
          else if nxt \<noteq> '''' \<and> nxt \<noteq> cursor then (nxt, last (fst (writeCursor r p nxt fs)), log)
          else (cursor, fs, log)))"

definition start_cursor :: "string option \<Rightarrow> poll_client \<Rightarrow> files \<Rightarrow> string" where
  "start_cursor read_error p fs = (case readCursor read_error p fs of Inr c \<Rightarrow> c | Inl e \<Rightarrow> '''')"

subsection \<open>Crash safety of the cursor file\<close>

definition last_segment :: "string \<Rightarrow> string" where
  "last_segment s = rev (takeWhile (\<lambda>c. c \<noteq> CHR ''/'') (rev s))"

lemma takeWhile_no_slash: "CHR ''/'' \<notin> set t \<Longrightarrow> takeWhile (\<lambda>c. c \<noteq> CHR ''/'') (rev t @ u) = rev t @ takeWhile (\<lambda>c. c \<noteq> CHR ''/'') u"
  by (rule takeWhile_append2) auto

lemma last_segment_append_slash: "CHR ''/'' \<notin> set t \<Longrightarrow> last_segment (s @ CHR ''/'' # t) = t"
  by (simp add: last_segment_def takeWhile_no_slash)

lemma split_on_snoc:
  "split_on c (s @ [x]) =
     (if x = c then split_on c s @ [''''] else butlast (split_on c s) @ [last (split_on c s) @ [x]])"
proof (induction s)
  case (Cons y s)
  obtain p ps where "split_on c s = p # ps" by (cases "split_on c s") auto
  with Cons show ?case by (cases ps) auto
qed simp

lemma last_split_on: "last (split_on (CHR ''/'') s) = last_segment s"
  by (induction s rule: rev_induct) (simp_all add: last_segment_def split_on_snoc)

lemma show_nat_no_slash: "CHR ''/'' \<notin> set (show_nat n)"
proof (induction n rule: show_nat.induct)
  case (1 n)
  have "CHR ''/'' \<noteq> (char_of (48 + k) :: char)" if "k < 10" for k :: nat
    using that by (auto simp: eq_commute [of "CHR ''/''"] char_of_eq_iff take_bit_eq_mod)
  with 1 show ?case by (subst show_nat.simps) simp
qed

lemma last_segment_dir:
  assumes "CHR ''/'' \<notin> set t" "d \<noteq> ''''"
  shows "last_segment (d @ (if last d = CHR ''/'' then '''' else ''/'') @ t) = t"
proof (cases "last d = CHR ''/''")
  case True
  then obtain e where "d = e @ ''/''" using assms(2) by (metis append_butlast_last_id)
  then show ?thesis using last_segment_append_slash [OF assms(1), of e] by simp
next
  case False
  then show ?thesis using last_segment_append_slash [OF assms(1), of d] by simp
qed

lemma path_Clean_nonempty: "path_Clean p \<noteq> ''''"
  by (simp add: path_Clean_def Let_def)

text \<open>The temporary file is never the cursor file itself.\<close>

lemma temp_path_differs:
  assumes "temp_path p rnd = Some tmp" "p \<noteq> ''''"
  shows "tmp \<noteq> p"
proof -
  let ?t = "filepath_Base p @ ''.'' @ show_nat rnd @ ''.tmp''"
  have base: "CHR ''/'' \<notin> set (filepath_Base p)" using assms(1) by (auto simp: temp_path_def Let_def split: if_splits)
  have "tmp = filepath_Dir p @ (if last (filepath_Dir p) = CHR ''/'' then '''' else ''/'') @ ?t"
    using assms(1) path_Clean_nonempty by (auto simp: temp_path_def Let_def filepath_Dir_def split: if_splits)
  then have seg: "last_segment tmp = ?t"
    using last_segment_dir [of ?t "filepath_Dir p"] base show_nat_no_slash path_Clean_nonempty by (auto simp: filepath_Dir_def)
  show ?thesis
  proof (cases "last p = CHR ''/''")
    case True
    then obtain e where "p = e @ ''/''" using assms(2) by (metis append_butlast_last_id)
    then have "last_segment p = ''''" by (simp add: last_segment_def)
    with seg show ?thesis by auto
  next
    case False
    then have strip: "strip_slashes p = p"
      using assms(2) by (cases p rule: rev_cases) (auto simp: strip_slashes_def)
    then have "filepath_Base p = last_segment p"
      using assms(2) by (simp add: filepath_Base_def last_split_on)
    with seg show ?thesis by (metis append_self_conv append_is_Nil_conv list.distinct(1))
  qed
qed

lemma writeCursor_states:
  assumes "writeCursor r p cursor fs = (states, e)"
  shows "states \<noteq> [] \<and> fs \<in> set states \<and>
    (\<forall>s \<in> set states. s (pc_cursorPath p) \<in> {fs (pc_cursorPath p), Some cursor}) \<and>
    (e = None \<longrightarrow> pc_cursorPath p \<noteq> '''' \<longrightarrow> last states (pc_cursorPath p) = Some cursor) \<and>
    (e \<noteq> None \<longrightarrow> last states (pc_cursorPath p) = fs (pc_cursorPath p))"
proof (cases "temp_path (pc_cursorPath p) (os_random r)")
  case None
  then show ?thesis using assms by (auto simp: writeCursor_def split: if_splits option.splits)
next
  case (Some tmp)
  then have "pc_cursorPath p \<noteq> '''' \<Longrightarrow> pc_cursorPath p \<noteq> tmp" using temp_path_differs by blast
  with Some assms show ?thesis
    by (auto simp: writeCursor_def Let_def remove_temp_def split: if_splits option.splits)
qed

text \<open>
  What the poll client relies on: a store of cursors whose writes pass through states that read as the
  old or the new cursor, and end in the new one unless an error is reported.
\<close>

locale cursor_store =
  fixes read :: "'fs \<Rightarrow> string"
    and write_states :: "'r \<Rightarrow> string \<Rightarrow> 'fs \<Rightarrow> 'fs list"
  assumes states_nonempty: "write_states r c fs \<noteq> []"
    and states_old_or_new: "s \<in> set (write_states r c fs) \<Longrightarrow> read s = read fs \<or> read s = c"
begin

lemma states_keep:
  assumes "P (read fs)" "P c" "s \<in> set (write_states r c fs)"
  shows "P (read s)"
  using states_old_or_new [OF assms(3)] assms(1,2) by auto

lemma final_keeps: "P (read fs) \<Longrightarrow> P c \<Longrightarrow> P (read (last (write_states r c fs)))"
  using states_keep states_nonempty by (metis last_in_set)

end

interpretation cursor: cursor_store "start_cursor None p" "\<lambda>r c fs. fst (writeCursor r p c fs)"
  for p
proof
  fix r c fs s
  show "fst (writeCursor r p c fs) \<noteq> []" using writeCursor_states by (metis prod.collapse)
  assume s: "s \<in> set (fst (writeCursor r p c fs))"
  have "s (pc_cursorPath p) \<in> {fs (pc_cursorPath p), Some c}"
    using writeCursor_states [of r p c fs "fst (writeCursor r p c fs)" "snd (writeCursor r p c fs)"] s by simp
  then show "start_cursor None p s = start_cursor None p fs \<or> start_cursor None p s = c"
    by (auto simp: start_cursor_def readCursor_def)
qed

subsection \<open>What a request asks for\<close>

definition request_since :: "http_request \<Rightarrow> string" where
  "request_since rq = (case values_get ''since'' (parse_query (u_rawQuery (rq_url rq))) of [] \<Rightarrow> '''' | c # _ \<Rightarrow> c)"

definition request_filters :: "http_request \<Rightarrow> string list" where
  "request_filters rq = values_get ''filter'' (parse_query (u_rawQuery (rq_url rq)))"

text \<open>
  What is relied on of \<open>url.Parse\<close> and the configured base URL: printing and parsing a request URL again
  keeps its query, and the base URL brings no \<open>since\<close> or \<open>filter\<close> parameter of its own.
\<close>

definition base_url_ok :: "url_parser \<Rightarrow> poll_client \<Rightarrow> bool" where
  "base_url_ok P p \<longleftrightarrow>
     (\<forall>u c v. P (pc_baseURL p) = Some u \<longrightarrow> P (url_String (poll_url p c u)) = Some v \<longrightarrow>
        u_rawQuery v = u_rawQuery (poll_url p c u)) \<and>
     (\<forall>u. P (pc_baseURL p) = Some u \<longrightarrow>
        values_get ''since'' (parse_query (u_rawQuery u)) = [] \<and> values_get ''filter'' (parse_query (u_rawQuery u)) = [])"

lemma poll_url_query:
  "values_get k (parse_query (u_rawQuery (poll_url p c u))) =
     (if k = ''since'' \<and> c \<noteq> '''' then [c]
      else if k = ''filter'' then values_get k (parse_query (u_rawQuery u)) @ pc_filters p
      else values_get k (parse_query (u_rawQuery u)))"
proof -
  have d: "distinct (map fst (fold (\<lambda>f q. values_Add ''filter'' f q) (pc_filters p) (parse_query (u_rawQuery u))))"
    by (intro fold_Add_keys parse_query_distinct)
  show ?thesis
    using d keys_Set [OF d] by (auto simp: poll_url_def Let_def parse_query_Encode values_get_Set fold_Add_get)
qed

text \<open>A successful fetch comes from one request, which asks for the filters and the events since the cursor.\<close>

lemma fetch_request:
  assumes "fetch P dec do p c = Inr (nxt, events)" "base_url_ok P p"
  obtains rq body raws where "do rq = HttpResponse 200 body" "Option.bind (parse_first body) decode_poll = Some (raws, nxt)"
    "events = List.map_filter dec raws" "request_since rq = c" "request_filters rq = pc_filters p" "rq_method rq = ''GET''"
proof -
  from assms(1) obtain u v body raws where u: "P (pc_baseURL p) = Some u" "P (url_String (poll_url p c u)) = Some v"
    and do: "do (SetHeader ''Accept'' ''application/json'' (SetHeader ''Authorization'' (''Bearer '' @ pc_apiKey p)
       \<lparr>rq_method = ''GET'', rq_url = v, rq_header = [], rq_body = ''''\<rparr>)) = HttpResponse 200 body" (is "do ?rq = _")
    and b: "Option.bind (parse_first body) decode_poll = Some (raws, nxt)" "events = List.map_filter dec raws"
    by (auto simp: fetch_def authorized_get_def NewRequest_def split: option.splits sum.splits http_result.splits if_splits)
  have "u_rawQuery v = u_rawQuery (poll_url p c u)" using assms(2) u by (auto simp: base_url_ok_def)
  moreover have "values_get ''since'' (parse_query (u_rawQuery u)) = []" "values_get ''filter'' (parse_query (u_rawQuery u)) = []"
    using assms(2) u(1) by (auto simp: base_url_ok_def)
  ultimately have "request_since ?rq = c" "request_filters ?rq = pc_filters p"
    by (auto simp: request_since_def request_filters_def poll_url_query)
  then show ?thesis using that [OF do b] by simp
qed

subsection \<open>The client as a system with crashes\<close>

text \<open>\<open>sys_cursor\<close> is the cursor in memory while \<open>Run\<close> is running; \<open>sys_delivered\<close> are the events the sink has accepted.\<close>

record poll_sys =
  sys_cursor :: "string option"
  sys_files :: files
  sys_delivered :: "ce_event list"

abbreviation accepted :: "(ce_event \<times> bool) list \<Rightarrow> ce_event list" where
  "accepted l \<equiv> map fst (filter snd l)"

text \<open>
  The contract of the server. \<open>log\<close> is its sequence of event texts, \<open>pos\<close> the position a cursor stands
  for, \<open>wanted\<close> which events a list of filters selects: an answer with a next cursor contains every wanted
  event from the position asked for up to that of the next cursor.
\<close>

definition serves :: "(string \<Rightarrow> nat) \<Rightarrow> (nat \<Rightarrow> string) \<Rightarrow> (string list \<Rightarrow> string \<Rightarrow> bool) \<Rightarrow> http_client \<Rightarrow> bool" where
  "serves pos log wanted do \<longleftrightarrow>
     (\<forall>rq body raws nxt.
        do rq = HttpResponse 200 body \<longrightarrow> Option.bind (parse_first body) decode_poll = Some (raws, nxt) \<longrightarrow> nxt \<noteq> '''' \<longrightarrow>
        (\<forall>i. pos (request_since rq) \<le> i \<longrightarrow> i < pos nxt \<longrightarrow> wanted (request_filters rq) (log i) \<longrightarrow> log i \<in> set raws))"

inductive poll_step ::
  "url_parser \<Rightarrow> (string \<Rightarrow> ce_event option) \<Rightarrow> poll_client \<Rightarrow> (http_client \<Rightarrow> bool) \<Rightarrow> poll_sys \<Rightarrow> poll_sys \<Rightarrow> bool"
  for P dec p server
where
  boot: "sys_cursor s = None \<Longrightarrow>
    poll_step P dec p server s (s\<lparr>sys_cursor := Some (start_cursor read_error p (sys_files s))\<rparr>)"
| tick: "sys_cursor s = Some c \<Longrightarrow> server do \<Longrightarrow> poll_tick P dec do emit r p (c, sys_files s) = (c', fs', l) \<Longrightarrow>
    poll_step P dec p server s \<lparr>sys_cursor = Some c', sys_files = fs', sys_delivered = sys_delivered s @ accepted l\<rparr>"
| stop: "sys_cursor s = Some c \<Longrightarrow> poll_step P dec p server s (s\<lparr>sys_cursor := None\<rparr>)"
| crash_emitting: "sys_cursor s = Some c \<Longrightarrow> server do \<Longrightarrow> fetch P dec do p c = Inr (nxt, events) \<Longrightarrow>
    emit_batch emit 0 events = (l, ok) \<Longrightarrow>
    poll_step P dec p server s (s\<lparr>sys_cursor := None, sys_delivered := sys_delivered s @ accepted (take n l)\<rparr>)"
| crash_writing: "sys_cursor s = Some c \<Longrightarrow> server do \<Longrightarrow> fetch P dec do p c = Inr (nxt, events) \<Longrightarrow>
    emit_batch emit 0 events = (l, True) \<Longrightarrow> nxt \<noteq> '''' \<Longrightarrow> nxt \<noteq> c \<Longrightarrow>
    fs' \<in> set (fst (writeCursor r p nxt (sys_files s))) \<Longrightarrow>
    poll_step P dec p server s \<lparr>sys_cursor = None, sys_files = fs', sys_delivered = sys_delivered s @ accepted l\<rparr>"

inductive_cases poll_stepE: "poll_step P dec p server s s'"

lemma emit_batch_ok: "emit_batch emit i evs = (l, True) \<Longrightarrow> accepted l = evs"
  by (induction emit i evs arbitrary: l rule: emit_batch.induct) (auto split: if_splits prod.splits)

text \<open>Every wanted event before the position of a cursor has been delivered.\<close>

definition covered ::
  "(string \<Rightarrow> nat) \<Rightarrow> (nat \<Rightarrow> string) \<Rightarrow> (string list \<Rightarrow> string \<Rightarrow> bool) \<Rightarrow> (string \<Rightarrow> ce_event option) \<Rightarrow> poll_client \<Rightarrow>
   ce_event list \<Rightarrow> string \<Rightarrow> bool" where
  "covered pos log wanted dec p D c \<longleftrightarrow>
     (\<forall>i ev. i < pos c \<longrightarrow> wanted (pc_filters p) (log i) \<longrightarrow> dec (log i) = Some ev \<longrightarrow> ev \<in> set D)"

lemma map_filter_mem: "x \<in> set (List.map_filter f xs) \<longleftrightarrow> (\<exists>y \<in> set xs. f y = Some x)"
  by (induction xs) (auto simp: List.map_filter_simps split: option.splits)

lemma covered_mono: "covered pos log wanted dec p D c \<Longrightarrow> set D \<subseteq> set D' \<Longrightarrow> covered pos log wanted dec p D' c"
  by (auto simp: covered_def)

lemma covered_next:
  assumes "fetch P dec do p c = Inr (nxt, events)" "base_url_ok P p" "serves pos log wanted do" "nxt \<noteq> ''''"
    and "covered pos log wanted dec p D c"
  shows "covered pos log wanted dec p (D @ events) nxt"
proof -
  from fetch_request [OF assms(1,2)] obtain rq body raws where rq: "do rq = HttpResponse 200 body"
    "Option.bind (parse_first body) decode_poll = Some (raws, nxt)" "events = List.map_filter dec raws"
    "request_since rq = c" "request_filters rq = pc_filters p"
    by metis
  have "log i \<in> set raws" if "pos c \<le> i" "i < pos nxt" "wanted (pc_filters p) (log i)" for i
    using assms(3,4) rq(1,2,4,5) that by (auto simp: serves_def)
  then show ?thesis
    using assms(5) unfolding covered_def rq(3)
    by (metis Un_iff linorder_not_less map_filter_mem set_append)
qed

definition poll_inv ::
  "(string \<Rightarrow> nat) \<Rightarrow> (nat \<Rightarrow> string) \<Rightarrow> (string list \<Rightarrow> string \<Rightarrow> bool) \<Rightarrow> (string \<Rightarrow> ce_event option) \<Rightarrow> poll_client \<Rightarrow>
   poll_sys \<Rightarrow> bool" where
  "poll_inv pos log wanted dec p s \<longleftrightarrow>
     covered pos log wanted dec p (sys_delivered s) (start_cursor None p (sys_files s)) \<and>
     (\<forall>c. sys_cursor s = Some c \<longrightarrow> covered pos log wanted dec p (sys_delivered s) c)"

lemma start_cursor_cases: "start_cursor e p fs = '''' \<or> start_cursor e p fs = start_cursor None p fs"
  by (auto simp: start_cursor_def readCursor_def split: option.split)

lemma poll_step_inv:
  assumes "poll_step P dec p (serves pos log wanted) s s'" "poll_inv pos log wanted dec p s" "base_url_ok P p" "pos '''' = 0"
  shows "poll_inv pos log wanted dec p s'"
  using assms(1)
proof cases
  case (boot read_error)
  have "covered pos log wanted dec p D ''''" for D using assms(4) by (simp add: covered_def)
  with boot assms(2) start_cursor_cases [of read_error p "sys_files s"] show ?thesis by (auto simp: poll_inv_def)
next
  case (tick c do emit r c' fs' l)
  note inv = assms(2) [unfolded poll_inv_def]
  have old: "covered pos log wanted dec p (sys_delivered s @ accepted l) c"
    "covered pos log wanted dec p (sys_delivered s @ accepted l) (start_cursor None p (sys_files s))"
    using inv tick(2) by (auto intro: covered_mono)
  consider "c' = c" "fs' = sys_files s"
    | nxt where "fetch P dec do p c = Inr (nxt, accepted l)" "nxt \<noteq> ''''" "c' = nxt" "fs' = last (fst (writeCursor r p nxt (sys_files s)))"
    using tick(4) emit_batch_ok by (fastforce simp: poll_tick_def Let_def split: sum.splits prod.splits if_splits)
  then show ?thesis
  proof cases
    case 1
    with tick(1) old show ?thesis by (simp add: poll_inv_def)
  next
    case (2 nxt)
    have new: "covered pos log wanted dec p (sys_delivered s @ accepted l) nxt"
      using covered_next [OF 2(1) assms(3) tick(3) 2(2)] inv tick(2) by simp
    show ?thesis
      using cursor.final_keeps [of "covered pos log wanted dec p (sys_delivered s @ accepted l)", OF old(2) new]
      by (simp add: poll_inv_def tick(1) 2 new)
  qed
next
  case (stop c)
  with assms(2) show ?thesis by (simp add: poll_inv_def)
next
  case (crash_emitting c do nxt events emit l ok n)
  with assms(2) show ?thesis by (auto simp: poll_inv_def intro: covered_mono)
next
  case (crash_writing c do nxt events emit l fs' r)
  note inv = assms(2) [unfolded poll_inv_def]
  have a: "accepted l = events" using emit_batch_ok [OF crash_writing(5)] .
  have "covered pos log wanted dec p (sys_delivered s @ events) nxt"
    using covered_next [OF crash_writing(4) assms(3) crash_writing(3,6)] inv crash_writing(2) by simp
  moreover have "covered pos log wanted dec p (sys_delivered s @ events) (start_cursor None p (sys_files s))"
    using inv by (auto intro: covered_mono)
  ultimately show ?thesis
    using cursor.states_keep [of "covered pos log wanted dec p (sys_delivered s @ events)", OF _ _ crash_writing(8)]
    by (simp add: poll_inv_def crash_writing(1) a)
qed

subsection \<open>Properties\<close>

text \<open>
  C2: At-least-once delivery. However the poll client runs, is stopped, crashes in the middle of a batch or
  of a cursor write and is restarted, with read errors, failing sinks and failing file operations in any
  combination: every event of the server's log that the filters want, that decodes, and that lies before
  the persisted cursor or before the cursor in memory, has been accepted by the sink.
\<close>
theorem at_least_once:
  assumes "(poll_step P dec p (serves pos log wanted))\<^sup>*\<^sup>* s0 s" "base_url_ok P p" "pos '''' = 0"
    and "sys_cursor s0 = None" "sys_files s0 (pc_cursorPath p) = None"
    and "i < pos (start_cursor None p (sys_files s)) \<or> (\<exists>c. sys_cursor s = Some c \<and> i < pos c)"
    and "wanted (pc_filters p) (log i)" "dec (log i) = Some ev"
  shows "ev \<in> set (sys_delivered s)"
proof -
  have "poll_inv pos log wanted dec p s"
    using assms(1)
  proof (induction rule: rtranclp_induct)
    case base
    have "start_cursor None p (sys_files s0) = ''''" using assms(5) by (simp add: start_cursor_def readCursor_def)
    then show ?case using assms(3,4) by (simp add: poll_inv_def covered_def)
  next
    case (step s' s'')
    then show ?case using poll_step_inv assms(2,3) by blast
  qed
  then show ?thesis using assms(6-8) by (auto simp: poll_inv_def covered_def)
qed

definition demo_client :: poll_client where
  "demo_client = \<lparr>pc_baseURL = '''', pc_apiKey = ''key'', pc_filters = [''a*''], pc_interval = seconds 5, pc_cursorPath = ''/c''\<rparr>"

definition demo_parse :: url_parser where
  "demo_parse s = Some (empty_url\<lparr>u_rawQuery := drop 1 (dropWhile (\<lambda>c. c \<noteq> CHR ''?'') s)\<rparr>)"

definition demo_body :: string where
  "demo_body = ''{'' @ encode_string ''events'' @ '':['' @ encode_string ''e1'' @ ''],'' @
     encode_string ''next_cursor'' @ '':'' @ encode_string ''1'' @ ''}''"

definition demo_os :: os_results where
  "demo_os = \<lparr>os_mkdir = None, os_create = None, os_random = 7, os_write = None, os_close = None, os_rename = None, os_removed = True\<rparr>"

lemma demo_body_decodes: "Option.bind (parse_first demo_body) decode_poll = Some ([encode_string ''e1''], ''1'')"
  by code_simp

lemma demo_fetch: "fetch demo_parse (\<lambda>_. Some demo_event) (\<lambda>_. HttpResponse 200 demo_body) demo_client c = Inr (''1'', [demo_event])"
  by (simp add: fetch_def authorized_get_def NewRequest_def demo_parse_def demo_body_decodes List.map_filter_simps)

lemma demo_poll_path: "path_Join '''' ''/api/v1/cloudevents/poll'' = ''/api/v1/cloudevents/poll''"
  by code_simp

lemma demo_base_url_ok: "base_url_ok demo_parse demo_client"
proof -
  have esc: "escape encodePath ''/api/v1/cloudevents/poll'' = ''/api/v1/cloudevents/poll''" by code_simp
  have u: "demo_parse '''' = Some empty_url" by (simp add: demo_parse_def empty_url_def)
  have q: "u_rawQuery empty_url = ''''" by (simp add: empty_url_def)
  have "url_String (poll_url demo_client c empty_url) =
      ''/api/v1/cloudevents/poll'' @ (let q = u_rawQuery (poll_url demo_client c empty_url) in if q = '''' then '''' else ''?'' @ q)" for c
    by (simp add: url_String_def Let_def poll_url_def url_authority_def EscapedPath_def empty_url_def demo_poll_path esc)
  then have "demo_parse (url_String (poll_url demo_client c empty_url)) =
      Some (empty_url\<lparr>u_rawQuery := u_rawQuery (poll_url demo_client c empty_url)\<rparr>)" for c
    by (simp add: demo_parse_def Let_def)
  then show ?thesis by (auto simp: base_url_ok_def demo_client_def u q parse_query_def values_get_def)
qed

theorem at_least_once_witness:
  "\<exists>s. (poll_step demo_parse (\<lambda>_. Some demo_event) demo_client
          (serves (\<lambda>c. if c = ''1'' then 1 else 0) (\<lambda>_. encode_string ''e1'') (\<lambda>_ _. True)))\<^sup>*\<^sup>*
        \<lparr>sys_cursor = None, sys_files = (\<lambda>_. None), sys_delivered = []\<rparr> s \<and>
     sys_cursor s = Some ''1'' \<and> demo_event \<in> set (sys_delivered s)"
proof -
  let ?pos = "\<lambda>c::string. if c = ''1'' then 1 else 0 :: nat" and ?log = "\<lambda>_::nat. encode_string ''e1''"
  let ?step = "poll_step demo_parse (\<lambda>_. Some demo_event) demo_client (serves ?pos ?log (\<lambda>_ _. True))"
  let ?s0 = "\<lparr>sys_cursor = None, sys_files = (\<lambda>_. None), sys_delivered = []\<rparr>"
  have srv: "serves ?pos ?log (\<lambda>_ _. True) (\<lambda>_. HttpResponse 200 demo_body)"
    by (auto simp: serves_def demo_body_decodes)
  let ?s1 = "?s0\<lparr>sys_cursor := Some (start_cursor None demo_client (\<lambda>_. None))\<rparr>"
  have boot: "?step ?s0 ?s1"
    using poll_step.boot [of ?s0 demo_parse _ demo_client _ None] by simp
  have c1: "sys_cursor ?s1 = Some ''''" by (simp add: start_cursor_def readCursor_def)
  have t: "poll_tick demo_parse (\<lambda>_. Some demo_event) (\<lambda>_. HttpResponse 200 demo_body) (\<lambda>_ _. True) demo_os demo_client ('''', sys_files ?s1) =
      (''1'', last (fst (writeCursor demo_os demo_client ''1'' (sys_files ?s1))), [(demo_event, True)])"
    by (simp add: poll_tick_def demo_fetch)
  let ?s2 = "\<lparr>sys_cursor = Some ''1'', sys_files = last (fst (writeCursor demo_os demo_client ''1'' (sys_files ?s1))),
     sys_delivered = sys_delivered ?s1 @ accepted [(demo_event, True)]\<rparr>"
  have "?step ?s1 ?s2"
    by (rule poll_step.tick [where server = "serves ?pos ?log (\<lambda>_ _. True)", OF c1 srv t])
  with boot have run: "?step\<^sup>*\<^sup>* ?s0 ?s2" by (meson rtranclp.rtrancl_into_rtrancl rtranclp.rtrancl_refl)
  have "demo_event \<in> set (sys_delivered ?s2)"
    by (rule at_least_once [OF run demo_base_url_ok, where i = 0]) simp_all
  with run show ?thesis by (intro exI [of _ ?s2]) simp
qed

text \<open>
  C17: A crash at any point of a cursor write leaves the old cursor or the new one in the file, never a part;
  a write that reports success has stored the new cursor, one that reports an error has kept the old one.
\<close>
theorem cursor_write_atomic:
  "(\<forall>s \<in> set (fst (writeCursor r p cursor fs)). s (pc_cursorPath p) \<in> {fs (pc_cursorPath p), Some cursor}) \<and>
   (snd (writeCursor r p cursor fs) = None \<and> pc_cursorPath p \<noteq> '''' \<longrightarrow>
     last (fst (writeCursor r p cursor fs)) (pc_cursorPath p) = Some cursor) \<and>
   (snd (writeCursor r p cursor fs) \<noteq> None \<longrightarrow> last (fst (writeCursor r p cursor fs)) (pc_cursorPath p) = fs (pc_cursorPath p))"
  using writeCursor_states [of r p cursor fs "fst (writeCursor r p cursor fs)" "snd (writeCursor r p cursor fs)"] by auto

theorem cursor_write_atomic_witness:
  "last (fst (writeCursor demo_os demo_client ''42'' (\<lambda>_. None))) ''/c'' = Some ''42''"
proof -
  have "snd (writeCursor demo_os demo_client ''42'' (\<lambda>_. None)) = None" by (simp add: writeCursor_def demo_os_def demo_client_def
      temp_path_def filepath_Base_def strip_slashes_def Let_def)
  then show ?thesis using cursor_write_atomic [of demo_os demo_client "''42''" "\<lambda>_. None"] by (simp add: demo_client_def)
qed

text \<open>
  The cursor is committed only when every event of the batch was accepted: if a tick moves the cursor
  in memory or changes the cursor file, the fetch succeeded, every fetched event was sent once, in order
  and successfully, and the new cursor is the server's next cursor.
\<close>
theorem commit_only_after_delivery:
  assumes "poll_tick P dec do emit r p (cursor, fs) = (cursor', fs', l)"
    and "cursor' \<noteq> cursor \<or> fs' (pc_cursorPath p) \<noteq> fs (pc_cursorPath p)"
  shows "\<exists>events. fetch P dec do p cursor = Inr (cursor', events) \<and> l = map (\<lambda>ev. (ev, True)) events \<and> cursor' \<noteq> ''''"
proof -
  have all: "emit_batch emit i evs = (l, True) \<Longrightarrow> l = map (\<lambda>ev. (ev, True)) evs" for i evs l
    by (induction emit i evs arbitrary: l rule: emit_batch.induct) (auto split: if_splits prod.splits)
  from assms show ?thesis
    by (auto simp: poll_tick_def Let_def all split: sum.splits prod.splits if_splits)
qed

theorem commit_only_after_delivery_witness:
  "\<exists>events. fetch demo_parse (\<lambda>_. Some demo_event) (\<lambda>_. HttpResponse 200 demo_body) demo_client '''' = Inr (''1'', events)"
proof -
  obtain c' fs' l where t: "poll_tick demo_parse (\<lambda>_. Some demo_event) (\<lambda>_. HttpResponse 200 demo_body) (\<lambda>_ _. True) demo_os demo_client
      ('''', \<lambda>_. None) = (c', fs', l)" "c' = ''1''"
    by (simp add: poll_tick_def demo_fetch)
  from commit_only_after_delivery [OF t(1)] t(2) show ?thesis by auto
qed

text \<open>
  The request of a poll asks for exactly what the client was configured with: reading the query of its
  URL gives the base URL's own parameters, every configured filter in order, and the cursor as \<open>since\<close> exactly
  when there is one.
\<close>
theorem poll_query_round_trip:
  "values_get ''filter'' (parse_query (u_rawQuery (poll_url p cursor u))) =
     values_get ''filter'' (parse_query (u_rawQuery u)) @ pc_filters p \<and>
   values_get ''since'' (parse_query (u_rawQuery (poll_url p cursor u))) =
     (if cursor = '''' then values_get ''since'' (parse_query (u_rawQuery u)) else [cursor])"
  by (simp_all add: poll_url_query)

end
