(* ===== verification/Adapter_Stream.thy ===== *)
theory Adapter_Stream
  imports Adapter_Sink
begin

text \<open>
  The stream client of \<open>cmd/receive-adapter/source/stream.go\<close>: one connection with its line scanner and
  decode loop, and the reconnect loop with exponential backoff. The HTTP client (whose response carries the
  bytes read and the error that ended the reading), \<open>url.Parse\<close>, the SDK's decoder and the callback are
  parameters. Shown: which events a connection emits and in which order, that a failed one is neither
  retried nor stops the stream, and that the waits between connections stay between 250 milliseconds and
  30 seconds and follow the doubling schedule.
\<close>

record stream_client =
  sm_baseURL :: string
  sm_apiKey :: string
  sm_filters :: "string list"

definition NewStreamClient :: "config \<Rightarrow> stream_client" where
  "NewStreamClient cfg = \<lparr>sm_baseURL = cfg_baseURL cfg, sm_apiKey = cfg_APIKey cfg, sm_filters = cfg_eventFilters cfg\<rparr>"

abbreviation milliseconds :: "duration \<Rightarrow> duration" where
  "milliseconds n \<equiv> n * 1000000"

definition streamBackoffInitial :: duration where
  "streamBackoffInitial = milliseconds 250"

definition streamBackoffCap :: duration where
  "streamBackoffCap = seconds 30"

subsection \<open>bufio.Scanner with ScanLines\<close>

definition maxTokenSize :: nat where
  "maxTokenSize = 4 * 1024 * 1024"

definition drop_cr :: "string \<Rightarrow> string" where
  "drop_cr l = (if l \<noteq> '''' \<and> last l = CHR 0x0D then butlast l else l)"

text \<open>
  The tokens of a body and whether scanning stopped at a line that does not fit into the buffer. The text
  behind the last line break is a token unless it is empty.
\<close>

fun scan_pieces :: "string list \<Rightarrow> string list \<times> bool" where
  "scan_pieces [] = ([], False)"
| "scan_pieces (l # ls) =
     (if length l \<ge> maxTokenSize then ([], True)
      else if l = '''' \<and> ls = [] then ([], False)
      else (let (ts, long) = scan_pieces ls in (drop_cr l # ts, long)))"

definition scan_lines :: "string \<Rightarrow> string list \<times> bool" where
  "scan_lines body = scan_pieces (split_on (CHR 0x0A) body)"

subsection \<open>One connection\<close>

datatype stream_error =
    StreamFetch fetch_error
  | TokenTooLong
  | ReadFailed string

type_synonym stream_transport = "http_request \<Rightarrow> http_result \<times> string option"

definition stream_url :: "stream_client \<Rightarrow> url \<Rightarrow> url" where
  "stream_url s u =
     (let u = u\<lparr>u_path := path_Join (u_path u) ''/api/v1/cloudevents/stream''\<rparr>
      in if length (sm_filters s) > 0
         then u\<lparr>u_rawQuery := values_Encode (fold (\<lambda>f q. values_Add ''filter'' f q) (sm_filters s) (parse_query (u_rawQuery u)))\<rparr>
         else u)"

text \<open>The decode loop: the attempts made, each with its success, and whether an event was seen.\<close>

fun stream_loop ::
  "(string \<Rightarrow> ce_event option) \<Rightarrow> (nat \<Rightarrow> ce_event \<Rightarrow> bool) \<Rightarrow> nat \<Rightarrow> string list \<Rightarrow> (ce_event \<times> bool) list \<times> bool" where
  "stream_loop dec emit i [] = ([], False)"
| "stream_loop dec emit i (line # ls) =
     (if length (TrimSpace line) = 0 then stream_loop dec emit i ls
      else (case dec line of
              None \<Rightarrow> stream_loop dec emit i ls
            | Some ev \<Rightarrow> ((ev, emit i ev) # fst (stream_loop dec emit (Suc i) ls), True)))"

record stream_outcome =
  so_log :: "(ce_event \<times> bool) list"
  so_gotEvent :: bool
  so_err :: "stream_error option"

abbreviation no_stream :: "fetch_error \<Rightarrow> stream_outcome" where
  "no_stream e \<equiv> \<lparr>so_log = [], so_gotEvent = False, so_err = Some (StreamFetch e)\<rparr>"

definition streamOnce ::
  "url_parser \<Rightarrow> (string \<Rightarrow> ce_event option) \<Rightarrow> stream_transport \<Rightarrow> (nat \<Rightarrow> ce_event \<Rightarrow> bool) \<Rightarrow> stream_client \<Rightarrow> stream_outcome" where
  "streamOnce url_Parse dec do emit s =
     (case url_Parse (sm_baseURL s) of
        None \<Rightarrow> no_stream ParseBaseURL
      | Some u \<Rightarrow>
          (case NewRequest url_Parse ''GET'' (url_String (stream_url s u)) '''' of
             None \<Rightarrow> no_stream NewRequestFailed
           | Some rq \<Rightarrow>
               (case do (SetHeader ''Accept'' ''application/cloudevents-batch+json''
                          (SetHeader ''Authorization'' (''Bearer '' @ sm_apiKey s) rq)) of
                  (HttpError e, _) \<Rightarrow> no_stream (HttpDo e)
                | (HttpResponse code body, read_error) \<Rightarrow>
                    if code \<noteq> 200 then no_stream (UnexpectedStatus code (take 65536 body))
                    else
                      let (ts, long) = scan_lines body;
                          (log, got) = stream_loop dec emit 0 ts
                      in \<lparr>so_log = log, so_gotEvent = got,
                          so_err = (if long then Some TokenTooLong else map_option ReadFailed read_error)\<rparr>)))"

text \<open>\<open>stream\<close> is one connection without the signal for the backoff.\<close>

definition stream :: "url_parser \<Rightarrow> (string \<Rightarrow> ce_event option) \<Rightarrow> stream_transport \<Rightarrow> (nat \<Rightarrow> ce_event \<Rightarrow> bool) \<Rightarrow> stream_client \<Rightarrow>
  stream_error option" where
  "stream url_Parse dec do emit s = so_err (streamOnce url_Parse dec do emit s)"

subsection \<open>The reconnect loop\<close>

text \<open>
  \<open>run\<close> over the outcomes of the connections it makes before the context ends: the wait behind each of
  them. The state of the loop is the backoff.
\<close>

definition after_connection :: "bool \<Rightarrow> duration \<Rightarrow> duration \<times> duration" where
  "after_connection gotEvent backoff =
     (let backoff = (if gotEvent then streamBackoffInitial else backoff);
          doubled = backoff * 2
      in (backoff, if sint doubled > sint streamBackoffCap then streamBackoffCap else doubled))"

fun stream_run :: "duration \<Rightarrow> stream_outcome list \<Rightarrow> duration list" where
  "stream_run backoff [] = []"
| "stream_run backoff (c # cs) =
     (let (wait, nxt) = after_connection (so_gotEvent c) backoff in wait # stream_run nxt cs)"

subsection \<open>Laws of the backoff\<close>

text \<open>The wait the schedule calls for after \<open>k\<close> doublings, in nanoseconds.\<close>

definition backoff_ns :: "nat \<Rightarrow> int" where
  "backoff_ns k = min (250000000 * 2 ^ k) 30000000000"

text \<open>The number of doublings before each connection's wait: counted from the last connection that saw an event.\<close>

fun doublings :: "nat \<Rightarrow> stream_outcome list \<Rightarrow> nat list" where
  "doublings k [] = []"
| "doublings k (c # cs) = (let m = (if so_gotEvent c then 0 else k) in m # doublings (Suc m) cs)"

lemma backoff_ns_bounds: "250000000 \<le> backoff_ns k" "backoff_ns k \<le> 30000000000"
  by (simp_all add: backoff_ns_def)

lemma sint_double:
  assumes "0 \<le> sint b" "sint b \<le> 30000000000"
  shows "sint (b * 2 :: duration) = 2 * sint b"
proof -
  have "sint (b * 2 :: duration) = signed_take_bit 63 (sint b * sint (2 :: duration))"
    by (simp add: sint_word_ariths)
  also have "\<dots> = signed_take_bit 63 (2 * sint b)" by (simp add: mult.commute)
  also have "\<dots> = 2 * sint b" by (rule signed_take_bit_int_eq_self) (use assms in auto)
  finally show ?thesis .
qed

lemma sint_backoff_constants [simp]:
  "sint streamBackoffInitial = 250000000" "sint streamBackoffCap = 30000000000"
  by (simp_all add: streamBackoffInitial_def streamBackoffCap_def)

lemma after_connection_backoff:
  fixes got :: bool and k :: nat
  assumes "sint b = backoff_ns k"
  defines "m \<equiv> (if got then 0 else k)"
  shows "sint (fst (after_connection got b)) = backoff_ns m \<and> sint (snd (after_connection got b)) = backoff_ns (Suc m)"
proof -
  let ?b = "if got then streamBackoffInitial else b"
  have b: "sint ?b = backoff_ns m" using assms by (simp add: m_def backoff_ns_def)
  have d: "sint (?b * 2) = 2 * backoff_ns m"
    using sint_double [of ?b] backoff_ns_bounds [of m] b by simp
  have "sint (if sint (?b * 2) > sint streamBackoffCap then streamBackoffCap else ?b * 2) = backoff_ns (Suc m)"
    using d by (auto simp: backoff_ns_def min_def split: if_splits)
  with b show ?thesis by (simp add: after_connection_def Let_def)
qed

lemma stream_run_doublings:
  "sint b = backoff_ns k \<Longrightarrow> map sint (stream_run b cs) = map backoff_ns (doublings k cs)"
proof (induction cs arbitrary: b k)
  case (Cons c cs)
  from after_connection_backoff [OF Cons.prems, of "so_gotEvent c"] Cons.IH show ?case
    by (simp add: case_prod_unfold Let_def)
qed simp

subsection \<open>Laws of one connection\<close>

text \<open>The events of a list of lines: blank and undecodable lines are passed over.\<close>

definition line_events :: "(string \<Rightarrow> ce_event option) \<Rightarrow> string list \<Rightarrow> ce_event list" where
  "line_events dec ls = List.map_filter dec (filter (\<lambda>l. TrimSpace l \<noteq> '''') ls)"

lemma stream_loop_events:
  "map fst (fst (stream_loop dec emit i ls)) = line_events dec ls \<and>
   (snd (stream_loop dec emit i ls) \<longleftrightarrow> line_events dec ls \<noteq> [])"
  by (induction dec emit i ls rule: stream_loop.induct)
     (auto simp: line_events_def List.map_filter_simps split: option.splits)

lemma stream_loop_flags:
  "n < length (fst (stream_loop dec emit i ls)) \<Longrightarrow>
     fst (stream_loop dec emit i ls) ! n =
       (line_events dec ls ! n, emit (i + n) (line_events dec ls ! n))"
  by (induction dec emit i ls arbitrary: n rule: stream_loop.induct)
     (auto simp: line_events_def List.map_filter_simps nth_Cons' split: option.splits)

lemma scan_pieces_lines:
  "\<forall>l \<in> set ls. length l < maxTokenSize \<and> l \<noteq> '''' \<and> last l \<noteq> CHR 0x0D \<Longrightarrow> scan_pieces (ls @ ['''']) = (ls, False)"
  by (induction ls) (auto simp: drop_cr_def maxTokenSize_def)

lemma split_on_lines:
  "\<forall>l \<in> set ls. CHR 0x0A \<notin> set l \<Longrightarrow> split_on (CHR 0x0A) (concat (map (\<lambda>l. l @ [CHR 0x0A]) ls)) = ls @ ['''']"
  by (induction ls) (auto simp: split_on_append_sep)

subsection \<open>Properties\<close>

text \<open>
  C31: The waits between connections, computed in 64-bit arithmetic, are those of the abstract schedule:
  250 milliseconds doubled once for every further connection without an event, never more than 30 seconds,
  and back to 250 milliseconds after a connection that saw one. In particular no wait is shorter than 250
  milliseconds or longer than 30 seconds.
\<close>
theorem backoff_schedule:
  "map sint (stream_run streamBackoffInitial cs) = map backoff_ns (doublings 0 cs) \<and>
   list_all (\<lambda>w. 250000000 \<le> sint w \<and> sint w \<le> 30000000000) (stream_run streamBackoffInitial cs)"
proof -
  have eq: "map sint (stream_run streamBackoffInitial cs) = map backoff_ns (doublings 0 cs)"
    by (rule stream_run_doublings) (simp add: backoff_ns_def)
  have "250000000 \<le> sint w \<and> sint w \<le> 30000000000" if "w \<in> set (stream_run streamBackoffInitial cs)" for w
  proof -
    from that have "sint w \<in> set (map sint (stream_run streamBackoffInitial cs))" by simp
    then show ?thesis unfolding eq using backoff_ns_bounds by auto
  qed
  then show ?thesis using eq by (simp add: list_all_iff)
qed

text \<open>
  C30: A connection that serves well-formed lines emits the event of every decodable line exactly once and
  in order, whatever the callback answers: a failed event is neither retried nor does it stop the stream.
  The backoff is reset exactly when there was a decodable line, delivered or not.
\<close>
theorem stream_emits_lines:
  assumes "url_Parse (sm_baseURL s) = Some u" "url_Parse (url_String (stream_url s u)) = Some v"
    and "\<And>rq. do rq = (HttpResponse 200 (concat (map (\<lambda>l. l @ [CHR 0x0A]) ls)), read_error)"
    and "\<forall>l \<in> set ls. length l < maxTokenSize \<and> CHR 0x0A \<notin> set l \<and> TrimSpace l \<noteq> '''' \<and> last l \<noteq> CHR 0x0D"
    and "streamOnce url_Parse dec do emit s = out"
  shows "map fst (so_log out) = List.map_filter dec ls \<and>
    (\<forall>n < length (so_log out). snd (so_log out ! n) = emit n (fst (so_log out ! n))) \<and>
    (so_gotEvent out \<longleftrightarrow> List.map_filter dec ls \<noteq> []) \<and> so_err out = map_option ReadFailed read_error"
proof -
  have ne: "l \<in> set ls \<Longrightarrow> l \<noteq> ''''" for l using assms(4) by auto
  have "scan_lines (concat (map (\<lambda>l. l @ [CHR 0x0A]) ls)) = (ls, False)"
    using assms(4) ne by (simp add: scan_lines_def split_on_lines scan_pieces_lines)
  then have out: "so_log out = fst (stream_loop dec emit 0 ls)" "so_gotEvent out = snd (stream_loop dec emit 0 ls)"
      "so_err out = map_option ReadFailed read_error"
    using assms(1-3,5) by (auto simp: streamOnce_def NewRequest_def case_prod_unfold Let_def)
  have "line_events dec ls = List.map_filter dec ls"
    using assms(4) by (simp add: line_events_def filter_id_conv)
  then show ?thesis
    using out stream_loop_events [of dec emit 0 ls] stream_loop_flags [of _ dec emit 0 ls] by auto
qed

definition demo_stream :: stream_client where
  "demo_stream = \<lparr>sm_baseURL = ''https://x'', sm_apiKey = ''key'', sm_filters = []\<rparr>"

theorem stream_emits_lines_witness:
  "map fst (so_log (streamOnce (\<lambda>_. Some empty_url) (\<lambda>l. if l = ''a'' then Some demo_event else None)
     (\<lambda>_. (HttpResponse 200 (concat (map (\<lambda>l. l @ [CHR 0x0A]) [''a'', ''b'', ''a''])), None)) (\<lambda>_ _. False) demo_stream)) =
   [demo_event, demo_event]"
proof -
  have "TrimSpace ''a'' \<noteq> ''''" "TrimSpace ''b'' \<noteq> ''''"
    by (simp_all add: no_edge_space_graph [THEN TrimSpace_id] graph_char_def)
  then show ?thesis
    using stream_emits_lines [of "\<lambda>_. Some empty_url" demo_stream empty_url empty_url
        "\<lambda>_. (HttpResponse 200 (concat (map (\<lambda>l. l @ [CHR 0x0A]) [''a'', ''b'', ''a''])), None)" "[''a'', ''b'', ''a'']" None
        "\<lambda>l. if l = ''a'' then Some demo_event else None" "\<lambda>_ _. False"]
    by (simp add: maxTokenSize_def List.map_filter_simps)
qed

end
