(* ===== verification/Adapter_Run.thy ===== *)
theory Adapter_Run
  imports Adapter_Poll Adapter_Stream
begin

text \<open>
  The adapter's core loop and entry point: \<open>cmd/receive-adapter/source/run.go\<close>, the loop of
  \<open>PollClient.Run\<close> and \<open>cmd/receive-adapter/main.go\<close>. Each turn of the loop resolves the mode and runs one
  session of the poll or the stream client under a timeout. What the outside world does during a turn
  (answers of the API server and of the sink, results of system calls, how many ticks or connections fit
  before the timeout) is the turn's input. A panic is an error value. Shown: sessions last at least a
  minute, when the loop cannot panic and an interval with which it does, and that at-least-once delivery
  holds over every mixture of sessions.
\<close>

subsection \<open>PollClient.Run\<close>

text \<open>\<open>time.NewTicker\<close> panics on a duration that is not positive.\<close>

datatype run_panic = NonPositiveTickerInterval

record tick_input =
  ti_api :: http_client
  ti_sink :: "nat \<Rightarrow> http_client"
  ti_os :: os_results

text \<open>\<open>sender i ev\<close> is the callback's answer to the \<open>i\<close>-th attempt, with the sink behaving as \<open>sinks i\<close>.\<close>

definition emit :: "url_parser \<Rightarrow> sink_client \<Rightarrow> (nat \<Rightarrow> http_client) \<Rightarrow> nat \<Rightarrow> ce_event \<Rightarrow> bool" where
  "emit url_Parse sink sinks i ev = (Send url_Parse (sinks i) sink ev = None)"

fun poll_ticks ::
  "url_parser \<Rightarrow> (string \<Rightarrow> ce_event option) \<Rightarrow> sink_client \<Rightarrow> poll_client \<Rightarrow> tick_input list \<Rightarrow> string \<times> files \<Rightarrow>
   (string \<times> files) \<times> (ce_event \<times> bool) list" where
  "poll_ticks P dec sink p [] st = (st, [])"
| "poll_ticks P dec sink p (t # ts) st =
     (let (c, fs, l) = poll_tick P dec (ti_api t) (emit P sink (ti_sink t)) (ti_os t) p st;
          (st', l') = poll_ticks P dec sink p ts (c, fs)
      in (st', l @ l'))"

definition PollClient_Run ::
  "url_parser \<Rightarrow> (string \<Rightarrow> ce_event option) \<Rightarrow> sink_client \<Rightarrow> poll_client \<Rightarrow> string option \<Rightarrow> tick_input list \<Rightarrow> files \<Rightarrow>
   run_panic + files \<times> (ce_event \<times> bool) list" where
  "PollClient_Run P dec sink p read_error ticks fs =
     (let cursor = start_cursor read_error p fs in
      if sint (pc_interval p) \<le> 0 then Inl NonPositiveTickerInterval
      else let (st, l) = poll_ticks P dec sink p ticks (cursor, fs) in Inr (snd st, l))"

subsection \<open>Run\<close>

definition MinRefreshAfter :: duration where
  "MinRefreshAfter = seconds 60"

definition ResolveErrBackoff :: duration where
  "ResolveErrBackoff = seconds 30"

record turn_input =
  tn_world :: world
  tn_read_error :: "string option"
  tn_ticks :: "tick_input list"
  tn_connections :: "(stream_transport \<times> (nat \<Rightarrow> http_client)) list"

text \<open>
  The files the adapter writes, every attempt to send with its success, the timeouts of the sessions and
  the waits after failed resolutions so far.
\<close>

record run_state =
  rs_files :: files
  rs_log :: "(ce_event \<times> bool) list"
  rs_windows :: "duration list"
  rs_backoffs :: "duration list"

definition session_window :: "mode_resolution \<Rightarrow> duration" where
  "session_window res =
     (let refresh = mr_refreshAfter res in if sint refresh < sint MinRefreshAfter then MinRefreshAfter else refresh)"

text \<open>The connections of one stream session, each with the attempts it made.\<close>

definition stream_session ::
  "url_parser \<Rightarrow> (string \<Rightarrow> ce_event option) \<Rightarrow> sink_client \<Rightarrow> stream_client \<Rightarrow> (stream_transport \<times> (nat \<Rightarrow> http_client)) list \<Rightarrow>
   stream_outcome list" where
  "stream_session P dec sink s cs = map (\<lambda>(do, sinks). streamOnce P dec do (emit P sink sinks) s) cs"

definition run_turn ::
  "url_parser \<Rightarrow> (string \<Rightarrow> ce_event option) \<Rightarrow> config \<Rightarrow> turn_input \<Rightarrow> run_state \<Rightarrow> run_panic + run_state" where
  "run_turn P dec cfg t st =
     (let sink = NewSinkClient cfg in
      case ResolveMode (tn_world t) cfg of
        Inl e \<Rightarrow> Inr (st\<lparr>rs_backoffs := rs_backoffs st @ [ResolveErrBackoff]\<rparr>)
      | Inr res \<Rightarrow>
          let st = st\<lparr>rs_windows := rs_windows st @ [session_window res]\<rparr> in
          if mr_mode res = ''poll'' then
            (let client = (NewPollClient cfg)\<lparr>pc_interval := mr_pollInterval res\<rparr> in
             case PollClient_Run P dec sink client (tn_read_error t) (tn_ticks t) (rs_files st) of
               Inl panic \<Rightarrow> Inl panic
             | Inr (fs, l) \<Rightarrow> Inr (st\<lparr>rs_files := fs, rs_log := rs_log st @ l\<rparr>))
          else if mr_mode res = ''stream'' then
            (let outs = stream_session P dec sink (NewStreamClient cfg) (tn_connections t)
             in Inr (st\<lparr>rs_log := rs_log st @ concat (map so_log outs)\<rparr>))
          else Inr st)"

text \<open>The loop ends when the context does: after the last turn of the list.\<close>

fun Run ::
  "url_parser \<Rightarrow> (string \<Rightarrow> ce_event option) \<Rightarrow> config \<Rightarrow> turn_input list \<Rightarrow> run_state \<Rightarrow> run_panic + run_state" where
  "Run P dec cfg [] st = Inr st"
| "Run P dec cfg (t # ts) st =
     (case run_turn P dec cfg t st of Inl panic \<Rightarrow> Inl panic | Inr st' \<Rightarrow> Run P dec cfg ts st')"

subsection \<open>main\<close>

definition healthz :: "int \<times> string" where "healthz = (200, ''ok'')"

definition readyz :: "int \<times> string" where "readyz = (200, ''ready'')"

definition health_routes :: "(string \<times> (int \<times> string)) list" where
  "health_routes = [(''/healthz'', healthz), (''/readyz'', readyz)]"

record health_server =
  hs_Addr :: string
  hs_Handler :: "(string \<times> (int \<times> string)) list"
  hs_ReadHeaderTimeout :: duration

definition startHealthServer :: "string \<Rightarrow> health_server" where
  "startHealthServer addr = \<lparr>hs_Addr = addr, hs_Handler = health_routes, hs_ReadHeaderTimeout = seconds 5\<rparr>"

text \<open>How the process ends: with an exit code, or in a panic.\<close>

datatype process_end = ExitConfigError config_error int | Exited run_state | Panicked run_panic

definition start_state :: "files \<Rightarrow> run_state" where
  "start_state fs = \<lparr>rs_files = fs, rs_log = [], rs_windows = [], rs_backoffs = []\<rparr>"

definition adapter_main ::
  "(string \<Rightarrow> string + duration) \<Rightarrow> url_parser \<Rightarrow> (string \<Rightarrow> ce_event option) \<Rightarrow> (string \<Rightarrow> string) \<Rightarrow> turn_input list \<Rightarrow> files \<Rightarrow>
   health_server option \<times> process_end" where
  "adapter_main ParseDuration P dec getenv turns fs =
     (case LoadConfig ParseDuration getenv of
        Inl e \<Rightarrow> (None, ExitConfigError e 2)
      | Inr cfg \<Rightarrow>
          (Some (startHealthServer (cfg_healthAddr cfg)),
           case Run P dec cfg turns (start_state fs) of Inl panic \<Rightarrow> Panicked panic | Inr st \<Rightarrow> Exited st))"

subsection \<open>Laws\<close>

lemma interval_irrelevant [simp]:
  "covered pos log wanted dec (p\<lparr>pc_interval := d\<rparr>) = covered pos log wanted dec p"
  "start_cursor e (p\<lparr>pc_interval := d\<rparr>) = start_cursor e p"
  "base_url_ok P (p\<lparr>pc_interval := d\<rparr>) = base_url_ok P p"
  by (simp_all add: covered_def start_cursor_def readCursor_def base_url_ok_def poll_url_def fun_eq_iff split: option.split)

lemma poll_ticks_inv:
  assumes "poll_ticks P dec sink p ts (c, fs) = ((c', fs'), l)" "\<forall>t \<in> set ts. serves pos log wanted (ti_api t)"
    and "poll_inv pos log wanted dec p \<lparr>sys_cursor = Some c, sys_files = fs, sys_delivered = D\<rparr>" "base_url_ok P p" "pos '''' = 0"
  shows "poll_inv pos log wanted dec p \<lparr>sys_cursor = Some c', sys_files = fs', sys_delivered = D @ accepted l\<rparr>"
  using assms(1-3)
proof (induction ts arbitrary: c fs l D)
  case (Cons t ts)
  obtain c1 fs1 l1 where t: "poll_tick P dec (ti_api t) (emit P sink (ti_sink t)) (ti_os t) p (c, fs) = (c1, fs1, l1)"
    by (metis prod_cases3)
  obtain l2 where ts: "poll_ticks P dec sink p ts (c1, fs1) = ((c', fs'), l2)" "l = l1 @ l2"
    using Cons.prems(1) t by (auto split: prod.splits)
  let ?s = "\<lparr>sys_cursor = Some c, sys_files = fs, sys_delivered = D\<rparr>"
  have "poll_step P dec p (serves pos log wanted) ?s
      \<lparr>sys_cursor = Some c1, sys_files = fs1, sys_delivered = sys_delivered ?s @ accepted l1\<rparr>"
    by (rule poll_step.tick [where do = "ti_api t"]) (use Cons.prems(2) t in auto)
  from poll_step_inv [OF this Cons.prems(3) assms(4,5)] Cons.IH [OF ts(1), of "D @ accepted l1"] Cons.prems(2) ts(2)
  show ?case by simp
qed simp

lemma PollClient_Run_covered:
  assumes "PollClient_Run P dec sink p e ticks fs = Inr (fs', l)" "\<forall>t \<in> set ticks. serves pos log wanted (ti_api t)"
    and "covered pos log wanted dec p D (start_cursor None p fs)" "base_url_ok P p" "pos '''' = 0"
  shows "covered pos log wanted dec p (D @ accepted l) (start_cursor None p fs')"
proof -
  let ?s = "\<lparr>sys_cursor = None, sys_files = fs, sys_delivered = D\<rparr>"
  obtain c' where ticks: "poll_ticks P dec sink p ticks (start_cursor e p fs, fs) = ((c', fs'), l)"
    using assms(1) by (auto simp: PollClient_Run_def Let_def split: if_splits prod.splits)
  have "poll_inv pos log wanted dec p ?s" using assms(3) by (simp add: poll_inv_def)
  from poll_step_inv [OF poll_step.boot [of ?s P dec p _ e] this assms(4,5)]
  have "poll_inv pos log wanted dec p \<lparr>sys_cursor = Some (start_cursor e p fs), sys_files = fs, sys_delivered = D\<rparr>" by simp
  from poll_ticks_inv [OF ticks assms(2) this assms(4,5)] show ?thesis by (simp add: poll_inv_def)
qed

lemma run_turn_covered:
  assumes "run_turn P dec cfg t st = Inr st'" "\<forall>k \<in> set (tn_ticks t). serves pos log wanted (ti_api k)"
    and "covered pos log wanted dec (NewPollClient cfg) (accepted (rs_log st)) (start_cursor None (NewPollClient cfg) (rs_files st))"
    and "base_url_ok P (NewPollClient cfg)" "pos '''' = 0"
  shows "covered pos log wanted dec (NewPollClient cfg) (accepted (rs_log st')) (start_cursor None (NewPollClient cfg) (rs_files st'))"
proof -
  consider fs l d where "PollClient_Run P dec (NewSinkClient cfg) ((NewPollClient cfg)\<lparr>pc_interval := d\<rparr>) (tn_read_error t)
        (tn_ticks t) (rs_files st) = Inr (fs, l)" "rs_files st' = fs" "rs_log st' = rs_log st @ l"
    | l where "rs_files st' = rs_files st" "rs_log st' = rs_log st @ l"
    using assms(1) that(2) [of "[]"] by (auto simp: run_turn_def Let_def split: sum.splits if_splits)
  then show ?thesis
  proof cases
    case (1 fs l d)
    from PollClient_Run_covered [OF 1(1) assms(2), of "accepted (rs_log st)"] assms(3-5) show ?thesis
      by (simp add: 1(2,3))
  next
    case (2 l)
    then show ?thesis using assms(3) by (auto intro: covered_mono)
  qed
qed

lemma Run_covered:
  assumes "Run P dec cfg turns st = Inr st'" "\<forall>t \<in> set turns. \<forall>k \<in> set (tn_ticks t). serves pos log wanted (ti_api k)"
    and "covered pos log wanted dec (NewPollClient cfg) (accepted (rs_log st)) (start_cursor None (NewPollClient cfg) (rs_files st))"
    and "base_url_ok P (NewPollClient cfg)" "pos '''' = 0"
  shows "covered pos log wanted dec (NewPollClient cfg) (accepted (rs_log st')) (start_cursor None (NewPollClient cfg) (rs_files st'))"
  using assms(1-3)
proof (induction turns arbitrary: st)
  case (Cons t ts)
  from Cons.prems(1) obtain st1 where st1: "run_turn P dec cfg t st = Inr st1" "Run P dec cfg ts st1 = Inr st'"
    by (auto split: sum.splits)
  from run_turn_covered [OF st1(1) _ Cons.prems(3) assms(4,5)] Cons.prems(2) Cons.IH [OF st1(2)] show ?case by simp
qed simp

text \<open>What a turn adds to the windows and waits.\<close>

lemma session_window_floor: "60000000000 \<le> sint (session_window res)"
proof -
  have "sint MinRefreshAfter = 60000000000" by (simp add: MinRefreshAfter_def)
  then show ?thesis by (simp add: session_window_def Let_def)
qed

lemma run_turn_times:
  assumes "run_turn P dec cfg t st = Inr st'" "LoadConfig PD getenv = Inr cfg"
  shows "\<exists>w. rs_windows st' = rs_windows st @ [w] \<and> 60000000000 \<le> sint w \<and> rs_backoffs st' = rs_backoffs st"
proof -
  obtain r where "ResolveMode (tn_world t) cfg = Inr r" using loaded_ResolveMode [OF assms(2)] by blast
  with assms(1) session_window_floor [of r] show ?thesis
    by (auto simp: run_turn_def Let_def split: sum.splits if_splits)
qed

lemma Run_times:
  assumes "Run P dec cfg turns st = Inr st'" "LoadConfig PD getenv = Inr cfg"
  shows "\<exists>ws. rs_windows st' = rs_windows st @ ws \<and> length ws = length turns \<and> (\<forall>w \<in> set ws. 60000000000 \<le> sint w) \<and>
    rs_backoffs st' = rs_backoffs st"
  using assms(1)
proof (induction turns arbitrary: st)
  case (Cons t ts)
  from Cons.prems obtain st1 where st1: "run_turn P dec cfg t st = Inr st1" "Run P dec cfg ts st1 = Inr st'"
    by (auto split: sum.splits)
  obtain w where w: "rs_windows st1 = rs_windows st @ [w]" "60000000000 \<le> sint w" "rs_backoffs st1 = rs_backoffs st"
    using run_turn_times [OF st1(1) assms(2)] by blast
  obtain ws where "rs_windows st' = rs_windows st1 @ ws" "length ws = length ts" "\<forall>w \<in> set ws. 60000000000 \<le> sint w"
      "rs_backoffs st' = rs_backoffs st1"
    using Cons.IH [OF st1(2)] by blast
  with w show ?case by (intro exI [of _ "w # ws"]) auto
qed simp

text \<open>A turn panics only on a resolved poll interval that is not positive.\<close>

definition good_interval :: "config \<Rightarrow> turn_input \<Rightarrow> bool" where
  "good_interval cfg t \<longleftrightarrow>
     (\<forall>r. ResolveMode (tn_world t) cfg = Inr r \<longrightarrow> mr_mode r = ''poll'' \<longrightarrow> 0 < sint (mr_pollInterval r))"

lemma run_turn_no_panic: "good_interval cfg t \<Longrightarrow> \<exists>st'. run_turn P dec cfg t st = Inr st'"
  by (auto simp: run_turn_def PollClient_Run_def good_interval_def Let_def split: sum.split prod.split)

lemma Run_no_panic: "\<forall>t \<in> set turns. good_interval cfg t \<Longrightarrow> \<exists>st'. Run P dec cfg turns st = Inr st'"
proof (induction turns arbitrary: st)
  case (Cons t ts)
  then obtain st1 where "run_turn P dec cfg t st = Inr st1" using run_turn_no_panic [of cfg t P dec st] by auto
  with Cons show ?case by simp
qed simp

subsection \<open>Properties\<close>

text \<open>
  C1: At-least-once delivery over whole lives of the adapter. Whatever sequence of poll sessions, stream
  sessions and mode changes the loop goes through, with failing sinks, failing cursor writes and unreadable
  cursor files: every event of the server's log that the configured filters want, that decodes and that
  lies before the cursor left in the file has been sent to the sink and accepted by it.
\<close>
theorem run_at_least_once:
  assumes "Run P dec cfg turns (start_state fs) = Inr st" "fs (cfg_cursorPath cfg) = None"
    and "\<forall>t \<in> set turns. \<forall>k \<in> set (tn_ticks t). serves pos log wanted (ti_api k)"
    and "base_url_ok P (NewPollClient cfg)" "pos '''' = 0"
    and "i < pos (start_cursor None (NewPollClient cfg) (rs_files st))" "wanted (cfg_eventFilters cfg) (log i)" "dec (log i) = Some ev"
  shows "(ev, True) \<in> set (rs_log st)"
proof -
  have "start_cursor None (NewPollClient cfg) fs = ''''"
    using assms(2) by (simp add: start_cursor_def readCursor_def NewPollClient_def Let_def)
  then have "covered pos log wanted dec (NewPollClient cfg) (accepted (rs_log st)) (start_cursor None (NewPollClient cfg) (rs_files st))"
    by (intro Run_covered [OF assms(1,3) _ assms(4,5)]) (simp add: start_state_def covered_def assms(5))
  moreover have "pc_filters (NewPollClient cfg) = cfg_eventFilters cfg" by (simp add: NewPollClient_def Let_def)
  ultimately have "ev \<in> set (accepted (rs_log st))" using assms(6-8) by (auto simp: covered_def)
  then show ?thesis by auto
qed

definition demo_turn :: turn_input where
  "demo_turn = \<lparr>tn_world = offline, tn_read_error = None,
     tn_ticks = [\<lparr>ti_api = (\<lambda>_. HttpResponse 200 demo_body), ti_sink = (\<lambda>_ _. HttpResponse 202 ''''), ti_os = demo_os\<rparr>],
     tn_connections = []\<rparr>"

definition demo_run_config :: config where
  "demo_run_config = demo_config\<lparr>cfg_baseURL := '''', cfg_eventFilters := [''a*''], cfg_cursorPath := ''/c''\<rparr>"

lemma demo_run_client: "(NewPollClient demo_run_config)\<lparr>pc_interval := d\<rparr> = demo_client\<lparr>pc_interval := d\<rparr>"
  by (simp add: NewPollClient_def demo_run_config_def demo_config_def config_of_def demo_client_def Let_def)

lemma demo_run_client_id: "NewPollClient demo_run_config = demo_client"
  by (simp add: NewPollClient_def demo_run_config_def demo_config_def config_of_def demo_client_def Let_def)

lemma demo_run_resolves: "ResolveMode offline demo_run_config =
    Inr \<lparr>mr_mode = ''poll'', mr_pollInterval = seconds 5, mr_refreshAfter = defaultRefreshAfter, mr_source = ''default''\<rparr>"
  by (simp add: ResolveMode_def demo_run_config_def demo_config_def config_of_def offline_def readCRModeFile_def
      resolve_server_def fetchServerHint_def)

lemma demo_emit: "emit demo_parse (NewSinkClient demo_run_config) (\<lambda>_ _. HttpResponse 202 '''') i demo_event"
  by (simp add: emit_def Send_def NewSinkClient_def demo_run_config_def demo_config_def config_of_def apply_overrides_def
      buildBinaryRequest_def NewRequest_def demo_parse_def demo_event_def classify_def)

lemma demo_write_cursor: "last (fst (writeCursor demo_os demo_client ''1'' (\<lambda>_. None))) ''/c'' = Some ''1''"
  by (simp add: writeCursor_def demo_os_def demo_client_def temp_path_def filepath_Base_def strip_slashes_def Let_def)

lemma demo_run:
  "Run demo_parse (\<lambda>_. Some demo_event) demo_run_config [demo_turn] (start_state (\<lambda>_. None)) =
     Inr \<lparr>rs_files = last (fst (writeCursor demo_os demo_client ''1'' (\<lambda>_. None))), rs_log = [(demo_event, True)],
          rs_windows = [seconds 300], rs_backoffs = []\<rparr>"
proof -
  have client: "demo_client\<lparr>pc_interval := 5000000000\<rparr> = demo_client" by (simp add: demo_client_def)
  have start: "start_cursor None demo_client (\<lambda>_. None) = ''''" by (simp add: start_cursor_def readCursor_def)
  have tick: "poll_tick demo_parse (\<lambda>_. Some demo_event) (\<lambda>_. HttpResponse 200 demo_body)
      (emit demo_parse (NewSinkClient demo_run_config) (\<lambda>_ _. HttpResponse 202 '''')) demo_os demo_client ('''', \<lambda>_. None) =
      (''1'', last (fst (writeCursor demo_os demo_client ''1'' (\<lambda>_. None))), [(demo_event, True)])"
    by (simp add: poll_tick_def demo_fetch demo_emit)
  have "PollClient_Run demo_parse (\<lambda>_. Some demo_event) (NewSinkClient demo_run_config) demo_client None (tn_ticks demo_turn) (\<lambda>_. None) =
      Inr (last (fst (writeCursor demo_os demo_client ''1'' (\<lambda>_. None))), [(demo_event, True)])"
    by (simp add: PollClient_Run_def start tick demo_turn_def) (simp add: demo_client_def)
  moreover have "tn_world demo_turn = offline" "tn_read_error demo_turn = None" by (simp_all add: demo_turn_def)
  ultimately show ?thesis
    by (simp add: run_turn_def demo_run_resolves demo_run_client client start_state_def session_window_def
        MinRefreshAfter_def defaultRefreshAfter_def)
qed

theorem run_at_least_once_witness:
  "\<exists>st. Run demo_parse (\<lambda>_. Some demo_event) demo_run_config [demo_turn] (start_state (\<lambda>_. None)) = Inr st \<and>
     start_cursor None demo_client (rs_files st) = ''1'' \<and> (demo_event, True) \<in> set (rs_log st)"
proof -
  have c: "start_cursor None demo_client (last (fst (writeCursor demo_os demo_client ''1'' (\<lambda>_. None)))) = ''1''"
    using demo_write_cursor by (simp add: start_cursor_def readCursor_def) (simp add: demo_client_def)
  have "serves (\<lambda>c. if c = ''1'' then 1 else 0) (\<lambda>_. encode_string ''e1'') (\<lambda>_ _. True) (\<lambda>_. HttpResponse 200 demo_body)"
    by (auto simp: serves_def demo_body_decodes)
  then have "(demo_event, True) \<in> set (rs_log \<lparr>rs_files = last (fst (writeCursor demo_os demo_client ''1'' (\<lambda>_. None))),
      rs_log = [(demo_event, True)], rs_windows = [seconds 300], rs_backoffs = []\<rparr>)"
    using c by (intro run_at_least_once [OF demo_run, where i = 0 and pos = "\<lambda>c. if c = ''1'' then 1 else 0"
        and log = "\<lambda>_. encode_string ''e1''" and wanted = "\<lambda>_ _. True"])
      (simp_all add: demo_run_client_id demo_base_url_ok demo_turn_def)
  with c demo_run show ?thesis by (intro exI) (auto simp del: Run.simps)
qed

text \<open>
  With a loaded configuration the loop never waits for a failed resolution: every turn is one session,
  and its window is at least one minute whatever refresh time the server recommends, so the API server is
  asked for its hint at most once per minute.
\<close>
theorem run_session_windows:
  assumes "LoadConfig PD getenv = Inr cfg" "Run P dec cfg turns (start_state fs) = Inr st"
  shows "length (rs_windows st) = length turns \<and> (\<forall>w \<in> set (rs_windows st). 60000000000 \<le> sint w) \<and> rs_backoffs st = []"
  using Run_times [OF assms(2,1)] by (auto simp: start_state_def)

theorem run_session_windows_witness:
  "\<exists>st. Run demo_parse (\<lambda>_. Some demo_event) demo_config [demo_turn] (start_state (\<lambda>_. None)) = Inr st \<and> length (rs_windows st) = 1"
proof -
  have "good_interval demo_config demo_turn"
    by (simp add: good_interval_def demo_turn_def ResolveMode_def demo_config_def config_of_def offline_def readCRModeFile_def
      resolve_server_def fetchServerHint_def)
  then obtain st where "Run demo_parse (\<lambda>_. Some demo_event) demo_config [demo_turn] (start_state (\<lambda>_. None)) = Inr st"
    using Run_no_panic [of "[demo_turn]" demo_config demo_parse "\<lambda>_. Some demo_event"] by (auto simp del: Run.simps)
  from this run_session_windows [OF demo_config_loads this] show ?thesis by auto
qed

text \<open>
  C32: The loop never panics if the configured poll interval is positive and no hint of the server exceeds
  9223372036 seconds.
\<close>
theorem run_never_panics:
  assumes "0 < sint (cfg_pollInterval cfg)"
    and "\<forall>t \<in> set turns. \<forall>h. fetchServerHint (tn_world t) cfg = Inr h \<longrightarrow> h_pollIntervalSeconds h \<le> 9223372036"
  shows "\<exists>st'. Run P dec cfg turns st = Inr st'"
  by (rule Run_no_panic) (use assms ResolveMode_interval in \<open>auto simp: good_interval_def\<close>)

theorem run_never_panics_witness:
  "\<exists>st'. Run demo_parse (\<lambda>_. Some demo_event) demo_config [demo_turn] (start_state (\<lambda>_. None)) = Inr st'"
  by (rule run_never_panics)
     (simp_all add: demo_config_def config_of_def demo_turn_def offline_def fetchServerHint_def)

text \<open>
  A poll interval of zero, which the configuration accepts, makes the adapter panic in its first poll
  session: the guard of the poll client's constructor is overwritten with the resolved interval.
\<close>
theorem zero_interval_panics:
  assumes "ParseDuration ''0s'' = Inr 0"
  shows "snd (adapter_main ParseDuration P dec
    ((\<lambda>_. '''')(''K_SINK'' := ''http://sink'', ''YIPYAP_API_KEY'' := ''key'', ''YIPYAP_MODE'' := ''poll'', ''YIPYAP_POLL_INTERVAL'' := ''0s''))
    (t # ts) fs) = Panicked NonPositiveTickerInterval"
proof -
  let ?env = "(\<lambda>_. '''')(''K_SINK'' := ''http://sink'', ''YIPYAP_API_KEY'' := ''key'', ''YIPYAP_MODE'' := ''poll'',
    ''YIPYAP_POLL_INTERVAL'' := ''0s'')"
  obtain cfg where cfg: "LoadConfig ParseDuration ?env = Inr cfg" "cfg_mode cfg = ''poll''" "cfg_pollInterval cfg = 0"
    using LoadConfig_ok [of ?env ParseDuration] assms by (simp add: overrides_ok_def interval_ok_def)
  then show ?thesis
    using ResolveMode_env [of cfg "tn_world t"] by (simp add: adapter_main_def run_turn_def PollClient_Run_def)
qed

theorem zero_interval_panics_witness:
  "snd (adapter_main (\<lambda>_. Inr 0) demo_parse (\<lambda>_. None)
    ((\<lambda>_. '''')(''K_SINK'' := ''http://sink'', ''YIPYAP_API_KEY'' := ''key'', ''YIPYAP_MODE'' := ''poll'', ''YIPYAP_POLL_INTERVAL'' := ''0s''))
    [demo_turn] (\<lambda>_. None)) = Panicked NonPositiveTickerInterval"
  using zero_interval_panics [of "\<lambda>_. Inr 0" demo_parse "\<lambda>_. None" demo_turn "[]" "\<lambda>_. None"] by simp

text \<open>
  The adapter exits with code 2 exactly when the configuration is rejected; otherwise its health server
  listens on the configured address (\<open>:8080\<close> by default) and answers the liveness and the readiness probe
  with 200.
\<close>
theorem main_health:
  "adapter_main PD P dec getenv turns fs = (hs, e) \<Longrightarrow>
     (case hs of
        None \<Rightarrow> \<exists>err. LoadConfig PD getenv = Inl err \<and> e = ExitConfigError err 2
      | Some h \<Rightarrow> \<exists>cfg. LoadConfig PD getenv = Inr cfg \<and> (\<forall>err code. e \<noteq> ExitConfigError err code) \<and>
          hs_Addr h = (if getenv ''YIPYAP_HEALTH_ADDR'' = '''' then '':8080'' else getenv ''YIPYAP_HEALTH_ADDR'') \<and>
          map_option fst (map_of (hs_Handler h) ''/healthz'') = Some 200 \<and> map_option fst (map_of (hs_Handler h) ''/readyz'') = Some 200)"
proof -
  have addr: "cfg_healthAddr cfg = defaultStr (getenv ''YIPYAP_HEALTH_ADDR'') '':8080''" if "LoadConfig PD getenv = Inr cfg" for cfg
    using that by (auto simp: LoadConfig_def Let_def load_overrides_def load_interval_def split: if_splits sum.splits option.splits)
  show "adapter_main PD P dec getenv turns fs = (hs, e) \<Longrightarrow> ?thesis"
    by (auto simp: adapter_main_def startHealthServer_def health_routes_def healthz_def readyz_def addr defaultStr_def split: sum.splits)
qed

theorem main_health_witness:
  "\<exists>h e. adapter_main (\<lambda>_. Inl ''bad'') demo_parse (\<lambda>_. None)
      (\<lambda>k. if k = ''K_SINK'' then ''http://sink'' else if k = ''YIPYAP_API_KEY'' then ''key'' else '''') [] (\<lambda>_. None) = (Some h, e) \<and>
    hs_Addr h = '':8080''"
proof -
  let ?env = "\<lambda>k. if k = ''K_SINK'' then ''http://sink'' else if k = ''YIPYAP_API_KEY'' then ''key'' else ''''"
  obtain h e where "adapter_main (\<lambda>_. Inl ''bad'') demo_parse (\<lambda>_. None) ?env [] (\<lambda>_. None) = (Some h, e)"
    by (simp add: adapter_main_def demo_config_loads)
  from this main_health [OF this] show ?thesis by auto
qed

end
