(* ===== verification/Deep_Copy.thy ===== *)
theory Deep_Copy
  imports Source_Types
begin

text \<open>
  The generated deep copies of \<open>pkg/apis/sources/v1alpha1/zz_generated.deepcopy.go\<close> on an explicit heap. The
  rest of the development treats objects as values; this theory justifies that: a deep copy reads as the
  object it was made from, and no write through one of the two is visible through the other, so the
  reconciler's copy of a cached object can be changed freely. What a deep copy promises is the locale
  \<open>deep_copy\<close>; the copies of the embedded library structures (\<open>ObjectMeta\<close>, \<open>SourceSpec\<close>, \<open>SourceStatus\<close>) are
  parameters that keep the same promise.
\<close>

subsection \<open>The heap\<close>

record 'c heap =
  hp_next :: nat
  hp_cells :: "nat \<Rightarrow> 'c option"

definition alloc :: "'c \<Rightarrow> 'c heap \<Rightarrow> nat \<times> 'c heap" where
  "alloc c h = (hp_next h, h\<lparr>hp_next := Suc (hp_next h), hp_cells := (hp_cells h)(hp_next h \<mapsto> c)\<rparr>)"

definition store :: "nat \<Rightarrow> 'c \<Rightarrow> 'c heap \<Rightarrow> 'c heap" where
  "store a c h = h\<lparr>hp_cells := (hp_cells h)(a \<mapsto> c)\<rparr>"

text \<open>A later heap: old cells are as they were.\<close>

definition extends :: "'c heap \<Rightarrow> 'c heap \<Rightarrow> bool" where
  "extends h h' \<longleftrightarrow> hp_next h \<le> hp_next h' \<and> (\<forall>a < hp_next h. hp_cells h' a = hp_cells h a)"

lemma extends_refl [simp]: "extends h h"
  by (simp add: extends_def)

lemma extends_trans: "extends h h' \<Longrightarrow> extends h' h'' \<Longrightarrow> extends h h''"
  by (auto simp: extends_def)

subsection \<open>What a deep copy promises\<close>

text \<open>
  \<open>reach h x\<close> are the addresses an object leads to, \<open>val h x\<close> is what it reads as. Both depend on the
  reachable cells only; a copy reads as the original, leads to new cells only and leaves the old ones alone.
\<close>

locale deep_copy =
  fixes copy :: "'o \<Rightarrow> 'c heap \<Rightarrow> 'o \<times> 'c heap"
    and reach :: "'c heap \<Rightarrow> 'o \<Rightarrow> nat set"
    and val :: "'c heap \<Rightarrow> 'o \<Rightarrow> 'v"
  assumes depends: "(\<And>a. a \<in> reach h x \<Longrightarrow> hp_cells h' a = hp_cells h a) \<Longrightarrow> reach h' x = reach h x \<and> val h' x = val h x"
    and copied: "reach h x \<subseteq> {..<hp_next h} \<Longrightarrow> copy x h = (x', h') \<Longrightarrow>
      extends h h' \<and> val h' x' = val h x \<and> reach h' x' \<subseteq> {hp_next h..<hp_next h'}"
begin

lemma later:
  assumes "reach h x \<subseteq> {..<hp_next h}" "extends h h'"
  shows "reach h' x = reach h x" "val h' x = val h x"
  using depends [of h x h'] assms by (auto simp: extends_def)

lemma write_elsewhere:
  assumes "a \<notin> reach h x"
  shows "val (store a c h) x = val h x"
proof -
  have "hp_cells (store a c h) b = hp_cells h b" if "b \<in> reach h x" for b
    using assms that by (auto simp: store_def)
  then show ?thesis using depends by blast
qed

lemma independent:
  assumes "reach h x \<subseteq> {..<hp_next h}" "copy x h = (x', h')"
  shows "val h' x' = val h x" "val h' x = val h x"
    "a \<in> reach h' x' \<Longrightarrow> val (store a c h') x = val h x"
    "a \<in> reach h' x \<Longrightarrow> val (store a c h') x' = val h x"
proof -
  note cp = copied [OF assms]
  have x: "reach h' x = reach h x" "val h' x = val h x" by (rule later [OF assms(1)]; simp add: cp)+
  show "val h' x' = val h x" "val h' x = val h x" by (simp_all add: cp x)
  have new: "b \<notin> reach h' x'" if "b \<in> reach h' x" for b
  proof
    assume "b \<in> reach h' x'"
    with cp have "hp_next h \<le> b" by fastforce
    with that x(1) assms(1) show False by fastforce
  qed
  show "val (store a c h') x = val h x" if "a \<in> reach h' x'"
    using new that x(2) write_elsewhere by metis
  show "val (store a c h') x' = val h x" if "a \<in> reach h' x"
    using new [OF that] cp write_elsewhere by metis
qed

end

subsection \<open>The objects\<close>

text \<open>A slice is nil or the address of its backing array.\<close>

type_synonym slice = "nat option"

record filter_obj =
  g_types :: slice
  g_monitorIDs :: slice
  g_severities :: slice

record 'ss spec_obj =
  g_sourceSpec :: 'ss
  g_apiKeyRef :: api_key_reference
  g_baseURL :: string
  g_filter :: "nat option"
  g_mode :: string
  g_serviceAccountName :: string

record 'st status_obj =
  g_sourceStatus :: 'st
  g_deploymentName :: string
  g_lastEventTime :: "nat option"
  g_eventCount :: int

record type_meta =
  tm_kind :: string
  tm_apiVersion :: string

record ('om, 'ss, 'st) source_obj =
  g_typeMeta :: type_meta
  g_objectMeta :: 'om
  g_spec :: "'ss spec_obj"
  g_status :: "'st status_obj"

record list_meta =
  lm_selfLink :: string
  lm_resourceVersion :: string
  lm_continue :: string
  lm_remainingItemCount :: "nat option"

record list_obj =
  g_listTypeMeta :: type_meta
  g_listMeta :: list_meta
  g_items :: slice

datatype ('om, 'ss, 'st, 'l) cell =
    Strs "string list"
  | FilterCell filter_obj
  | KeyRefCell api_key_reference
  | TimeCell int
  | IntCell int
  | SpecCell "'ss spec_obj"
  | StatusCell "'st status_obj"
  | SourceCell "('om, 'ss, 'st) source_obj"
  | SourcesCell "('om, 'ss, 'st) source_obj list"
  | ListCell list_obj
  | LibraryCell 'l

type_synonym ('om, 'ss, 'st, 'l) store = "('om, 'ss, 'st, 'l) cell heap"

text \<open>
  The type of a pointer fixes the constructor of the cell it points at, so a read is a selector; a nil or
  dangling pointer never gets this far.
\<close>

definition cell_at :: "(('om, 'ss, 'st, 'l) cell \<Rightarrow> 'o option) \<Rightarrow> ('om, 'ss, 'st, 'l) store \<Rightarrow> nat \<Rightarrow> 'o" where
  "cell_at sel h a = the (Option.bind (hp_cells h a) sel)"

fun strs_of :: "('om, 'ss, 'st, 'l) cell \<Rightarrow> string list option" where
  "strs_of (Strs xs) = Some xs"
| "strs_of _ = None"

fun filter_of :: "('om, 'ss, 'st, 'l) cell \<Rightarrow> filter_obj option" where
  "filter_of (FilterCell f) = Some f"
| "filter_of _ = None"

fun key_ref_of :: "('om, 'ss, 'st, 'l) cell \<Rightarrow> api_key_reference option" where
  "key_ref_of (KeyRefCell r) = Some r"
| "key_ref_of _ = None"

fun time_of :: "('om, 'ss, 'st, 'l) cell \<Rightarrow> int option" where
  "time_of (TimeCell t) = Some t"
| "time_of _ = None"

fun int_of :: "('om, 'ss, 'st, 'l) cell \<Rightarrow> int option" where
  "int_of (IntCell n) = Some n"
| "int_of _ = None"

fun spec_of :: "('om, 'ss, 'st, 'l) cell \<Rightarrow> 'ss spec_obj option" where
  "spec_of (SpecCell s) = Some s"
| "spec_of _ = None"

fun status_of :: "('om, 'ss, 'st, 'l) cell \<Rightarrow> 'st status_obj option" where
  "status_of (StatusCell s) = Some s"
| "status_of _ = None"

fun source_of :: "('om, 'ss, 'st, 'l) cell \<Rightarrow> ('om, 'ss, 'st) source_obj option" where
  "source_of (SourceCell y) = Some y"
| "source_of _ = None"

fun sources_of :: "('om, 'ss, 'st, 'l) cell \<Rightarrow> ('om, 'ss, 'st) source_obj list option" where
  "sources_of (SourcesCell ys) = Some ys"
| "sources_of _ = None"

fun list_of :: "('om, 'ss, 'st, 'l) cell \<Rightarrow> list_obj option" where
  "list_of (ListCell l) = Some l"
| "list_of _ = None"

subsection \<open>The generated functions\<close>

type_synonym ('x, 'om, 'ss, 'st, 'l) copier = "'x \<Rightarrow> ('om, 'ss, 'st, 'l) store \<Rightarrow> 'x \<times> ('om, 'ss, 'st, 'l) store"

text \<open>
  The pattern of every pointer and slice copy: nil stays nil; otherwise the target is copied and the copy
  gets a new cell. \<open>DeepCopyInto\<close> of a structure is the function from the structure to its copy.
\<close>

definition new_copy ::
  "(('om, 'ss, 'st, 'l) cell \<Rightarrow> 'o option) \<Rightarrow> ('o \<Rightarrow> ('om, 'ss, 'st, 'l) cell) \<Rightarrow> ('o, 'om, 'ss, 'st, 'l) copier \<Rightarrow>
   (nat option, 'om, 'ss, 'st, 'l) copier" where
  "new_copy sel mk into p h =
     (case p of
        None \<Rightarrow> (None, h)
      | Some a \<Rightarrow> (let (x, h) = into (cell_at sel h a) h; (b, h) = alloc (mk x) h in (Some b, h)))"

text \<open>\<open>make\<close> and \<open>copy\<close> of a slice of strings, and assignment of a value without pointers.\<close>

abbreviation assign :: "('x, 'om, 'ss, 'st, 'l) copier" where
  "assign x h \<equiv> (x, h)"

definition copy_strs :: "(slice, 'om, 'ss, 'st, 'l) copier" where
  "copy_strs = new_copy strs_of Strs assign"

definition APIKeyReference_DeepCopyInto :: "(api_key_reference, 'om, 'ss, 'st, 'l) copier" where
  "APIKeyReference_DeepCopyInto r h = (r, h)"

definition APIKeyReference_DeepCopy :: "(nat option, 'om, 'ss, 'st, 'l) copier" where
  "APIKeyReference_DeepCopy = new_copy key_ref_of KeyRefCell APIKeyReference_DeepCopyInto"

definition Filter_DeepCopyInto :: "(filter_obj, 'om, 'ss, 'st, 'l) copier" where
  "Filter_DeepCopyInto f h =
     (let (ts, h) = copy_strs (g_types f) h;
          (ms, h) = copy_strs (g_monitorIDs f) h;
          (sv, h) = copy_strs (g_severities f) h
      in (f\<lparr>g_types := ts, g_monitorIDs := ms, g_severities := sv\<rparr>, h))"

definition Filter_DeepCopy :: "(nat option, 'om, 'ss, 'st, 'l) copier" where
  "Filter_DeepCopy = new_copy filter_of FilterCell Filter_DeepCopyInto"

definition Time_DeepCopy :: "(nat option, 'om, 'ss, 'st, 'l) copier" where
  "Time_DeepCopy = new_copy time_of TimeCell assign"

definition Spec_DeepCopyInto :: "('ss, 'om, 'ss, 'st, 'l) copier \<Rightarrow> ('ss spec_obj, 'om, 'ss, 'st, 'l) copier" where
  "Spec_DeepCopyInto copy_ss s h =
     (let (ss, h) = copy_ss (g_sourceSpec s) h;
          (ref, h) = (g_apiKeyRef s, h);
          (f, h) = Filter_DeepCopy (g_filter s) h
      in (s\<lparr>g_sourceSpec := ss, g_apiKeyRef := ref, g_filter := f\<rparr>, h))"

definition Spec_DeepCopy :: "('ss, 'om, 'ss, 'st, 'l) copier \<Rightarrow> (nat option, 'om, 'ss, 'st, 'l) copier" where
  "Spec_DeepCopy copy_ss = new_copy spec_of SpecCell (Spec_DeepCopyInto copy_ss)"

definition Status_DeepCopyInto :: "('st, 'om, 'ss, 'st, 'l) copier \<Rightarrow> ('st status_obj, 'om, 'ss, 'st, 'l) copier" where
  "Status_DeepCopyInto copy_st s h =
     (let (st, h) = copy_st (g_sourceStatus s) h;
          (t, h) = Time_DeepCopy (g_lastEventTime s) h
      in (s\<lparr>g_sourceStatus := st, g_lastEventTime := t\<rparr>, h))"

definition Status_DeepCopy :: "('st, 'om, 'ss, 'st, 'l) copier \<Rightarrow> (nat option, 'om, 'ss, 'st, 'l) copier" where
  "Status_DeepCopy copy_st = new_copy status_of StatusCell (Status_DeepCopyInto copy_st)"

definition Source_DeepCopyInto ::
  "('om, 'om, 'ss, 'st, 'l) copier \<Rightarrow> ('ss, 'om, 'ss, 'st, 'l) copier \<Rightarrow> ('st, 'om, 'ss, 'st, 'l) copier \<Rightarrow>
   (('om, 'ss, 'st) source_obj, 'om, 'ss, 'st, 'l) copier" where
  "Source_DeepCopyInto copy_om copy_ss copy_st y h =
     (let (om, h) = copy_om (g_objectMeta y) h;
          (sp, h) = Spec_DeepCopyInto copy_ss (g_spec y) h;
          (st, h) = Status_DeepCopyInto copy_st (g_status y) h
      in (y\<lparr>g_objectMeta := om, g_spec := sp, g_status := st\<rparr>, h))"

definition Source_DeepCopy ::
  "('om, 'om, 'ss, 'st, 'l) copier \<Rightarrow> ('ss, 'om, 'ss, 'st, 'l) copier \<Rightarrow> ('st, 'om, 'ss, 'st, 'l) copier \<Rightarrow>
   (nat option, 'om, 'ss, 'st, 'l) copier" where
  "Source_DeepCopy copy_om copy_ss copy_st = new_copy source_of SourceCell (Source_DeepCopyInto copy_om copy_ss copy_st)"

text \<open>
  A \<open>runtime.Object\<close> is nil or carries a typed pointer, which may itself be nil: \<open>DeepCopyObject\<close> tests the
  pointer so that a nil source gives the nil interface.
\<close>

datatype runtime_object = NilObject | SourceObject "nat option" | ListObject "nat option"

definition Source_DeepCopyObject ::
  "('om, 'om, 'ss, 'st, 'l) copier \<Rightarrow> ('ss, 'om, 'ss, 'st, 'l) copier \<Rightarrow> ('st, 'om, 'ss, 'st, 'l) copier \<Rightarrow>
   nat option \<Rightarrow> ('om, 'ss, 'st, 'l) store \<Rightarrow> runtime_object \<times> ('om, 'ss, 'st, 'l) store" where
  "Source_DeepCopyObject copy_om copy_ss copy_st p h =
     (let (c, h) = Source_DeepCopy copy_om copy_ss copy_st p h
      in (if c \<noteq> None then SourceObject c else NilObject, h))"

fun copy_items :: "('x, 'om, 'ss, 'st, 'l) copier \<Rightarrow> ('x list, 'om, 'ss, 'st, 'l) copier" where
  "copy_items cp [] h = ([], h)"
| "copy_items cp (y # ys) h = (let (y', h) = cp y h; (ys', h) = copy_items cp ys h in (y' # ys', h))"

definition ListMeta_DeepCopyInto :: "(list_meta, 'om, 'ss, 'st, 'l) copier" where
  "ListMeta_DeepCopyInto m h =
     (let (n, h) = new_copy int_of IntCell assign (lm_remainingItemCount m) h in (m\<lparr>lm_remainingItemCount := n\<rparr>, h))"

definition List_DeepCopyInto ::
  "('om, 'om, 'ss, 'st, 'l) copier \<Rightarrow> ('ss, 'om, 'ss, 'st, 'l) copier \<Rightarrow> ('st, 'om, 'ss, 'st, 'l) copier \<Rightarrow>
   (list_obj, 'om, 'ss, 'st, 'l) copier" where
  "List_DeepCopyInto copy_om copy_ss copy_st l h =
     (let (m, h) = ListMeta_DeepCopyInto (g_listMeta l) h;
          (ys, h) = new_copy sources_of SourcesCell (copy_items (Source_DeepCopyInto copy_om copy_ss copy_st)) (g_items l) h
      in (l\<lparr>g_listMeta := m, g_items := ys\<rparr>, h))"

definition List_DeepCopy ::
  "('om, 'om, 'ss, 'st, 'l) copier \<Rightarrow> ('ss, 'om, 'ss, 'st, 'l) copier \<Rightarrow> ('st, 'om, 'ss, 'st, 'l) copier \<Rightarrow>
   (nat option, 'om, 'ss, 'st, 'l) copier" where
  "List_DeepCopy copy_om copy_ss copy_st = new_copy list_of ListCell (List_DeepCopyInto copy_om copy_ss copy_st)"

definition List_DeepCopyObject ::
  "('om, 'om, 'ss, 'st, 'l) copier \<Rightarrow> ('ss, 'om, 'ss, 'st, 'l) copier \<Rightarrow> ('st, 'om, 'ss, 'st, 'l) copier \<Rightarrow>
   nat option \<Rightarrow> ('om, 'ss, 'st, 'l) store \<Rightarrow> runtime_object \<times> ('om, 'ss, 'st, 'l) store" where
  "List_DeepCopyObject copy_om copy_ss copy_st p h =
     (let (c, h) = List_DeepCopy copy_om copy_ss copy_st p h
      in (if c \<noteq> None then ListObject c else NilObject, h))"

subsection \<open>Laws\<close>

lemma deep_copy_const: "deep_copy (\<lambda>x h. (x, h)) (\<lambda>_ _. {}) (\<lambda>_ x. x)"
  by unfold_locales auto

lemma deep_copy_pair:
  fixes c1 :: "'a \<Rightarrow> 'c heap \<Rightarrow> 'a \<times> 'c heap" and c2 :: "'b \<Rightarrow> 'c heap \<Rightarrow> 'b \<times> 'c heap"
  assumes "deep_copy c1 r1 v1" "deep_copy c2 r2 v2"
  shows "deep_copy (\<lambda>(x, y) h. let (x', h) = c1 x h; (y', h) = c2 y h in ((x', y'), h))
    (\<lambda>h (x, y). r1 h x \<union> r2 h y) (\<lambda>h (x, y). (v1 h x, v2 h y))"
proof (rule deep_copy.intro)
  fix h h' :: "'c heap" and xy
  assume same: "\<And>a. a \<in> (case xy of (x, y) \<Rightarrow> r1 h x \<union> r2 h y) \<Longrightarrow> hp_cells h' a = hp_cells h a"
  obtain x y where xy: "xy = (x, y)" by fastforce
  have "r1 h' x = r1 h x \<and> v1 h' x = v1 h x" by (rule deep_copy.depends [OF assms(1)]) (use same xy in auto)
  moreover have "r2 h' y = r2 h y \<and> v2 h' y = v2 h y" by (rule deep_copy.depends [OF assms(2)]) (use same xy in auto)
  ultimately show "(case xy of (x, y) \<Rightarrow> r1 h' x \<union> r2 h' y) = (case xy of (x, y) \<Rightarrow> r1 h x \<union> r2 h y) \<and>
      (case xy of (x, y) \<Rightarrow> (v1 h' x, v2 h' y)) = (case xy of (x, y) \<Rightarrow> (v1 h x, v2 h y))"
    by (simp add: xy)
next
  fix h h' :: "'c heap" and xy xy'
  assume ok: "(case xy of (x, y) \<Rightarrow> r1 h x \<union> r2 h y) \<subseteq> {..<hp_next h}"
    and cp: "(case xy of (x, y) \<Rightarrow> \<lambda>h. let (x', h) = c1 x h; (y', h) = c2 y h in ((x', y'), h)) h = (xy', h')"
  obtain x y where xy: "xy = (x, y)" by fastforce
  obtain x1 h1 where c1: "c1 x h = (x1, h1)" by fastforce
  obtain y1 where c2: "c2 y h1 = (y1, h')" and xy': "xy' = (x1, y1)" using cp c1 by (auto simp: xy split: prod.splits)
  have k1: "extends h h1" "v1 h1 x1 = v1 h x" "r1 h1 x1 \<subseteq> {hp_next h..<hp_next h1}"
    using deep_copy.copied [OF assms(1) _ c1] ok xy by auto
  have y: "r2 h1 y = r2 h y" "v2 h1 y = v2 h y"
    by (rule deep_copy.later [OF assms(2) _ k1(1)]; use ok xy in auto)+
  have k2: "extends h1 h'" "v2 h' y1 = v2 h1 y" "r2 h' y1 \<subseteq> {hp_next h1..<hp_next h'}"
    using deep_copy.copied [OF assms(2) _ c2] ok xy y(1) k1(1) by (fastforce simp: extends_def)+
  have x1: "r1 h' x1 = r1 h1 x1" "v1 h' x1 = v1 h1 x1"
    by (rule deep_copy.later [OF assms(1) _ k2(1)]; use k1(3) in auto)+
  have "r1 h' x1 \<union> r2 h' y1 \<subseteq> {hp_next h..<hp_next h'}"
    using k1 k2 x1(1) by (fastforce simp: extends_def)
  then show "extends h h' \<and> (case xy' of (x, y) \<Rightarrow> (v1 h' x, v2 h' y)) = (case xy of (x, y) \<Rightarrow> (v1 h x, v2 h y)) \<and>
      (case xy' of (x, y) \<Rightarrow> r1 h' x \<union> r2 h' y) \<subseteq> {hp_next h..<hp_next h'}"
    using extends_trans [OF k1(1) k2(1)] k1(2) k2(2) x1(2) y(2) by (simp add: xy xy')
qed

text \<open>A record whose fields with pointers are copied through one projection.\<close>

lemma deep_copy_record:
  fixes c :: "'a \<Rightarrow> 'c heap \<Rightarrow> 'a \<times> 'c heap"
  assumes "deep_copy c r v" "\<And>x p. proj (upd x p) = p" "\<And>u x p. w u (upd x p) = w u x"
  shows "deep_copy (\<lambda>x h. let (p, h) = c (proj x) h in (upd x p, h)) (\<lambda>h x. r h (proj x)) (\<lambda>h x. w (v h (proj x)) x)"
proof (rule deep_copy.intro)
  fix h h' :: "'c heap" and x
  assume "\<And>a. a \<in> r h (proj x) \<Longrightarrow> hp_cells h' a = hp_cells h a"
  from deep_copy.depends [OF assms(1) this]
  show "r h' (proj x) = r h (proj x) \<and> w (v h' (proj x)) x = w (v h (proj x)) x" by auto
next
  fix h h' :: "'c heap" and x x'
  assume ok: "r h (proj x) \<subseteq> {..<hp_next h}" and cp: "(let (p, h) = c (proj x) h in (upd x p, h)) = (x', h')"
  obtain p where p: "c (proj x) h = (p, h')" "x' = upd x p" using cp by (auto split: prod.splits)
  from deep_copy.copied [OF assms(1) ok p(1)]
  show "extends h h' \<and> w (v h' (proj x')) x' = w (v h (proj x)) x \<and> r h' (proj x') \<subseteq> {hp_next h..<hp_next h'}"
    by (simp add: p(2) assms(2,3))
qed

text \<open>A pointer to an object that is itself copied deeply.\<close>

definition ptr_reach ::
  "(('om, 'ss, 'st, 'l) cell \<Rightarrow> 'o option) \<Rightarrow> (('om, 'ss, 'st, 'l) store \<Rightarrow> 'o \<Rightarrow> nat set) \<Rightarrow> ('om, 'ss, 'st, 'l) store \<Rightarrow> nat option \<Rightarrow> nat set" where
  "ptr_reach sel r h p = (case p of None \<Rightarrow> {} | Some a \<Rightarrow> insert a (r h (cell_at sel h a)))"

definition ptr_val ::
  "(('om, 'ss, 'st, 'l) cell \<Rightarrow> 'o option) \<Rightarrow> (('om, 'ss, 'st, 'l) store \<Rightarrow> 'o \<Rightarrow> 'v) \<Rightarrow> ('om, 'ss, 'st, 'l) store \<Rightarrow> nat option \<Rightarrow> 'v option" where
  "ptr_val sel v h p = map_option (\<lambda>a. v h (cell_at sel h a)) p"

lemma deep_copy_pointer:
  fixes sel :: "('om, 'ss, 'st, 'l) cell \<Rightarrow> 'o option"
  assumes "deep_copy c r v" "\<And>x. sel (mk x) = Some x"
  shows "deep_copy (new_copy sel mk c) (ptr_reach sel r) (ptr_val sel v)"
proof (rule deep_copy.intro)
  fix h h' :: "('om, 'ss, 'st, 'l) store" and p
  assume same: "\<And>a. a \<in> ptr_reach sel r h p \<Longrightarrow> hp_cells h' a = hp_cells h a"
  show "ptr_reach sel r h' p = ptr_reach sel r h p \<and> ptr_val sel v h' p = ptr_val sel v h p"
  proof (cases p)
    case (Some a)
    have "cell_at sel h' a = cell_at sel h a" using same Some by (simp add: cell_at_def ptr_reach_def)
    moreover have "r h' (cell_at sel h a) = r h (cell_at sel h a) \<and> v h' (cell_at sel h a) = v h (cell_at sel h a)"
      by (rule deep_copy.depends [OF assms(1)]) (use same Some in \<open>auto simp: ptr_reach_def\<close>)
    ultimately show ?thesis using Some by (simp add: ptr_reach_def ptr_val_def)
  qed (simp add: ptr_reach_def ptr_val_def)
next
  fix h h' :: "('om, 'ss, 'st, 'l) store" and p p'
  assume ok: "ptr_reach sel r h p \<subseteq> {..<hp_next h}" and cp: "new_copy sel mk c p h = (p', h')"
  show "extends h h' \<and> ptr_val sel v h' p' = ptr_val sel v h p \<and> ptr_reach sel r h' p' \<subseteq> {hp_next h..<hp_next h'}"
  proof (cases p)
    case None
    with cp show ?thesis by (simp add: new_copy_def ptr_reach_def ptr_val_def)
  next
    case (Some a)
    obtain x h1 where c: "c (cell_at sel h a) h = (x, h1)" by fastforce
    have p': "p' = Some (hp_next h1)" "h' = h1\<lparr>hp_next := Suc (hp_next h1), hp_cells := (hp_cells h1)(hp_next h1 \<mapsto> mk x)\<rparr>"
      using cp c Some by (auto simp: alloc_def new_copy_def)
    have k: "extends h h1" "v h1 x = v h (cell_at sel h a)" "r h1 x \<subseteq> {hp_next h..<hp_next h1}"
      using deep_copy.copied [OF assms(1) _ c] ok Some by (auto simp: ptr_reach_def)
    have e: "extends h1 h'" by (simp add: p'(2) extends_def)
    have x: "r h' x = r h1 x" "v h' x = v h1 x"
      by (rule deep_copy.later [OF assms(1) _ e]; use k(3) in auto)+
    have get: "cell_at sel h' (hp_next h1) = x" by (simp add: p'(2) cell_at_def assms(2))
    have "insert (hp_next h1) (r h' x) \<subseteq> {hp_next h..<hp_next h'}"
      using k(1,3) x(1) by (fastforce simp: p'(2) extends_def)
    then show ?thesis
      using extends_trans [OF k(1) e] k(2) x(2) by (simp add: p'(1) get Some ptr_reach_def ptr_val_def)
  qed
qed

lemma deep_copy_items:
  fixes c :: "('x, 'om, 'ss, 'st, 'l) copier"
  assumes "deep_copy c r v"
  shows "deep_copy (copy_items c) (\<lambda>h ys. \<Union>y \<in> set ys. r h y) (\<lambda>h ys. map (v h) ys)"
proof (rule deep_copy.intro)
  fix h h' :: "('om, 'ss, 'st, 'l) store" and ys
  assume "\<And>a. a \<in> (\<Union>y \<in> set ys. r h y) \<Longrightarrow> hp_cells h' a = hp_cells h a"
  then have "r h' y = r h y \<and> v h' y = v h y" if "y \<in> set ys" for y
    using that by (intro deep_copy.depends [OF assms]) blast
  then show "(\<Union>y \<in> set ys. r h' y) = (\<Union>y \<in> set ys. r h y) \<and> map (v h') ys = map (v h) ys" by simp
next
  fix h h' :: "('om, 'ss, 'st, 'l) store" and ys ys'
  assume "(\<Union>y \<in> set ys. r h y) \<subseteq> {..<hp_next h}" "copy_items c ys h = (ys', h')"
  then show "extends h h' \<and> map (v h') ys' = map (v h) ys \<and> (\<Union>y \<in> set ys'. r h' y) \<subseteq> {hp_next h..<hp_next h'}"
  proof (induction ys arbitrary: h ys')
    case (Cons y ys)
    obtain z h1 where z: "c y h = (z, h1)" by fastforce
    obtain zs where zs: "copy_items c ys h1 = (zs, h')" "ys' = z # zs" using Cons.prems(2) z by (auto split: prod.splits)
    have k: "extends h h1" "v h1 z = v h y" "r h1 z \<subseteq> {hp_next h..<hp_next h1}"
      using deep_copy.copied [OF assms _ z] Cons.prems(1) by auto
    have old: "r h1 u = r h u" "v h1 u = v h u" if "u \<in> set ys" for u
      by (rule deep_copy.later [OF assms _ k(1)]; use Cons.prems(1) that in auto)+
    have ok: "(\<Union>y \<in> set ys. r h1 y) \<subseteq> {..<hp_next h1}"
      using Cons.prems(1) old(1) k(1) by (fastforce simp: extends_def)
    note ih = Cons.IH [OF ok zs(1)]
    have z': "r h' z = r h1 z" "v h' z = v h1 z"
      by (rule deep_copy.later [OF assms]; use ih k(3) in auto)+
    have "map (v h') zs = map (v h) ys" using ih old(2) by simp
    moreover have "r h' z \<union> (\<Union>y \<in> set zs. r h' y) \<subseteq> {hp_next h..<hp_next h'}"
      using ih k(1,3) z'(1) by (fastforce simp: extends_def)
    ultimately show ?case using extends_trans [OF k(1)] ih k(2) z'(2) by (simp add: zs(2))
  qed simp
qed

subsection \<open>The generated functions keep the promise\<close>

abbreviation no_reach :: "('om, 'ss, 'st, 'l) store \<Rightarrow> 'x \<Rightarrow> nat set" where
  "no_reach h x \<equiv> {}"

abbreviation plain_val :: "('om, 'ss, 'st, 'l) store \<Rightarrow> 'x \<Rightarrow> 'x" where
  "plain_val h x \<equiv> x"

abbreviation slice_reach :: "('om, 'ss, 'st, 'l) store \<Rightarrow> slice \<Rightarrow> nat set" where
  "slice_reach \<equiv> ptr_reach strs_of no_reach"

definition slice_val :: "('om, 'ss, 'st, 'l) store \<Rightarrow> slice \<Rightarrow> string list" where
  "slice_val h s = (case ptr_val strs_of plain_val h s of None \<Rightarrow> [] | Some xs \<Rightarrow> xs)"

definition filter_reach :: "('om, 'ss, 'st, 'l) store \<Rightarrow> filter_obj \<Rightarrow> nat set" where
  "filter_reach h f = slice_reach h (g_types f) \<union> (slice_reach h (g_monitorIDs f) \<union> slice_reach h (g_severities f))"

definition filter_val :: "('om, 'ss, 'st, 'l) store \<Rightarrow> filter_obj \<Rightarrow> source_filter" where
  "filter_val h f = \<lparr>f_types = slice_val h (g_types f), f_monitorIDs = slice_val h (g_monitorIDs f), f_severities = slice_val h (g_severities f)\<rparr>"

lemma strs_deep_copy: "deep_copy copy_strs slice_reach slice_val"
proof -
  have ptr: "deep_copy copy_strs slice_reach (ptr_val strs_of plain_val)"
    unfolding copy_strs_def by (rule deep_copy_pointer [OF deep_copy_const]) simp
  show ?thesis
    using deep_copy_record [OF ptr, of "\<lambda>p. p" "\<lambda>_ p. p" "\<lambda>u _. case u of None \<Rightarrow> [] | Some xs \<Rightarrow> xs"]
    by (simp add: slice_val_def [abs_def] case_prod_unfold Let_def)
qed

lemma filter_deep_copy: "deep_copy Filter_DeepCopyInto filter_reach filter_val"
proof -
  note p = deep_copy_pair [OF strs_deep_copy deep_copy_pair [OF strs_deep_copy strs_deep_copy]]
  show ?thesis
    using deep_copy_record [OF p, of "\<lambda>f. (g_types f, g_monitorIDs f, g_severities f)"
      "\<lambda>f p. f\<lparr>g_types := fst p, g_monitorIDs := fst (snd p), g_severities := snd (snd p)\<rparr>"
      "\<lambda>u f. \<lparr>f_types = fst u, f_monitorIDs = fst (snd u), f_severities = snd (snd u)\<rparr>"]
    by (simp add: filter_reach_def [abs_def] filter_val_def [abs_def] Filter_DeepCopyInto_def [abs_def] case_prod_unfold Let_def)
qed

lemma filter_ptr_deep_copy: "deep_copy Filter_DeepCopy (ptr_reach filter_of filter_reach) (ptr_val filter_of filter_val)"
  unfolding Filter_DeepCopy_def by (rule deep_copy_pointer [OF filter_deep_copy]) simp

lemma time_deep_copy: "deep_copy Time_DeepCopy (ptr_reach time_of no_reach) (ptr_val time_of plain_val)"
  unfolding Time_DeepCopy_def by (rule deep_copy_pointer [OF deep_copy_const]) simp

lemma key_ref_deep_copy: "deep_copy APIKeyReference_DeepCopy (ptr_reach key_ref_of no_reach) (ptr_val key_ref_of plain_val)"
  unfolding APIKeyReference_DeepCopy_def APIKeyReference_DeepCopyInto_def [abs_def]
  by (rule deep_copy_pointer [OF deep_copy_const]) simp

interpretation strs: deep_copy copy_strs slice_reach slice_val by (rule strs_deep_copy)

interpretation flt: deep_copy Filter_DeepCopy "ptr_reach filter_of filter_reach" "ptr_val filter_of filter_val"
  by (rule filter_ptr_deep_copy)

text \<open>
  What a source reads as: its type and the object of the model. The library's structures read as their parts
  of it; a \<open>SourceSpec\<close> as sink and overrides, a \<open>SourceStatus\<close> as a status in which only its own fields count.
\<close>

type_synonym ('x, 'om, 'ss, 'st, 'l) reacher = "('om, 'ss, 'st, 'l) store \<Rightarrow> 'x \<Rightarrow> nat set"

definition spec_reach :: "('ss, 'om, 'ss, 'st, 'l) reacher \<Rightarrow> ('ss spec_obj, 'om, 'ss, 'st, 'l) reacher" where
  "spec_reach reach_ss h s = reach_ss h (g_sourceSpec s) \<union> ptr_reach filter_of filter_reach h (g_filter s)"

definition spec_val ::
  "(('om, 'ss, 'st, 'l) store \<Rightarrow> 'ss \<Rightarrow> destination \<times> (string \<times> string) list option) \<Rightarrow> ('om, 'ss, 'st, 'l) store \<Rightarrow> 'ss spec_obj \<Rightarrow>
   source_spec" where
  "spec_val val_ss h s =
     \<lparr>sp_sink = fst (val_ss h (g_sourceSpec s)), sp_ceOverrides = snd (val_ss h (g_sourceSpec s)), sp_apiKeyRef = g_apiKeyRef s,
      sp_baseURL = g_baseURL s, sp_filter = ptr_val filter_of filter_val h (g_filter s), sp_mode = g_mode s,
      sp_serviceAccountName = g_serviceAccountName s\<rparr>"

lemma spec_deep_copy:
  assumes "deep_copy copy_ss reach_ss val_ss"
  shows "deep_copy (Spec_DeepCopyInto copy_ss) (spec_reach reach_ss) (spec_val val_ss)"
proof -
  note p = deep_copy_pair [OF assms deep_copy_pair [OF deep_copy_const filter_ptr_deep_copy]]
  show ?thesis
    using deep_copy_record [OF p, of "\<lambda>s. (g_sourceSpec s, g_apiKeyRef s, g_filter s)"
      "\<lambda>s p. s\<lparr>g_sourceSpec := fst p, g_apiKeyRef := fst (snd p), g_filter := snd (snd p)\<rparr>"
      "\<lambda>u s. \<lparr>sp_sink = fst (fst u), sp_ceOverrides = snd (fst u), sp_apiKeyRef = fst (snd u), sp_baseURL = g_baseURL s,
         sp_filter = snd (snd u), sp_mode = g_mode s, sp_serviceAccountName = g_serviceAccountName s\<rparr>"]
    by (simp add: Spec_DeepCopyInto_def [abs_def] spec_reach_def [abs_def] spec_val_def [abs_def] case_prod_unfold Let_def)
qed

definition status_reach :: "('st, 'om, 'ss, 'st, 'l) reacher \<Rightarrow> ('st status_obj, 'om, 'ss, 'st, 'l) reacher" where
  "status_reach reach_st h s = reach_st h (g_sourceStatus s) \<union> ptr_reach time_of no_reach h (g_lastEventTime s)"

definition status_val ::
  "(('om, 'ss, 'st, 'l) store \<Rightarrow> 'st \<Rightarrow> source_status) \<Rightarrow> ('om, 'ss, 'st, 'l) store \<Rightarrow> 'st status_obj \<Rightarrow> source_status" where
  "status_val val_st h s = (val_st h (g_sourceStatus s))
     \<lparr>st_deploymentName := g_deploymentName s, st_lastEventTime := ptr_val time_of plain_val h (g_lastEventTime s),
      st_eventCount := g_eventCount s\<rparr>"

lemma status_deep_copy:
  assumes "deep_copy copy_st reach_st val_st"
  shows "deep_copy (Status_DeepCopyInto copy_st) (status_reach reach_st) (status_val val_st)"
  using deep_copy_record [OF deep_copy_pair [OF assms time_deep_copy], of "\<lambda>s. (g_sourceStatus s, g_lastEventTime s)"
      "\<lambda>s p. s\<lparr>g_sourceStatus := fst p, g_lastEventTime := snd p\<rparr>"
      "\<lambda>u s. (fst u)\<lparr>st_deploymentName := g_deploymentName s, st_lastEventTime := snd u, st_eventCount := g_eventCount s\<rparr>"]
  by (simp add: Status_DeepCopyInto_def [abs_def] status_reach_def [abs_def] status_val_def [abs_def] case_prod_unfold Let_def)

lemma part_ptr_deep_copy:
  assumes "deep_copy copy_ss reach_ss val_ss" "deep_copy copy_st reach_st val_st"
  shows "deep_copy (Spec_DeepCopy copy_ss) (ptr_reach spec_of (spec_reach reach_ss)) (ptr_val spec_of (spec_val val_ss))"
    "deep_copy (Status_DeepCopy copy_st) (ptr_reach status_of (status_reach reach_st)) (ptr_val status_of (status_val val_st))"
  unfolding Spec_DeepCopy_def Status_DeepCopy_def
  by (rule deep_copy_pointer, rule spec_deep_copy [OF assms(1)], simp)
    (rule deep_copy_pointer, rule status_deep_copy [OF assms(2)], simp)

definition source_reach ::
  "('om, 'om, 'ss, 'st, 'l) reacher \<Rightarrow> ('ss, 'om, 'ss, 'st, 'l) reacher \<Rightarrow> ('st, 'om, 'ss, 'st, 'l) reacher \<Rightarrow>
   (('om, 'ss, 'st) source_obj, 'om, 'ss, 'st, 'l) reacher" where
  "source_reach reach_om reach_ss reach_st h y =
     reach_om h (g_objectMeta y) \<union> (spec_reach reach_ss h (g_spec y) \<union> status_reach reach_st h (g_status y))"

definition source_val where
  "source_val val_om val_ss val_st h y =
     (g_typeMeta y,
      \<lparr>y_meta = val_om h (g_objectMeta y), y_spec = spec_val val_ss h (g_spec y), y_status = status_val val_st h (g_status y)\<rparr>)"

lemma source_deep_copy:
  assumes "deep_copy copy_om reach_om val_om" "deep_copy copy_ss reach_ss val_ss" "deep_copy copy_st reach_st val_st"
  shows "deep_copy (Source_DeepCopyInto copy_om copy_ss copy_st) (source_reach reach_om reach_ss reach_st) (source_val val_om val_ss val_st)"
proof -
  note p = deep_copy_pair [OF assms(1) deep_copy_pair [OF spec_deep_copy [OF assms(2)] status_deep_copy [OF assms(3)]]]
  show ?thesis
    using deep_copy_record [OF p, of "\<lambda>y. (g_objectMeta y, g_spec y, g_status y)"
      "\<lambda>y p. y\<lparr>g_objectMeta := fst p, g_spec := fst (snd p), g_status := snd (snd p)\<rparr>"
      "\<lambda>u y. (g_typeMeta y, \<lparr>y_meta = fst u, y_spec = fst (snd u), y_status = snd (snd u)\<rparr>)"]
    by (simp add: Source_DeepCopyInto_def [abs_def] source_reach_def [abs_def] source_val_def [abs_def] case_prod_unfold Let_def)
qed

abbreviation source_ptr_reach where
  "source_ptr_reach reach_om reach_ss reach_st \<equiv> ptr_reach source_of (source_reach reach_om reach_ss reach_st)"

abbreviation source_ptr_val where
  "source_ptr_val val_om val_ss val_st \<equiv> ptr_val source_of (source_val val_om val_ss val_st)"

lemma source_ptr_deep_copy:
  assumes "deep_copy copy_om reach_om val_om" "deep_copy copy_ss reach_ss val_ss" "deep_copy copy_st reach_st val_st"
  shows "deep_copy (Source_DeepCopy copy_om copy_ss copy_st) (source_ptr_reach reach_om reach_ss reach_st) (source_ptr_val val_om val_ss val_st)"
  unfolding Source_DeepCopy_def by (rule deep_copy_pointer [OF source_deep_copy [OF assms]]) simp

text \<open>A list of sources: its metadata and its items.\<close>

definition list_reach where
  "list_reach reach_om reach_ss reach_st h l =
     ptr_reach int_of no_reach h (lm_remainingItemCount (g_listMeta l)) \<union>
     ptr_reach sources_of (\<lambda>h ys. \<Union>y \<in> set ys. source_reach reach_om reach_ss reach_st h y) h (g_items l)"

definition list_val where
  "list_val val_om val_ss val_st h l =
     (g_listTypeMeta l, (ptr_val int_of plain_val h (lm_remainingItemCount (g_listMeta l)), (g_listMeta l)\<lparr>lm_remainingItemCount := None\<rparr>),
      ptr_val sources_of (\<lambda>h ys. map (source_val val_om val_ss val_st h) ys) h (g_items l))"

lemma list_meta_deep_copy:
  "deep_copy ListMeta_DeepCopyInto (\<lambda>h m. ptr_reach int_of no_reach h (lm_remainingItemCount m))
    (\<lambda>h m. (ptr_val int_of plain_val h (lm_remainingItemCount m), m\<lparr>lm_remainingItemCount := None\<rparr>))"
proof -
  have ptr: "deep_copy (new_copy int_of IntCell assign) (ptr_reach int_of no_reach) (ptr_val int_of plain_val)"
    by (rule deep_copy_pointer [OF deep_copy_const]) simp
  show ?thesis
    using deep_copy_record [OF ptr, of lm_remainingItemCount "\<lambda>m p. m\<lparr>lm_remainingItemCount := p\<rparr>"
      "\<lambda>u m. (u, m\<lparr>lm_remainingItemCount := None\<rparr>)"]
    by (simp add: ListMeta_DeepCopyInto_def [abs_def])
qed

lemma list_deep_copy:
  assumes "deep_copy copy_om reach_om val_om" "deep_copy copy_ss reach_ss val_ss" "deep_copy copy_st reach_st val_st"
  shows "deep_copy (List_DeepCopyInto copy_om copy_ss copy_st) (list_reach reach_om reach_ss reach_st) (list_val val_om val_ss val_st)"
proof -
  have items: "deep_copy (new_copy sources_of SourcesCell (copy_items (Source_DeepCopyInto copy_om copy_ss copy_st)))
      (ptr_reach sources_of (\<lambda>h ys. \<Union>y \<in> set ys. source_reach reach_om reach_ss reach_st h y))
      (ptr_val sources_of (\<lambda>h ys. map (source_val val_om val_ss val_st h) ys))"
    by (rule deep_copy_pointer [OF deep_copy_items [OF source_deep_copy [OF assms]]]) simp
  show ?thesis
    using deep_copy_record [OF deep_copy_pair [OF list_meta_deep_copy items], of "\<lambda>l. (g_listMeta l, g_items l)"
      "\<lambda>l p. l\<lparr>g_listMeta := fst p, g_items := snd p\<rparr>" "\<lambda>u l. (g_listTypeMeta l, u)"]
    by (simp add: List_DeepCopyInto_def [abs_def] list_reach_def [abs_def] list_val_def [abs_def] case_prod_unfold Let_def)
qed

subsection \<open>Properties\<close>

text \<open>
  C37: A deep copy of a source reads as the source, and the two are independent: writing any cell the copy
  leads to leaves what the original reads as unchanged, and the other way round, for every way of copying
  the embedded library structures that is itself a deep copy. The copy of nil is the nil object.
\<close>
theorem source_copy_independent:
  assumes "deep_copy copy_om reach_om val_om" "deep_copy copy_ss reach_ss val_ss" "deep_copy copy_st reach_st val_st"
    and "source_ptr_reach reach_om reach_ss reach_st h p \<subseteq> {..<hp_next h}"
    and "Source_DeepCopyObject copy_om copy_ss copy_st p h = (c, h')"
  shows "p = None \<and> c = NilObject \<or>
    (\<exists>q. c = SourceObject q \<and> q \<noteq> p \<and>
      source_ptr_val val_om val_ss val_st h' q = source_ptr_val val_om val_ss val_st h p \<and>
      source_ptr_val val_om val_ss val_st h' p = source_ptr_val val_om val_ss val_st h p \<and>
      (\<forall>a x. (a \<in> source_ptr_reach reach_om reach_ss reach_st h' q \<longrightarrow>
          source_ptr_val val_om val_ss val_st (store a x h') p = source_ptr_val val_om val_ss val_st h p) \<and>
        (a \<in> source_ptr_reach reach_om reach_ss reach_st h' p \<longrightarrow>
          source_ptr_val val_om val_ss val_st (store a x h') q = source_ptr_val val_om val_ss val_st h p)))"
proof (cases p)
  case None
  with assms(5) show ?thesis by (simp add: Source_DeepCopyObject_def Source_DeepCopy_def new_copy_def)
next
  case (Some b)
  note dc = source_ptr_deep_copy [OF assms(1-3)]
  obtain q where q: "Source_DeepCopy copy_om copy_ss copy_st p h = (Some q, h')" and c: "c = SourceObject (Some q)"
    using assms(5) Some by (auto simp: Source_DeepCopyObject_def Source_DeepCopy_def new_copy_def split: prod.splits)
  have "q \<in> source_ptr_reach reach_om reach_ss reach_st h' (Some q)" by (simp add: ptr_reach_def)
  with deep_copy.copied [OF dc assms(4) q] have "hp_next h \<le> q" by fastforce
  moreover have "b < hp_next h" using assms(4) Some by (simp add: ptr_reach_def)
  ultimately have "Some q \<noteq> p" using Some by simp
  with deep_copy.independent [OF dc assms(4) q] c show ?thesis by blast
qed


definition ex_source_obj :: "(object_meta, destination \<times> (string \<times> string) list option, source_status) source_obj" where
  "ex_source_obj =
     \<lparr>g_typeMeta = \<lparr>tm_kind = ''YipYapSource'', tm_apiVersion = ''sources.yipyap.run/v1alpha1''\<rparr>,
      g_objectMeta = \<lparr>om_name = ''s'', om_namespace = ''n'', om_uid = ''u'', om_resourceVersion = ''1'', om_generation = 1,
        om_deletionTimestamp = None, om_labels = [], om_annotations = [], om_ownerReferences = [], om_finalizers = []\<rparr>,
      g_spec = \<lparr>g_sourceSpec = (\<lparr>d_ref = None, d_uri = None, d_CACerts = None, d_audience = None\<rparr>, None),
        g_apiKeyRef = \<lparr>ak_name = ''k'', ak_key = ''api-key''\<rparr>, g_baseURL = '''', g_filter = Some 1, g_mode = ''poll'',
        g_serviceAccountName = ''''\<rparr>,
      g_status = \<lparr>g_sourceStatus = \<lparr>st_observedGeneration = 0, st_conditions = [], st_annotations = [], st_sinkURI = None,
          st_ceAttributes = [], st_sinkCACerts = None, st_sinkAudience = None, st_auth = None, st_deploymentName = '''',
          st_lastEventTime = None, st_eventCount = 0\<rparr>,
        g_deploymentName = ''d'', g_lastEventTime = Some 2, g_eventCount = 7\<rparr>\<rparr>"

definition ex_store :: "(object_meta, destination \<times> (string \<times> string) list option, source_status, unit) store" where
  "ex_store = \<lparr>hp_next = 4, hp_cells = [0 \<mapsto> Strs [''a.b''],
     1 \<mapsto> FilterCell \<lparr>g_types = Some 0, g_monitorIDs = None, g_severities = None\<rparr>, 2 \<mapsto> TimeCell 5, 3 \<mapsto> SourceCell ex_source_obj]\<rparr>"

lemma ex_store_reach: "source_ptr_reach no_reach no_reach no_reach ex_store (Some 3) = {0, 1, 2, 3}"
  by (auto simp: ptr_reach_def source_reach_def spec_reach_def status_reach_def filter_reach_def ex_store_def ex_source_obj_def cell_at_def)

theorem source_copy_independent_witness:
  "source_ptr_reach no_reach no_reach no_reach ex_store (Some 3) \<subseteq> {..<hp_next ex_store} \<and>
   (\<exists>q h'. Source_DeepCopyObject assign assign assign (Some 3) ex_store = (SourceObject q, h') \<and> q \<noteq> Some 3 \<and>
     source_ptr_val plain_val plain_val plain_val h' q = source_ptr_val plain_val plain_val plain_val ex_store (Some 3))"
proof -
  obtain c h' where c: "Source_DeepCopyObject assign assign assign (Some 3) ex_store = (c, h')" by fastforce
  have ok: "source_ptr_reach no_reach no_reach no_reach ex_store (Some 3) \<subseteq> {..<hp_next ex_store}"
    by (simp add: ex_store_reach) (simp add: ex_store_def)
  from source_copy_independent [OF deep_copy_const deep_copy_const deep_copy_const ok c]
  show ?thesis using ok c by auto
qed

end
