(* ===== verification/Controller_Run.thy ===== *)
theory Controller_Run
  imports Controller_Wiring Work_Queue
begin

text \<open>
  The life of one controller: \<open>RunContext\<close> of \<open>vendor/knative.dev/pkg/controller/controller.go\<close> with the elector it
  builds (\<open>leaderelection/context.go\<close>), its workers and its work queue, as a step relation. Shown: over every
  interleaving the labels of a run are a run of the work queue; no worker leaves before the context is
  cancelled; \<open>RunContext\<close> returns only when every key that a worker took is finished and nothing is left in
  the lanes; and with at least one worker a cancelled controller can always come to its return.
\<close>

subsection \<open>State\<close>

text \<open>
  A worker waits in \<open>Get\<close>, reconciles a key, has told the queue what becomes of the key, or has left its loop.
  \<open>RunContext\<close> builds the elector, launches the workers, waits for the context, drains the queue and waits for its
  goroutines; \<open>Launching n\<close> has \<open>n\<close> workers still to launch.
\<close>

datatype 'k worker = Getting | Busy 'k | Settled 'k | Gone

datatype elector_kind = Unopposed | Standard
datatype elector = NoElector | ElectorRuns elector_kind | ElectorDone

datatype run_point = Building | Launching nat | Awaits | Draining | Joins | Returned

record 'k controller_run =
  cr_point :: run_point
  cr_err :: "string option"
  cr_queue :: "'k work_queue"
  cr_workers :: "'k worker list"
  cr_elector :: elector
  cr_done :: bool

text \<open>What \<open>RunContext\<close> is given: whether the reconciler is leader aware, what building its elector gives, and the number of workers.\<close>

record run_options =
  ro_leaderAware :: bool
  ro_BuildElector :: "string + elector_kind"
  ro_threadiness :: int

definition new_run :: "'k controller_run" where
  "new_run = \<lparr>cr_point = Building, cr_err = None, cr_queue = newWorkQueue, cr_workers = [], cr_elector = NoElector, cr_done = False\<rparr>"

subsection \<open>Steps\<close>

text \<open>What \<open>processNextWorkItem\<close> does with a key after its reconciliation, as \<open>handleErr\<close> has decided.\<close>

fun settle :: "int \<Rightarrow> int \<Rightarrow> 'k \<Rightarrow> queue_action \<Rightarrow> 'k work_queue \<Rightarrow> 'k work_queue" where
  "settle now bucket k Forget w = wq_Forget k w"
| "settle now bucket k (AddAfter d) w = wq_AddAfter now k (sint d) w"
| "settle now bucket k AddRateLimited w = wq_AddRateLimited now bucket k w"

fun settle_label :: "'k \<Rightarrow> queue_action \<Rightarrow> 'k queue_label" where
  "settle_label k Forget = Internal"
| "settle_label k (AddAfter d) = Adds k"
| "settle_label k AddRateLimited = Adds k"

text \<open>The step labels are those of the queue, where the queue takes part.\<close>

inductive run_step :: "run_options \<Rightarrow> 'k queue_label option \<Rightarrow> 'k controller_run \<Rightarrow> 'k controller_run \<Rightarrow> bool" for opts where
  cancel: "run_step opts None s (s\<lparr>cr_done := True\<rparr>)"
| build_fails: "cr_point s = Building \<Longrightarrow> ro_leaderAware opts \<Longrightarrow> ro_BuildElector opts = Inl e \<Longrightarrow>
    run_step opts (Some Stops) s (s\<lparr>cr_point := Draining, cr_err := Some e, cr_queue := wq_ShutDown (cr_queue s)\<rparr>)"
| build_elector: "cr_point s = Building \<Longrightarrow> ro_leaderAware opts \<Longrightarrow> ro_BuildElector opts = Inr kind \<Longrightarrow>
    run_step opts None s (s\<lparr>cr_point := Launching (nat (ro_threadiness opts)), cr_elector := ElectorRuns kind\<rparr>)"
| no_elector: "cr_point s = Building \<Longrightarrow> \<not> ro_leaderAware opts \<Longrightarrow>
    run_step opts None s (s\<lparr>cr_point := Launching (nat (ro_threadiness opts))\<rparr>)"
| elector_ends: "cr_elector s = ElectorRuns kind \<Longrightarrow> kind = Unopposed \<or> cr_done s \<Longrightarrow>
    run_step opts None s (s\<lparr>cr_elector := ElectorDone\<rparr>)"
| launch: "cr_point s = Launching (Suc n) \<Longrightarrow>
    run_step opts None s (s\<lparr>cr_point := Launching n, cr_workers := cr_workers s @ [Getting]\<rparr>)"
| launched: "cr_point s = Launching 0 \<Longrightarrow> run_step opts None s (s\<lparr>cr_point := Awaits\<rparr>)"
| cancelled: "cr_point s = Awaits \<Longrightarrow> cr_done s \<Longrightarrow>
    run_step opts (Some Stops) s (s\<lparr>cr_point := Draining, cr_queue := wq_ShutDown (cr_queue s)\<rparr>)"
| drained: "cr_point s = Draining \<Longrightarrow> tl_Len (wq_lanes (cr_queue s)) = 0 \<Longrightarrow> run_step opts None s (s\<lparr>cr_point := Joins\<rparr>)"
| joined: "cr_point s = Joins \<Longrightarrow> \<forall>w \<in> set (cr_workers s). w = Gone \<Longrightarrow> \<forall>kind. cr_elector s \<noteq> ElectorRuns kind \<Longrightarrow>
    run_step opts None s (s\<lparr>cr_point := Returned\<rparr>)"
| outside: "wq_step l (cr_queue s) q \<Longrightarrow> l = Internal \<or> l = Adds k \<Longrightarrow> run_step opts (Some l) s (s\<lparr>cr_queue := q\<rparr>)"
| take_key: "i < length (cr_workers s) \<Longrightarrow> cr_workers s ! i = Getting \<Longrightarrow> wq_Get (cr_queue s) = (Item k, q) \<Longrightarrow>
    run_step opts (Some (Hands k)) s (s\<lparr>cr_queue := q, cr_workers := (cr_workers s)[i := Busy k]\<rparr>)"
| leave: "i < length (cr_workers s) \<Longrightarrow> cr_workers s ! i = Getting \<Longrightarrow> wq_Get (cr_queue s) = (ShutDownSeen, q) \<Longrightarrow>
    run_step opts None s (s\<lparr>cr_workers := (cr_workers s)[i := Gone]\<rparr>)"
| settle_key: "i < length (cr_workers s) \<Longrightarrow> cr_workers s ! i = Busy k \<Longrightarrow>
    run_step opts (Some (settle_label k a)) s
      (s\<lparr>cr_queue := settle now bucket k a (cr_queue s), cr_workers := (cr_workers s)[i := Settled k]\<rparr>)"
| finish_key: "i < length (cr_workers s) \<Longrightarrow> cr_workers s ! i = Settled k \<Longrightarrow>
    run_step opts (Some (Finishes k)) s (s\<lparr>cr_queue := wq_Done k (cr_queue s), cr_workers := (cr_workers s)[i := Getting]\<rparr>)"

subsection \<open>The queue during shutdown\<close>

text \<open>Both lanes are shut down; the consumer's queue is shut down, which the workers see.\<close>

definition stopping :: "'k work_queue \<Rightarrow> bool" where
  "stopping w \<longleftrightarrow> tq_shuttingDown (ln_queue (tl_fast (wq_lanes w))) \<and> tq_shuttingDown (ln_queue (tl_slow (wq_lanes w)))"

definition stopped :: "'k work_queue \<Rightarrow> bool" where
  "stopped w \<longleftrightarrow> tq_shuttingDown (tl_consumerQueue (wq_lanes w))"

definition both_closed :: "'k work_queue \<Rightarrow> bool" where
  "both_closed w \<longleftrightarrow> \<not> tl_fastOpen (wq_lanes w) \<and> \<not> tl_slowOpen (wq_lanes w)"

abbreviation ready_keys :: "'k work_queue \<Rightarrow> 'k set" where
  "ready_keys w \<equiv> tq_dirty (tl_consumerQueue (wq_lanes w))"

definition frame :: "'k work_queue \<Rightarrow> 'k work_queue \<Rightarrow> bool" where
  "frame w w' \<longleftrightarrow> stopping w' = stopping w \<and> is_open w' = is_open w \<and>
     ((both_closed w \<longrightarrow> stopped w) \<longrightarrow> both_closed w' \<longrightarrow> stopped w') \<and> (stopped w \<longrightarrow> stopped w' \<and> ready_keys w' \<subseteq> ready_keys w)"

lemmas frame_defs = frame_def stopping_def stopped_def both_closed_def is_open_def

lemma frame_refl [simp]: "frame w w"
  by (simp add: frame_def)

lemma frame_lane_add [simp]: "frame w (wq_Add k w)" "frame w (wq_AddSlow k w)"
  by (auto simp: frame_defs wq_Add_def tl_Add_def wq_AddSlow_def AddSlow_def lane_add_def)

lemma frame_delays [simp]:
  "frame w (w\<lparr>wq_waitingForAddCh := x\<rparr>)" "frame w (w\<lparr>wq_waiting := y\<rparr>)" "frame w (w\<lparr>wq_failures := z\<rparr>)"
  by (auto simp: frame_defs)

lemma frame_trans: "frame w1 w2 \<Longrightarrow> frame w2 w3 \<Longrightarrow> frame w1 w3"
  by (auto simp: frame_def)

lemma frame_add_after: "frame w (wq_AddAfter now k d w)"
  by (simp add: wq_AddAfter_def)

lemma frame_add_rate_limited: "frame w (wq_AddRateLimited now bucket k w)"
  unfolding wq_AddRateLimited_def When_def by (simp, rule frame_trans [OF _ frame_add_after]) simp

lemma frame_receive:
  assumes "wq_ok w" "\<not> both_closed w"
  shows "tl_fastOpen (wq_lanes w) \<Longrightarrow> frame w (w\<lparr>wq_lanes := receive_fast (wq_lanes w)\<rparr>)"
    "tl_slowOpen (wq_lanes w) \<Longrightarrow> frame w (w\<lparr>wq_lanes := receive_slow (wq_lanes w)\<rparr>)"
proof -
  have open_queue: "\<not> tq_shuttingDown (tl_consumerQueue (wq_lanes w))" using assms by (auto simp: lanes_ok_def both_closed_def)
  show "frame w (w\<lparr>wq_lanes := receive_fast (wq_lanes w)\<rparr>)" if "tl_fastOpen (wq_lanes w)"
    using that open_queue
    by (cases "ln_producer (tl_fast (wq_lanes w))") (simp_all add: frame_defs receive_fast_def receive_def end_consumer_def)
  show "frame w (w\<lparr>wq_lanes := receive_slow (wq_lanes w)\<rparr>)" if "tl_slowOpen (wq_lanes w)"
    using that open_queue
    by (cases "ln_producer (tl_slow (wq_lanes w))") (simp_all add: frame_defs receive_slow_def receive_def end_consumer_def)
qed

lemma frame_receive_closed:
  assumes "wq_ok w"
  shows "\<not> tl_fastOpen (wq_lanes w) \<Longrightarrow> frame w (w\<lparr>wq_lanes := receive_fast (wq_lanes w)\<rparr>)"
    "\<not> tl_slowOpen (wq_lanes w) \<Longrightarrow> frame w (w\<lparr>wq_lanes := receive_slow (wq_lanes w)\<rparr>)"
  using assms by (auto simp: frame_defs receive_fast_def receive_slow_def receive_def end_consumer_def lanes_ok_def)

lemma frame_consume: "wq_ok w \<Longrightarrow> frame w (w\<lparr>wq_lanes := runConsumer c (wq_lanes w)\<rparr>)"
  using frame_receive [of w] frame_receive_closed [of w] by (auto simp: runConsumer_def both_closed_def split: choice.splits)

lemma frame_waiting: "frame w (waiting_entry now w)" "frame w (waiting_ready now k w)"
proof -
  have "frame w (wq_Add j (w\<lparr>wq_waitingForAddCh := x\<rparr>))" for j x by (rule frame_trans [OF _ frame_lane_add(1)]) simp
  moreover have "frame w (w\<lparr>wq_waitingForAddCh := x, wq_waiting := y\<rparr>)" for x y by (auto simp: frame_defs)
  ultimately show "frame w (waiting_entry now w)" by (auto simp: waiting_entry_def Let_def split: list.splits)
  have "frame w ((wq_Add k w)\<lparr>wq_waiting := x\<rparr>)" for x by (rule frame_trans [OF frame_lane_add(1) [of w k]]) simp
  then show "frame w (waiting_ready now k w)" by (auto simp: waiting_ready_def split: option.splits)
qed

lemma frame_Done: "frame w (wq_Done k w)"
  by (auto simp: frame_defs wq_Done_def tl_Done_def)

lemma frame_Get: "wq_Get w = (Item k, w') \<Longrightarrow> frame w w'"
  by (auto simp: frame_defs wq_Get_def tl_Get_def tq_Get_def split: list.splits if_splits)

lemma wq_step_frame: "wq_step l w w' \<Longrightarrow> wq_ok w \<Longrightarrow> l \<noteq> Stops \<Longrightarrow> frame w w'"
proof (induction rule: wq_step.induct)
  case (forget w k)
  then show ?case by (simp add: wq_Forget_def)
next
  case (process_fast w)
  then show ?case by (simp add: frame_defs)
next
  case (process_slow w)
  then show ?case by (simp add: frame_defs)
qed (auto intro: frame_add_after frame_add_rate_limited frame_consume frame_waiting frame_Done frame_Get)


subsection \<open>Invariant of a run\<close>

text \<open>The keys the workers have, worker by worker.\<close>

fun worker_keys :: "'k worker \<Rightarrow> 'k list" where
  "worker_keys (Busy k) = [k]"
| "worker_keys (Settled k) = [k]"
| "worker_keys Getting = []"
| "worker_keys Gone = []"

definition keys_held :: "'k worker list \<Rightarrow> 'k list" where
  "keys_held ws = concat (map worker_keys ws)"

lemma keys_held_append [simp]: "keys_held (ws @ [w]) = keys_held ws @ worker_keys w"
  by (simp add: keys_held_def)

lemma keys_held_split:
  "i < length ws \<Longrightarrow> keys_held (ws[i := w]) = keys_held (take i ws) @ worker_keys w @ keys_held (drop (Suc i) ws)"
  "i < length ws \<Longrightarrow> keys_held ws = keys_held (take i ws) @ worker_keys (ws ! i) @ keys_held (drop (Suc i) ws)"
proof -
  show "i < length ws \<Longrightarrow> keys_held (ws[i := w]) = keys_held (take i ws) @ worker_keys w @ keys_held (drop (Suc i) ws)"
    by (simp add: keys_held_def upd_conv_take_nth_drop)
  then show "i < length ws \<Longrightarrow> keys_held ws = keys_held (take i ws) @ worker_keys (ws ! i) @ keys_held (drop (Suc i) ws)"
    by (metis keys_held_def concat_append id_take_nth_drop list.simps(9) map_append concat.simps(2))
qed

lemma keys_held_gone: "\<forall>w \<in> set ws. w = Gone \<Longrightarrow> keys_held ws = []"
  by (auto simp: keys_held_def)

fun launches :: "run_point \<Rightarrow> nat option" where
  "launches (Launching n) = Some n"
| "launches Building = None"
| "launches Awaits = Some 0"
| "launches Draining = Some 0"
| "launches Joins = Some 0"
| "launches Returned = Some 0"

definition ended :: "run_point \<Rightarrow> bool" where
  "ended p \<longleftrightarrow> p \<in> {Draining, Joins, Returned}"

definition all_gone :: "'k controller_run \<Rightarrow> bool" where
  "all_gone s \<longleftrightarrow> (\<forall>w \<in> set (cr_workers s). w = Gone)"

text \<open>
  The queue is in order and held keys are those of the workers, each once; the queue is shut down exactly from
  draining on, and the consumer's queue before any worker leaves; when all have left, no key is ready.
\<close>

definition queue_ok :: "'k controller_run \<Rightarrow> bool" where
  "queue_ok s \<longleftrightarrow> wq_ok (cr_queue s) \<and> distinct (keys_held (cr_workers s)) \<and> set (keys_held (cr_workers s)) = held (cr_queue s) \<and>
     (both_closed (cr_queue s) \<longrightarrow> stopped (cr_queue s)) \<and> (Gone \<in> set (cr_workers s) \<longrightarrow> stopped (cr_queue s)) \<and>
     (all_gone s \<and> cr_workers s \<noteq> [] \<longrightarrow> ready_keys (cr_queue s) = {})"

definition point_ok :: "run_options \<Rightarrow> 'k controller_run \<Rightarrow> bool" where
  "point_ok opts s \<longleftrightarrow>
     (if ended (cr_point s) then stopping (cr_queue s) \<and> (cr_err s = None \<longrightarrow> cr_done s) else is_open (cr_queue s) \<and> cr_err s = None) \<and>
     (cr_err s \<noteq> None \<longrightarrow> cr_workers s = [] \<and> cr_elector s = NoElector) \<and>
     (cr_err s = None \<longrightarrow> (case launches (cr_point s) of None \<Rightarrow> cr_workers s = [] \<and> cr_elector s = NoElector | Some n \<Rightarrow> length (cr_workers s) + n = nat (ro_threadiness opts))) \<and>
     (cr_point s = Returned \<longrightarrow> all_gone s \<and> (\<forall>kind. cr_elector s \<noteq> ElectorRuns kind))"

definition run_ok :: "run_options \<Rightarrow> 'k controller_run \<Rightarrow> bool" where
  "run_ok opts s \<longleftrightarrow> queue_ok s \<and> point_ok opts s"

lemma new_not_closed [simp]: "\<not> both_closed newWorkQueue"
  by (simp add: both_closed_def newWorkQueue_def newTwoLaneWorkQueue_def)

lemma run_ok_new: "run_ok opts new_run"
  by (simp add: run_ok_def queue_ok_def point_ok_def new_run_def wq_ok_new ended_def keys_held_def)

lemma queue_ok_other_fields [simp]:
  "queue_ok (s\<lparr>cr_point := p\<rparr>) = queue_ok s" "queue_ok (s\<lparr>cr_point := p, cr_queue := q\<rparr>) = queue_ok (s\<lparr>cr_queue := q\<rparr>)"
  "queue_ok (s\<lparr>cr_point := p, cr_err := e, cr_queue := q\<rparr>) = queue_ok (s\<lparr>cr_queue := q\<rparr>)" "queue_ok (s\<lparr>cr_err := e\<rparr>) = queue_ok s"
  "queue_ok (s\<lparr>cr_elector := el\<rparr>) = queue_ok s" "queue_ok (s\<lparr>cr_done := d\<rparr>) = queue_ok s"
  by (simp_all add: queue_ok_def all_gone_def)

text \<open>A shut down consumer's queue means that both lanes are.\<close>

lemma stopped_stopping: "wq_ok w \<Longrightarrow> stopped w \<Longrightarrow> stopping w"
  by (auto simp: stopped_def stopping_def lanes_ok_def lane_ok_def)

lemma queue_step_ok:
  assumes "queue_ok s" "wq_step l (cr_queue s) q" "l \<noteq> Stops"
    and "distinct (keys_held ws)" "set (keys_held ws) = set (keys_held (cr_workers s)) \<union> handed l - finished l"
    and "Gone \<in> set ws \<longrightarrow> Gone \<in> set (cr_workers s)" "(\<forall>w \<in> set ws. w = Gone) \<and> ws \<noteq> [] \<longrightarrow> all_gone s \<and> cr_workers s \<noteq> []"
  shows "queue_ok (s\<lparr>cr_queue := q, cr_workers := ws\<rparr>)"
proof -
  have ok: "wq_ok (cr_queue s)" using assms(1) by (simp add: queue_ok_def)
  from wq_step_good [OF assms(2) ok] have good: "wq_ok q" "held q = held (cr_queue s) \<union> handed l - finished l"
    by (auto simp: good_step_def)
  from wq_step_frame [OF assms(2) ok assms(3)] have fr: "frame (cr_queue s) q" .
  have gone: "stopped (cr_queue s)" if "Gone \<in> set ws" using that assms(1,6) by (simp add: queue_ok_def)
  moreover have "ready_keys q = {}" if all: "\<forall>w \<in> set ws. w = Gone" "ws \<noteq> []"
  proof -
    have "Gone \<in> set ws" using all by (cases ws) auto
    then show ?thesis using gone fr assms(1,7) all by (auto simp: frame_def queue_ok_def)
  qed
  ultimately show ?thesis using good fr assms(1,4,5) by (auto simp: queue_ok_def frame_def all_gone_def)
qed

lemma point_queue_ok:
  assumes "point_ok opts s" "frame (cr_queue s) q" "length ws = length (cr_workers s)" "all_gone s \<longrightarrow> (\<forall>w \<in> set ws. w = Gone)"
  shows "point_ok opts (s\<lparr>cr_queue := q, cr_workers := ws\<rparr>)"
proof -
  have "stopping q = stopping (cr_queue s)" "is_open q = is_open (cr_queue s)" using assms(2) by (auto simp: frame_def)
  moreover have "ws = [] \<longleftrightarrow> cr_workers s = []" using assms(3) by auto
  ultimately show ?thesis using assms(1,3,4) unfolding point_ok_def
    by (cases "launches (cr_point s)"; cases "ended (cr_point s)") (simp_all add: all_gone_def)
qed

lemma worker_step_ok:
  assumes "run_ok opts s" "wq_step l (cr_queue s) q" "l \<noteq> Stops" "i < length (cr_workers s)" "cr_workers s ! i \<noteq> Gone" "w \<noteq> Gone"
    and keys: "set (worker_keys w) = set (worker_keys (cr_workers s ! i)) \<union> handed l - finished l"
    and new: "handed l \<subseteq> - held (cr_queue s)" and old: "finished l \<subseteq> set (worker_keys (cr_workers s ! i))"
  shows "run_ok opts (s\<lparr>cr_queue := q, cr_workers := (cr_workers s)[i := w]\<rparr>)"
proof -
  let ?ws = "cr_workers s" and ?l = "keys_held (take i (cr_workers s))" and ?r = "keys_held (drop (Suc i) (cr_workers s))"
  have q: "queue_ok s" "point_ok opts s" using assms(1) by (auto simp: run_ok_def)
  have "wq_ok (cr_queue s)" using q by (simp add: queue_ok_def)
  note fr = wq_step_frame [OF assms(2) this assms(3)]
  have split: "keys_held ?ws = ?l @ worker_keys (?ws ! i) @ ?r" "keys_held (?ws[i := w]) = ?l @ worker_keys w @ ?r"
    using keys_held_split [OF assms(4)] by auto
  have d: "distinct (?l @ worker_keys (?ws ! i) @ ?r)" "set (?l @ worker_keys (?ws ! i) @ ?r) = held (cr_queue s)"
    using q(1) split by (auto simp: queue_ok_def)
  have one: "distinct (worker_keys w)" by (cases w) auto
  have fin: "finished l \<inter> set ?l = {}" "finished l \<inter> set ?r = {}" using d(1) old by auto
  have "distinct (keys_held (?ws[i := w]))" using d one new by (auto simp: split keys)
  moreover have "set (keys_held (?ws[i := w])) = set (keys_held ?ws) \<union> handed l - finished l"
    using fin by (auto simp: split keys)
  moreover have "Gone \<in> set (?ws[i := w]) \<longrightarrow> Gone \<in> set ?ws" using assms(6) set_update_subset_insert [of ?ws i w] by blast
  moreover have "w \<in> set (?ws[i := w])" using assms(4) by (simp add: set_update_memI)
  then have "\<not> (\<forall>v \<in> set (?ws[i := w]). v = Gone)" using assms(6) by blast
  ultimately have "queue_ok (s\<lparr>cr_queue := q, cr_workers := ?ws[i := w]\<rparr>)" by (intro queue_step_ok [OF q(1) assms(2,3)]) auto
  moreover have "\<not> all_gone s" using assms(4,5) by (auto simp: all_gone_def)
  ultimately show ?thesis using point_queue_ok [OF q(2) fr] by (simp add: run_ok_def)
qed


text \<open>Shutting the queue down.\<close>

lemma stop_ok:
  assumes "queue_ok s" "is_open (cr_queue s)"
  shows "queue_ok (s\<lparr>cr_queue := wq_ShutDown (cr_queue s)\<rparr>)" "stopping (wq_ShutDown (cr_queue s))"
proof -
  have good: "wq_ok (wq_ShutDown (cr_queue s))" "held (wq_ShutDown (cr_queue s)) = held (cr_queue s)"
    using wq_step_good [OF wq_step.stop] assms(1) by (auto simp: good_step_def queue_ok_def)
  then show "queue_ok (s\<lparr>cr_queue := wq_ShutDown (cr_queue s)\<rparr>)"
    using assms(1) by (auto simp: queue_ok_def all_gone_def stopped_def both_closed_def wq_ShutDown_def tl_ShutDown_def)
  show "stopping (wq_ShutDown (cr_queue s))" by (simp add: stopping_def wq_ShutDown_def tl_ShutDown_def)
qed

text \<open>A worker leaves when the consumer's queue is empty and shut down; a key it would still owe is with another worker.\<close>

lemma leave_ok:
  assumes "run_ok opts s" "i < length (cr_workers s)" "cr_workers s ! i = Getting" "wq_Get (cr_queue s) = (ShutDownSeen, q)"
  shows "run_ok opts (s\<lparr>cr_workers := (cr_workers s)[i := Gone]\<rparr>)"
proof -
  let ?ws = "cr_workers s"
  have q: "queue_ok s" "point_ok opts s" using assms(1) by (auto simp: run_ok_def)
  have stopped: "stopped (cr_queue s)" "tq_queue (tl_consumerQueue (wq_lanes (cr_queue s))) = []"
    using assms(4) by (auto simp: wq_Get_def tl_Get_def tq_Get_def stopped_def split: list.splits if_splits)
  have keys: "keys_held (?ws[i := Gone]) = keys_held ?ws" using keys_held_split [OF assms(2)] assms(3) by simp
  have "ready_keys (cr_queue s) = {}" if "\<forall>w \<in> set (?ws[i := Gone]). w = Gone"
  proof -
    have "held (cr_queue s) = {}" using keys_held_gone [OF that] keys q(1) by (simp add: queue_ok_def)
    then show ?thesis using stopped(2) q(1) by (auto simp: queue_ok_def held_def lanes_ok_def tq_ok_def)
  qed
  then have "queue_ok (s\<lparr>cr_workers := ?ws[i := Gone]\<rparr>)" using q(1) stopped(1) keys by (auto simp: queue_ok_def all_gone_def)
  moreover have "point_ok opts (s\<lparr>cr_queue := cr_queue s, cr_workers := ?ws[i := Gone]\<rparr>)"
    by (rule point_queue_ok [OF q(2)]) (use set_update_subset_insert [of ?ws i Gone] in \<open>auto simp: all_gone_def\<close>)
  ultimately show ?thesis by (simp add: run_ok_def)
qed

lemma launch_ok:
  assumes "run_ok opts s" "cr_point s = Launching (Suc n)"
  shows "run_ok opts (s\<lparr>cr_point := Launching n, cr_workers := cr_workers s @ [Getting]\<rparr>)"
  using assms by (auto simp: run_ok_def queue_ok_def point_ok_def all_gone_def ended_def)

lemma settle_step: "wq_step (settle_label k a) w (settle now bucket k a w)"
  by (cases a) (auto intro: wq_step.intros)

lemma run_step_ok:
  assumes "run_step opts l s s'" "run_ok opts s"
  shows "run_ok opts s' \<and> (case l of None \<Rightarrow> cr_queue s' = cr_queue s | Some l \<Rightarrow> wq_step l (cr_queue s) (cr_queue s'))"
  using assms
proof (induction rule: run_step.induct)
  case (build_fails s e)
  then have "is_open (cr_queue s)" by (simp add: run_ok_def point_ok_def ended_def)
  with stop_ok [of s] build_fails have "queue_ok (s\<lparr>cr_queue := wq_ShutDown (cr_queue s)\<rparr>)" "stopping (wq_ShutDown (cr_queue s))"
    by (auto simp: run_ok_def)
  with build_fails show ?case by (auto simp: run_ok_def point_ok_def all_gone_def ended_def intro: wq_step.stop)
next
  case (cancelled s)
  then have "is_open (cr_queue s)" by (simp add: run_ok_def point_ok_def ended_def)
  with stop_ok [of s] cancelled have "queue_ok (s\<lparr>cr_queue := wq_ShutDown (cr_queue s)\<rparr>)" "stopping (wq_ShutDown (cr_queue s))"
    by (auto simp: run_ok_def)
  with cancelled show ?case by (auto simp: run_ok_def point_ok_def all_gone_def ended_def intro: wq_step.stop)
next
  case (outside l s q k)
  then have "l \<noteq> Stops" "handed l = {}" "finished l = {}" by auto
  with outside have "queue_ok (s\<lparr>cr_queue := q, cr_workers := cr_workers s\<rparr>)"
    by (intro queue_step_ok [of s l q]) (auto simp: run_ok_def queue_ok_def all_gone_def)
  moreover have "frame (cr_queue s) q" using wq_step_frame outside \<open>l \<noteq> Stops\<close> by (auto simp: run_ok_def queue_ok_def)
  then have "point_ok opts (s\<lparr>cr_queue := q, cr_workers := cr_workers s\<rparr>)"
    using outside by (intro point_queue_ok) (auto simp: run_ok_def all_gone_def)
  ultimately show ?case using outside by (simp add: run_ok_def)
next
  case (take_key i s k q)
  have "k \<notin> held (cr_queue s)"
    using good_step_get [OF _ take_key(3)] take_key(4) by (auto simp: good_step_def run_ok_def queue_ok_def)
  with take_key have "run_ok opts (s\<lparr>cr_queue := q, cr_workers := (cr_workers s)[i := Busy k]\<rparr>)"
    by (intro worker_step_ok [of opts s "Hands k"]) (auto intro: wq_step.get)
  with take_key show ?case by (auto intro: wq_step.get)
next
  case (leave i s q)
  then show ?case using leave_ok [OF leave(4,1,2,3)] by simp
next
  case (settle_key i s k a now bucket)
  have "handed (settle_label k a) = {}" "finished (settle_label k a) = {}" "settle_label k a \<noteq> Stops" by (cases a; simp)+
  with settle_key have "run_ok opts (s\<lparr>cr_queue := settle now bucket k a (cr_queue s), cr_workers := (cr_workers s)[i := Settled k]\<rparr>)"
    by (intro worker_step_ok [of opts s "settle_label k a"]) (auto intro: settle_step)
  with settle_key show ?case by (auto intro: settle_step)
next
  case (finish_key i s k)
  then have "k \<in> held (cr_queue s)" using keys_held_split(2) [of i "cr_workers s"] by (auto simp: run_ok_def queue_ok_def)
  then have "wq_step (Finishes k) (cr_queue s) (wq_Done k (cr_queue s))" by (auto simp: held_def intro: wq_step.finish)
  with finish_key have "run_ok opts (s\<lparr>cr_queue := wq_Done k (cr_queue s), cr_workers := (cr_workers s)[i := Getting]\<rparr>)"
    by (intro worker_step_ok [of opts s "Finishes k"]) auto
  with finish_key \<open>wq_step (Finishes k) _ _\<close> show ?case by auto
next
  case (launch s n)
  then show ?case using launch_ok by auto
next
  case (elector_ends s kind)
  then have "cr_point s \<noteq> Building" "cr_err s = None" by (auto simp: run_ok_def point_ok_def ended_def)
  with elector_ends show ?case by (cases "cr_point s") (simp_all add: run_ok_def point_ok_def all_gone_def ended_def)
next
  case (cancel s)
  then show ?case by (cases "launches (cr_point s)") (simp_all add: run_ok_def point_ok_def all_gone_def split: if_splits)
qed (simp_all add: run_ok_def point_ok_def all_gone_def ended_def)

text \<open>The labels of a run, where the queue takes part, are a run of the work queue.\<close>

lemma run_traces:
  assumes "traces (run_step opts) (new_run :: 'k controller_run) ls s"
  shows "run_ok opts s \<and> traces wq_step newWorkQueue (List.map_filter (\<lambda>l. l) ls) (cr_queue s)"
proof -
  have "s0 = (new_run :: 'k controller_run) \<Longrightarrow> run_ok opts s \<and> traces wq_step newWorkQueue (List.map_filter (\<lambda>l. l) ls) (cr_queue s)"
    if "traces (run_step opts) s0 ls s" for s0 using that
  proof (induction rule: traces.induct)
    case (empty w)
    then show ?case using run_ok_new [of opts] by (auto simp: new_run_def List.map_filter_def intro: traces.empty)
  next
    case (snoc w ls s l s')
    then have "run_ok opts s" "traces wq_step newWorkQueue (List.map_filter (\<lambda>l. l) ls) (cr_queue s)" by auto
    with run_step_ok [OF snoc(2)] show ?case by (cases l) (auto simp: List.map_filter_def intro: traces.snoc)
  qed
  with assms show ?thesis by blast
qed


subsection \<open>Progress of a shutdown\<close>

text \<open>Work that is left in the queue, for the workers and for \<open>RunContext\<close>; every step below lowers it.\<close>

fun producer_cost :: "'k producer \<Rightarrow> nat" where
  "producer_cost (Taken k) = 7"
| "producer_cost (Sending k) = 6"
| "producer_cost Idle = 1"
| "producer_cost Closed = 0"

definition lane_cost :: "'k lane \<Rightarrow> nat" where
  "lane_cost l = 10 * card (tq_dirty (ln_queue l)) + producer_cost (ln_producer l)"

definition queue_cost :: "'k work_queue \<Rightarrow> nat" where
  "queue_cost w = lane_cost (tl_fast (wq_lanes w)) + lane_cost (tl_slow (wq_lanes w)) + 3 * card (ready_keys w) +
     (if tl_fastOpen (wq_lanes w) then 2 else 0) + (if tl_slowOpen (wq_lanes w) then 2 else 0) + (if tl_waiting (wq_lanes w) then 0 else 1)"

fun worker_cost :: "'k worker \<Rightarrow> nat" where
  "worker_cost (Busy k) = 3"
| "worker_cost (Settled k) = 2"
| "worker_cost Getting = 1"
| "worker_cost Gone = 0"

fun point_cost :: "nat \<Rightarrow> run_point \<Rightarrow> nat" where
  "point_cost threads Building = 6 + 2 * threads"
| "point_cost threads (Launching n) = 4 + 2 * n"
| "point_cost threads Awaits = 3"
| "point_cost threads Draining = 2"
| "point_cost threads Joins = 1"
| "point_cost threads Returned = 0"

fun elector_cost :: "elector \<Rightarrow> nat" where
  "elector_cost (ElectorRuns kind) = 1"
| "elector_cost NoElector = 0"
| "elector_cost ElectorDone = 0"

definition run_cost :: "run_options \<Rightarrow> 'k controller_run \<Rightarrow> nat" where
  "run_cost opts s = point_cost (nat (ro_threadiness opts)) (cr_point s) + queue_cost (cr_queue s) +
     sum_list (map worker_cost (cr_workers s)) + elector_cost (cr_elector s)"

lemma traces_cons: "traces step s1 ls s' \<Longrightarrow> step l s s1 \<Longrightarrow> traces step s (l # ls) s'"
proof (induction rule: traces.induct)
  case (empty w)
  then show ?case using traces.snoc [OF traces.empty, of step l s w] by simp
next
  case (snoc w ls w' l' w'')
  then show ?case using traces.snoc [of step s "l # ls" w' l' w''] by simp
qed

lemma sum_list_worker_update:
  "i < length ws \<Longrightarrow> sum_list (map worker_cost (ws[i := w])) + worker_cost (ws ! i) = sum_list (map worker_cost ws) + worker_cost w"
  by (induction ws arbitrary: i) (auto split: nat.splits)

lemma lane_finite: "lane_ok l \<Longrightarrow> finite (tq_dirty (ln_queue l))"
  using finite_set [of "tq_queue (ln_queue l)"] by (auto simp: lane_ok_def tq_ok_def split: producer.splits)

lemma ready_finite: "queue_ok s \<Longrightarrow> finite (ready_keys (cr_queue s))"
proof -
  assume ok: "queue_ok s"
  then have "ready_keys (cr_queue s) \<subseteq> set (tq_queue (tl_consumerQueue (wq_lanes (cr_queue s)))) \<union> set (keys_held (cr_workers s))"
    by (auto simp: queue_ok_def lanes_ok_def tq_ok_def held_def)
  then show ?thesis by (rule finite_subset) simp
qed

lemma process_cost:
  assumes "lane_ok l" "tq_shuttingDown (ln_queue l)" "ln_producer l = Idle \<or> (\<exists>k. ln_producer l = Taken k)"
  shows "lane_cost (process l) < lane_cost l"
proof (cases "ln_producer l")
  case Idle
  show ?thesis
  proof (cases "tq_queue (ln_queue l)")
    case (Cons k ks)
    then have "k \<in> tq_dirty (ln_queue l)" using assms(1) by (auto simp: lane_ok_def tq_ok_def)
    then have "card (tq_dirty (ln_queue l) - {k}) < card (tq_dirty (ln_queue l))" using lane_finite [OF assms(1)] by (rule card_Diff1_less [rotated])
    then show ?thesis using Cons Idle by (simp add: lane_cost_def process_def tq_Get_def)
  qed (use Idle assms(2) in \<open>simp add: lane_cost_def process_def tq_Get_def\<close>)
qed (use assms(3) in \<open>auto simp: lane_cost_def process_def\<close>)

lemma card_ready_add: "finite (tq_dirty q) \<Longrightarrow> card (tq_dirty (tq_Add k q)) \<le> Suc (card (tq_dirty q))"
  by (simp add: card_insert_if)

lemma receive_cost:
  assumes "finite (ready_keys w)"
  shows "tl_fastOpen (wq_lanes w) \<Longrightarrow> ln_producer (tl_fast (wq_lanes w)) = Closed \<or> (\<exists>k. ln_producer (tl_fast (wq_lanes w)) = Sending k) \<Longrightarrow>
      queue_cost (w\<lparr>wq_lanes := receive_fast (wq_lanes w)\<rparr>) < queue_cost w"
    "tl_slowOpen (wq_lanes w) \<Longrightarrow> ln_producer (tl_slow (wq_lanes w)) = Closed \<or> (\<exists>k. ln_producer (tl_slow (wq_lanes w)) = Sending k) \<Longrightarrow>
      queue_cost (w\<lparr>wq_lanes := receive_slow (wq_lanes w)\<rparr>) < queue_cost w"
proof -
  let ?t = "wq_lanes w"
  have add: "card (tq_dirty (tq_Add k (tl_consumerQueue ?t))) \<le> Suc (card (ready_keys w))" for k by (rule card_ready_add [OF assms])
  show "queue_cost (w\<lparr>wq_lanes := receive_fast ?t\<rparr>) < queue_cost w"
    if "tl_fastOpen ?t" and at: "ln_producer (tl_fast ?t) = Closed \<or> (\<exists>k. ln_producer (tl_fast ?t) = Sending k)"
    using at
  proof (elim disjE exE)
    fix k assume "ln_producer (tl_fast ?t) = Sending k"
    with add [of k] show ?thesis by (simp del: tq_dirty_ops add: queue_cost_def receive_fast_def receive_def lane_cost_def)
  qed (use that(1) in \<open>simp add: queue_cost_def receive_fast_def receive_def end_consumer_def lane_cost_def\<close>)
  show "queue_cost (w\<lparr>wq_lanes := receive_slow ?t\<rparr>) < queue_cost w"
    if "tl_slowOpen ?t" and at: "ln_producer (tl_slow ?t) = Closed \<or> (\<exists>k. ln_producer (tl_slow ?t) = Sending k)"
    using at
  proof (elim disjE exE)
    fix k assume "ln_producer (tl_slow ?t) = Sending k"
    with add [of k] show ?thesis by (simp del: tq_dirty_ops add: queue_cost_def receive_slow_def receive_def lane_cost_def)
  qed (use that(1) in \<open>simp add: queue_cost_def receive_slow_def receive_def end_consumer_def lane_cost_def\<close>)
qed

lemma queue_progress:
  assumes "queue_ok s" "stopping (cr_queue s)" "\<not> stopped (cr_queue s)"
  shows "\<exists>q. wq_step Internal (cr_queue s) q \<and> queue_cost q < queue_cost (cr_queue s)"
proof -
  let ?w = "cr_queue s" and ?t = "wq_lanes (cr_queue s)"
  have ok: "lane_ok (tl_fast ?t)" "lane_ok (tl_slow ?t)" and not_closed: "\<not> both_closed ?w" and fin: "finite (ready_keys ?w)"
    using assms ready_finite [OF assms(1)] by (auto simp: queue_ok_def lanes_ok_def)
  have shut: "tq_shuttingDown (ln_queue (tl_fast ?t))" "tq_shuttingDown (ln_queue (tl_slow ?t))" using assms(2) by (auto simp: stopping_def)
  consider (fast) "ln_producer (tl_fast ?t) = Idle \<or> (\<exists>k. ln_producer (tl_fast ?t) = Taken k)"
    | (slow) "ln_producer (tl_slow ?t) = Idle \<or> (\<exists>k. ln_producer (tl_slow ?t) = Taken k)"
    | (offered) "ln_producer (tl_fast ?t) = Closed \<or> (\<exists>k. ln_producer (tl_fast ?t) = Sending k)"
        "ln_producer (tl_slow ?t) = Closed \<or> (\<exists>k. ln_producer (tl_slow ?t) = Sending k)"
    by (meson producer.exhaust)
  then show ?thesis
  proof cases
    case fast
    with process_cost [OF ok(1) shut(1)] have "queue_cost (?w\<lparr>wq_lanes := ?t\<lparr>tl_fast := process (tl_fast ?t)\<rparr>\<rparr>) < queue_cost ?w"
      by (simp add: queue_cost_def)
    then show ?thesis using wq_step.process_fast by blast
  next
    case slow
    with process_cost [OF ok(2) shut(2)] have "queue_cost (?w\<lparr>wq_lanes := ?t\<lparr>tl_slow := process (tl_slow ?t)\<rparr>\<rparr>) < queue_cost ?w"
      by (simp add: queue_cost_def)
    then show ?thesis using wq_step.process_slow by blast
  next
    case offered
    show ?thesis
    proof (cases "tl_fastOpen ?t")
      case True
      with receive_cost(1) [OF fin _ offered(1)] have "queue_cost (?w\<lparr>wq_lanes := runConsumer FromFast ?t\<rparr>) < queue_cost ?w"
        by (simp add: runConsumer_def)
      then show ?thesis using wq_step.consume by blast
    next
      case False
      then have "tl_slowOpen ?t" using not_closed by (simp add: both_closed_def)
      with False receive_cost(2) [OF fin _ offered(2)] have "queue_cost (?w\<lparr>wq_lanes := runConsumer FromSlow ?t\<rparr>) < queue_cost ?w"
        by (simp add: runConsumer_def)
      then show ?thesis using wq_step.consume by blast
    qed
  qed
qed


text \<open>A step of the controller itself, nothing new from outside, that lowers the cost.\<close>

definition advances :: "run_options \<Rightarrow> 'k controller_run \<Rightarrow> bool" where
  "advances opts s \<longleftrightarrow>
     (\<exists>l s'. run_step opts l s s' \<and> run_cost opts s' < run_cost opts s \<and> (\<forall>k. l \<noteq> Some (Adds k)) \<and> cr_done s' = cr_done s)"

lemma advancesI:
  "run_step opts l s s' \<Longrightarrow> run_cost opts s' < run_cost opts s \<Longrightarrow> \<forall>k. l \<noteq> Some (Adds k) \<Longrightarrow> cr_done s' = cr_done s \<Longrightarrow> advances opts s"
  by (auto simp: advances_def)

lemma worker_progress:
  assumes "run_ok opts s" "stopped (cr_queue s)" "\<not> all_gone s"
  shows "advances opts s"
proof -
  let ?ws = "cr_workers s" and ?w = "cr_queue s" and ?q = "tl_consumerQueue (wq_lanes (cr_queue s))"
  have qok: "queue_ok s" using assms(1) by (simp add: run_ok_def)
  obtain i where i: "i < length ?ws" "?ws ! i \<noteq> Gone" using assms(3) by (auto simp: all_gone_def in_set_conv_nth)
  note upd = sum_list_worker_update [OF i(1)]
  show ?thesis
  proof (cases "?ws ! i")
    case Getting
    show ?thesis
    proof (cases "tq_queue ?q")
      case Nil
      then have "wq_Get ?w = (ShutDownSeen, ?w)" using assms(2) by (simp add: wq_Get_def tl_Get_def tq_Get_def stopped_def)
      then show ?thesis using upd [of Gone] Getting by (intro advancesI [OF run_step.leave [OF i(1)]]) (auto simp: run_cost_def)
    next
      case (Cons k ks)
      let ?q' = "?q\<lparr>tq_queue := ks, tq_processing := insert k (tq_processing ?q), tq_dirty := tq_dirty ?q - {k}\<rparr>"
      let ?w' = "?w\<lparr>wq_lanes := (wq_lanes ?w)\<lparr>tl_consumerQueue := ?q'\<rparr>\<rparr>"
      have get: "wq_Get ?w = (Item k, ?w')" using Cons by (simp add: wq_Get_def tl_Get_def tq_Get_def)
      have "k \<in> tq_dirty ?q" using Cons qok by (auto simp: queue_ok_def lanes_ok_def tq_ok_def)
      then have "card (tq_dirty ?q - {k}) < card (tq_dirty ?q)" using ready_finite [OF qok] by (rule card_Diff1_less [rotated])
      then have "queue_cost ?w' + 3 \<le> queue_cost ?w" by (simp add: queue_cost_def)
      then show ?thesis using upd [of "Busy k"] Getting
        by (intro advancesI [OF run_step.take_key [OF i(1) Getting get]]) (auto simp: run_cost_def)
    qed
  next
    case (Busy k)
    then show ?thesis using upd [of "Settled k"]
      by (intro advancesI [OF run_step.settle_key [where a = Forget, OF i(1) Busy]]) (auto simp: run_cost_def queue_cost_def wq_Forget_def)
  next
    case (Settled k)
    then show ?thesis using upd [of Getting]
      by (intro advancesI [OF run_step.finish_key [OF i(1) Settled]]) (auto simp: run_cost_def queue_cost_def wq_Done_def tl_Done_def)
  qed (use i in simp)
qed

lemma gone_len: "queue_ok s \<Longrightarrow> all_gone s \<Longrightarrow> cr_workers s \<noteq> [] \<Longrightarrow> tl_Len (wq_lanes (cr_queue s)) = 0 \<and> lanes_due (wq_lanes (cr_queue s)) = {}"
proof -
  assume ok: "queue_ok s" and gone: "all_gone s" "cr_workers s \<noteq> []"
  then have "Gone \<in> set (cr_workers s)" by (cases "cr_workers s") (auto simp: all_gone_def)
  then have closed: "ln_producer (tl_fast (wq_lanes (cr_queue s))) = Closed" "ln_producer (tl_slow (wq_lanes (cr_queue s))) = Closed"
    using ok by (auto simp: queue_ok_def stopped_def lanes_ok_def)
  have "ready_keys (cr_queue s) = {}" using ok gone by (simp add: queue_ok_def)
  with closed ok show ?thesis by (auto simp: queue_ok_def tl_Len_def lanes_due_def lane_due_def lanes_ok_def lane_ok_def tq_ok_def)
qed

lemma ended_progress:
  assumes ok: "run_ok opts s" and cancelled: "cr_done s" and thr: "0 < ro_threadiness opts" and err: "cr_err s = None"
    and point: "ended (cr_point s)" "cr_point s \<noteq> Returned"
  shows "advances opts s"
proof -
  have qok: "queue_ok s" and pok: "point_ok opts s" using ok by (auto simp: run_ok_def)
  have st: "stopping (cr_queue s)" and ws: "cr_workers s \<noteq> []" using point pok err thr by (auto simp: point_ok_def ended_def)
  consider (queue) "\<not> stopped (cr_queue s)" | (workers) "stopped (cr_queue s)" "\<not> all_gone s" | (gone) "all_gone s" by blast
  then show ?thesis
  proof cases
    case queue
    from queue_progress [OF qok st queue] obtain q where "wq_step Internal (cr_queue s) q" "queue_cost q < queue_cost (cr_queue s)" by blast
    then show ?thesis by (intro advancesI [OF run_step.outside]) (auto simp: run_cost_def)
  next
    case workers
    then show ?thesis using worker_progress [OF ok] by simp
  next
    case gone
    show ?thesis
    proof (cases "\<exists>kind. cr_elector s = ElectorRuns kind")
      case True
      then show ?thesis using cancelled by (auto intro!: advancesI [OF run_step.elector_ends] simp: run_cost_def)
    next
      case False
      consider (draining) "cr_point s = Draining" | (joins) "cr_point s = Joins" using point by (auto simp: ended_def)
      then show ?thesis
      proof cases
        case draining
        with gone_len [OF qok gone ws] show ?thesis by (intro advancesI [OF run_step.drained]) (auto simp: run_cost_def)
      next
        case joins
        with gone False show ?thesis by (intro advancesI [OF run_step.joined]) (auto simp: run_cost_def all_gone_def)
      qed
    qed
  qed
qed

lemma starting_progress:
  assumes ok: "run_ok opts s" and cancelled: "cr_done s" and point: "\<not> ended (cr_point s)"
    and elector: "\<not> ro_leaderAware opts \<or> (\<exists>kind. ro_BuildElector opts = Inr kind)"
  shows "advances opts s"
proof -
  have stop: "queue_cost (wq_ShutDown (cr_queue s)) = queue_cost (cr_queue s)"
    by (simp add: queue_cost_def lane_cost_def wq_ShutDown_def tl_ShutDown_def)
  show ?thesis
  proof (cases "cr_point s")
    case Building
    have none: "cr_elector s = NoElector" using ok Building by (auto simp: run_ok_def point_ok_def ended_def)
    show ?thesis
    proof (cases "ro_leaderAware opts")
      case True
      with elector obtain kind where "ro_BuildElector opts = Inr kind" by blast
      with True Building none show ?thesis by (intro advancesI [OF run_step.build_elector]) (auto simp: run_cost_def)
    next
      case False
      with Building none show ?thesis by (intro advancesI [OF run_step.no_elector]) (auto simp: run_cost_def)
    qed
  next
    case (Launching n)
    show ?thesis
    proof (cases n)
      case 0
      with Launching show ?thesis by (intro advancesI [OF run_step.launched]) (auto simp: run_cost_def)
    next
      case (Suc m)
      with Launching show ?thesis by (intro advancesI [OF run_step.launch]) (auto simp: run_cost_def)
    qed
  next
    case Awaits
    then show ?thesis using cancelled stop by (auto intro!: advancesI [OF run_step.cancelled] simp: run_cost_def)
  qed (use point in \<open>auto simp: ended_def\<close>)
qed

lemma no_err: "run_step opts l s s' \<Longrightarrow> \<not> ro_leaderAware opts \<or> (\<exists>kind. ro_BuildElector opts = Inr kind) \<Longrightarrow> cr_err s = None \<Longrightarrow> cr_err s' = None"
  by (induction rule: run_step.induct) auto

lemma traces_no_err:
  assumes "traces (run_step opts) s ls s'" "\<not> ro_leaderAware opts \<or> (\<exists>kind. ro_BuildElector opts = Inr kind)" "cr_err s = None"
  shows "cr_err s' = None"
  using assms(1,3)
proof (induction rule: traces.induct)
  case (snoc s ls s' l s'')
  then show ?case using no_err [OF snoc(2) assms(2)] by simp
qed

lemma run_returns:
  assumes "run_ok opts s" "cr_done s" "0 < ro_threadiness opts" "cr_err s = None"
    and "\<not> ro_leaderAware opts \<or> (\<exists>kind. ro_BuildElector opts = Inr kind)"
  shows "\<exists>ls s'. traces (run_step opts) s ls s' \<and> cr_point s' = Returned \<and> (\<forall>k. Some (Adds k) \<notin> set ls)"
  using assms
proof (induction "run_cost opts s" arbitrary: s rule: less_induct)
  case less
  show ?case
  proof (cases "cr_point s = Returned")
    case False
    have "advances opts s" using ended_progress [OF less(2-5)] starting_progress [OF less(2,3)] less(6) False by blast
    then obtain l s1 where s1: "run_step opts l s s1" "run_cost opts s1 < run_cost opts s" "\<forall>k. l \<noteq> Some (Adds k)" "cr_done s1"
      using less(3) by (auto simp: advances_def)
    have "run_ok opts s1" "cr_err s1 = None" using run_step_ok [OF s1(1) less(2)] no_err [OF s1(1) less(6,5)] by auto
    with less(1) [OF s1(2)] s1(4) less(4,6) obtain ls s' where "traces (run_step opts) s1 ls s'" "cr_point s' = Returned" "\<forall>k. Some (Adds k) \<notin> set ls" by blast
    moreover from this(1) have "traces (run_step opts) s (l # ls) s'" using s1(1) by (rule traces_cons)
    ultimately show ?thesis using s1(3) by (intro exI [of _ "l # ls"]) auto
  qed (use traces.empty in fastforce)
qed


subsection \<open>A controller without workers\<close>

text \<open>A key that waits for a worker stays, and keeps \<open>RunContext\<close> in its loop.\<close>

definition stuck :: "'k controller_run \<Rightarrow> bool" where
  "stuck s \<longleftrightarrow> cr_point s = Draining \<and> cr_workers s = [] \<and> tq_queue (tl_consumerQueue (wq_lanes (cr_queue s))) \<noteq> []"

lemma consumer_keeps:
  "wq_step l w w' \<Longrightarrow> l = Internal \<or> l = Adds k \<Longrightarrow> tq_queue (tl_consumerQueue (wq_lanes w)) \<noteq> [] \<Longrightarrow>
     tq_queue (tl_consumerQueue (wq_lanes w')) \<noteq> []"
proof (induction rule: wq_step.induct)
  case (consume w c)
  then show ?case
    by (auto simp: runConsumer_def receive_fast_def receive_slow_def end_consumer_def tq_ShutDown_def tq_Add_def Let_def
        split: prod.split got.split choice.split)
qed (auto simp: wq_add_defs waiting_entry_def waiting_ready_def wq_Forget_def wq_Add_def tl_Add_def Let_def split: list.splits option.splits)

lemma stuck_step: "run_step opts l s s' \<Longrightarrow> stuck s \<Longrightarrow> stuck s'"
  by (induction rule: run_step.induct) (auto simp: stuck_def tl_Len_def dest: consumer_keeps)

lemma stuck_traces: "traces (run_step opts) s ls s' \<Longrightarrow> stuck s \<Longrightarrow> stuck s'"
  by (induction rule: traces.induct) (auto intro: stuck_step)

lemma map_filter_labels: "List.map_filter (\<lambda>l. l) (as @ Some k # bs) = List.map_filter (\<lambda>l. l) as @ k # List.map_filter (\<lambda>l. l) bs"
  "x \<in> set (List.map_filter (\<lambda>l. l) ls) \<longleftrightarrow> Some x \<in> set ls"
  by (force simp: List.map_filter_def)+

lemma keys_held_nth: "i < length ws \<Longrightarrow> k \<in> set (worker_keys (ws ! i)) \<Longrightarrow> k \<in> set (keys_held ws)"
  by (auto simp: keys_held_def)

lemma keys_held_distinct:
  assumes "distinct (keys_held ws)" "i < j" "j < length ws" "k \<in> set (worker_keys (ws ! i))"
  shows "k \<notin> set (worker_keys (ws ! j))"
proof
  assume "k \<in> set (worker_keys (ws ! j))"
  then have "k \<in> set (keys_held (drop (Suc i) ws))"
    using keys_held_nth [of "j - Suc i" "drop (Suc i) ws" k] assms(2,3) by simp
  then show False using assms keys_held_split(2) [of i ws] by auto
qed

subsection \<open>Properties\<close>

text \<open>
  C12: A controller works until it is told to stop and then stops in good order. Over every interleaving of
  \<open>RunContext\<close>, its elector, its workers, the queue and the handlers that add keys: no two workers have the same key;
  a worker leaves its loop only after the context was cancelled; and when \<open>RunContext\<close> has returned every worker has
  left, the elector has ended, every key that was ever handed out has been finished since, and, with at
  least one worker launched, no key is left in the lanes: only keys that wait out a delay are dropped.
\<close>
theorem orderly_shutdown:
  fixes s :: "'k controller_run"
  assumes "traces (run_step opts) new_run ls s"
  shows "(\<forall>i j k. i < j \<and> j < length (cr_workers s) \<and> k \<in> set (worker_keys (cr_workers s ! i)) \<longrightarrow> k \<notin> set (worker_keys (cr_workers s ! j))) \<and>
    (Gone \<in> set (cr_workers s) \<longrightarrow> cr_done s) \<and>
    (cr_point s = Returned \<longrightarrow>
       (\<forall>w \<in> set (cr_workers s). w = Gone) \<and> (\<forall>kind. cr_elector s \<noteq> ElectorRuns kind) \<and>
       (\<forall>as k bs. ls = as @ Some (Hands k) # bs \<longrightarrow> Some (Finishes k) \<in> set bs) \<and>
       (cr_workers s \<noteq> [] \<longrightarrow> lanes_due (wq_lanes (cr_queue s)) = {}) \<and>
       (cr_err s = None \<longrightarrow> cr_done s \<and> length (cr_workers s) = nat (ro_threadiness opts)))"
proof -
  from run_traces [OF assms] have q: "queue_ok s" and p: "point_ok opts s"
    and tr: "traces wq_step newWorkQueue (List.map_filter (\<lambda>l. l) ls) (cr_queue s)" by (auto simp: run_ok_def)
  have "stopping (cr_queue s)" if "Gone \<in> set (cr_workers s)" using that q stopped_stopping by (auto simp: queue_ok_def)
  then have left: "cr_done s" if "Gone \<in> set (cr_workers s)"
    using that p by (cases "cr_err s") (auto simp: point_ok_def stopping_def is_open_def split: if_splits)
  have "Some (Finishes k) \<in> set bs" if "all_gone s" "ls = as @ Some (Hands k) # bs" for as k bs
  proof (rule ccontr)
    assume "Some (Finishes k) \<notin> set bs"
    then have "k \<in> held (cr_queue s)"
      using work_queue.stays_held [of newWorkQueue _ k _ "cr_queue s", OF tr [unfolded that(2) map_filter_labels(1)] wq_ok_new(1)]
      by (simp add: map_filter_labels(2))
    then show False using q that(1) keys_held_gone [of "cr_workers s"] by (simp add: queue_ok_def all_gone_def)
  qed
  then show ?thesis using p q left gone_len [OF q] keys_held_distinct [of "cr_workers s"]
    by (auto simp: point_ok_def queue_ok_def all_gone_def ended_def)
qed

text \<open>
  C13: A cancelled controller is never stuck. With at least one worker and an elector that can be built, from
  every state in which the context is cancelled a finite number of steps of the controller itself, its
  queue and its workers leads to the return of \<open>RunContext\<close>, however many keys are queued, delayed or in work, and
  no handler has to add another key for it.
\<close>
theorem shutdown_completes:
  fixes s :: "'k controller_run"
  assumes "traces (run_step opts) new_run ls s" "cr_done s" "0 < ro_threadiness opts"
    and "\<not> ro_leaderAware opts \<or> (\<exists>kind. ro_BuildElector opts = Inr kind)"
  shows "\<exists>ls' s'. traces (run_step opts) s ls' s' \<and> cr_point s' = Returned \<and> cr_err s' = None \<and> (\<forall>k. Some (Adds k) \<notin> set ls')"
proof -
  have none: "cr_err s = None" using traces_no_err [OF assms(1,4)] by (simp add: new_run_def)
  from run_returns [OF conjunct1 [OF run_traces [OF assms(1)]] assms(2,3) none assms(4)] obtain ls' s' where
    "traces (run_step opts) s ls' s'" "cr_point s' = Returned" "\<forall>k. Some (Adds k) \<notin> set ls'" by blast
  moreover from traces_no_err [OF this(1) assms(4) none] have "cr_err s' = None" .
  ultimately show ?thesis by blast
qed

text \<open>
  C40: Without workers a controller with work does not return. When no worker was launched, because the elector
  could not be built or the number of threads is not positive, and a key has reached the queue of the
  workers, then \<open>RunContext\<close> waits in its deferred loop for the queue to empty in every continuation: the error of
  \<open>BuildElector\<close> is never returned.
\<close>
theorem no_workers_no_return:
  fixes s :: "'k controller_run"
  assumes "traces (run_step opts) new_run ls s" "cr_point s = Draining" "cr_err s \<noteq> None \<or> ro_threadiness opts \<le> 0"
    and "tq_queue (tl_consumerQueue (wq_lanes (cr_queue s))) \<noteq> []"
  shows "\<forall>ls' s'. traces (run_step opts) s ls' s' \<longrightarrow> cr_point s' = Draining \<and> cr_err s' = cr_err s"
proof -
  have "cr_workers s = []" using run_traces [OF assms(1)] assms(2,3) by (cases "cr_err s") (auto simp: run_ok_def point_ok_def)
  then have "stuck s" using assms by (simp add: stuck_def)
  have "cr_err b = cr_err a" if "traces (run_step opts) a l b" "stuck a" for a b :: "'k controller_run" and l
    using that
  proof (induction rule: traces.induct)
    case (snoc a l b x c)
    have "stuck b" using stuck_traces snoc by blast
    from snoc(2) this have "cr_err c = cr_err b" by (induction rule: run_step.induct) (auto simp: stuck_def)
    with snoc show ?case by simp
  qed simp
  with stuck_traces \<open>stuck s\<close> show ?thesis by (metis stuck_def)
qed


subsection \<open>Runs that show the hypotheses\<close>

lemma traces_join: "traces step b ls' c \<Longrightarrow> traces step a ls b \<Longrightarrow> traces step a (ls @ ls') c"
proof (induction rule: traces.induct)
  case (snoc b ls' c l d)
  then show ?case using traces.snoc [of step a "ls @ ls'" c l d] by simp
qed simp

definition demo_queue :: "string work_queue" where
  "demo_queue =
     (let w1 = wq_Add ''ns/a'' newWorkQueue;
          w2 = w1\<lparr>wq_lanes := (wq_lanes w1)\<lparr>tl_fast := process (tl_fast (wq_lanes w1))\<rparr>\<rparr>;
          w3 = w2\<lparr>wq_lanes := (wq_lanes w2)\<lparr>tl_fast := process (tl_fast (wq_lanes w2))\<rparr>\<rparr>
      in w3\<lparr>wq_lanes := runConsumer FromFast (wq_lanes w3)\<rparr>)"

lemma demo_queue_keys: "tq_queue (tl_consumerQueue (wq_lanes demo_queue)) = [''ns/a'']"
  by (simp add: demo_queue_def Let_def newWorkQueue_def newTwoLaneWorkQueue_def new_lane_def tq_New_def wq_Add_def tl_Add_def lane_add_def
      tq_Add_def tq_Get_def tq_Done_def process_def runConsumer_def receive_fast_def receive_def)

lemma demo_arrives:
  "\<exists>ls. traces (run_step opts) new_run ls (new_run\<lparr>cr_queue := demo_queue\<rparr>)"
proof -
  have step: "traces (run_step opts) new_run (ls @ [Some l]) (new_run\<lparr>cr_queue := q'\<rparr>)"
    if "traces (run_step opts) new_run ls (new_run\<lparr>cr_queue := q\<rparr>)" "wq_step l q q'" "l = Internal \<or> l = Adds ''ns/a''" for ls l q q'
    using traces.snoc [OF that(1) run_step.outside [where s = "new_run\<lparr>cr_queue := q\<rparr>" and l = l and q = q']] that(2,3) by simp
  have "traces (run_step opts) new_run [] (new_run\<lparr>cr_queue := newWorkQueue\<rparr>)" using traces.empty [of "run_step opts" new_run] by (simp add: new_run_def)
  from step [OF step [OF step [OF step [OF this wq_step.add] wq_step.process_fast] wq_step.process_fast] wq_step.consume [where c = FromFast]]
  show ?thesis unfolding demo_queue_def Let_def by blast
qed

definition demo_options :: "string + elector_kind \<Rightarrow> run_options" where
  "demo_options build = \<lparr>ro_leaderAware = True, ro_BuildElector = build, ro_threadiness = 2\<rparr>"

lemma demo_takes:
  obtains ls s where "traces (run_step (demo_options (Inr Unopposed))) (new_run :: string controller_run) ls s"
    "Some (Hands ''ns/a'') \<in> set ls" "cr_done s" "cr_err s = None"
proof -
  let ?o = "demo_options (Inr Unopposed)"
  let ?s0 = "(new_run :: string controller_run)\<lparr>cr_queue := demo_queue\<rparr>"
  let ?s1 = "?s0\<lparr>cr_point := Launching 2, cr_elector := ElectorRuns Unopposed\<rparr>"
  let ?s2 = "?s1\<lparr>cr_point := Launching 1, cr_workers := [Getting]\<rparr>"
  obtain q where get: "wq_Get demo_queue = (Item ''ns/a'', q)"
    using demo_queue_keys by (simp add: wq_Get_def tl_Get_def tq_Get_def)
  let ?s3 = "?s2\<lparr>cr_queue := q, cr_workers := [Busy ''ns/a'']\<rparr>"
  obtain ls where t0: "traces (run_step ?o) new_run ls ?s0" using demo_arrives by blast
  have "run_step ?o None ?s0 ?s1" using run_step.build_elector [where opts = ?o and s = ?s0 and kind = Unopposed]
    by (simp add: demo_options_def new_run_def)
  note t1 = traces.snoc [where step = "run_step ?o", OF t0 this]
  have "run_step ?o None ?s1 ?s2" using run_step.launch [where opts = ?o and s = ?s1 and n = 1] by (simp add: new_run_def numeral_2_eq_2)
  note t2 = traces.snoc [where step = "run_step ?o", OF t1 this]
  have "run_step ?o (Some (Hands ''ns/a'')) ?s2 ?s3"
    using run_step.take_key [where opts = ?o and s = ?s2 and i = 0 and k = "''ns/a''" and q = q] get by simp
  note t3 = traces.snoc [where step = "run_step ?o", OF t2 this]
  note t4 = traces.snoc [where step = "run_step ?o", OF t3 run_step.cancel]
  show thesis by (rule that [OF t4]) (auto simp: new_run_def)
qed

theorem orderly_shutdown_witness:
  "\<exists>as bs s. traces (run_step (demo_options (Inr Unopposed))) (new_run :: string controller_run) (as @ Some (Hands ''ns/a'') # bs) s \<and>
     cr_point s = Returned \<and> Some (Finishes ''ns/a'') \<in> set bs \<and> cr_done s \<and> cr_workers s = [Gone, Gone] \<and> lanes_due (wq_lanes (cr_queue s)) = {}"
proof -
  let ?o = "demo_options (Inr Unopposed)"
  obtain ls s where t: "traces (run_step ?o) (new_run :: string controller_run) ls s" "Some (Hands ''ns/a'') \<in> set ls" "cr_done s" "cr_err s = None"
    by (rule demo_takes)
  have "\<exists>ls' s'. traces (run_step ?o) s ls' s' \<and> cr_point s' = Returned \<and> (\<forall>k. Some (Adds k) \<notin> set ls')"
    by (rule run_returns [OF conjunct1 [OF run_traces [OF t(1)]] t(3) _ t(4)]) (simp_all add: demo_options_def)
  then obtain ls' s' where s': "traces (run_step ?o) s ls' s'" "cr_point s' = Returned" by blast
  obtain as bs where split: "ls @ ls' = as @ Some (Hands ''ns/a'') # bs" using t(2) by (metis in_set_conv_decomp append_assoc append_Cons)
  have run: "traces (run_step ?o) new_run (as @ Some (Hands ''ns/a'') # bs) s'" using traces_join [OF s'(1) t(1)] split by simp
  note c = orderly_shutdown [OF run]
  have err: "cr_err s' = None" by (rule traces_no_err [OF s'(1) _ t(4)]) (simp add: demo_options_def)
  have ws: "length (cr_workers s') = 2" "\<forall>w \<in> set (cr_workers s'). w = Gone" using c s'(2) err by (auto simp: demo_options_def)
  then have "cr_workers s' = [Gone, Gone]" by (cases "cr_workers s'"; cases "tl (cr_workers s')") auto
  moreover have "Some (Finishes ''ns/a'') \<in> set bs" "cr_done s'" "cr_workers s' \<noteq> [] \<longrightarrow> lanes_due (wq_lanes (cr_queue s')) = {}"
    using c s'(2) err by simp_all
  ultimately show ?thesis using run s'(2) by (intro exI [of _ as] exI [of _ bs] exI [of _ s']) simp
qed

theorem shutdown_completes_witness:
  "\<exists>ls s ls' s'. traces (run_step (demo_options (Inr Unopposed))) (new_run :: string controller_run) ls s \<and> Some (Hands ''ns/a'') \<in> set ls \<and>
     cr_done s \<and> traces (run_step (demo_options (Inr Unopposed))) s ls' s' \<and> cr_point s' = Returned"
proof -
  obtain ls s where t: "traces (run_step (demo_options (Inr Unopposed))) (new_run :: string controller_run) ls s"
    "Some (Hands ''ns/a'') \<in> set ls" "cr_done s" by (rule demo_takes)
  from shutdown_completes [OF t(1,3)] t show ?thesis by (auto simp: demo_options_def)
qed

theorem no_workers_no_return_witness:
  "\<exists>ls s. traces (run_step (demo_options (Inl ''no lease''))) (new_run :: string controller_run) ls s \<and> cr_err s = Some ''no lease'' \<and>
     (\<forall>ls' s'. traces (run_step (demo_options (Inl ''no lease''))) s ls' s' \<longrightarrow> cr_point s' \<noteq> Returned)"
proof -
  let ?o = "demo_options (Inl ''no lease'')"
  let ?s0 = "(new_run :: string controller_run)\<lparr>cr_queue := demo_queue\<rparr>"
  let ?s1 = "?s0\<lparr>cr_point := Draining, cr_err := Some ''no lease'', cr_queue := wq_ShutDown demo_queue\<rparr>"
  obtain ls where t0: "traces (run_step ?o) new_run ls ?s0" using demo_arrives by blast
  have "run_step ?o (Some Stops) ?s0 ?s1" using run_step.build_fails [where opts = ?o and s = ?s0 and e = "''no lease''"]
    by (simp add: demo_options_def new_run_def)
  note t1 = traces.snoc [where step = "run_step ?o", OF t0 this]
  have "\<forall>ls' s'. traces (run_step ?o) ?s1 ls' s' \<longrightarrow> cr_point s' = Draining \<and> cr_err s' = cr_err ?s1"
    by (rule no_workers_no_return [OF t1]) (simp_all add: wq_ShutDown_def tl_ShutDown_def demo_queue_keys)
  with t1 show ?thesis by (intro exI [of _ "ls @ [Some Stops]"] exI [of _ ?s1]) auto
qed

end
