(* ===== verification/Informer_Factory.thy ===== *)
theory Informer_Factory
  imports Prelude
begin

text \<open>
  The shared informer factory of \<open>pkg/client/informers/externalversions/factory.go\<close> with \<open>generic.go\<close>, the
  source informer of \<open>.../sources/v1alpha1/yipyapsource.go\<close> and the injection of
  \<open>pkg/client/injection/informers/factory/factory.go\<close>. The factory is guarded by one lock, so every call is
  one step; the informers it starts run in goroutines of their own, and \<open>Shutdown\<close> waits for them. A step
  relation interleaves calls, goroutines and closed stop channels. Shown: whatever the interleaving, every
  informer runs at most once, none starts after a shutdown, a returned shutdown leaves none running, and
  all users of a type share one informer.
\<close>

subsection \<open>Informers\<close>

text \<open>
  What \<open>cache.NewSharedIndexInformer\<close> is given, and the part of its state the factory touches. An informer
  is a pointer: its position in the list of all informers made.
\<close>

record ('cl, 'o, 'tf) shared_informer =
  si_client :: 'cl
  si_namespace :: string
  si_tweakListOptions :: "('o \<Rightarrow> 'o) option"
  si_objectType :: string
  si_resyncPeriod :: int
  si_indexers :: "string list"
  si_transform :: "'tf option"
  si_started :: bool

type_synonym ('cl, 'o, 'tf) informers = "('cl, 'o, 'tf) shared_informer list"

type_synonym ('cl, 'o, 'tf) new_informer_func = "'cl \<Rightarrow> int \<Rightarrow> ('cl, 'o, 'tf) informers \<Rightarrow> nat \<times> ('cl, 'o, 'tf) informers"

definition SetTransform :: "'tf option \<Rightarrow> ('cl, 'o, 'tf) shared_informer \<Rightarrow> ('cl, 'o, 'tf) shared_informer" where
  "SetTransform tf i = (if si_started i then i else i\<lparr>si_transform := tf\<rparr>)"

definition source_type :: string where "source_type = ''*v1alpha1.YipYapSource''"

definition NewFilteredYipYapSourceInformer ::
  "'cl \<Rightarrow> string \<Rightarrow> int \<Rightarrow> string list \<Rightarrow> ('o \<Rightarrow> 'o) option \<Rightarrow> ('cl, 'o, 'tf) informers \<Rightarrow> nat \<times> ('cl, 'o, 'tf) informers" where
  "NewFilteredYipYapSourceInformer client namespace resyncPeriod indexers tweakListOptions heap =
     (length heap,
      heap @ [\<lparr>si_client = client, si_namespace = namespace, si_tweakListOptions = tweakListOptions, si_objectType = source_type,
               si_resyncPeriod = resyncPeriod, si_indexers = indexers, si_transform = None, si_started = False\<rparr>])"

definition NewYipYapSourceInformer ::
  "'cl \<Rightarrow> string \<Rightarrow> int \<Rightarrow> string list \<Rightarrow> ('cl, 'o, 'tf) informers \<Rightarrow> nat \<times> ('cl, 'o, 'tf) informers" where
  "NewYipYapSourceInformer client namespace resyncPeriod indexers =
     NewFilteredYipYapSourceInformer client namespace resyncPeriod indexers None"

text \<open>The list and watch functions: the options pass through the tweak, the request goes to the namespace.\<close>

definition list_watch_func :: "('cl \<Rightarrow> string \<Rightarrow> 'o \<Rightarrow> 'r) \<Rightarrow> ('cl, 'o, 'tf) shared_informer \<Rightarrow> 'o \<Rightarrow> 'r" where
  "list_watch_func request i options =
     (let options = (case si_tweakListOptions i of None \<Rightarrow> options | Some tweak \<Rightarrow> tweak options)
      in request (si_client i) (si_namespace i) options)"

subsection \<open>The factory\<close>

record ('cl, 'o, 'tf) shared_informer_factory =
  sf_client :: 'cl
  sf_namespace :: string
  sf_tweakListOptions :: "('o \<Rightarrow> 'o) option"
  sf_defaultResync :: int
  sf_customResync :: "string \<Rightarrow> int option"
  sf_transform :: "'tf option"
  sf_informers :: "string \<Rightarrow> nat option"
  sf_startedInformers :: "string \<Rightarrow> bool"
  sf_wg :: nat
  sf_shuttingDown :: bool

datatype ('o, 'tf) shared_informer_option =
    WithCustomResyncConfig "(string \<times> int) list"
  | WithTweakListOptions "('o \<Rightarrow> 'o) option"
  | WithNamespace string
  | WithTransform "'tf option"

fun apply_option ::
  "('o, 'tf) shared_informer_option \<Rightarrow> ('cl, 'o, 'tf) shared_informer_factory \<Rightarrow> ('cl, 'o, 'tf) shared_informer_factory" where
  "apply_option (WithCustomResyncConfig resyncConfig) f = f\<lparr>sf_customResync := sf_customResync f ++ map_of (rev resyncConfig)\<rparr>"
| "apply_option (WithTweakListOptions tweak) f = f\<lparr>sf_tweakListOptions := tweak\<rparr>"
| "apply_option (WithNamespace ns) f = f\<lparr>sf_namespace := ns\<rparr>"
| "apply_option (WithTransform tf) f = f\<lparr>sf_transform := tf\<rparr>"

definition NewSharedInformerFactoryWithOptions ::
  "'cl \<Rightarrow> int \<Rightarrow> ('o, 'tf) shared_informer_option list \<Rightarrow> ('cl, 'o, 'tf) shared_informer_factory" where
  "NewSharedInformerFactoryWithOptions client defaultResync options =
     fold apply_option options
       \<lparr>sf_client = client, sf_namespace = '''', sf_tweakListOptions = None, sf_defaultResync = defaultResync,
        sf_customResync = Map.empty, sf_transform = None, sf_informers = Map.empty, sf_startedInformers = (\<lambda>_. False),
        sf_wg = 0, sf_shuttingDown = False\<rparr>"

definition NewSharedInformerFactory :: "'cl \<Rightarrow> int \<Rightarrow> ('cl, 'o, 'tf) shared_informer_factory" where
  "NewSharedInformerFactory client defaultResync = NewSharedInformerFactoryWithOptions client defaultResync []"

definition NewFilteredSharedInformerFactory ::
  "'cl \<Rightarrow> int \<Rightarrow> string \<Rightarrow> ('o \<Rightarrow> 'o) option \<Rightarrow> ('cl, 'o, 'tf) shared_informer_factory" where
  "NewFilteredSharedInformerFactory client defaultResync namespace tweakListOptions =
     NewSharedInformerFactoryWithOptions client defaultResync [WithNamespace namespace, WithTweakListOptions tweakListOptions]"

text \<open>The factory of the injection context: scoped to a namespace when the context is.\<close>

record 'cl injection_context =
  ij_client :: 'cl
  ij_namespaceScope :: "string option"
  ij_resyncPeriod :: "int option"

definition GetNamespaceScope :: "'cl injection_context \<Rightarrow> string" where
  "GetNamespaceScope ctx = (case ij_namespaceScope ctx of None \<Rightarrow> '''' | Some ns \<Rightarrow> ns)"

definition GetResyncPeriod :: "'cl injection_context \<Rightarrow> int" where
  "GetResyncPeriod ctx = (case ij_resyncPeriod ctx of None \<Rightarrow> 10 * 3600 * 1000000000 | Some d \<Rightarrow> d)"

definition withInformerFactory :: "'cl injection_context \<Rightarrow> ('cl, 'o, 'tf) shared_informer_factory" where
  "withInformerFactory ctx =
     NewSharedInformerFactoryWithOptions (ij_client ctx) (GetResyncPeriod ctx)
       (if GetNamespaceScope ctx \<noteq> '''' then [WithNamespace (GetNamespaceScope ctx)] else [])"

subsection \<open>Operations\<close>

text \<open>
  The world the factory acts in: the informers made, the goroutines it started that still run (informer and
  stop channel), the stop channels closed, the calls of \<open>Shutdown\<close> that wait, and, to state what happened, all
  goroutines ever started and whether a call of \<open>Shutdown\<close> has returned.
\<close>

record ('cl, 'o, 'tf) world =
  w_factory :: "('cl, 'o, 'tf) shared_informer_factory"
  w_heap :: "('cl, 'o, 'tf) informers"
  w_running :: "(nat \<times> nat) list"
  w_closed :: "nat list"
  w_waiting :: nat
  w_runs :: "(nat \<times> nat) list"
  w_returned :: bool

definition InformerFor :: "string \<Rightarrow> ('cl, 'o, 'tf) new_informer_func \<Rightarrow> ('cl, 'o, 'tf) world \<Rightarrow> nat \<times> ('cl, 'o, 'tf) world" where
  "InformerFor informerType newFunc w =
     (let f = w_factory w
      in case sf_informers f informerType of
           Some informer \<Rightarrow> (informer, w)
         | None \<Rightarrow>
             (let resyncPeriod = (case sf_customResync f informerType of Some d \<Rightarrow> d | None \<Rightarrow> sf_defaultResync f);
                  (informer, heap) = newFunc (sf_client f) resyncPeriod (w_heap w);
                  heap = heap[informer := SetTransform (sf_transform f) (heap ! informer)]
              in (informer, w\<lparr>w_heap := heap, w_factory := f\<lparr>sf_informers := (sf_informers f)(informerType \<mapsto> informer)\<rparr>\<rparr>)))"

text \<open>The loop of \<open>Start\<close> over the map of informers, in the order in which the map yields its keys.\<close>

fun start_loop :: "nat \<Rightarrow> string list \<Rightarrow> ('cl, 'o, 'tf) world \<Rightarrow> ('cl, 'o, 'tf) world" where
  "start_loop stopCh [] w = w"
| "start_loop stopCh (informerType # ts) w =
     start_loop stopCh ts
       (case sf_informers (w_factory w) informerType of
          None \<Rightarrow> w
        | Some informer \<Rightarrow>
            if sf_startedInformers (w_factory w) informerType then w
            else w\<lparr>w_factory := (w_factory w)\<lparr>sf_wg := Suc (sf_wg (w_factory w)),
                       sf_startedInformers := (sf_startedInformers (w_factory w))(informerType := True)\<rparr>,
                   w_running := w_running w @ [(informer, stopCh)], w_runs := w_runs w @ [(informer, stopCh)]\<rparr>)"

definition Start :: "nat \<Rightarrow> string list \<Rightarrow> ('cl, 'o, 'tf) world \<Rightarrow> ('cl, 'o, 'tf) world" where
  "Start stopCh order w = (if sf_shuttingDown (w_factory w) then w else start_loop stopCh order w)"

text \<open>\<open>Shutdown\<close> up to \<open>wg.Wait\<close>, and its return, which the wait group allows when its counter is zero.\<close>

definition Shutdown_begin :: "('cl, 'o, 'tf) world \<Rightarrow> ('cl, 'o, 'tf) world" where
  "Shutdown_begin w = w\<lparr>w_factory := (w_factory w)\<lparr>sf_shuttingDown := True\<rparr>, w_waiting := Suc (w_waiting w)\<rparr>"

definition Shutdown_end :: "('cl, 'o, 'tf) world \<Rightarrow> ('cl, 'o, 'tf) world option" where
  "Shutdown_end w =
     (if sf_wg (w_factory w) = 0 \<and> 0 < w_waiting w then Some (w\<lparr>w_waiting := w_waiting w - 1, w_returned := True\<rparr>) else None)"

text \<open>What a goroutine of \<open>Start\<close> does: \<open>informer.Run\<close> marks the informer started and returns once the stop
  channel is closed; the deferred \<open>wg.Done\<close> follows.\<close>

definition run_begins :: "nat \<times> nat \<Rightarrow> ('cl, 'o, 'tf) world \<Rightarrow> ('cl, 'o, 'tf) world" where
  "run_begins g w = w\<lparr>w_heap := (w_heap w)[fst g := (w_heap w ! fst g)\<lparr>si_started := True\<rparr>]\<rparr>"

definition run_returns :: "nat \<times> nat \<Rightarrow> ('cl, 'o, 'tf) world \<Rightarrow> ('cl, 'o, 'tf) world" where
  "run_returns g w =
     w\<lparr>w_running := remove1 g (w_running w), w_factory := (w_factory w)\<lparr>sf_wg := sf_wg (w_factory w) - 1\<rparr>\<rparr>"

text \<open>\<open>WaitForCacheSync\<close>: the started informers, each with whether its cache synced before the stop.\<close>

definition WaitForCacheSync :: "(nat \<Rightarrow> bool) \<Rightarrow> ('cl, 'o, 'tf) world \<Rightarrow> string \<Rightarrow> bool option" where
  "WaitForCacheSync synced w informerType =
     (if sf_startedInformers (w_factory w) informerType
      then map_option synced (sf_informers (w_factory w) informerType) else None)"

text \<open>The typed path to the source informer: \<open>Sources().V1alpha1().YipYapSources()\<close>.\<close>

record 'o source_informer =
  yi_namespace :: string
  yi_tweakListOptions :: "('o \<Rightarrow> 'o) option"

definition YipYapSources :: "('cl, 'o, 'tf) shared_informer_factory \<Rightarrow> 'o source_informer" where
  "YipYapSources f = \<lparr>yi_namespace = sf_namespace f, yi_tweakListOptions = sf_tweakListOptions f\<rparr>"

definition defaultInformer :: "'o source_informer \<Rightarrow> ('cl, 'o, 'tf) new_informer_func" where
  "defaultInformer yi client resyncPeriod =
     NewFilteredYipYapSourceInformer client (yi_namespace yi) resyncPeriod [''namespace''] (yi_tweakListOptions yi)"

definition Informer :: "'o source_informer \<Rightarrow> ('cl, 'o, 'tf) world \<Rightarrow> nat \<times> ('cl, 'o, 'tf) world" where
  "Informer yi = InformerFor source_type (defaultInformer yi)"

record group_version_resource =
  gvr_group :: string
  gvr_version :: string
  gvr_resource :: string

record generic_informer =
  gi_informer :: nat
  gi_resource :: "string \<times> string"

definition ForResource ::
  "group_version_resource \<Rightarrow> ('cl, 'o, 'tf) world \<Rightarrow> (group_version_resource + generic_informer) \<times> ('cl, 'o, 'tf) world" where
  "ForResource resource w =
     (if resource = \<lparr>gvr_group = ''sources.yipyap.run'', gvr_version = ''v1alpha1'', gvr_resource = ''yipyapsources''\<rparr>
      then (let (i, w) = Informer (YipYapSources (w_factory w)) w
            in (Inr \<lparr>gi_informer = i, gi_resource = (gvr_group resource, gvr_resource resource)\<rparr>, w))
      else (Inl resource, w))"


subsection \<open>Constructors of informers\<close>

text \<open>What \<open>InformerFor\<close> relies on: the function it is given makes a new informer that has not started.\<close>

locale informer_constructor =
  fixes newFunc :: "('cl, 'o, 'tf) new_informer_func"
  assumes fresh: "\<exists>i. newFunc client resync heap = (length heap, heap @ [i]) \<and> \<not> si_started i"
begin

lemma InformerFor_new:
  assumes "sf_informers (w_factory w) t = None"
  obtains i where "newFunc (sf_client (w_factory w))
      (case sf_customResync (w_factory w) t of Some d \<Rightarrow> d | None \<Rightarrow> sf_defaultResync (w_factory w)) (w_heap w) = (length (w_heap w), w_heap w @ [i])"
    "InformerFor t newFunc w = (length (w_heap w),
      w\<lparr>w_heap := w_heap w @ [i\<lparr>si_transform := sf_transform (w_factory w)\<rparr>],
        w_factory := (w_factory w)\<lparr>sf_informers := (sf_informers (w_factory w))(t \<mapsto> length (w_heap w))\<rparr>\<rparr>)"
proof -
  from fresh obtain i where i: "newFunc (sf_client (w_factory w))
      (case sf_customResync (w_factory w) t of Some d \<Rightarrow> d | None \<Rightarrow> sf_defaultResync (w_factory w)) (w_heap w) = (length (w_heap w), w_heap w @ [i])"
    "\<not> si_started i" by blast
  show thesis by (rule that [OF i(1)]) (use i assms in \<open>simp add: InformerFor_def SetTransform_def Let_def\<close>)
qed

end

interpretation source_constructor: informer_constructor "defaultInformer yi" for yi
  by unfold_locales (simp add: defaultInformer_def NewFilteredYipYapSourceInformer_def)

subsection \<open>Steps\<close>

text \<open>
  The factory's lock makes each call one step; a goroutine only touches its informer, the wait group and
  itself, so letting it move between calls loses nothing. \<open>order\<close> is the order in which \<open>range\<close> yields the
  keys of the map of informers.
\<close>

inductive step :: "('cl, 'o, 'tf) world \<Rightarrow> ('cl, 'o, 'tf) world \<Rightarrow> bool" where
  informer_for: "informer_constructor newFunc \<Longrightarrow> step w (snd (InformerFor t newFunc w))"
| start: "set order = dom (sf_informers (w_factory w)) \<Longrightarrow> distinct order \<Longrightarrow> step w (Start stopCh order w)"
| shutdown: "step w (Shutdown_begin w)"
| shutdown_done: "Shutdown_end w = Some w' \<Longrightarrow> step w w'"
| close_stop: "step w (w\<lparr>w_closed := ch # w_closed w\<rparr>)"
| run_begin: "g \<in> set (w_running w) \<Longrightarrow> step w (run_begins g w)"
| run_return: "g \<in> set (w_running w) \<Longrightarrow> snd g \<in> set (w_closed w) \<Longrightarrow> step w (run_returns g w)"

definition new_world :: "'cl \<Rightarrow> int \<Rightarrow> ('o, 'tf) shared_informer_option list \<Rightarrow> ('cl, 'o, 'tf) world" where
  "new_world client resync options =
     \<lparr>w_factory = NewSharedInformerFactoryWithOptions client resync options, w_heap = [], w_running = [], w_closed = [], w_waiting = 0,
      w_runs = [], w_returned = False\<rparr>"

lemma apply_options_frame:
  "sf_client (fold apply_option os f) = sf_client f" "sf_defaultResync (fold apply_option os f) = sf_defaultResync f"
  "sf_informers (fold apply_option os f) = sf_informers f" "sf_startedInformers (fold apply_option os f) = sf_startedInformers f"
  "sf_wg (fold apply_option os f) = sf_wg f" "sf_shuttingDown (fold apply_option os f) = sf_shuttingDown f"
proof (induction os arbitrary: f)
  case (Cons o' os)
  { case 1 then show ?case using Cons(1) by (cases o') simp_all }
  { case 2 then show ?case using Cons(2) by (cases o') simp_all }
  { case 3 then show ?case using Cons(3) by (cases o') simp_all }
  { case 4 then show ?case using Cons(4) by (cases o') simp_all }
  { case 5 then show ?case using Cons(5) by (cases o') simp_all }
  { case 6 then show ?case using Cons(6) by (cases o') simp_all }
qed simp_all

subsection \<open>The invariant\<close>

definition registry_ok :: "('cl, 'o, 'tf) world \<Rightarrow> bool" where
  "registry_ok w \<longleftrightarrow>
     (\<forall>t i. sf_informers (w_factory w) t = Some i \<longrightarrow> i < length (w_heap w)) \<and>
     (\<forall>t u i. sf_informers (w_factory w) t = Some i \<longrightarrow> sf_informers (w_factory w) u = Some i \<longrightarrow> t = u) \<and>
     (\<forall>t. sf_startedInformers (w_factory w) t \<longrightarrow> sf_informers (w_factory w) t \<noteq> None)"

definition runs_ok :: "('cl, 'o, 'tf) world \<Rightarrow> bool" where
  "runs_ok w \<longleftrightarrow>
     distinct (map fst (w_runs w)) \<and>
     (\<forall>i. i \<in> fst ` set (w_runs w) \<longleftrightarrow> (\<exists>t. sf_startedInformers (w_factory w) t \<and> sf_informers (w_factory w) t = Some i)) \<and>
     distinct (w_running w) \<and> set (w_running w) \<subseteq> set (w_runs w) \<and> sf_wg (w_factory w) = length (w_running w) \<and>
     (w_returned w \<longrightarrow> sf_shuttingDown (w_factory w) \<and> w_running w = [])  \<and> (0 < w_waiting w \<longrightarrow> sf_shuttingDown (w_factory w))"

definition factory_ok :: "('cl, 'o, 'tf) world \<Rightarrow> bool" where
  "factory_ok w \<longleftrightarrow> registry_ok w \<and> runs_ok w"

lemma factory_ok_new: "factory_ok (new_world client resync options)"
  by (simp add: factory_ok_def registry_ok_def runs_ok_def new_world_def NewSharedInformerFactoryWithOptions_def apply_options_frame)

lemma factory_ok_InformerFor:
  assumes "informer_constructor nf" "factory_ok w"
  shows "factory_ok (snd (InformerFor t nf w))"
proof (cases "sf_informers (w_factory w) t")
  case None
  obtain i where i: "InformerFor t nf w = (length (w_heap w),
      w\<lparr>w_heap := w_heap w @ [i\<lparr>si_transform := sf_transform (w_factory w)\<rparr>],
        w_factory := (w_factory w)\<lparr>sf_informers := (sf_informers (w_factory w))(t \<mapsto> length (w_heap w))\<rparr>\<rparr>)"
    using informer_constructor.InformerFor_new [OF assms(1) None] by metis
  have lt: "sf_informers (w_factory w) u = Some j \<Longrightarrow> j < length (w_heap w)" for u j
    using assms(2) by (auto simp: factory_ok_def registry_ok_def)
  have nt: "\<not> sf_startedInformers (w_factory w) t" using assms(2) None by (auto simp: factory_ok_def registry_ok_def)
  have "registry_ok (snd (InformerFor t nf w))"
    using assms(2) lt by (fastforce simp: i factory_ok_def registry_ok_def)
  moreover have "runs_ok (snd (InformerFor t nf w))"
  proof -
    have "(\<exists>u. sf_startedInformers (w_factory w) u \<and> ((sf_informers (w_factory w))(t \<mapsto> length (w_heap w))) u = Some j) \<longleftrightarrow>
        (\<exists>u. sf_startedInformers (w_factory w) u \<and> sf_informers (w_factory w) u = Some j)" for j
      using nt by (metis fun_upd_other)
    then show ?thesis using assms(2) by (simp add: i factory_ok_def runs_ok_def)
  qed
  ultimately show ?thesis by (simp add: factory_ok_def)
qed (use assms(2) in \<open>simp add: InformerFor_def\<close>)

text \<open>One turn of the loop of \<open>Start\<close>.\<close>

lemma factory_ok_spawn:
  assumes "factory_ok w" "\<not> sf_shuttingDown (w_factory w)" "sf_informers (w_factory w) t = Some i" "\<not> sf_startedInformers (w_factory w) t"
  shows "factory_ok (w\<lparr>w_factory := (w_factory w)\<lparr>sf_wg := Suc (sf_wg (w_factory w)),
      sf_startedInformers := (sf_startedInformers (w_factory w))(t := True)\<rparr>,
    w_running := w_running w @ [(i, stopCh)], w_runs := w_runs w @ [(i, stopCh)]\<rparr>)" (is "factory_ok ?w")
proof -
  have uniq: "u = t" if "sf_informers (w_factory w) u = Some i" for u
    using assms(1,3) that by (auto simp: factory_ok_def registry_ok_def)
  have new: "i \<notin> fst ` set (w_runs w)"
    using assms(1,4) uniq unfolding factory_ok_def runs_ok_def by blast
  then have "(i, stopCh) \<notin> set (w_running w)" using assms(1) unfolding factory_ok_def runs_ok_def by force
  moreover have "j \<in> fst ` set (w_runs w @ [(i, stopCh)]) \<longleftrightarrow>
      (\<exists>u. ((sf_startedInformers (w_factory w))(t := True)) u \<and> sf_informers (w_factory w) u = Some j)" for j
  proof -
    have old: "j \<in> fst ` set (w_runs w) \<longleftrightarrow> (\<exists>u. sf_startedInformers (w_factory w) u \<and> sf_informers (w_factory w) u = Some j)"
      using assms(1) by (simp add: factory_ok_def runs_ok_def)
    have "j \<in> fst ` set (w_runs w @ [(i, stopCh)]) \<longleftrightarrow> j = i \<or> j \<in> fst ` set (w_runs w)" by simp
    also have "\<dots> \<longleftrightarrow> sf_informers (w_factory w) t = Some j \<or> (\<exists>u. sf_startedInformers (w_factory w) u \<and> sf_informers (w_factory w) u = Some j)"
      unfolding old using assms(3) by auto
    finally show ?thesis by (auto simp: fun_upd_def)
  qed
  ultimately have "runs_ok ?w" using assms(1,2) new by (auto simp: factory_ok_def runs_ok_def)
  moreover have "registry_ok ?w" using assms(1,3) by (auto simp: factory_ok_def registry_ok_def)
  ultimately show ?thesis by (simp add: factory_ok_def)
qed

lemma start_loop_ok:
  assumes "factory_ok w" "\<not> sf_shuttingDown (w_factory w)"
  shows "factory_ok (start_loop stopCh order w) \<and> \<not> sf_shuttingDown (w_factory (start_loop stopCh order w))"
  using assms
proof (induction stopCh order w rule: start_loop.induct)
  case (2 stopCh t ts w)
  show ?case
  proof (cases "sf_informers (w_factory w) t")
    case None
    with 2 show ?thesis by simp
  next
    case (Some i)
    show ?thesis
    proof (cases "sf_startedInformers (w_factory w) t")
      case False
      from factory_ok_spawn [OF "2.prems" Some this] 2 Some False show ?thesis by simp
    qed (use 2 Some in simp)
  qed
qed simp

lemma factory_ok_step: "step w w' \<Longrightarrow> factory_ok w \<Longrightarrow> factory_ok w'"
proof (induction rule: step.induct)
  case (informer_for newFunc w t)
  then show ?case by (rule factory_ok_InformerFor)
next
  case (start order w stopCh)
  then show ?case using start_loop_ok [OF start.prems, of stopCh order] by (simp add: Start_def)
next
  case (shutdown_done w w')
  from shutdown_done.hyps have w': "w' = w\<lparr>w_waiting := w_waiting w - 1, w_returned := True\<rparr>" "sf_wg (w_factory w) = 0" "0 < w_waiting w"
    by (auto simp: Shutdown_end_def split: if_splits)
  with shutdown_done.prems show ?case by (simp add: factory_ok_def registry_ok_def runs_ok_def)
next
  case (run_return g w)
  then show ?case
    by (auto simp: factory_ok_def registry_ok_def runs_ok_def run_returns_def length_remove1 dest: set_remove1_subset [THEN subsetD])
qed (auto simp: factory_ok_def registry_ok_def runs_ok_def Shutdown_begin_def run_begins_def)

lemma factory_ok_reachable: "step\<^sup>*\<^sup>* (new_world client resync options) w \<Longrightarrow> factory_ok w"
  by (induction rule: rtranclp_induct) (auto simp: factory_ok_new intro: factory_ok_step)


subsection \<open>What the steps keep\<close>

text \<open>The settings of the factory, apart from the registry and the counters, never change.\<close>

definition settings :: "('cl, 'o, 'tf) shared_informer_factory \<Rightarrow> ('cl, 'o, 'tf) shared_informer_factory" where
  "settings f = f\<lparr>sf_informers := Map.empty, sf_startedInformers := (\<lambda>_. False), sf_wg := 0, sf_shuttingDown := False\<rparr>"

definition configured :: "('cl, 'o, 'tf) shared_informer \<Rightarrow> ('cl, 'o, 'tf) shared_informer" where
  "configured i = i\<lparr>si_started := False\<rparr>"

lemma start_loop_frame:
  "sf_informers (w_factory (start_loop stopCh order w)) = sf_informers (w_factory w)"
  "settings (w_factory (start_loop stopCh order w)) = settings (w_factory w)" "w_heap (start_loop stopCh order w) = w_heap w"
  by (induction stopCh order w rule: start_loop.induct) (auto simp: settings_def split: option.splits)

definition keeps :: "('cl, 'o, 'tf) world \<Rightarrow> ('cl, 'o, 'tf) world \<Rightarrow> bool" where
  "keeps w w' \<longleftrightarrow>
     settings (w_factory w') = settings (w_factory w) \<and> sf_informers (w_factory w) \<subseteq>\<^sub>m sf_informers (w_factory w') \<and>
     length (w_heap w) \<le> length (w_heap w') \<and> (\<forall>i < length (w_heap w). configured (w_heap w' ! i) = configured (w_heap w ! i)) \<and>
     (sf_shuttingDown (w_factory w) \<longrightarrow> sf_shuttingDown (w_factory w') \<and> w_runs w' = w_runs w)"

lemma keeps_refl: "keeps w w"
  by (simp add: keeps_def)

lemma keeps_trans: "keeps u v \<Longrightarrow> keeps v w \<Longrightarrow> keeps u w"
  by (auto simp: keeps_def intro: map_le_trans)

lemma InformerFor_keeps:
  assumes "informer_constructor nf"
  shows "keeps w (snd (InformerFor t nf w))"
proof (cases "sf_informers (w_factory w) t")
  case None
  obtain i where i: "InformerFor t nf w = (length (w_heap w),
      w\<lparr>w_heap := w_heap w @ [i\<lparr>si_transform := sf_transform (w_factory w)\<rparr>],
        w_factory := (w_factory w)\<lparr>sf_informers := (sf_informers (w_factory w))(t \<mapsto> length (w_heap w))\<rparr>\<rparr>)"
    using informer_constructor.InformerFor_new [OF assms None] by metis
  have "sf_informers (w_factory w) \<subseteq>\<^sub>m (sf_informers (w_factory w))(t \<mapsto> length (w_heap w))"
    using None by (auto simp: map_le_def)
  then show ?thesis by (simp add: i keeps_def settings_def nth_append)
qed (simp add: InformerFor_def keeps_refl)

lemma step_keeps: "step w w' \<Longrightarrow> keeps w w'"
proof (induction rule: step.induct)
  case (informer_for newFunc w t)
  then show ?case by (rule InformerFor_keeps)
next
  case (start order w stopCh)
  show ?case by (simp add: Start_def keeps_refl) (simp add: keeps_def start_loop_frame)
next
  case (shutdown_done w w')
  then show ?case by (auto simp: Shutdown_end_def keeps_def split: if_splits)
next
  case (run_begin g w)
  have "configured ((w_heap w)[fst g := (w_heap w ! fst g)\<lparr>si_started := True\<rparr>] ! i) = configured (w_heap w ! i)"
    if "i < length (w_heap w)" for i
    using that by (cases "i = fst g") (simp_all add: configured_def)
  then show ?case by (simp add: keeps_def run_begins_def)
qed (simp_all add: keeps_def Shutdown_begin_def run_returns_def settings_def)

lemma steps_keep: "step\<^sup>*\<^sup>* w w' \<Longrightarrow> keeps w w'"
  by (induction rule: rtranclp_induct) (auto intro: keeps_refl keeps_trans step_keeps)

text \<open>\<open>Start\<close> leaves no registered informer unstarted.\<close>

lemma start_loop_starts:
  "sf_startedInformers (w_factory (start_loop stopCh order w)) t \<longleftrightarrow>
     sf_startedInformers (w_factory w) t \<or> t \<in> set order \<and> sf_informers (w_factory w) t \<noteq> None"
  by (induction stopCh order w rule: start_loop.induct) (auto split: option.splits)

lemma start_loop_started:
  "\<forall>t \<in> set order. sf_startedInformers (w_factory w) t \<or> sf_informers (w_factory w) t = None \<Longrightarrow> start_loop stopCh order w = w"
  by (induction stopCh order w rule: start_loop.induct) (auto split: option.splits)

subsection \<open>Properties\<close>

text \<open>
  C38: Whatever calls, goroutines and closed channels interleave, every informer is run at most once; only
  informers of the registry are run, each under one type; the wait group counts the running goroutines; a
  call of \<open>Shutdown\<close> returns only when none runs, and from then on none ever does; once a shutdown has begun no
  step starts another.
\<close>
theorem informers_run_once:
  assumes "step\<^sup>*\<^sup>* (new_world client resync options) w"
  shows "distinct (map fst (w_runs w)) \<and>
    (\<forall>(i, stopCh) \<in> set (w_runs w). i < length (w_heap w) \<and> (\<exists>!t. sf_informers (w_factory w) t = Some i)) \<and>
    sf_wg (w_factory w) = length (w_running w) \<and> set (w_running w) \<subseteq> set (w_runs w) \<and>
    (w_returned w \<longrightarrow> w_running w = []) \<and>
    (\<forall>w'. step\<^sup>*\<^sup>* w w' \<and> sf_shuttingDown (w_factory w) \<longrightarrow> w_runs w' = w_runs w)"
proof -
  note ok = factory_ok_reachable [OF assms]
  have run: "i < length (w_heap w) \<and> (\<exists>!t. sf_informers (w_factory w) t = Some i)" if "(i, stopCh) \<in> set (w_runs w)" for i stopCh
  proof -
    have "i \<in> fst ` set (w_runs w)" using that by force
    then obtain t where "sf_informers (w_factory w) t = Some i" using ok unfolding factory_ok_def runs_ok_def by blast
    with ok show ?thesis by (auto simp: factory_ok_def registry_ok_def)
  qed
  moreover have "w_runs w' = w_runs w" if "step\<^sup>*\<^sup>* w w'" "sf_shuttingDown (w_factory w)" for w'
    using steps_keep [OF that(1)] that(2) by (simp add: keeps_def)
  moreover have "distinct (map fst (w_runs w))" "sf_wg (w_factory w) = length (w_running w)" "set (w_running w) \<subseteq> set (w_runs w)"
    "w_returned w \<longrightarrow> w_running w = []"
    using ok by (simp_all add: factory_ok_def runs_ok_def)
  ultimately show ?thesis by blast
qed

text \<open>
  All users of sources share one informer: once \<open>YipYapSources().Informer()\<close> has returned, every later call
  for that type, typed, generic or with another constructor, returns the same informer and changes nothing,
  whatever happened in between. The informer watches the factory's namespace with the factory's client,
  tweak and transform and the custom resync period of the type, or else the default; and after the next
  \<open>Start\<close> that is not cut off by a shutdown, the caches waited for include it and a second \<open>Start\<close> does nothing.
\<close>
theorem source_informer_shared:
  fixes client :: 'cl and resync :: int and options :: "('o, 'tf) shared_informer_option list"
  defines "f \<equiv> NewSharedInformerFactoryWithOptions client resync options"
  assumes "step\<^sup>*\<^sup>* (new_world client resync options) w" "sf_informers (w_factory w) source_type = None"
    and "Informer (YipYapSources (w_factory w)) w = (i, w1)" "step\<^sup>*\<^sup>* w1 w2"
  shows "(\<forall>newFunc. InformerFor source_type newFunc w2 = (i, w2)) \<and>
    ForResource \<lparr>gvr_group = ''sources.yipyap.run'', gvr_version = ''v1alpha1'', gvr_resource = ''yipyapsources''\<rparr> w2 =
      (Inr \<lparr>gi_informer = i, gi_resource = (''sources.yipyap.run'', ''yipyapsources'')\<rparr>, w2) \<and>
    configured (w_heap w2 ! i) =
      \<lparr>si_client = client, si_namespace = sf_namespace f, si_tweakListOptions = sf_tweakListOptions f, si_objectType = source_type,
       si_resyncPeriod = (case sf_customResync f source_type of Some d \<Rightarrow> d | None \<Rightarrow> resync), si_indexers = [''namespace''],
       si_transform = sf_transform f, si_started = False\<rparr> \<and>
    (\<forall>order stopCh stopCh' synced. \<not> sf_shuttingDown (w_factory w2) \<and> set order = dom (sf_informers (w_factory w2)) \<longrightarrow>
      WaitForCacheSync synced (Start stopCh order w2) source_type = Some (synced i) \<and>
      Start stopCh' order (Start stopCh order w2) = Start stopCh order w2)"
proof -
  have "settings (w_factory w) = settings f" using steps_keep [OF assms(2)] by (simp add: keeps_def new_world_def f_def)
  then have set: "sf_client (w_factory w) = sf_client f" "sf_namespace (w_factory w) = sf_namespace f"
    "sf_tweakListOptions (w_factory w) = sf_tweakListOptions f" "sf_defaultResync (w_factory w) = sf_defaultResync f"
    "sf_customResync (w_factory w) = sf_customResync f" "sf_transform (w_factory w) = sf_transform f"
    by (cases "w_factory w"; cases f; simp add: settings_def)+
  have f: "sf_client f = client" "sf_defaultResync f = resync"
    by (simp_all add: f_def NewSharedInformerFactoryWithOptions_def apply_options_frame)
  have w1: "i = length (w_heap w)" "sf_informers (w_factory w1) source_type = Some i"
    "w_heap w1 = w_heap w @ [\<lparr>si_client = client, si_namespace = sf_namespace f, si_tweakListOptions = sf_tweakListOptions f,
       si_objectType = source_type, si_resyncPeriod = (case sf_customResync f source_type of Some d \<Rightarrow> d | None \<Rightarrow> resync),
       si_indexers = [''namespace''], si_transform = sf_transform f, si_started = False\<rparr>]"
    using assms(3,4) by (auto simp: Informer_def InformerFor_def defaultInformer_def NewFilteredYipYapSourceInformer_def YipYapSources_def
        SetTransform_def Let_def set f split: option.splits)
  note k = steps_keep [OF assms(5), unfolded keeps_def]
  have reg: "sf_informers (w_factory w2) source_type = Some i" using k w1(2) by (auto simp: map_le_def dom_def)
  have again: "InformerFor source_type newFunc w2 = (i, w2)" for newFunc by (simp add: InformerFor_def reg)
  have "configured (w_heap w2 ! i) = configured (w_heap w1 ! i)" using k w1(1,3) by simp
  then have conf: "configured (w_heap w2 ! i) =
      \<lparr>si_client = client, si_namespace = sf_namespace f, si_tweakListOptions = sf_tweakListOptions f, si_objectType = source_type,
       si_resyncPeriod = (case sf_customResync f source_type of Some d \<Rightarrow> d | None \<Rightarrow> resync), si_indexers = [''namespace''],
       si_transform = sf_transform f, si_started = False\<rparr>"
    by (simp add: w1(1,3) configured_def)
  have "WaitForCacheSync synced (Start stopCh order w2) source_type = Some (synced i) \<and>
      Start stopCh' order (Start stopCh order w2) = Start stopCh order w2"
    if "\<not> sf_shuttingDown (w_factory w2)" "set order = dom (sf_informers (w_factory w2))" for order stopCh stopCh' synced
    using that reg by (auto simp: WaitForCacheSync_def Start_def start_loop_starts start_loop_frame intro!: start_loop_started)
  with again conf show ?thesis by (simp add: ForResource_def Informer_def)
qed


text \<open>A world in which the source informer was made, started, stopped and waited for.\<close>

definition ex_new :: "(unit, unit, unit) world" where
  "ex_new = new_world () 30 []"

definition ex_made :: "(unit, unit, unit) world" where
  "ex_made = snd (Informer (YipYapSources (w_factory ex_new)) ex_new)"

definition ex_started :: "(unit, unit, unit) world" where
  "ex_started = Start 0 [source_type] ex_made"

definition ex_stopped :: "(unit, unit, unit) world" where
  "ex_stopped = run_returns (0, 0) (ex_started\<lparr>w_closed := 0 # w_closed ex_started\<rparr>)"

lemmas ex_world_defs = ex_new_def ex_made_def ex_started_def ex_stopped_def new_world_def NewSharedInformerFactoryWithOptions_def Informer_def
  InformerFor_def defaultInformer_def NewFilteredYipYapSourceInformer_def YipYapSources_def SetTransform_def Start_def run_returns_def
  Shutdown_begin_def Shutdown_end_def

lemma ex_made_step: "step ex_new ex_made"
  unfolding ex_made_def Informer_def by (rule step.informer_for) (rule source_constructor.informer_constructor_axioms)

lemma ex_started_step: "step ex_made ex_started"
  unfolding ex_started_def by (rule step.start) (simp_all add: ex_world_defs)

lemma ex_stopped_steps: "step\<^sup>*\<^sup>* ex_started ex_stopped"
proof -
  have "step (ex_started\<lparr>w_closed := 0 # w_closed ex_started\<rparr>) ex_stopped"
    unfolding ex_stopped_def by (rule step.run_return) (simp_all add: ex_world_defs)
  with step.close_stop [of ex_started 0] show ?thesis by (rule converse_rtranclp_into_rtranclp [OF _ r_into_rtranclp])
qed

theorem informers_run_once_witness:
  "\<exists>w. step\<^sup>*\<^sup>* ex_new w \<and> Shutdown_end (Shutdown_begin ex_stopped) = Some w \<and> w_returned w \<and> w_runs w = [(0, 0)] \<and>
    distinct (map fst (w_runs w)) \<and> w_running w = []"
proof -
  obtain w where w: "Shutdown_end (Shutdown_begin ex_stopped) = Some w" "w_returned w" "w_runs w = [(0, 0)]" by (simp add: ex_world_defs)
  have "step\<^sup>*\<^sup>* ex_new ex_stopped"
    using ex_made_step ex_started_step ex_stopped_steps by (meson converse_rtranclp_into_rtranclp)
  also have "step\<^sup>*\<^sup>* ex_stopped w"
    using step.shutdown [of ex_stopped] step.shutdown_done [OF w(1)] by (meson converse_rtranclp_into_rtranclp r_into_rtranclp)
  finally have "step\<^sup>*\<^sup>* ex_new w" .
  with informers_run_once [OF this [unfolded ex_new_def]] w show ?thesis by blast
qed

theorem source_informer_shared_witness:
  "Informer (YipYapSources (w_factory ex_new)) ex_new = (0, ex_made) \<and> step\<^sup>*\<^sup>* ex_made ex_stopped \<and>
   (\<forall>newFunc. InformerFor source_type newFunc ex_stopped = (0, ex_stopped)) \<and>
   si_resyncPeriod (w_heap ex_stopped ! 0) = 30"
proof -
  have made: "Informer (YipYapSources (w_factory ex_new)) ex_new = (0, ex_made)" by (simp add: ex_world_defs)
  have steps: "step\<^sup>*\<^sup>* ex_made ex_stopped" using ex_started_step ex_stopped_steps by (rule converse_rtranclp_into_rtranclp)
  have "sf_informers (w_factory ex_new) source_type = None" by (simp add: ex_world_defs)
  note sh = source_informer_shared [of _ _ _ ex_new, OF _ this made steps, where client = \<open>()\<close> and resync = 30 and options = \<open>[]\<close>, folded ex_new_def, OF rtranclp.rtrancl_refl]
  then have "si_resyncPeriod (configured (w_heap ex_stopped ! 0)) = 30" by (simp add: ex_world_defs)
  then have "si_resyncPeriod (w_heap ex_stopped ! 0) = 30" by (simp add: configured_def)
  with made steps sh show ?thesis by blast
qed

end
