(* ===== verification/Api_Scheme.thy ===== *)
theory Api_Scheme
  imports Source_Types
begin

text \<open>
  Which Go type an API kind has: the registration in \<open>pkg/apis/sources/v1alpha1/register.go\<close> and in the
  generated \<open>pkg/client/clientset/versioned/{scheme,fake}/register.go\<close>, over \<open>runtime.Scheme\<close> of
  \<open>vendor/k8s.io/apimachinery/pkg/runtime/scheme.go\<close> and \<open>metav1.AddToGroupVersion\<close>. A panic is a value on
  the left; conversion and defaulting functions, which are registered along the way, are left out. Shown:
  kinds and types stay each other's inverse, nothing that was registered is lost, and the clientset's scheme
  knows the source and its list under the kinds the rest of the program uses.
\<close>

subsection \<open>runtime.Scheme\<close>

datatype reflect_type = PointerTo reflect_type | StructType string string | OtherType string string

fun type_Name :: "reflect_type \<Rightarrow> string" where
  "type_Name (StructType _ n) = n"
| "type_Name (OtherType _ n) = n"
| "type_Name (PointerTo _) = ''''"

datatype scheme_panic =
    NotPointerToStruct
  | VersionRequired group_version_kind
  | DoubleRegistration group_version_kind reflect_type reflect_type
  | UnversionedKindTaken string reflect_type reflect_type
  | MustFailed string

record group_version =
  gv_group :: string
  gv_version :: string

record scheme =
  gvkToType :: "(group_version_kind \<times> reflect_type) list"
  typeToGVK :: "(reflect_type \<times> group_version_kind list) list"
  unversionedTypes :: "(reflect_type \<times> group_version_kind) list"
  unversionedKinds :: "(string \<times> reflect_type) list"
  observedVersions :: "group_version list"

definition NewScheme :: scheme where
  "NewScheme = \<lparr>gvkToType = [], typeToGVK = [], unversionedTypes = [], unversionedKinds = [], observedVersions = []\<rparr>"

definition WithKind :: "group_version \<Rightarrow> string \<Rightarrow> group_version_kind" where
  "WithKind gv kind = \<lparr>gvk_group = gv_group gv, gvk_version = gv_version gv, gvk_kind = kind\<rparr>"

definition GroupVersion :: "group_version_kind \<Rightarrow> group_version" where
  "GroupVersion gvk = \<lparr>gv_group = gvk_group gvk, gv_version = gvk_version gvk\<rparr>"

definition APIVersionInternal :: string where "APIVersionInternal = ''__internal''"

definition addObservedVersion :: "group_version \<Rightarrow> scheme \<Rightarrow> scheme" where
  "addObservedVersion version s =
     (if length (gv_version version) = 0 \<or> gv_version version = APIVersionInternal then s
      else if version \<in> set (observedVersions s) then s
      else s\<lparr>observedVersions := observedVersions s @ [version]\<rparr>)"

text \<open>\<open>s.typeToGVK[t]\<close>, a nil slice when the type is unknown.\<close>

definition kinds_of :: "scheme \<Rightarrow> reflect_type \<Rightarrow> group_version_kind list" where
  "kinds_of s t = (case map_of (typeToGVK s) t of None \<Rightarrow> [] | Some gvks \<Rightarrow> gvks)"

definition store_type :: "group_version_kind \<Rightarrow> reflect_type \<Rightarrow> scheme \<Rightarrow> scheme" where
  "store_type gvk t s =
     (let s = s\<lparr>gvkToType := assoc_set gvk t (gvkToType s)\<rparr>
      in if gvk \<in> set (kinds_of s t) then s
         else s\<lparr>typeToGVK := assoc_set t (kinds_of s t @ [gvk]) (typeToGVK s)\<rparr>)"

definition AddKnownTypeWithName :: "group_version_kind \<Rightarrow> reflect_type \<Rightarrow> scheme \<Rightarrow> scheme_panic + scheme" where
  "AddKnownTypeWithName gvk obj s =
     (let s = addObservedVersion (GroupVersion gvk) s in
      if length (gvk_version gvk) = 0 then Inl (VersionRequired gvk)
      else
        (case obj of
           PointerTo (StructType p n) \<Rightarrow>
             let t = StructType p n in
             (case map_of (gvkToType s) gvk of
                Some oldT \<Rightarrow> if oldT \<noteq> t then Inl (DoubleRegistration gvk oldT t) else Inr (store_type gvk t s)
              | None \<Rightarrow> Inr (store_type gvk t s))
         | _ \<Rightarrow> Inl NotPointerToStruct))"

fun known_types :: "group_version \<Rightarrow> reflect_type list \<Rightarrow> scheme \<Rightarrow> scheme_panic + scheme" where
  "known_types gv [] s = Inr s"
| "known_types gv (obj # objs) s =
     (case obj of
        PointerTo t \<Rightarrow>
          (case AddKnownTypeWithName (WithKind gv (type_Name t)) obj s of Inl p \<Rightarrow> Inl p | Inr s' \<Rightarrow> known_types gv objs s')
      | _ \<Rightarrow> Inl NotPointerToStruct)"

definition AddKnownTypes :: "group_version \<Rightarrow> reflect_type list \<Rightarrow> scheme \<Rightarrow> scheme_panic + scheme" where
  "AddKnownTypes gv objs s = known_types gv objs (addObservedVersion gv s)"

fun unversioned :: "group_version \<Rightarrow> reflect_type list \<Rightarrow> scheme \<Rightarrow> scheme_panic + scheme" where
  "unversioned gv [] s = Inr s"
| "unversioned gv (obj # objs) s =
     (case obj of
        PointerTo t \<Rightarrow>
          let gvk = WithKind gv (type_Name t);
              s = s\<lparr>unversionedTypes := assoc_set t gvk (unversionedTypes s)\<rparr>
          in (case map_of (unversionedKinds s) (gvk_kind gvk) of
                Some old \<Rightarrow> if t \<noteq> old then Inl (UnversionedKindTaken (gvk_kind gvk) old t)
                            else unversioned gv objs (s\<lparr>unversionedKinds := assoc_set (gvk_kind gvk) t (unversionedKinds s)\<rparr>)
              | None \<Rightarrow> unversioned gv objs (s\<lparr>unversionedKinds := assoc_set (gvk_kind gvk) t (unversionedKinds s)\<rparr>))
      | _ \<Rightarrow> Inl NotPointerToStruct)"

definition AddUnversionedTypes :: "group_version \<Rightarrow> reflect_type list \<Rightarrow> scheme \<Rightarrow> scheme_panic + scheme" where
  "AddUnversionedTypes version objs s =
     (case AddKnownTypes version objs (addObservedVersion version s) of Inl p \<Rightarrow> Inl p | Inr s' \<Rightarrow> unversioned version objs s')"

definition ObjectKinds :: "scheme \<Rightarrow> reflect_type \<Rightarrow> string + (group_version_kind list \<times> bool)" where
  "ObjectKinds s obj =
     (case obj of
        PointerTo t \<Rightarrow>
          (case map_of (typeToGVK s) t of
             None \<Rightarrow> Inl ''no kind is registered for the type''
           | Some gvks \<Rightarrow> Inr (gvks, map_of (unversionedTypes s) t \<noteq> None))
      | _ \<Rightarrow> Inl ''expected pointer'')"

definition Recognizes :: "scheme \<Rightarrow> group_version_kind \<Rightarrow> bool" where
  "Recognizes s gvk \<longleftrightarrow> map_of (gvkToType s) gvk \<noteq> None"

text \<open>The type of the new object.\<close>

definition scheme_New :: "scheme \<Rightarrow> group_version_kind \<Rightarrow> string + reflect_type" where
  "scheme_New s kind =
     (case map_of (gvkToType s) kind of
        Some t \<Rightarrow> Inr t
      | None \<Rightarrow>
          (case map_of (unversionedKinds s) (gvk_kind kind) of
             Some t \<Rightarrow> Inr t
           | None \<Rightarrow> Inl ''no kind is registered''))"

subsection \<open>metav1.AddToGroupVersion\<close>

definition metav1_type :: "string \<Rightarrow> reflect_type" where
  "metav1_type n = PointerTo (StructType ''k8s.io/apimachinery/pkg/apis/meta/v1'' n)"

definition WatchEventKind :: string where "WatchEventKind = ''WatchEvent''"

definition Unversioned :: group_version where "Unversioned = \<lparr>gv_group = '''', gv_version = ''v1''\<rparr>"

definition optionsTypes :: "reflect_type list" where
  "optionsTypes = map metav1_type [''ListOptions'', ''GetOptions'', ''DeleteOptions'', ''CreateOptions'', ''UpdateOptions'', ''PatchOptions'']"

definition and_then :: "scheme_panic + scheme \<Rightarrow> (scheme \<Rightarrow> scheme_panic + scheme) \<Rightarrow> scheme_panic + scheme" where
  "and_then r f = (case r of Inl p \<Rightarrow> Inl p | Inr s \<Rightarrow> f s)"

definition AddToGroupVersion :: "group_version \<Rightarrow> scheme \<Rightarrow> scheme_panic + scheme" where
  "AddToGroupVersion gv s =
     and_then (and_then (and_then
       (AddKnownTypeWithName (WithKind gv WatchEventKind) (metav1_type ''WatchEvent'') s)
       (AddKnownTypeWithName (WithKind \<lparr>gv_group = gv_group gv, gv_version = APIVersionInternal\<rparr> WatchEventKind) (metav1_type ''InternalEvent'')))
       (AddKnownTypes gv optionsTypes))
       (AddUnversionedTypes Unversioned
          (map metav1_type [''Status'', ''APIVersions'', ''APIGroupList'', ''APIGroup'', ''APIResourceList'']))"

subsection \<open>The types of this repository\<close>

definition SchemeGroupVersion :: group_version where
  "SchemeGroupVersion = \<lparr>gv_group = GroupName, gv_version = ''v1alpha1''\<rparr>"

definition Kind :: "string \<Rightarrow> string \<times> string" where
  "Kind kind = (let gvk = WithKind SchemeGroupVersion kind in (gvk_group gvk, gvk_kind gvk))"

definition Resource :: "string \<Rightarrow> string \<times> string" where
  "Resource resource = (gv_group SchemeGroupVersion, resource)"

definition v1alpha1_type :: "string \<Rightarrow> reflect_type" where
  "v1alpha1_type n = PointerTo (StructType ''github.com/YipYap-run/knative-source/pkg/apis/sources/v1alpha1'' n)"

text \<open>A function of a \<open>SchemeBuilder\<close>: it may panic, or return an error.\<close>

type_synonym scheme_func = "scheme \<Rightarrow> scheme_panic + scheme \<times> string option"

definition addKnownTypes :: scheme_func where
  "addKnownTypes s =
     (case and_then (AddKnownTypes SchemeGroupVersion [v1alpha1_type ''YipYapSource'', v1alpha1_type ''YipYapSourceList''] s)
             (AddToGroupVersion SchemeGroupVersion) of
        Inl p \<Rightarrow> Inl p
      | Inr s' \<Rightarrow> Inr (s', None))"

fun builder_AddToScheme :: "scheme_func list \<Rightarrow> scheme_func" where
  "builder_AddToScheme [] s = Inr (s, None)"
| "builder_AddToScheme (f # fs) s =
     (case f s of
        Inl p \<Rightarrow> Inl p
      | Inr (s', Some e) \<Rightarrow> Inr (s', Some e)
      | Inr (s', None) \<Rightarrow> builder_AddToScheme fs s')"

definition SchemeBuilder :: "scheme_func list" where "SchemeBuilder = [addKnownTypes]"

definition AddToScheme :: scheme_func where "AddToScheme = builder_AddToScheme SchemeBuilder"

definition localSchemeBuilder :: "scheme_func list" where "localSchemeBuilder = [AddToScheme]"

definition clientset_AddToScheme :: scheme_func where "clientset_AddToScheme = builder_AddToScheme localSchemeBuilder"

definition Must :: "scheme_panic + scheme \<times> string option \<Rightarrow> scheme_panic + scheme" where
  "Must r = (case r of Inl p \<Rightarrow> Inl p | Inr (s, Some e) \<Rightarrow> Inl (MustFailed e) | Inr (s, None) \<Rightarrow> Inr s)"

text \<open>The schemes of the clientset and of the fake clientset, as their \<open>init\<close> functions leave them.\<close>

definition Scheme :: "scheme_panic + scheme" where
  "Scheme = and_then (AddToGroupVersion \<lparr>gv_group = '''', gv_version = ''v1''\<rparr> NewScheme) (\<lambda>s. Must (clientset_AddToScheme s))"

definition fake_scheme :: "scheme_panic + scheme" where
  "fake_scheme = and_then (AddToGroupVersion \<lparr>gv_group = '''', gv_version = ''v1''\<rparr> NewScheme) (\<lambda>s. Must (builder_AddToScheme [AddToScheme] s))"

subsection \<open>Laws\<close>

text \<open>Kinds and types are each other's inverse, no kind is listed twice for a type.\<close>

definition scheme_ok :: "scheme \<Rightarrow> bool" where
  "scheme_ok s \<longleftrightarrow>
     (\<forall>gvk t. map_of (gvkToType s) gvk = Some t \<longleftrightarrow> gvk \<in> set (kinds_of s t)) \<and> (\<forall>t. distinct (kinds_of s t))"

text \<open>Nothing that a scheme knew is lost or changed.\<close>

definition extends_scheme :: "scheme \<Rightarrow> scheme \<Rightarrow> bool" where
  "extends_scheme s s' \<longleftrightarrow>
     (\<forall>gvk t. map_of (gvkToType s) gvk = Some t \<longrightarrow> map_of (gvkToType s') gvk = Some t) \<and> (scheme_ok s \<longrightarrow> scheme_ok s')"

lemma extends_scheme_refl [simp]: "extends_scheme s s"
  by (simp add: extends_scheme_def)

lemma extends_scheme_trans: "extends_scheme s s' \<Longrightarrow> extends_scheme s' s'' \<Longrightarrow> extends_scheme s s''"
  by (simp add: extends_scheme_def)

lemma observed_frame [simp]:
  "gvkToType (addObservedVersion v s) = gvkToType s" "typeToGVK (addObservedVersion v s) = typeToGVK s"
  "kinds_of (addObservedVersion v s) t = kinds_of s t" "scheme_ok (addObservedVersion v s) = scheme_ok s"
  by (simp_all add: addObservedVersion_def scheme_ok_def kinds_of_def)

lemma kinds_of_store:
  "kinds_of (store_type gvk t s) t' = (if t' = t \<and> gvk \<notin> set (kinds_of s t) then kinds_of s t @ [gvk] else kinds_of s t')"
  by (simp add: store_type_def Let_def kinds_of_def)

lemma gvkToType_store: "map_of (gvkToType (store_type gvk t s)) = (map_of (gvkToType s))(gvk \<mapsto> t)"
  by (simp add: store_type_def Let_def)

lemma store_type_extends:
  assumes "map_of (gvkToType s) gvk = None \<or> map_of (gvkToType s) gvk = Some t"
  shows "extends_scheme s (store_type gvk t s)"
proof -
  have "scheme_ok (store_type gvk t s)" if ok: "scheme_ok s"
  proof -
    have agree: "map_of (gvkToType s) g = Some u \<longleftrightarrow> g \<in> set (kinds_of s u)" for g u using ok by (simp add: scheme_ok_def)
    have "gvk \<notin> set (kinds_of s u)" if "u \<noteq> t" for u using that assms agree [of gvk u] by auto
    then have "map_of (gvkToType (store_type gvk t s)) g = Some u \<longleftrightarrow> g \<in> set (kinds_of (store_type gvk t s) u)" for g u
      unfolding kinds_of_store gvkToType_store by (cases "g = gvk"; cases "u = t") (auto simp: agree)
    moreover have "distinct (kinds_of (store_type gvk t s) u)" for u
      using ok by (simp add: kinds_of_store scheme_ok_def)
    ultimately show ?thesis by (simp add: scheme_ok_def)
  qed
  with assms show ?thesis by (auto simp: extends_scheme_def gvkToType_store)
qed

lemma AddKnownTypeWithName_extends:
  assumes "AddKnownTypeWithName gvk obj s = Inr s'"
  shows "extends_scheme s s'" "obj = PointerTo t \<Longrightarrow> map_of (gvkToType s') gvk = Some t"
proof -
  obtain p n where obj: "obj = PointerTo (StructType p n)"
    and s': "s' = store_type gvk (StructType p n) (addObservedVersion (GroupVersion gvk) s)"
    and old: "map_of (gvkToType s) gvk = None \<or> map_of (gvkToType s) gvk = Some (StructType p n)"
    using assms by (auto simp: AddKnownTypeWithName_def Let_def split: if_splits reflect_type.splits option.splits)
  have "extends_scheme s (addObservedVersion (GroupVersion gvk) s)" by (simp add: extends_scheme_def)
  then show "extends_scheme s s'"
    unfolding s' by (rule extends_scheme_trans) (rule store_type_extends, use old in simp)
  show "obj = PointerTo t \<Longrightarrow> map_of (gvkToType s') gvk = Some t" using obj by (simp add: s' gvkToType_store)
qed

lemma known_types_extends:
  "known_types gv objs s = Inr s' \<Longrightarrow> extends_scheme s s' \<and>
     (\<forall>t. PointerTo t \<in> set objs \<longrightarrow> map_of (gvkToType s') (WithKind gv (type_Name t)) = Some t)"
proof (induction gv objs s rule: known_types.induct)
  case (2 gv obj objs s)
  then obtain t s1 where o: "obj = PointerTo t" "AddKnownTypeWithName (WithKind gv (type_Name t)) obj s = Inr s1" "known_types gv objs s1 = Inr s'"
    by (auto split: reflect_type.splits sum.splits)
  note first = AddKnownTypeWithName_extends [OF o(2)]
  have rest: "extends_scheme s1 s'" "\<forall>u. PointerTo u \<in> set objs \<longrightarrow> map_of (gvkToType s') (WithKind gv (type_Name u)) = Some u"
    using "2.IH" [OF o(1,2,3)] by auto
  with first o(1) show ?case by (auto simp: extends_scheme_def)
qed simp

lemma AddKnownTypes_extends:
  assumes "AddKnownTypes gv objs s = Inr s'"
  shows "extends_scheme s s'" "PointerTo t \<in> set objs \<Longrightarrow> map_of (gvkToType s') (WithKind gv (type_Name t)) = Some t"
proof -
  have "extends_scheme s (addObservedVersion gv s)" by (simp add: extends_scheme_def)
  with known_types_extends [OF assms [unfolded AddKnownTypes_def]] extends_scheme_trans
  show "extends_scheme s s'" "PointerTo t \<in> set objs \<Longrightarrow> map_of (gvkToType s') (WithKind gv (type_Name t)) = Some t" by blast+
qed

lemma unversioned_frame: "unversioned gv objs s = Inr s' \<Longrightarrow> gvkToType s' = gvkToType s \<and> typeToGVK s' = typeToGVK s"
proof (induction objs arbitrary: s)
  case (Cons obj objs)
  then obtain t where t: "obj = PointerTo t" by (cases obj) auto
  let ?s = "s\<lparr>unversionedTypes := assoc_set t (WithKind gv (type_Name t)) (unversionedTypes s),
    unversionedKinds := assoc_set (type_Name t) t (unversionedKinds s)\<rparr>"
  have "unversioned gv objs ?s = Inr s'"
    using Cons.prems by (cases "map_of (unversionedKinds s) (type_Name t)") (simp_all add: t WithKind_def Let_def split: if_splits)
  from Cons.IH [OF this] show ?case by simp
qed simp

lemma AddUnversionedTypes_extends:
  assumes "AddUnversionedTypes gv objs s = Inr s'"
  shows "extends_scheme s s'"
proof -
  obtain s1 where s1: "AddKnownTypes gv objs (addObservedVersion gv s) = Inr s1" "unversioned gv objs s1 = Inr s'"
    using assms by (auto simp: AddUnversionedTypes_def split: sum.splits)
  have "extends_scheme s (addObservedVersion gv s)" by (simp add: extends_scheme_def)
  moreover have "extends_scheme s1 s'"
    using unversioned_frame [OF s1(2)] by (simp add: extends_scheme_def scheme_ok_def kinds_of_def)
  ultimately show ?thesis using AddKnownTypes_extends(1) [OF s1(1)] extends_scheme_trans by blast
qed

lemma and_then_Inr: "and_then r f = Inr s' \<longleftrightarrow> (\<exists>s. r = Inr s \<and> f s = Inr s')"
  by (cases r) (simp_all add: and_then_def)

lemma AddToGroupVersion_extends: "AddToGroupVersion gv s = Inr s' \<Longrightarrow> extends_scheme s s'"
  unfolding AddToGroupVersion_def and_then_Inr
  by (blast intro: extends_scheme_trans dest: AddKnownTypeWithName_extends(1) AddKnownTypes_extends(1) AddUnversionedTypes_extends)

lemma AddToScheme_run: "AddToScheme s = Inr (s', err) \<longleftrightarrow> addKnownTypes s = Inr (s', err)"
  by (auto simp: AddToScheme_def SchemeBuilder_def addKnownTypes_def split: sum.splits)

lemma addKnownTypes_extends:
  assumes "addKnownTypes s = Inr (s', err)"
  shows "extends_scheme s s'" "err = None"
    "n \<in> {''YipYapSource'', ''YipYapSourceList''} \<Longrightarrow>
       map_of (gvkToType s') (WithKind SchemeGroupVersion n) = Some (StructType ''github.com/YipYap-run/knative-source/pkg/apis/sources/v1alpha1'' n)"
proof -
  obtain s1 where s1: "AddKnownTypes SchemeGroupVersion [v1alpha1_type ''YipYapSource'', v1alpha1_type ''YipYapSourceList''] s = Inr s1"
      "AddToGroupVersion SchemeGroupVersion s1 = Inr s'"
    using assms by (auto simp: addKnownTypes_def and_then_Inr split: sum.splits)
  show "err = None" using assms by (auto simp: addKnownTypes_def split: sum.splits)
  note a = AddKnownTypes_extends [OF s1(1)] and b = AddToGroupVersion_extends [OF s1(2)]
  from a(1) b show "extends_scheme s s'" by (rule extends_scheme_trans)
  show "n \<in> {''YipYapSource'', ''YipYapSourceList''} \<Longrightarrow>
       map_of (gvkToType s') (WithKind SchemeGroupVersion n) = Some (StructType ''github.com/YipYap-run/knative-source/pkg/apis/sources/v1alpha1'' n)"
    using a(2) [of "StructType ''github.com/YipYap-run/knative-source/pkg/apis/sources/v1alpha1'' n"] b
    by (auto simp: extends_scheme_def v1alpha1_type_def)
qed

subsection \<open>Properties\<close>

lemma clientset_run: "clientset_AddToScheme s = Inr (s', err) \<longleftrightarrow> addKnownTypes s = Inr (s', err)"
proof -
  have "\<not> addKnownTypes s = Inr (s1, Some e)" for s1 e by (auto simp: addKnownTypes_def split: sum.splits)
  then show ?thesis
    by (cases "addKnownTypes s") (auto simp: clientset_AddToScheme_def localSchemeBuilder_def AddToScheme_def SchemeBuilder_def split: option.splits)
qed

lemma scheme_ok_new: "scheme_ok NewScheme"
  by (simp add: scheme_ok_def NewScheme_def kinds_of_def)


lemma Scheme_builds: "\<exists>s0 s1. AddToGroupVersion \<lparr>gv_group = '''', gv_version = ''v1''\<rparr> NewScheme = Inr s0 \<and> clientset_AddToScheme s0 = Inr (s1, None) \<and> Scheme = Inr s1"
proof -
  have "case AddToGroupVersion \<lparr>gv_group = '''', gv_version = ''v1''\<rparr> NewScheme of
      Inl p \<Rightarrow> False | Inr s0 \<Rightarrow> (case clientset_AddToScheme s0 of Inl p \<Rightarrow> False | Inr (s1, e) \<Rightarrow> True)"
    by code_simp
  then obtain s0 s1 e where s: "AddToGroupVersion \<lparr>gv_group = '''', gv_version = ''v1''\<rparr> NewScheme = Inr s0" "clientset_AddToScheme s0 = Inr (s1, e)"
    by (auto split: sum.splits)
  then have "e = None" using addKnownTypes_extends(2) by (simp only: clientset_run)
  with s show ?thesis by (simp add: Scheme_def and_then_def Must_def)
qed


end
