(* ===== verification/Client_Set.thy ===== *)
theory Client_Set
  imports Api_Scheme Go_Url Complex_Main
begin

text \<open>
  The generated clientset: \<open>pkg/client/clientset/versioned/clientset.go\<close> and
  \<open>typed/sources/v1alpha1/{sources_client,yipyapsource}.go\<close>, with the REST client they build
  (\<open>vendor/k8s.io/client-go/rest/{config,client,request,url_utils}.go\<close>) and the generic typed client
  (\<open>client-go/gentype/type.go\<close>). Parameters are the HTTP transport, \<open>url.Parse\<close>, the discovery client and
  the default user agent. Shown: when building a clientset fails and which rate limiter it ends up with, and
  that every request for a source goes to the path of its namespace and name below the API group, or is
  refused before it is sent.
\<close>

subsection \<open>Configurations\<close>

datatype rate_limiter = TokenBucket rat int | CallersLimiter string

record rest_config =
  cf_Host :: string
  cf_APIPath :: string
  cf_TLS :: bool
  cf_UserAgent :: string
  cf_QPS :: rat
  cf_Burst :: int
  cf_RateLimiter :: "rate_limiter option"
  cf_GroupVersion :: "group_version option"
  cf_NegotiatedSerializer :: "scheme option"

text \<open>
  What is not part of this repository or reads the environment: the HTTP client for a configuration,
  \<open>url.Parse\<close>, the discovery client, the default user agent.
\<close>

record ('h, 'd) transport =
  tr_HTTPClientFor :: "rest_config \<Rightarrow> string + 'h"
  tr_Parse :: "string \<Rightarrow> string + url"
  tr_discovery :: "rest_config \<Rightarrow> 'h \<Rightarrow> string + 'd"
  tr_DefaultKubernetesUserAgent :: string

record 'h rest_client =
  rs_base :: url
  rs_versionedAPIPath :: string
  rs_rateLimiter :: "rate_limiter option"
  rs_serializer :: scheme
  rs_http :: 'h

subsection \<open>The REST client\<close>

definition path_Joins :: "string list \<Rightarrow> string" where
  "path_Joins elems =
     (case dropWhile (\<lambda>e. e = '''') elems of [] \<Rightarrow> '''' | es \<Rightarrow> path_Clean (join_with ''/'' es))"

definition DefaultVersionedAPIPath :: "string \<Rightarrow> group_version \<Rightarrow> string" where
  "DefaultVersionedAPIPath apiPath gv =
     (let p = path_Joins [''/'', apiPath]
      in if length (gv_group gv) > 0 then path_Joins [p, gv_group gv, gv_version gv] else path_Joins [p, gv_version gv])"

definition DefaultServerURL ::
  "(string \<Rightarrow> string + url) \<Rightarrow> string \<Rightarrow> string \<Rightarrow> group_version \<Rightarrow> bool \<Rightarrow> string + url \<times> string" where
  "DefaultServerURL parse host apiPath gv defaultTLS =
     (if host = '''' then Inl ''host must be a URL or a host:port pair''
      else
        let hostURL =
          (case parse host of
             Inr u \<Rightarrow> if u_scheme u = '''' \<or> u_host u = '''' then None else Some u
           | Inl _ \<Rightarrow> None)
        in (case hostURL of
              Some u \<Rightarrow> Inr (u, DefaultVersionedAPIPath apiPath gv)
            | None \<Rightarrow>
                (case parse ((if defaultTLS then ''https://'' else ''http://'') @ host) of
                   Inl e \<Rightarrow> Inl e
                 | Inr u \<Rightarrow>
                     if u_path u \<noteq> '''' \<and> u_path u \<noteq> ''/'' then Inl ''host must be a URL or a host:port pair''
                     else Inr (u, DefaultVersionedAPIPath apiPath gv))))"

definition DefaultServerUrlFor :: "(string \<Rightarrow> string + url) \<Rightarrow> rest_config \<Rightarrow> string + url \<times> string" where
  "DefaultServerUrlFor parse c =
     DefaultServerURL parse (if cf_Host c = '''' then ''localhost'' else cf_Host c) (cf_APIPath c)
       (case cf_GroupVersion c of Some gv \<Rightarrow> gv | None \<Rightarrow> \<lparr>gv_group = '''', gv_version = ''''\<rparr>) (cf_TLS c)"

definition NewRESTClient :: "url \<Rightarrow> string \<Rightarrow> scheme \<Rightarrow> rate_limiter option \<Rightarrow> 'h \<Rightarrow> 'h rest_client" where
  "NewRESTClient baseURL versionedAPIPath ser limiter http =
     (let base = (if has_suffix (u_path baseURL) ''/'' then baseURL else baseURL\<lparr>u_path := u_path baseURL @ ''/''\<rparr>)
      in \<lparr>rs_base = base\<lparr>u_rawQuery := '''', u_fragment := ''''\<rparr>, rs_versionedAPIPath = versionedAPIPath,
          rs_rateLimiter = limiter, rs_serializer = ser, rs_http = http\<rparr>)"

definition DefaultQPS :: rat where "DefaultQPS = 5"
definition DefaultBurst :: int where "DefaultBurst = 10"

definition RESTClientForConfigAndClient :: "('h, 'd) transport \<Rightarrow> rest_config \<Rightarrow> 'h \<Rightarrow> string + 'h rest_client" where
  "RESTClientForConfigAndClient tr c http =
     (case cf_GroupVersion c of
        None \<Rightarrow> Inl ''GroupVersion is required when initializing a RESTClient''
      | Some gv \<Rightarrow>
          (case cf_NegotiatedSerializer c of
             None \<Rightarrow> Inl ''NegotiatedSerializer is required when initializing a RESTClient''
           | Some ser \<Rightarrow>
               (case DefaultServerUrlFor (tr_Parse tr) c of
                  Inl e \<Rightarrow> Inl e
                | Inr (baseURL, versionedAPIPath) \<Rightarrow>
                    let rateLimiter =
                      (case cf_RateLimiter c of
                         Some l \<Rightarrow> Some l
                       | None \<Rightarrow>
                           let qps = (if cf_QPS c = 0 then DefaultQPS else cf_QPS c);
                               burst = (if cf_Burst c = 0 then DefaultBurst else cf_Burst c)
                           in if qps > 0 then Some (TokenBucket qps burst) else None)
                    in Inr (NewRESTClient baseURL versionedAPIPath ser rateLimiter http))))"

subsection \<open>The client of the group\<close>

definition setConfigDefaults :: "('h, 'd) transport \<Rightarrow> scheme \<Rightarrow> rest_config \<Rightarrow> rest_config" where
  "setConfigDefaults tr sch c =
     (let c = c\<lparr>cf_GroupVersion := Some SchemeGroupVersion, cf_APIPath := ''/apis'', cf_NegotiatedSerializer := Some sch\<rparr>
      in if cf_UserAgent c = '''' then c\<lparr>cf_UserAgent := tr_DefaultKubernetesUserAgent tr\<rparr> else c)"

definition sources_NewForConfigAndClient :: "('h, 'd) transport \<Rightarrow> scheme \<Rightarrow> rest_config \<Rightarrow> 'h \<Rightarrow> string + 'h rest_client" where
  "sources_NewForConfigAndClient tr sch c h = RESTClientForConfigAndClient tr (setConfigDefaults tr sch c) h"

definition sources_NewForConfig :: "('h, 'd) transport \<Rightarrow> scheme \<Rightarrow> rest_config \<Rightarrow> string + 'h rest_client" where
  "sources_NewForConfig tr sch c =
     (let config = setConfigDefaults tr sch c in
      case tr_HTTPClientFor tr config of Inl e \<Rightarrow> Inl e | Inr h \<Rightarrow> sources_NewForConfigAndClient tr sch config h)"

text \<open>\<open>None\<close> is the panic of \<open>NewForConfigOrDie\<close>.\<close>

definition sources_NewForConfigOrDie :: "('h, 'd) transport \<Rightarrow> scheme \<Rightarrow> rest_config \<Rightarrow> 'h rest_client option" where
  "sources_NewForConfigOrDie tr sch c = (case sources_NewForConfig tr sch c of Inl e \<Rightarrow> None | Inr cl \<Rightarrow> Some cl)"

text \<open>\<open>RESTClient\<close> on a nil client is nil.\<close>

definition RESTClient :: "'h rest_client option \<Rightarrow> 'h rest_client option" where
  "RESTClient c = (case c of None \<Rightarrow> None | Some rest \<Rightarrow> Some rest)"

subsection \<open>The clientset\<close>

record ('h, 'd) clientset =
  cs_DiscoveryClient :: 'd
  cs_sourcesV1alpha1 :: "'h rest_client"

definition cs_Discovery :: "('h, 'd) clientset option \<Rightarrow> 'd option" where
  "cs_Discovery c = (case c of None \<Rightarrow> None | Some cs \<Rightarrow> Some (cs_DiscoveryClient cs))"

definition cs_SourcesV1alpha1 :: "('h, 'd) clientset \<Rightarrow> 'h rest_client" where
  "cs_SourcesV1alpha1 c = cs_sourcesV1alpha1 c"

definition burst_error :: string where
  "burst_error = ''burst is required to be greater than 0 when RateLimiter is not set and QPS is set to greater than 0''"

definition NewForConfigAndClient :: "('h, 'd) transport \<Rightarrow> scheme \<Rightarrow> rest_config \<Rightarrow> 'h \<Rightarrow> string + ('h, 'd) clientset" where
  "NewForConfigAndClient tr sch c httpClient =
     (if cf_RateLimiter c = None \<and> cf_QPS c > 0 \<and> cf_Burst c \<le> 0 then Inl burst_error
      else
        let c = (if cf_RateLimiter c = None \<and> cf_QPS c > 0 then c\<lparr>cf_RateLimiter := Some (TokenBucket (cf_QPS c) (cf_Burst c))\<rparr> else c)
        in (case sources_NewForConfigAndClient tr sch c httpClient of
              Inl e \<Rightarrow> Inl e
            | Inr rest \<Rightarrow>
                (case tr_discovery tr c httpClient of
                   Inl e \<Rightarrow> Inl e
                 | Inr d \<Rightarrow> Inr \<lparr>cs_DiscoveryClient = d, cs_sourcesV1alpha1 = rest\<rparr>)))"

definition NewForConfig :: "('h, 'd) transport \<Rightarrow> scheme \<Rightarrow> rest_config \<Rightarrow> string + ('h, 'd) clientset" where
  "NewForConfig tr sch c =
     (let c = (if cf_UserAgent c = '''' then c\<lparr>cf_UserAgent := tr_DefaultKubernetesUserAgent tr\<rparr> else c) in
      case tr_HTTPClientFor tr c of
        Inl e \<Rightarrow> Inl e
      | Inr httpClient \<Rightarrow> NewForConfigAndClient tr sch c httpClient)"

definition NewForConfigOrDie :: "('h, 'd) transport \<Rightarrow> scheme \<Rightarrow> rest_config \<Rightarrow> ('h, 'd) clientset option" where
  "NewForConfigOrDie tr sch c = (case NewForConfig tr sch c of Inl e \<Rightarrow> None | Inr cs \<Rightarrow> Some cs)"

text \<open>\<open>New\<close> on a given REST client; \<open>NewDiscoveryClient\<close> is a parameter.\<close>

definition clientset_New :: "('h rest_client \<Rightarrow> 'd) \<Rightarrow> 'h rest_client \<Rightarrow> ('h, 'd) clientset" where
  "clientset_New newDiscovery c = \<lparr>cs_DiscoveryClient = newDiscovery c, cs_sourcesV1alpha1 = c\<rparr>"

subsection \<open>Requests\<close>

datatype request_body = NoBody | SourceBody yipyap_source | OptionsBody | PatchBody string

record request =
  req_verb :: string
  req_pathPrefix :: string
  req_namespace :: string
  req_namespaceSet :: bool
  req_resource :: string
  req_resourceName :: string
  req_subresource :: string
  req_body :: request_body
  req_err :: "string option"

definition rest_NewRequest :: "'h rest_client \<Rightarrow> string \<Rightarrow> request" where
  "rest_NewRequest c verb =
     \<lparr>req_verb = verb, req_pathPrefix = path_Joins [''/'', u_path (rs_base c), rs_versionedAPIPath c], req_namespace = '''',
      req_namespaceSet = False, req_resource = '''', req_resourceName = '''', req_subresource = '''', req_body = NoBody, req_err = None\<rparr>"

definition NameMayNotBe :: "string list" where "NameMayNotBe = [''.'', ''..'']"
definition NameMayNotContain :: "char list" where "NameMayNotContain = [CHR ''/'', CHR ''%'']"

definition IsValidPathSegmentName :: "string \<Rightarrow> string list" where
  "IsValidPathSegmentName name =
     (case find (\<lambda>illegal. name = illegal) NameMayNotBe of
        Some illegal \<Rightarrow> [''may not be '' @ illegal]
      | None \<Rightarrow> map (\<lambda>c. ''may not contain '' @ [c]) (filter (\<lambda>c. c \<in> set name) NameMayNotContain))"

definition failing :: "string \<Rightarrow> request \<Rightarrow> request" where "failing e r = r\<lparr>req_err := Some e\<rparr>"

definition req_Namespace :: "string \<Rightarrow> request \<Rightarrow> request" where
  "req_Namespace ns r =
     (if req_err r \<noteq> None then r
      else if req_namespaceSet r then failing ''namespace already set'' r
      else if length (IsValidPathSegmentName ns) \<noteq> 0 then failing ''invalid namespace'' r
      else r\<lparr>req_namespaceSet := True, req_namespace := ns\<rparr>)"

definition NamespaceIfScoped :: "string \<Rightarrow> bool \<Rightarrow> request \<Rightarrow> request" where
  "NamespaceIfScoped ns scoped r = (if scoped then req_Namespace ns r else r)"

definition req_Resource :: "string \<Rightarrow> request \<Rightarrow> request" where
  "req_Resource resource r =
     (if req_err r \<noteq> None then r
      else if length (req_resource r) \<noteq> 0 then failing ''resource already set'' r
      else if length (IsValidPathSegmentName resource) \<noteq> 0 then failing ''invalid resource'' r
      else r\<lparr>req_resource := resource\<rparr>)"

definition req_Name :: "string \<Rightarrow> request \<Rightarrow> request" where
  "req_Name name r =
     (if req_err r \<noteq> None then r
      else if length name = 0 then failing ''resource name may not be empty'' r
      else if length (req_resourceName r) \<noteq> 0 then failing ''resource name already set'' r
      else if length (IsValidPathSegmentName name) \<noteq> 0 then failing ''invalid resource name'' r
      else r\<lparr>req_resourceName := name\<rparr>)"

definition req_SubResource :: "string list \<Rightarrow> request \<Rightarrow> request" where
  "req_SubResource subresources r =
     (if req_err r \<noteq> None then r
      else let subresource = path_Joins subresources in
        if length (req_subresource r) \<noteq> 0 then failing ''subresource already set'' r
        else if list_ex (\<lambda>s. length (IsValidPathSegmentName s) \<noteq> 0) subresources then failing ''invalid subresource'' r
        else r\<lparr>req_subresource := subresource\<rparr>)"

definition req_Body :: "request_body \<Rightarrow> request \<Rightarrow> request" where
  "req_Body b r = (if req_err r \<noteq> None then r else r\<lparr>req_body := b\<rparr>)"

text \<open>The path of \<open>URL\<close>; the query, with the options and the timeout, is left out.\<close>

definition req_path :: "request \<Rightarrow> string" where
  "req_path r =
     (let p = req_pathPrefix r;
          p = (if req_namespaceSet r \<and> length (req_namespace r) > 0 then path_Joins [p, ''namespaces'', req_namespace r] else p);
          p = (if length (req_resource r) \<noteq> 0 then path_Joins [p, ToLower (req_resource r)] else p)
      in if length (req_resourceName r) \<noteq> 0 \<or> length (req_subresource r) \<noteq> 0
         then path_Joins [p, req_resourceName r, req_subresource r, ''''] else p)"

definition requestPreflightCheck :: "request \<Rightarrow> string option" where
  "requestPreflightCheck r =
     (if \<not> req_namespaceSet r then None
      else if length (req_namespace r) > 0 then None
      else if req_verb r = ''POST'' then Some ''an empty namespace may not be set during creation''
      else if req_verb r \<in> {''GET'', ''PUT'', ''DELETE''} \<and> length (req_resourceName r) > 0
      then Some ''an empty namespace may not be set when a resource name is provided''
      else None)"

record sent_request =
  sent_verb :: string
  sent_path :: string
  sent_body :: request_body

definition req_Do :: "request \<Rightarrow> string + sent_request" where
  "req_Do r =
     (case req_err r of
        Some e \<Rightarrow> Inl e
      | None \<Rightarrow>
          (case requestPreflightCheck r of
             Some e \<Rightarrow> Inl e
           | None \<Rightarrow> Inr \<lparr>sent_verb = req_verb r, sent_path = req_path r, sent_body = req_body r\<rparr>))"

definition req_Watch :: "request \<Rightarrow> string + sent_request" where
  "req_Watch r =
     (case req_err r of
        Some e \<Rightarrow> Inl e
      | None \<Rightarrow> Inr \<lparr>sent_verb = req_verb r, sent_path = req_path r, sent_body = req_body r\<rparr>)"

subsection \<open>The client of a resource\<close>

record 'h typed_client =
  tc_resource :: string
  tc_client :: "'h rest_client"
  tc_namespace :: string

definition newYipYapSources :: "'h rest_client \<Rightarrow> string \<Rightarrow> 'h typed_client" where
  "newYipYapSources c ns = \<lparr>tc_resource = ''yipyapsources'', tc_client = c, tc_namespace = ns\<rparr>"

definition client_YipYapSources :: "'h rest_client \<Rightarrow> string \<Rightarrow> 'h typed_client" where
  "client_YipYapSources c ns = newYipYapSources c ns"

text \<open>The beginning that the methods share.\<close>

definition for_resource :: "'h typed_client \<Rightarrow> string \<Rightarrow> request" where
  "for_resource c verb =
     req_Resource (tc_resource c) (NamespaceIfScoped (tc_namespace c) (tc_namespace c \<noteq> '''') (rest_NewRequest (tc_client c) verb))"

definition tc_Get :: "'h typed_client \<Rightarrow> string \<Rightarrow> string + sent_request" where
  "tc_Get c name = req_Do (req_Name name (for_resource c ''GET''))"

definition tc_List :: "'h typed_client \<Rightarrow> string + sent_request" where
  "tc_List c = req_Do (for_resource c ''GET'')"

definition tc_Watch :: "'h typed_client \<Rightarrow> string + sent_request" where
  "tc_Watch c = req_Watch (for_resource c ''GET'')"

definition tc_Create :: "'h typed_client \<Rightarrow> yipyap_source \<Rightarrow> string + sent_request" where
  "tc_Create c obj = req_Do (req_Body (SourceBody obj) (for_resource c ''POST''))"

definition tc_Update :: "'h typed_client \<Rightarrow> yipyap_source \<Rightarrow> string + sent_request" where
  "tc_Update c obj = req_Do (req_Body (SourceBody obj) (req_Name (om_name (y_meta obj)) (for_resource c ''PUT'')))"

definition tc_UpdateStatus :: "'h typed_client \<Rightarrow> yipyap_source \<Rightarrow> string + sent_request" where
  "tc_UpdateStatus c obj =
     req_Do (req_Body (SourceBody obj) (req_SubResource [''status''] (req_Name (om_name (y_meta obj)) (for_resource c ''PUT''))))"

definition tc_Delete :: "'h typed_client \<Rightarrow> string \<Rightarrow> string + sent_request" where
  "tc_Delete c name = req_Do (req_Body OptionsBody (req_Name name (for_resource c ''DELETE'')))"

definition tc_DeleteCollection :: "'h typed_client \<Rightarrow> string + sent_request" where
  "tc_DeleteCollection c = req_Do (req_Body OptionsBody (for_resource c ''DELETE''))"

definition tc_Patch :: "'h typed_client \<Rightarrow> string \<Rightarrow> string \<Rightarrow> string list \<Rightarrow> string + sent_request" where
  "tc_Patch c name data subresources =
     req_Do (req_Body (PatchBody data) (req_SubResource subresources (req_Name name (for_resource c ''PATCH''))))"

subsection \<open>Cleaned paths\<close>

text \<open>A segment that \<open>path.Clean\<close> keeps as it is, and the rooted path of a list of them.\<close>

definition plain_segment :: "string \<Rightarrow> bool" where
  "plain_segment s \<longleftrightarrow> s \<noteq> '''' \<and> s \<noteq> ''.'' \<and> s \<noteq> ''..'' \<and> CHR ''/'' \<notin> set s"

definition rooted_path :: "string list \<Rightarrow> string" where
  "rooted_path segs = ''/'' @ join_with ''/'' segs"

definition clean_segments :: "string \<Rightarrow> string list" where
  "clean_segments p = clean_components True [] (split_on (CHR ''/'') p)"

lemma split_on_append: "split_on c (a @ c # b) = split_on c a @ split_on c b"
proof (induction a)
  case (Cons x a)
  then show ?case by (cases "split_on c a") simp_all
qed simp

lemma split_on_join_elems: "es \<noteq> [] \<Longrightarrow> split_on c (join_with [c] es) = concat (map (split_on c) es)"
  by (induction "[c]" es rule: join_with.induct) (simp_all add: split_on_append)

lemma clean_components_append:
  "clean_components r st (xs @ ys) = clean_components r (rev (clean_components r st xs)) ys"
  by (induction r st xs rule: clean_components.induct) (auto split: list.split)

lemma plain_segment_split: "plain_segment s \<Longrightarrow> split_on (CHR ''/'') s = [s]"
  unfolding plain_segment_def by (blast intro: split_on_plain)

lemma clean_components_keep:
  "\<forall>y \<in> set ys. y = '''' \<or> plain_segment y \<Longrightarrow> clean_components r st ys = rev st @ filter (\<lambda>y. y \<noteq> '''') ys"
  by (induction ys arbitrary: st) (auto simp: plain_segment_def)

lemma clean_components_plain:
  "\<lbrakk>\<forall>s \<in> set st. plain_segment s; \<forall>x \<in> set xs. CHR ''/'' \<notin> set x\<rbrakk> \<Longrightarrow> \<forall>s \<in> set (clean_components True st xs). plain_segment s"
proof (induction xs arbitrary: st)
  case (Cons x xs)
  show ?case
  proof (cases "x = '''' \<or> x = ''.'' \<or> x = ''..''")
    case False
    then show ?thesis using Cons.prems Cons.IH [of "x # st"] by (simp add: plain_segment_def)
  next
    case True
    show ?thesis
    proof (cases st)
      case Nil
      then show ?thesis using True Cons.prems Cons.IH [of "[]"] by (cases "x = ''..''") simp_all
    next
      case st: (Cons d ds)
      then have "d \<noteq> ''..''" using Cons.prems(1) by (simp add: plain_segment_def)
      show ?thesis
      proof (cases "x = ''..''")
        case True
        then have "clean_components True st (x # xs) = clean_components True ds xs" using st \<open>d \<noteq> ''..''\<close> by simp
        then show ?thesis using Cons.prems Cons.IH [of ds] st by simp
      next
        case False
        then have "clean_components True st (x # xs) = clean_components True st xs" using True by auto
        then show ?thesis using Cons.prems Cons.IH [of st] by simp
      qed
    qed
  qed
qed simp

lemma clean_segments_plain: "\<forall>s \<in> set (clean_segments p). plain_segment s"
  unfolding clean_segments_def by (rule clean_components_plain) (auto dest: split_on_no_sep)

lemma split_rooted_path:
  "\<forall>s \<in> set segs. plain_segment s \<Longrightarrow>
   split_on (CHR ''/'') (rooted_path segs) = '''' # (if segs = [] then [''''] else segs)"
  by (cases "segs = []") (auto simp: rooted_path_def plain_segment_def split_on_join)

lemma path_Joins_rooted:
  assumes "hd e = CHR ''/''" "e \<noteq> ''''"
  shows "path_Joins (e # es) = rooted_path (clean_components True [] (concat (map (split_on (CHR ''/'')) (e # es))))"
proof -
  let ?p = "join_with ''/'' (e # es)"
  have "?p \<noteq> ''''" "hd ?p = CHR ''/''" using assms by (cases es; cases e; auto)+
  moreover have "split_on (CHR ''/'') ?p = concat (map (split_on (CHR ''/'')) (e # es))"
    by (rule split_on_join_elems) simp
  ultimately show ?thesis using assms(2) by (simp add: path_Joins_def path_Clean_def rooted_path_def Let_def)
qed

lemma path_Joins_rooted_path:
  assumes segs: "\<forall>s \<in> set segs. plain_segment s"
  shows "path_Joins (rooted_path segs # es) =
         rooted_path (clean_components True (rev segs) (concat (map (split_on (CHR ''/'')) es)))"
proof -
  have "clean_components True [] (split_on (CHR ''/'') (rooted_path segs)) = segs"
    using segs by (auto simp: split_rooted_path clean_components_keep plain_segment_def filter_id_conv)
  then show ?thesis
    by (subst path_Joins_rooted) (simp_all add: rooted_path_def clean_components_append)
qed

lemma path_Joins_segments:
  assumes "\<forall>s \<in> set segs. plain_segment s" "\<forall>e \<in> set es. e = '''' \<or> plain_segment e"
  shows "path_Joins (rooted_path segs # es) = rooted_path (segs @ filter (\<lambda>e. e \<noteq> '''') es)"
proof -
  have "concat (map (split_on (CHR ''/'')) es) = es"
    using assms(2) by (induction es) (auto dest: plain_segment_split)
  then show ?thesis using assms by (simp add: path_Joins_rooted_path clean_components_keep)
qed

lemma path_Joins_relative:
  assumes "es \<noteq> []" "\<forall>e \<in> set es. plain_segment e"
  shows "path_Joins es = join_with ''/'' es"
proof -
  obtain e es' where es: "es = e # es'" using assms(1) by (cases es) auto
  have e: "e \<noteq> ''''" "hd e \<noteq> CHR ''/''" using assms(2) es hd_in_set [of e] unfolding plain_segment_def by fastforce+
  then have "join_with ''/'' es \<noteq> ''''" "hd (join_with ''/'' es) \<noteq> CHR ''/''" unfolding es by (cases es'; auto)+
  moreover have "split_on (CHR ''/'') (join_with ''/'' es) = es"
    using assms by (intro split_on_join) (auto simp: plain_segment_def)
  moreover have "filter (\<lambda>y. y \<noteq> '''') es = es" using assms(2) by (auto simp: filter_id_conv plain_segment_def)
  moreover have "clean_components False [] es = filter (\<lambda>y. y \<noteq> '''') es"
    using assms(2) by (subst clean_components_keep) simp_all
  moreover have "path_Joins es = path_Clean (join_with ''/'' es)" unfolding path_Joins_def es using e by simp
  ultimately show ?thesis by (simp add: path_Clean_def Let_def)
qed

lemma rooted_path_inject:
  assumes "\<forall>s \<in> set xs. plain_segment s" "\<forall>s \<in> set ys. plain_segment s" "rooted_path xs = rooted_path ys"
  shows "xs = ys"
proof -
  have "\<not> plain_segment ''''" by (simp add: plain_segment_def)
  then have ne: "xs \<noteq> ['''']" "ys \<noteq> ['''']" using assms(1,2) by force+
  have "(if xs = [] then [''''] else xs) = (if ys = [] then [''''] else ys)"
    using arg_cong [OF assms(3), of "split_on (CHR ''/'')"] assms(1,2) by (simp add: split_rooted_path)
  then show ?thesis using ne by (simp split: if_splits)
qed

subsection \<open>The requests of the client\<close>

definition name_ok :: "string \<Rightarrow> bool" where
  "name_ok n \<longleftrightarrow> plain_segment n \<and> CHR ''%'' \<notin> set n"

text \<open>The path of a namespace's sources, or of the source and the subresource that \<open>rest\<close> names in it.\<close>

definition source_path :: "'h rest_client \<Rightarrow> string \<Rightarrow> string list \<Rightarrow> string" where
  "source_path c ns rest =
     rooted_path (clean_segments (u_path (rs_base c)) @ [''apis'', ''sources.yipyap.run'', ''v1alpha1'', ''namespaces'', ns, ''yipyapsources''] @ rest)"

definition of_group :: "'h rest_client \<Rightarrow> bool" where
  "of_group c \<longleftrightarrow> rs_versionedAPIPath c = ''/apis/sources.yipyap.run/v1alpha1''"

lemma name_ok_segment [simp]: "name_ok n \<Longrightarrow> plain_segment n" "name_ok n \<Longrightarrow> n \<noteq> ''''" "\<not> name_ok ''''"
  by (simp_all add: name_ok_def plain_segment_def)

lemma IsValidPathSegmentName_ok: "n \<noteq> '''' \<Longrightarrow> IsValidPathSegmentName n = [] \<longleftrightarrow> name_ok n"
  by (simp add: IsValidPathSegmentName_def NameMayNotBe_def NameMayNotContain_def name_ok_def plain_segment_def)

lemma fixed_segments [simp]:
  "plain_segment ''apis''" "plain_segment ''sources.yipyap.run''" "plain_segment ''v1alpha1''"
  "plain_segment ''namespaces''" "plain_segment ''yipyapsources''" "plain_segment ''status''" "name_ok ''status''"
  by (simp_all add: plain_segment_def name_ok_def)

lemma rest_NewRequest_prefix:
  assumes "of_group c"
  shows "rest_NewRequest c verb =
     \<lparr>req_verb = verb,
      req_pathPrefix = rooted_path (clean_segments (u_path (rs_base c)) @ [''apis'', ''sources.yipyap.run'', ''v1alpha1'']),
      req_namespace = '''', req_namespaceSet = False, req_resource = '''', req_resourceName = '''', req_subresource = '''',
      req_body = NoBody, req_err = None\<rparr>"
proof -
  let ?b = "u_path (rs_base c)" and ?api = "[''apis'', ''sources.yipyap.run'', ''v1alpha1'']"
  have api: "split_on (CHR ''/'') ''/apis/sources.yipyap.run/v1alpha1'' = '''' # ?api" by simp
  have "path_Joins [''/'', ?b, rs_versionedAPIPath c] =
        rooted_path (clean_components True [] ('''' # '''' # (split_on (CHR ''/'') ?b @ '''' # ?api)))"
    using assms api by (subst path_Joins_rooted) (simp_all add: of_group_def del: clean_components.simps)
  also have "\<dots> = rooted_path (clean_components True [] (split_on (CHR ''/'') ?b @ '''' # ?api))" by simp
  also have "\<dots> = rooted_path (clean_segments ?b @ ?api)"
    unfolding clean_components_append clean_segments_def by (subst clean_components_keep) simp_all
  finally show ?thesis by (simp add: rest_NewRequest_def)
qed

lemma for_resource_ok:
  assumes "of_group c" "name_ok ns"
  shows "for_resource (client_YipYapSources c ns) verb =
     (rest_NewRequest c verb)\<lparr>req_namespaceSet := True, req_namespace := ns, req_resource := ''yipyapsources''\<rparr>"
proof -
  have "IsValidPathSegmentName ns = []" "IsValidPathSegmentName ''yipyapsources'' = []"
    using assms by (simp_all add: IsValidPathSegmentName_ok name_ok_def)
  then show ?thesis
    using assms by (simp add: for_resource_def client_YipYapSources_def newYipYapSources_def NamespaceIfScoped_def req_Namespace_def
        req_Resource_def rest_NewRequest_prefix)
qed

lemma for_resource_err:
  assumes "ns \<noteq> ''''" "\<not> name_ok ns"
  shows "req_err (for_resource (client_YipYapSources c ns) verb) = Some ''invalid namespace''"
proof -
  have "IsValidPathSegmentName ns \<noteq> []" using assms by (simp add: IsValidPathSegmentName_ok)
  then show ?thesis
    using assms by (simp add: for_resource_def client_YipYapSources_def newYipYapSources_def NamespaceIfScoped_def req_Namespace_def
        req_Resource_def rest_NewRequest_def failing_def)
qed

lemma ToLower_resource: "ToLower ''yipyapsources'' = ''yipyapsources''"
  by (simp add: ToLower_def lower_char_def Let_def)

lemma req_path_source:
  assumes "of_group c" "name_ok ns" "\<forall>s \<in> set subs. name_ok s" "nm = '''' \<and> subs = [] \<or> name_ok nm"
  shows "req_path (r\<lparr>req_pathPrefix := req_pathPrefix (rest_NewRequest c v), req_namespaceSet := True, req_namespace := ns,
           req_resource := ''yipyapsources'', req_resourceName := nm, req_subresource := (if subs = [] then '''' else join_with ''/'' subs)\<rparr>) =
         source_path c ns (if nm = '''' then [] else nm # subs)"
proof -
  let ?b = "clean_segments (u_path (rs_base c)) @ [''apis'', ''sources.yipyap.run'', ''v1alpha1'']"
  let ?c = "?b @ [''namespaces'', ns, ''yipyapsources'']"
  have b: "\<forall>s \<in> set ?b. plain_segment s" "\<forall>s \<in> set (?b @ [''namespaces'', ns]). plain_segment s" "\<forall>s \<in> set ?c. plain_segment s"
    using clean_segments_plain [of "u_path (rs_base c)"] assms(2) by auto
  have 1: "path_Joins [rooted_path ?b, ''namespaces'', ns] = rooted_path (?b @ [''namespaces'', ns])"
    using path_Joins_segments [OF b(1), of "[''namespaces'', ns]"] assms(2) by simp
  have 2: "path_Joins [rooted_path (?b @ [''namespaces'', ns]), ''yipyapsources''] = rooted_path ?c"
    using path_Joins_segments [OF b(2), of "[''yipyapsources'']"] by simp
  have subs: "concat (map (split_on (CHR ''/'')) [nm, if subs = [] then '''' else join_with ''/'' subs, '''']) =
      nm # (if subs = [] then [''''] else subs) @ ['''']" if "name_ok nm"
    using that assms(3) by (auto simp: plain_segment_split split_on_join name_ok_def plain_segment_def)
  have 3: "path_Joins [rooted_path ?c, nm, if subs = [] then '''' else join_with ''/'' subs, ''''] = rooted_path (?c @ nm # subs)"
    if "name_ok nm"
  proof -
    have "filter (\<lambda>y. y \<noteq> '''') subs = subs" using assms(3) by (auto simp: filter_id_conv)
    then show ?thesis
      unfolding path_Joins_rooted_path [OF b(3)] subs [OF that] using that assms(3) by (subst clean_components_keep) auto
  qed
  show ?thesis
    using assms(2,4) 1 2 3 by (auto simp: req_path_def Let_def rest_NewRequest_prefix [OF assms(1)] ToLower_resource source_path_def)
qed

definition send :: "string \<Rightarrow> string \<Rightarrow> request_body \<Rightarrow> string + sent_request" where
  "send verb path body = Inr \<lparr>sent_verb = verb, sent_path = path, sent_body = body\<rparr>"

definition name_error :: "string \<Rightarrow> string" where
  "name_error n = (if n = '''' then ''resource name may not be empty'' else ''invalid resource name'')"

lemmas request_ops = tc_Get_def tc_List_def tc_Watch_def tc_Create_def tc_Update_def tc_UpdateStatus_def tc_Delete_def
  tc_DeleteCollection_def tc_Patch_def req_Do_def req_Watch_def requestPreflightCheck_def

lemma req_path_for_resource:
  assumes "of_group c" "name_ok ns"
  shows "req_path (for_resource (client_YipYapSources c ns) v\<lparr>req_body := b\<rparr>) = source_path c ns []"
    "req_path (for_resource (client_YipYapSources c ns) v) = source_path c ns []"
  using req_path_source [OF assms, where subs = "[]" and nm = "''''" and r = "rest_NewRequest c v\<lparr>req_body := b\<rparr>" and v = v]
    req_path_source [OF assms, where subs = "[]" and nm = "''''" and r = "rest_NewRequest c v" and v = v]
  by (simp_all add: for_resource_ok [OF assms] rest_NewRequest_prefix [OF assms(1)])

lemma req_Name_ok:
  assumes "of_group c" "name_ok ns"
  shows "req_Name nm (for_resource (client_YipYapSources c ns) v) =
         (if name_ok nm then for_resource (client_YipYapSources c ns) v\<lparr>req_resourceName := nm\<rparr>
          else failing (name_error nm) (for_resource (client_YipYapSources c ns) v))"
  using IsValidPathSegmentName_ok [of nm]
  by (cases "nm = ''''") (simp_all add: req_Name_def for_resource_ok [OF assms] rest_NewRequest_prefix [OF assms(1)] name_error_def)

lemma req_SubResource_ok:
  assumes "req_err r = None" "req_subresource r = ''''" "\<forall>s \<in> set subs. name_ok s"
  shows "req_SubResource subs r = r\<lparr>req_subresource := (if subs = [] then '''' else join_with ''/'' subs)\<rparr>"
proof -
  have "\<not> list_ex (\<lambda>s. length (IsValidPathSegmentName s) \<noteq> 0) subs"
    using assms(3) by (auto simp: list_ex_iff IsValidPathSegmentName_ok)
  moreover have "path_Joins subs = (if subs = [] then '''' else join_with ''/'' subs)"
    using assms(3) path_Joins_relative [of subs] by (auto simp: path_Joins_def)
  ultimately show ?thesis using assms by (simp add: req_SubResource_def Let_def)
qed

lemma req_path_named:
  assumes "of_group c" "name_ok ns" "name_ok nm" "\<forall>s \<in> set subs. name_ok s"
  shows "req_path (for_resource (client_YipYapSources c ns) v
           \<lparr>req_resourceName := nm, req_subresource := (if subs = [] then '''' else join_with ''/'' subs), req_body := b\<rparr>) =
         source_path c ns (nm # subs)"
  using req_path_source [OF assms(1,2,4), where nm = nm and r = "rest_NewRequest c v\<lparr>req_body := b\<rparr>" and v = v] assms(3)
  by (simp add: for_resource_ok [OF assms(1,2)] rest_NewRequest_prefix [OF assms(1)])

lemma request_fields:
  assumes "of_group c" "name_ok ns"
  shows "req_err (for_resource (client_YipYapSources c ns) v) = None" "req_verb (for_resource (client_YipYapSources c ns) v) = v"
    "req_namespace (for_resource (client_YipYapSources c ns) v) = ns" "req_body (for_resource (client_YipYapSources c ns) v) = NoBody"
    "req_subresource (for_resource (client_YipYapSources c ns) v) = ''''"
  by (simp_all add: for_resource_ok [OF assms] rest_NewRequest_prefix [OF assms(1)])

lemma request_collection:
  assumes "of_group c" "name_ok ns"
  shows "tc_List (client_YipYapSources c ns) = send ''GET'' (source_path c ns []) NoBody"
    "tc_Watch (client_YipYapSources c ns) = send ''GET'' (source_path c ns []) NoBody"
    "tc_Create (client_YipYapSources c ns) obj = send ''POST'' (source_path c ns []) (SourceBody obj)"
    "tc_DeleteCollection (client_YipYapSources c ns) = send ''DELETE'' (source_path c ns []) OptionsBody"
  using assms(2)
  by (simp_all add: request_ops req_Body_def request_fields [OF assms] req_path_for_resource [OF assms] send_def)

lemma request_named:
  assumes "of_group c" "name_ok ns" "name_ok nm"
  shows "tc_Get (client_YipYapSources c ns) nm = send ''GET'' (source_path c ns [nm]) NoBody"
    "tc_Delete (client_YipYapSources c ns) nm = send ''DELETE'' (source_path c ns [nm]) OptionsBody"
    "om_name (y_meta obj) = nm \<Longrightarrow> tc_Update (client_YipYapSources c ns) obj = send ''PUT'' (source_path c ns [nm]) (SourceBody obj)"
    "om_name (y_meta obj) = nm \<Longrightarrow>
     tc_UpdateStatus (client_YipYapSources c ns) obj = send ''PUT'' (source_path c ns [nm, ''status'']) (SourceBody obj)"
    "\<forall>s \<in> set subs. name_ok s \<Longrightarrow>
     tc_Patch (client_YipYapSources c ns) nm data subs = send ''PATCH'' (source_path c ns (nm # subs)) (PatchBody data)"
proof -
  note f = request_fields [OF assms(1,2)] req_Name_ok [OF assms(1,2)] req_Body_def request_ops send_def
  have ns: "ns \<noteq> ''''" using assms(2) by simp
  have bare: "for_resource (client_YipYapSources c ns) v\<lparr>req_resourceName := nm, req_body := b\<rparr> =
      for_resource (client_YipYapSources c ns) v\<lparr>req_resourceName := nm, req_subresource := '''', req_body := b\<rparr>"
    "for_resource (client_YipYapSources c ns) v\<lparr>req_resourceName := nm\<rparr> =
      for_resource (client_YipYapSources c ns) v\<lparr>req_resourceName := nm, req_subresource := '''', req_body := NoBody\<rparr>" for v b
    by (simp_all add: for_resource_ok [OF assms(1,2)] rest_NewRequest_prefix [OF assms(1)])
  have p0: "req_path (for_resource (client_YipYapSources c ns) v\<lparr>req_resourceName := nm, req_subresource := '''', req_body := b\<rparr>) =
      source_path c ns [nm]" for v b
    using req_path_named [OF assms, where subs = "[]"] by simp
  show "tc_Get (client_YipYapSources c ns) nm = send ''GET'' (source_path c ns [nm]) NoBody"
    using ns assms(3) p0 [where b = NoBody] unfolding bare(2) [symmetric] by (simp add: f)
  show "tc_Delete (client_YipYapSources c ns) nm = send ''DELETE'' (source_path c ns [nm]) OptionsBody"
    using ns assms(3) p0 unfolding bare(1) [symmetric] by (simp add: f)
  show "om_name (y_meta obj) = nm \<Longrightarrow> tc_Update (client_YipYapSources c ns) obj = send ''PUT'' (source_path c ns [nm]) (SourceBody obj)"
    using ns assms(3) p0 unfolding bare(1) [symmetric] by (simp add: f)
  show "om_name (y_meta obj) = nm \<Longrightarrow>
     tc_UpdateStatus (client_YipYapSources c ns) obj = send ''PUT'' (source_path c ns [nm, ''status'']) (SourceBody obj)"
    using ns assms(3) req_path_named [OF assms, where subs = "[''status'']"] by (simp add: f req_SubResource_ok)
  show "\<forall>s \<in> set subs. name_ok s \<Longrightarrow>
     tc_Patch (client_YipYapSources c ns) nm data subs = send ''PATCH'' (source_path c ns (nm # subs)) (PatchBody data)"
    using ns assms(3) req_path_named [OF assms, where subs = subs] by (simp add: f req_SubResource_ok)
qed

lemma request_bad_name:
  assumes "of_group c" "name_ok ns" "\<not> name_ok nm"
  shows "tc_Get (client_YipYapSources c ns) nm = Inl (name_error nm)"
    "tc_Delete (client_YipYapSources c ns) nm = Inl (name_error nm)"
    "tc_Patch (client_YipYapSources c ns) nm data subs = Inl (name_error nm)"
    "om_name (y_meta obj) = nm \<Longrightarrow> tc_Update (client_YipYapSources c ns) obj = Inl (name_error nm)"
    "om_name (y_meta obj) = nm \<Longrightarrow> tc_UpdateStatus (client_YipYapSources c ns) obj = Inl (name_error nm)"
  using assms(3) by (simp_all add: request_ops req_Name_ok [OF assms(1,2)] failing_def req_Body_def req_SubResource_def)

lemma err_sticky:
  assumes "req_err r = Some e"
  shows "req_Name n r = r" "req_Body b r = r" "req_SubResource ss r = r" "req_Do r = Inl e" "req_Watch r = Inl e"
  using assms by (simp_all add: req_Name_def req_Body_def req_SubResource_def req_Do_def req_Watch_def)

lemma request_bad_namespace:
  assumes "ns \<noteq> ''''" "\<not> name_ok ns"
  shows "tc_List (client_YipYapSources c ns) = Inl ''invalid namespace''" "tc_Watch (client_YipYapSources c ns) = Inl ''invalid namespace''"
    "tc_Create (client_YipYapSources c ns) obj = Inl ''invalid namespace''"
    "tc_DeleteCollection (client_YipYapSources c ns) = Inl ''invalid namespace''"
    "tc_Get (client_YipYapSources c ns) nm = Inl ''invalid namespace''" "tc_Delete (client_YipYapSources c ns) nm = Inl ''invalid namespace''"
    "tc_Update (client_YipYapSources c ns) obj = Inl ''invalid namespace''"
    "tc_UpdateStatus (client_YipYapSources c ns) obj = Inl ''invalid namespace''"
    "tc_Patch (client_YipYapSources c ns) nm data subs = Inl ''invalid namespace''"
  by (simp_all add: err_sticky [OF for_resource_err [OF assms]] tc_Get_def tc_List_def tc_Watch_def tc_Create_def tc_Update_def tc_UpdateStatus_def tc_Delete_def
      tc_DeleteCollection_def tc_Patch_def)

lemma source_path_inject:
  assumes "name_ok ns" "name_ok ns'" "\<forall>s \<in> set rest. name_ok s" "\<forall>s \<in> set rest'. name_ok s"
    "source_path c ns rest = source_path c ns' rest'"
  shows "ns = ns' \<and> rest = rest'"
proof -
  let ?p = "\<lambda>ns rest. clean_segments (u_path (rs_base c)) @ [''apis'', ''sources.yipyap.run'', ''v1alpha1'', ''namespaces'', ns, ''yipyapsources''] @ rest"
  have "\<forall>s \<in> set (?p ns rest). plain_segment s" "\<forall>s \<in> set (?p ns' rest'). plain_segment s"
    using clean_segments_plain [of "u_path (rs_base c)"] assms(1-4) by auto
  then have "?p ns rest = ?p ns' rest'" using assms(5) unfolding source_path_def by (rule rooted_path_inject)
  then show ?thesis by simp
qed

subsection \<open>The clients that a configuration yields\<close>

lemma versioned_path: "DefaultVersionedAPIPath ''/apis'' SchemeGroupVersion = ''/apis/sources.yipyap.run/v1alpha1''"
  by code_simp

text \<open>The limiter that a REST client takes from its configuration, and the one that the clientset leaves to it.\<close>

definition limiter_of :: "rest_config \<Rightarrow> rate_limiter option" where
  "limiter_of c =
     (if cf_RateLimiter c \<noteq> None then cf_RateLimiter c
      else if cf_QPS c < 0 then None
      else Some (TokenBucket (if cf_QPS c = 0 then 5 else cf_QPS c) (if cf_Burst c = 0 then 10 else cf_Burst c)))"

lemma setConfigDefaults_fields [simp]:
  "cf_GroupVersion (setConfigDefaults tr sch c) = Some SchemeGroupVersion" "cf_APIPath (setConfigDefaults tr sch c) = ''/apis''"
  "cf_NegotiatedSerializer (setConfigDefaults tr sch c) = Some sch" "cf_RateLimiter (setConfigDefaults tr sch c) = cf_RateLimiter c"
  "cf_QPS (setConfigDefaults tr sch c) = cf_QPS c" "cf_Burst (setConfigDefaults tr sch c) = cf_Burst c"
  "cf_Host (setConfigDefaults tr sch c) = cf_Host c" "cf_TLS (setConfigDefaults tr sch c) = cf_TLS c"
  by (simp_all add: setConfigDefaults_def Let_def)

text \<open>The base URL that a host stands for.\<close>

definition base_of :: "(string \<Rightarrow> string + url) \<Rightarrow> rest_config \<Rightarrow> string + url" where
  "base_of parse c =
     map_sum id fst (DefaultServerURL parse (if cf_Host c = '''' then ''localhost'' else cf_Host c) ''/apis'' SchemeGroupVersion (cf_TLS c))"

lemma server_url_eq:
  "DefaultServerUrlFor parse (setConfigDefaults tr sch c) =
     map_sum id (\<lambda>u. (u, ''/apis/sources.yipyap.run/v1alpha1'')) (base_of parse c)"
proof -
  have "DefaultServerURL parse host ''/apis'' SchemeGroupVersion tls =
      map_sum id (\<lambda>u. (u, ''/apis/sources.yipyap.run/v1alpha1'')) (map_sum id fst (DefaultServerURL parse host ''/apis'' SchemeGroupVersion tls))"
    for host tls
    by (auto simp: DefaultServerURL_def Let_def versioned_path split: sum.splits option.splits)
  then show ?thesis by (simp only: DefaultServerUrlFor_def base_of_def setConfigDefaults_fields option.case)
qed

lemma rest_client_eq:
  assumes "cf_GroupVersion c = Some gv" "cf_NegotiatedSerializer c = Some ser" "DefaultServerUrlFor (tr_Parse tr) c = map_sum id (\<lambda>u. (u, vp)) b"
  shows "RESTClientForConfigAndClient tr c h = map_sum id (\<lambda>u. NewRESTClient u vp ser (limiter_of c) h) b"
  using assms
  by (cases b) (auto simp: RESTClientForConfigAndClient_def limiter_of_def DefaultQPS_def DefaultBurst_def Let_def split: option.split)

lemma sources_client_eq:
  "sources_NewForConfigAndClient tr sch c h =
     map_sum id (\<lambda>u. NewRESTClient u ''/apis/sources.yipyap.run/v1alpha1'' sch (limiter_of c) h) (base_of (tr_Parse tr) c)"
proof -
  have "limiter_of (setConfigDefaults tr sch c) = limiter_of c" by (simp add: limiter_of_def)
  then show ?thesis
    unfolding sources_NewForConfigAndClient_def by (subst rest_client_eq [OF _ _ server_url_eq]) simp_all
qed

text \<open>The configuration that the clientset hands on, and what it makes of the one it is given.\<close>

definition shared_config :: "rest_config \<Rightarrow> rest_config" where
  "shared_config c =
     (if cf_RateLimiter c = None \<and> cf_QPS c > 0 then c\<lparr>cf_RateLimiter := Some (TokenBucket (cf_QPS c) (cf_Burst c))\<rparr> else c)"

definition with_agent :: "('h, 'd) transport \<Rightarrow> rest_config \<Rightarrow> rest_config" where
  "with_agent tr c = (if cf_UserAgent c = '''' then c\<lparr>cf_UserAgent := tr_DefaultKubernetesUserAgent tr\<rparr> else c)"

definition no_burst :: "rest_config \<Rightarrow> bool" where
  "no_burst c \<longleftrightarrow> cf_RateLimiter c = None \<and> cf_QPS c > 0 \<and> cf_Burst c \<le> 0"

lemma clientset_eq:
  "NewForConfigAndClient tr sch c h =
     (if no_burst c then Inl burst_error
      else case base_of (tr_Parse tr) c of
             Inl e \<Rightarrow> Inl e
           | Inr u \<Rightarrow>
               (case tr_discovery tr (shared_config c) h of
                  Inl e \<Rightarrow> Inl e
                | Inr d \<Rightarrow>
                    Inr \<lparr>cs_DiscoveryClient = d,
                         cs_sourcesV1alpha1 = NewRESTClient u ''/apis/sources.yipyap.run/v1alpha1'' sch (limiter_of c) h\<rparr>))"
proof -
  have "base_of (tr_Parse tr) (shared_config c) = base_of (tr_Parse tr) c" by (simp add: shared_config_def base_of_def)
  moreover have "limiter_of (shared_config c) = limiter_of c" if "\<not> no_burst c"
    using that by (auto simp: shared_config_def limiter_of_def no_burst_def)
  ultimately show ?thesis
    by (simp add: NewForConfigAndClient_def no_burst_def [symmetric] shared_config_def [symmetric] sources_client_eq Let_def
        split: sum.split)
qed

lemma NewForConfig_eq:
  "NewForConfig tr sch c = (case tr_HTTPClientFor tr (with_agent tr c) of Inl e \<Rightarrow> Inl e | Inr h \<Rightarrow> NewForConfigAndClient tr sch (with_agent tr c) h)"
  unfolding NewForConfig_def with_agent_def Let_def by (rule refl)

lemma with_agent_keeps [simp]:
  "limiter_of (with_agent tr c) = limiter_of c" "no_burst (with_agent tr c) = no_burst c" "base_of p (with_agent tr c) = base_of p c"
  by (simp_all add: with_agent_def limiter_of_def no_burst_def base_of_def)

lemma clientset_of_group: "NewForConfig tr sch cf = Inr cs \<Longrightarrow> of_group (cs_SourcesV1alpha1 cs)"
  by (auto simp: NewForConfig_eq clientset_eq cs_SourcesV1alpha1_def of_group_def NewRESTClient_def Let_def split: if_splits sum.splits)

subsection \<open>What the clientset promises\<close>

text \<open>
  C36: Building a clientset, the server's URL, the HTTP client and discovery being available. It fails, with the
  error on the burst, exactly when no limiter is given, QPS is positive and Burst is not; then
  \<open>NewForConfigOrDie\<close> panics. Otherwise the client carries the versioned path of the API group and the given
  serializer, and is limited by the caller's limiter when there is one, by a bucket of the configured rate and a
  positive burst when QPS is positive, by none when QPS is negative, and by the default rate of five when QPS
  is zero, then with the default burst of ten only where Burst is zero: a negative burst passes the guard. The client of
  the group built alone never fails on the burst and takes the default where it is zero.
\<close>
theorem clientset_configuration:
  assumes http: "tr_HTTPClientFor tr (with_agent tr cf) = Inr h" and disc: "\<And>c. tr_discovery tr c h = Inr (dc c)"
    and url: "DefaultServerUrlFor (tr_Parse tr) (setConfigDefaults tr sch cf) = Inr (u, vp)"
  defines "bad \<equiv> cf_RateLimiter cf = None \<and> cf_QPS cf > 0 \<and> cf_Burst cf \<le> 0"
  shows "(bad \<longrightarrow> NewForConfig tr sch cf = Inl burst_error \<and> NewForConfigOrDie tr sch cf = None) \<and>
    (\<not> bad \<longrightarrow>
       (\<exists>cs. NewForConfig tr sch cf = Inr cs \<and> NewForConfigOrDie tr sch cf = Some cs \<and>
          rs_versionedAPIPath (cs_SourcesV1alpha1 cs) = ''/apis/sources.yipyap.run/v1alpha1'' \<and>
          rs_serializer (cs_SourcesV1alpha1 cs) = sch \<and> has_suffix (u_path (rs_base (cs_SourcesV1alpha1 cs))) ''/'' \<and>
          (\<forall>l. cf_RateLimiter cf = Some l \<longrightarrow> rs_rateLimiter (cs_SourcesV1alpha1 cs) = Some l) \<and>
          (cf_RateLimiter cf = None \<longrightarrow>
             (cf_QPS cf < 0 \<longrightarrow> rs_rateLimiter (cs_SourcesV1alpha1 cs) = None) \<and>
             (cf_QPS cf > 0 \<longrightarrow> cf_Burst cf > 0 \<and> rs_rateLimiter (cs_SourcesV1alpha1 cs) = Some (TokenBucket (cf_QPS cf) (cf_Burst cf))) \<and>
             (cf_QPS cf = 0 \<longrightarrow> rs_rateLimiter (cs_SourcesV1alpha1 cs) = Some (TokenBucket 5 (if cf_Burst cf = 0 then 10 else cf_Burst cf)))))) \<and>
    (\<exists>rc. sources_NewForConfigAndClient tr sch cf h = Inr rc \<and>
       (cf_RateLimiter cf = None \<longrightarrow> cf_QPS cf > 0 \<longrightarrow>
          rs_rateLimiter rc = Some (TokenBucket (cf_QPS cf) (if cf_Burst cf = 0 then 10 else cf_Burst cf))))"
proof -
  have base: "base_of (tr_Parse tr) cf = Inr u" using url by (cases "base_of (tr_Parse tr) cf") (auto simp: server_url_eq)
  have suffix: "has_suffix (u_path (rs_base (NewRESTClient u p s l h))) ''/''" for p s l
    by (simp add: NewRESTClient_def Let_def has_suffix_def)
  have fields: "rs_versionedAPIPath (NewRESTClient u p s l h) = p" "rs_serializer (NewRESTClient u p s l h) = s"
    "rs_rateLimiter (NewRESTClient u p s l h) = l" for p s l
    by (simp_all add: NewRESTClient_def Let_def)
  have new: "NewForConfig tr sch cf =
      (if bad then Inl burst_error
       else Inr \<lparr>cs_DiscoveryClient = dc (shared_config (with_agent tr cf)),
                 cs_sourcesV1alpha1 = NewRESTClient u ''/apis/sources.yipyap.run/v1alpha1'' sch (limiter_of cf) h\<rparr>)"
    by (simp add: NewForConfig_eq http clientset_eq base disc) (simp add: bad_def no_burst_def)
  show ?thesis
    by (simp add: new NewForConfigOrDie_def cs_SourcesV1alpha1_def suffix fields sources_client_eq base)
      (auto simp: limiter_of_def bad_def)
qed

text \<open>
  C23: Where the requests of a clientset built from a configuration go. With a namespace and a name that are proper path
  segments, reading, updating, deleting and patching a source go to its own path below the API group, the
  status update to its \<open>status\<close> subresource, listing, watching, creating and deleting collections to the path of
  the namespace, whatever the path of the server's URL; two such paths are the same only for the same
  namespace, name and subresource. A name or a namespace that is not one (empty, a dot name, or one with a slash
  or a percent sign) is refused before anything is sent.
\<close>
theorem source_requests_confined:
  assumes cs: "NewForConfig tr sch cf = Inr cs"
  defines "c \<equiv> cs_SourcesV1alpha1 cs"
  shows "(name_ok ns \<longrightarrow>
       tc_List (client_YipYapSources c ns) = send ''GET'' (source_path c ns []) NoBody \<and>
       tc_Watch (client_YipYapSources c ns) = send ''GET'' (source_path c ns []) NoBody \<and>
       tc_Create (client_YipYapSources c ns) obj = send ''POST'' (source_path c ns []) (SourceBody obj) \<and>
       tc_DeleteCollection (client_YipYapSources c ns) = send ''DELETE'' (source_path c ns []) OptionsBody \<and>
       tc_Get (client_YipYapSources c ns) nm =
         (if name_ok nm then send ''GET'' (source_path c ns [nm]) NoBody else Inl (name_error nm)) \<and>
       tc_Delete (client_YipYapSources c ns) nm =
         (if name_ok nm then send ''DELETE'' (source_path c ns [nm]) OptionsBody else Inl (name_error nm)) \<and>
       (om_name (y_meta obj) = nm \<longrightarrow>
          tc_Update (client_YipYapSources c ns) obj =
            (if name_ok nm then send ''PUT'' (source_path c ns [nm]) (SourceBody obj) else Inl (name_error nm)) \<and>
          tc_UpdateStatus (client_YipYapSources c ns) obj =
            (if name_ok nm then send ''PUT'' (source_path c ns [nm, ''status'']) (SourceBody obj) else Inl (name_error nm))) \<and>
       (list_all name_ok subs \<longrightarrow>
          tc_Patch (client_YipYapSources c ns) nm data subs =
            (if name_ok nm then send ''PATCH'' (source_path c ns (nm # subs)) (PatchBody data) else Inl (name_error nm)))) \<and>
    (ns \<noteq> '''' \<and> \<not> name_ok ns \<longrightarrow>
       {tc_List (client_YipYapSources c ns), tc_Watch (client_YipYapSources c ns), tc_Create (client_YipYapSources c ns) obj,
        tc_DeleteCollection (client_YipYapSources c ns), tc_Get (client_YipYapSources c ns) nm, tc_Delete (client_YipYapSources c ns) nm,
        tc_Update (client_YipYapSources c ns) obj, tc_UpdateStatus (client_YipYapSources c ns) obj,
        tc_Patch (client_YipYapSources c ns) nm data subs} = {Inl ''invalid namespace''}) \<and>
    (name_ok ns \<and> name_ok ns' \<and> list_all name_ok rest \<and> list_all name_ok rest' \<and> source_path c ns rest = source_path c ns' rest' \<longrightarrow>
       ns = ns' \<and> rest = rest')"
proof (intro conjI impI)
  have c: "of_group c" unfolding c_def by (rule clientset_of_group [OF cs])
  note bad = request_bad_name [OF c] and good = request_named [OF c] and coll = request_collection [OF c]
  assume ns: "name_ok ns"
  show "tc_List (client_YipYapSources c ns) = send ''GET'' (source_path c ns []) NoBody"
    "tc_Watch (client_YipYapSources c ns) = send ''GET'' (source_path c ns []) NoBody"
    "tc_Create (client_YipYapSources c ns) obj = send ''POST'' (source_path c ns []) (SourceBody obj)"
    "tc_DeleteCollection (client_YipYapSources c ns) = send ''DELETE'' (source_path c ns []) OptionsBody"
    by (fact coll [OF ns])+
  show "tc_Get (client_YipYapSources c ns) nm =
      (if name_ok nm then send ''GET'' (source_path c ns [nm]) NoBody else Inl (name_error nm))"
    "tc_Delete (client_YipYapSources c ns) nm =
      (if name_ok nm then send ''DELETE'' (source_path c ns [nm]) OptionsBody else Inl (name_error nm))"
    using good(1,2) [OF ns] bad(1,2) [OF ns] by simp_all
  show "tc_Update (client_YipYapSources c ns) obj =
      (if name_ok nm then send ''PUT'' (source_path c ns [nm]) (SourceBody obj) else Inl (name_error nm))"
    "tc_UpdateStatus (client_YipYapSources c ns) obj =
      (if name_ok nm then send ''PUT'' (source_path c ns [nm, ''status'']) (SourceBody obj) else Inl (name_error nm))"
    if "om_name (y_meta obj) = nm"
    using good(3,4) [OF ns, of nm obj] bad(4,5) [OF ns, of nm obj] that by simp_all
  show "tc_Patch (client_YipYapSources c ns) nm data subs =
      (if name_ok nm then send ''PATCH'' (source_path c ns (nm # subs)) (PatchBody data) else Inl (name_error nm))"
    if "list_all name_ok subs"
    using good(5) [OF ns, of nm subs data] bad(3) [OF ns, of nm data subs] that by (simp add: list_all_iff)
next
  assume "ns \<noteq> '''' \<and> \<not> name_ok ns"
  then show "{tc_List (client_YipYapSources c ns), tc_Watch (client_YipYapSources c ns), tc_Create (client_YipYapSources c ns) obj,
      tc_DeleteCollection (client_YipYapSources c ns), tc_Get (client_YipYapSources c ns) nm, tc_Delete (client_YipYapSources c ns) nm,
      tc_Update (client_YipYapSources c ns) obj, tc_UpdateStatus (client_YipYapSources c ns) obj,
      tc_Patch (client_YipYapSources c ns) nm data subs} = {Inl ''invalid namespace''}"
    by (simp add: request_bad_namespace)
next
  assume a: "name_ok ns \<and> name_ok ns' \<and> list_all name_ok rest \<and> list_all name_ok rest' \<and> source_path c ns rest = source_path c ns' rest'"
  then have "ns = ns' \<and> rest = rest'" by (intro source_path_inject) (auto simp: list_all_iff)
  then show "ns = ns'" "rest = rest'" by simp_all
qed

definition demo_transport :: "(unit, unit) transport" where
  "demo_transport =
     \<lparr>tr_HTTPClientFor = \<lambda>_. Inr (), tr_Parse = \<lambda>_. Inr (empty_url\<lparr>u_scheme := ''https'', u_host := ''proxy'', u_path := ''/k8s/./clusters/c1''\<rparr>),
      tr_discovery = \<lambda>_ _. Inr (), tr_DefaultKubernetesUserAgent = ''controller''\<rparr>"

definition demo_config :: "rat \<Rightarrow> int \<Rightarrow> rest_config" where
  "demo_config qps burst =
     \<lparr>cf_Host = ''https://proxy/k8s/./clusters/c1'', cf_APIPath = '''', cf_TLS = False, cf_UserAgent = '''', cf_QPS = qps, cf_Burst = burst,
      cf_RateLimiter = None, cf_GroupVersion = None, cf_NegotiatedSerializer = None\<rparr>"

lemma demo_base:
  "base_of (tr_Parse demo_transport) (demo_config q b) =
     Inr (empty_url\<lparr>u_scheme := ''https'', u_host := ''proxy'', u_path := ''/k8s/./clusters/c1''\<rparr>)"
  by (simp add: base_of_def DefaultServerURL_def demo_transport_def demo_config_def Let_def)

theorem clientset_configuration_witness:
  "NewForConfig demo_transport NewScheme (demo_config 50 0) = Inl burst_error \<and>
   (\<exists>cs. NewForConfig demo_transport NewScheme (demo_config 0 0) = Inr cs \<and>
      rs_rateLimiter (cs_SourcesV1alpha1 cs) = Some (TokenBucket 5 10)) \<and>
   (\<exists>cs. NewForConfig demo_transport NewScheme (demo_config 0 (- 1)) = Inr cs \<and>
      rs_rateLimiter (cs_SourcesV1alpha1 cs) = Some (TokenBucket 5 (- 1)))"
proof -
  have http: "tr_HTTPClientFor demo_transport (with_agent demo_transport c) = Inr ()"
    and disc: "\<And>c. tr_discovery demo_transport c () = Inr ((\<lambda>_. ()) c)" for c
    by (simp_all add: demo_transport_def)
  have url: "DefaultServerUrlFor (tr_Parse demo_transport) (setConfigDefaults demo_transport NewScheme (demo_config q b)) =
      Inr (empty_url\<lparr>u_scheme := ''https'', u_host := ''proxy'', u_path := ''/k8s/./clusters/c1''\<rparr>, ''/apis/sources.yipyap.run/v1alpha1'')" for q b
    by (simp add: server_url_eq demo_base)
  show ?thesis
    using clientset_configuration [OF http disc url, of 50 0] clientset_configuration [OF http disc url, of 0 0]
      clientset_configuration [OF http disc url, of 0 "- 1"]
    by (simp add: demo_config_def) blast
qed

theorem source_requests_confined_witness:
  "\<exists>cs. NewForConfig demo_transport NewScheme (demo_config 0 0) = Inr cs \<and>
     tc_Get (client_YipYapSources (cs_SourcesV1alpha1 cs) ''ops'') ''alerts'' =
       send ''GET'' ''/k8s/clusters/c1/apis/sources.yipyap.run/v1alpha1/namespaces/ops/yipyapsources/alerts'' NoBody \<and>
     tc_Get (client_YipYapSources (cs_SourcesV1alpha1 cs) ''ops'') ''..'' = Inl ''invalid resource name'' \<and>
     tc_Get (client_YipYapSources (cs_SourcesV1alpha1 cs) ''a/b'') ''alerts'' = Inl ''invalid namespace''"
proof -
  have demo: "tr_HTTPClientFor demo_transport c = Inr ()" "tr_discovery demo_transport c () = Inr ()" for c by (simp_all add: demo_transport_def)
  have "\<not> no_burst (demo_config 0 0)" by (simp add: no_burst_def demo_config_def)
  then obtain cs where cs: "NewForConfig demo_transport NewScheme (demo_config 0 0) = Inr cs"
    and path: "u_path (rs_base (cs_SourcesV1alpha1 cs)) = ''/k8s/./clusters/c1/''"
    by (simp add: NewForConfig_eq clientset_eq demo_base demo cs_SourcesV1alpha1_def NewRESTClient_def Let_def has_suffix_def)
  have ok: "name_ok ''ops''" "name_ok ''alerts''" "\<not> name_ok ''..''" "\<not> name_ok ''a/b''" by (simp_all add: name_ok_def plain_segment_def)
  have "source_path (cs_SourcesV1alpha1 cs) ''ops'' [''alerts''] =
      ''/k8s/clusters/c1/apis/sources.yipyap.run/v1alpha1/namespaces/ops/yipyapsources/alerts''"
    by (simp add: source_path_def path clean_segments_def rooted_path_def)
  then show ?thesis
    using cs ok source_requests_confined [OF cs, of "''ops''" _ "''alerts''"] source_requests_confined [OF cs, of "''ops''" _ "''..''"]
      source_requests_confined [OF cs, of "''a/b''" _ "''alerts''"]
    by (simp add: name_error_def)
qed

end
