(* ===== verification/Injection.thy ===== *)
theory Injection
  imports Informer_Factory Client_Set
begin

text \<open>
  The injection glue of \<open>pkg/client/injection\<close>: the client (\<open>client/client.go\<close>), the informer factory
  (\<open>informers/factory/factory.go\<close>), the source informer (\<open>informers/sources/v1alpha1/yipyapsource/yipyapsource.go\<close>),
  their variants with label selectors (\<open>.../filtered\<close>), the group accessors of
  \<open>pkg/client/informers/externalversions/sources\<close>, and the registry of \<open>knative.dev/pkg/injection\<close> that runs them. A
  context is the list of the values that \<open>context.WithValue\<close> put in it, the last one first; factories are
  pointers into the list of all factories made. Shown: the informer a controller reads from its context is
  the one that is handed over to be started, and every selector has an informer of its own.
\<close>

subsection \<open>Contexts\<close>

record list_options =
  lo_LabelSelector :: string
  lo_FieldSelector :: string

datatype context_key =
    ConfigKey | NamespaceKey | ResyncKey | ClientKey | FactoryKey | LabelKey | FilteredFactoryKey string
  | InformerKey | FilteredInformerKey string

text \<open>A typed informer points to its factory and carries the namespace and the tweak it was made with.\<close>

type_synonym typed_informer = "nat \<times> list_options source_informer"

datatype 'cl context_value =
    ConfigV rest_config | NamespaceV string | ResyncV int | ClientV 'cl | SelectorsV "string list" | FactoryV nat
  | InformerV typed_informer

type_synonym 'cl goctx = "(context_key \<times> 'cl context_value) list"
type_synonym ('cl, 'tf) factories = "('cl, list_options, 'tf) world list"

datatype injection_panic =
    NoClient bool | ConfigFails | NoFactory | NoLabelKey | NoFilteredFactory string | NoInformer | NoFilteredInformer string | WrongType

definition WithValue :: "context_key \<Rightarrow> 'cl context_value \<Rightarrow> 'cl goctx \<Rightarrow> 'cl goctx" where
  "WithValue k v ctx = (k, v) # ctx"

definition Value :: "context_key \<Rightarrow> 'cl goctx \<Rightarrow> 'cl context_value option" where
  "Value k ctx = map_of ctx k"

definition and_then_do :: "injection_panic + 'a \<Rightarrow> ('a \<Rightarrow> injection_panic + 'b) \<Rightarrow> injection_panic + 'b" where
  "and_then_do m f = (case m of Inl p \<Rightarrow> Inl p | Inr x \<Rightarrow> f x)"

lemma and_then_do_simps [simp]: "and_then_do (Inl p) f = Inl p" "and_then_do (Inr x) f = f x"
  by (simp_all add: and_then_do_def)

lemma Value_WithValue [simp]: "Value k (WithValue k' v ctx) = (if k = k' then Some v else Value k ctx)"
  by (simp add: Value_def WithValue_def)

definition WithSelectors :: "string list \<Rightarrow> 'cl goctx \<Rightarrow> 'cl goctx" where
  "WithSelectors sel ctx = WithValue LabelKey (SelectorsV sel) ctx"

subsection \<open>The client\<close>

definition withClientFromConfig ::
  "('h, 'd) transport \<Rightarrow> scheme \<Rightarrow> rest_config \<Rightarrow> ('h, 'd) clientset goctx \<Rightarrow> injection_panic + ('h, 'd) clientset goctx" where
  "withClientFromConfig tr sch cfg ctx =
     (case NewForConfigOrDie tr sch cfg of None \<Rightarrow> Inl ConfigFails | Some cs \<Rightarrow> Inr (WithValue ClientKey (ClientV cs) ctx))"

definition client_Get :: "'cl goctx \<Rightarrow> injection_panic + 'cl" where
  "client_Get ctx =
     (case Value ClientKey ctx of
        None \<Rightarrow> Inl (NoClient (Value ConfigKey ctx \<noteq> None))
      | Some (ClientV cs) \<Rightarrow> Inr cs
      | Some _ \<Rightarrow> Inl WrongType)"

subsection \<open>The factories\<close>

text \<open>The settings of the injection context that the factories read.\<close>

definition scope_of :: "'cl goctx \<Rightarrow> 'cl \<Rightarrow> 'cl injection_context" where
  "scope_of ctx c =
     \<lparr>ij_client = c,
      ij_namespaceScope = (case Value NamespaceKey ctx of Some (NamespaceV ns) \<Rightarrow> Some ns | _ \<Rightarrow> None),
      ij_resyncPeriod = (case Value ResyncKey ctx of Some (ResyncV d) \<Rightarrow> Some d | _ \<Rightarrow> None)\<rparr>"

definition namespace_option :: "'cl goctx \<Rightarrow> 'cl \<Rightarrow> (list_options, 'tf) shared_informer_option list" where
  "namespace_option ctx c =
     (if GetNamespaceScope (scope_of ctx c) \<noteq> '''' then [WithNamespace (GetNamespaceScope (scope_of ctx c))] else [])"

definition factory_withInformerFactory ::
  "'cl goctx \<Rightarrow> ('cl, 'tf) factories \<Rightarrow> injection_panic + 'cl goctx \<times> ('cl, 'tf) factories" where
  "factory_withInformerFactory ctx fs =
     and_then_do (client_Get ctx) (\<lambda>c.
       Inr (WithValue FactoryKey (FactoryV (length fs)) ctx, fs @ [new_world c (GetResyncPeriod (scope_of ctx c)) (namespace_option ctx c)]))"

definition factory_Get :: "'cl goctx \<Rightarrow> injection_panic + nat" where
  "factory_Get ctx = (case Value FactoryKey ctx of None \<Rightarrow> Inl NoFactory | Some (FactoryV p) \<Rightarrow> Inr p | Some _ \<Rightarrow> Inl WrongType)"

definition selectors_of :: "'cl goctx \<Rightarrow> injection_panic + string list" where
  "selectors_of ctx = (case Value LabelKey ctx of None \<Rightarrow> Inl NoLabelKey | Some (SelectorsV sel) \<Rightarrow> Inr sel | Some _ \<Rightarrow> Inl WrongType)"

definition select_label :: "string \<Rightarrow> list_options \<Rightarrow> list_options" where
  "select_label selector l = l\<lparr>lo_LabelSelector := selector\<rparr>"

fun filtered_factories ::
  "'cl \<Rightarrow> string list \<Rightarrow> 'cl goctx \<Rightarrow> ('cl, 'tf) factories \<Rightarrow> 'cl goctx \<times> ('cl, 'tf) factories" where
  "filtered_factories c [] ctx fs = (ctx, fs)"
| "filtered_factories c (selector # rest) ctx fs =
     filtered_factories c rest (WithValue (FilteredFactoryKey selector) (FactoryV (length fs)) ctx)
       (fs @ [new_world c (GetResyncPeriod (scope_of ctx c))
                (namespace_option ctx c @ [WithTweakListOptions (Some (select_label selector))])])"

definition filtered_withInformerFactory ::
  "'cl goctx \<Rightarrow> ('cl, 'tf) factories \<Rightarrow> injection_panic + 'cl goctx \<times> ('cl, 'tf) factories" where
  "filtered_withInformerFactory ctx fs =
     and_then_do (client_Get ctx) (\<lambda>c. and_then_do (selectors_of ctx) (\<lambda>sel. Inr (filtered_factories c sel ctx fs)))"

definition filtered_Get :: "'cl goctx \<Rightarrow> string \<Rightarrow> injection_panic + nat" where
  "filtered_Get ctx selector =
     (case Value (FilteredFactoryKey selector) ctx of
        None \<Rightarrow> Inl (NoFilteredFactory selector)
      | Some (FactoryV p) \<Rightarrow> Inr p
      | Some _ \<Rightarrow> Inl WrongType)"

subsection \<open>The informers\<close>

text \<open>\<open>sources.New\<close>, \<open>V1alpha1\<close>, \<open>v1alpha1.New\<close> and \<open>YipYapSources\<close>: each hands factory, namespace and tweak on.\<close>

record informer_group =
  ig_factory :: nat
  ig_namespace :: string
  ig_tweakListOptions :: "(list_options \<Rightarrow> list_options) option"

definition group_New :: "nat \<Rightarrow> string \<Rightarrow> (list_options \<Rightarrow> list_options) option \<Rightarrow> informer_group" where
  "group_New f namespace tweak = \<lparr>ig_factory = f, ig_namespace = namespace, ig_tweakListOptions = tweak\<rparr>"

definition Sources :: "nat \<Rightarrow> ('cl, 'tf) factories \<Rightarrow> informer_group" where
  "Sources p fs = group_New p (sf_namespace (w_factory (fs ! p))) (sf_tweakListOptions (w_factory (fs ! p)))"

definition version_New :: "nat \<Rightarrow> string \<Rightarrow> (list_options \<Rightarrow> list_options) option \<Rightarrow> informer_group" where
  "version_New f namespace tweak = \<lparr>ig_factory = f, ig_namespace = namespace, ig_tweakListOptions = tweak\<rparr>"

definition V1alpha1 :: "informer_group \<Rightarrow> informer_group" where
  "V1alpha1 g = version_New (ig_factory g) (ig_namespace g) (ig_tweakListOptions g)"

definition version_YipYapSources :: "informer_group \<Rightarrow> typed_informer" where
  "version_YipYapSources v = (ig_factory v, \<lparr>yi_namespace = ig_namespace v, yi_tweakListOptions = ig_tweakListOptions v\<rparr>)"

text \<open>\<open>Informer()\<close> of a typed informer: the pointer to the shared informer, in the factory the informer points to.\<close>

definition typed_Informer :: "typed_informer \<Rightarrow> ('cl, 'tf) factories \<Rightarrow> (nat \<times> nat) \<times> ('cl, 'tf) factories" where
  "typed_Informer informer fs = (let (i, w) = Informer (snd informer) (fs ! fst informer) in ((fst informer, i), fs[fst informer := w]))"

definition withInformer ::
  "'cl goctx \<Rightarrow> ('cl, 'tf) factories \<Rightarrow> injection_panic + ('cl goctx \<times> (nat \<times> nat)) \<times> ('cl, 'tf) factories" where
  "withInformer ctx fs =
     and_then_do (factory_Get ctx) (\<lambda>f.
       let informer = version_YipYapSources (V1alpha1 (Sources f fs));
           (i, fs) = typed_Informer informer fs
       in Inr ((WithValue InformerKey (InformerV informer) ctx, i), fs))"

definition informer_Get :: "'cl goctx \<Rightarrow> injection_panic + typed_informer" where
  "informer_Get ctx = (case Value InformerKey ctx of None \<Rightarrow> Inl NoInformer | Some (InformerV informer) \<Rightarrow> Inr informer | Some _ \<Rightarrow> Inl WrongType)"

fun filtered_informers ::
  "string list \<Rightarrow> 'cl goctx \<Rightarrow> ('cl, 'tf) factories \<Rightarrow>
   injection_panic + ('cl goctx \<times> (nat \<times> nat) list) \<times> ('cl, 'tf) factories" where
  "filtered_informers [] ctx fs = Inr ((ctx, []), fs)"
| "filtered_informers (selector # rest) ctx fs =
     and_then_do (filtered_Get ctx selector) (\<lambda>f.
       let informer = version_YipYapSources (V1alpha1 (Sources f fs));
           (i, fs) = typed_Informer informer fs
       in and_then_do (filtered_informers rest (WithValue (FilteredInformerKey selector) (InformerV informer) ctx) fs)
            (\<lambda>((ctx, infs), fs). Inr ((ctx, i # infs), fs)))"

definition filtered_withInformer ::
  "'cl goctx \<Rightarrow> ('cl, 'tf) factories \<Rightarrow> injection_panic + ('cl goctx \<times> (nat \<times> nat) list) \<times> ('cl, 'tf) factories" where
  "filtered_withInformer ctx fs = and_then_do (selectors_of ctx) (\<lambda>sel. filtered_informers sel ctx fs)"

definition filtered_informer_Get :: "'cl goctx \<Rightarrow> string \<Rightarrow> injection_panic + typed_informer" where
  "filtered_informer_Get ctx selector =
     (case Value (FilteredInformerKey selector) ctx of
        None \<Rightarrow> Inl (NoFilteredInformer selector)
      | Some (InformerV informer) \<Rightarrow> Inr informer
      | Some _ \<Rightarrow> Inl WrongType)"

subsection \<open>The registry\<close>

text \<open>
  \<open>injection.Default\<close>: the injectors that the packages register in their \<open>init\<close>, and \<open>SetupInformers\<close>, which runs
  clients, factories, ducks and informers in this order.
\<close>

type_synonym ('cl, 'tf) factory_injector =
  "'cl goctx \<Rightarrow> ('cl, 'tf) factories \<Rightarrow> injection_panic + 'cl goctx \<times> ('cl, 'tf) factories"

record ('cl, 'tf) registry =
  rg_clients :: "(rest_config \<Rightarrow> 'cl goctx \<Rightarrow> injection_panic + 'cl goctx) list"
  rg_factories :: "('cl, 'tf) factory_injector list"
  rg_ducks :: "('cl, 'tf) factory_injector list"
  rg_informers :: "('cl goctx \<Rightarrow> ('cl, 'tf) factories \<Rightarrow>
     injection_panic + ('cl goctx \<times> (nat \<times> nat)) \<times> ('cl, 'tf) factories) list"
  rg_filteredInformers :: "('cl goctx \<Rightarrow> ('cl, 'tf) factories \<Rightarrow>
     injection_panic + ('cl goctx \<times> (nat \<times> nat) list) \<times> ('cl, 'tf) factories) list"

definition empty_registry :: "('cl, 'tf) registry" where
  "empty_registry = \<lparr>rg_clients = [], rg_factories = [], rg_ducks = [], rg_informers = [], rg_filteredInformers = []\<rparr>"

fun run_clients ::
  "(rest_config \<Rightarrow> 'cl goctx \<Rightarrow> injection_panic + 'cl goctx) list \<Rightarrow> rest_config \<Rightarrow> 'cl goctx \<Rightarrow>
   injection_panic + 'cl goctx" where
  "run_clients [] cfg ctx = Inr ctx"
| "run_clients (injector # rest) cfg ctx = and_then_do (injector cfg ctx) (run_clients rest cfg)"

fun run_factories :: "('cl, 'tf) factory_injector list \<Rightarrow> ('cl, 'tf) factory_injector" where
  "run_factories [] ctx fs = Inr (ctx, fs)"
| "run_factories (ifi # ifis) ctx fs = and_then_do (ifi ctx fs) (\<lambda>(ctx, fs). run_factories ifis ctx fs)"

fun run_informers where
  "run_informers [] ctx fs = Inr ((ctx, []), fs)"
| "run_informers (ii # iis) ctx fs =
     and_then_do (ii ctx fs) (\<lambda>((ctx, i), fs).
       and_then_do (run_informers iis ctx fs) (\<lambda>((ctx, is), fs). Inr ((ctx, i # is), fs)))"

fun run_filtered where
  "run_filtered [] ctx fs = Inr ((ctx, []), fs)"
| "run_filtered (fii # fiis) ctx fs =
     and_then_do (fii ctx fs) (\<lambda>((ctx, is), fs).
       and_then_do (run_filtered fiis ctx fs) (\<lambda>((ctx, js), fs). Inr ((ctx, is @ js), fs)))"

definition SetupInformers ::
  "('cl, 'tf) registry \<Rightarrow> rest_config \<Rightarrow> 'cl goctx \<Rightarrow> ('cl, 'tf) factories \<Rightarrow>
   injection_panic + ('cl goctx \<times> (nat \<times> nat) list) \<times> ('cl, 'tf) factories" where
  "SetupInformers rg cfg ctx fs =
     and_then_do (run_clients (rg_clients rg) cfg ctx) (\<lambda>ctx.
     and_then_do (run_factories (rg_factories rg) ctx fs) (\<lambda>(ctx, fs).
     and_then_do (run_factories (rg_ducks rg) ctx fs) (\<lambda>(ctx, fs).
     and_then_do (run_informers (rg_informers rg) ctx fs) (\<lambda>((ctx, is), fs).
     and_then_do (run_filtered (rg_filteredInformers rg) ctx fs) (\<lambda>((ctx, js), fs). Inr ((ctx, is @ js), fs))))))"

definition client_init :: "('h, 'd) transport \<Rightarrow> scheme \<Rightarrow> (('h, 'd) clientset, 'tf) registry \<Rightarrow> (('h, 'd) clientset, 'tf) registry" where
  "client_init tr sch rg = rg\<lparr>rg_clients := rg_clients rg @ [withClientFromConfig tr sch]\<rparr>"

definition factory_init :: "('cl, 'tf) registry \<Rightarrow> ('cl, 'tf) registry" where
  "factory_init rg = rg\<lparr>rg_factories := rg_factories rg @ [factory_withInformerFactory]\<rparr>"

definition informer_init :: "('cl, 'tf) registry \<Rightarrow> ('cl, 'tf) registry" where
  "informer_init rg = rg\<lparr>rg_informers := rg_informers rg @ [withInformer]\<rparr>"

definition filtered_factory_init :: "('cl, 'tf) registry \<Rightarrow> ('cl, 'tf) registry" where
  "filtered_factory_init rg = rg\<lparr>rg_factories := rg_factories rg @ [filtered_withInformerFactory]\<rparr>"

definition filtered_informer_init :: "('cl, 'tf) registry \<Rightarrow> ('cl, 'tf) registry" where
  "filtered_informer_init rg = rg\<lparr>rg_filteredInformers := rg_filteredInformers rg @ [filtered_withInformer]\<rparr>"

text \<open>What a program has registered that links the plain packages, and one that links the filtered ones.\<close>

definition plain_registry :: "('h, 'd) transport \<Rightarrow> scheme \<Rightarrow> (('h, 'd) clientset, 'tf) registry" where
  "plain_registry tr sch = informer_init (factory_init (client_init tr sch empty_registry))"

definition filtered_registry :: "('h, 'd) transport \<Rightarrow> scheme \<Rightarrow> (('h, 'd) clientset, 'tf) registry" where
  "filtered_registry tr sch = filtered_informer_init (filtered_factory_init (client_init tr sch empty_registry))"

subsection \<open>The source informer of a factory\<close>

text \<open>The world of a factory after its source informer was asked for, once or more often.\<close>

definition with_source :: "('cl, list_options, 'tf) world \<Rightarrow> ('cl, list_options, 'tf) world" where
  "with_source w = snd (Informer (YipYapSources (w_factory w)) w)"

lemma typed_path: "version_YipYapSources (V1alpha1 (Sources p fs)) = (p, YipYapSources (w_factory (fs ! p)))"
  by (simp add: version_YipYapSources_def V1alpha1_def version_New_def Sources_def group_New_def YipYapSources_def)

lemma Informer_new_world:
  fixes c :: 'cl and r :: int and opts :: "(list_options, 'tf) shared_informer_option list"
  defines "w \<equiv> new_world c r opts"
  shows "Informer (YipYapSources (w_factory w)) w = (0, with_source w)"
    "Informer yi (with_source w) = (0, with_source w)"
    "YipYapSources (w_factory (with_source w)) = YipYapSources (w_factory w)"
    "w_heap (with_source w) = [\<lparr>si_client = c, si_namespace = sf_namespace (w_factory w), si_tweakListOptions = sf_tweakListOptions (w_factory w),
       si_objectType = source_type,
       si_resyncPeriod = (case sf_customResync (w_factory w) source_type of Some d \<Rightarrow> d | None \<Rightarrow> r), si_indexers = [''namespace''],
       si_transform = sf_transform (w_factory w), si_started = False\<rparr>]"
  unfolding w_def with_source_def
  by (simp_all add: Informer_def InformerFor_def defaultInformer_def NewFilteredYipYapSourceInformer_def SetTransform_def
      YipYapSources_def new_world_def NewSharedInformerFactoryWithOptions_def apply_options_frame Let_def split: option.split)

lemma typed_Informer_new_world:
  assumes "p < length fs" "fs ! p = new_world c r opts \<or> fs ! p = with_source (new_world c r opts)"
  shows "typed_Informer (p, YipYapSources (w_factory (new_world c r opts))) fs = ((p, 0), fs[p := with_source (new_world c r opts)])"
    "YipYapSources (w_factory (fs ! p)) = YipYapSources (w_factory (new_world c r opts))"
proof -
  note new = Informer_new_world [where c = c and r = r and opts = opts]
  from assms(2) show "typed_Informer (p, YipYapSources (w_factory (new_world c r opts))) fs = ((p, 0), fs[p := with_source (new_world c r opts)])"
    by (elim disjE) (simp_all add: typed_Informer_def new)
  from assms(2) show "YipYapSources (w_factory (fs ! p)) = YipYapSources (w_factory (new_world c r opts))"
    by (elim disjE) (simp_all add: new)
qed

lemma scope_of_WithValue [simp]:
  "k \<notin> {NamespaceKey, ResyncKey} \<Longrightarrow> scope_of (WithValue k v ctx) = scope_of ctx"
  by (auto simp: scope_of_def fun_eq_iff)

lemma namespace_option_WithValue [simp]:
  "k \<notin> {NamespaceKey, ResyncKey} \<Longrightarrow> namespace_option (WithValue k v ctx) c = namespace_option ctx c"
  unfolding namespace_option_def scope_of_WithValue by (rule refl)

text \<open>The informer of a factory of the injection context, without and with a selector.\<close>

lemma scoped_informer:
  fixes opts :: "(list_options, 'tf) shared_informer_option list"
  assumes "opts = namespace_option ctx c \<and> tweak = None \<or> opts = namespace_option ctx c @ [WithTweakListOptions tweak]"
  shows "\<exists>si. w_heap (with_source (new_world c (GetResyncPeriod (scope_of ctx c)) opts)) = [si] \<and> si_client si = c \<and>
    si_indexers si = [''namespace''] \<and> si_tweakListOptions si = tweak \<and> si_namespace si = GetNamespaceScope (scope_of ctx c) \<and>
    si_resyncPeriod si = GetResyncPeriod (scope_of ctx c)"
proof -
  let ?f = "w_factory (new_world c (GetResyncPeriod (scope_of ctx c)) opts)"
  have "sf_namespace ?f = GetNamespaceScope (scope_of ctx c) \<and> sf_tweakListOptions ?f = tweak \<and> sf_customResync ?f = Map.empty"
  proof (cases "GetNamespaceScope (scope_of ctx c) = ''''")
    case True
    then show ?thesis
      using assms by (auto simp: namespace_option_def new_world_def NewSharedInformerFactoryWithOptions_def)
  next
    case False
    then show ?thesis
      using assms by (auto simp: namespace_option_def new_world_def NewSharedInformerFactoryWithOptions_def)
  qed
  then show ?thesis by (simp add: Informer_new_world(4))
qed

subsection \<open>What the controller is given\<close>

lemmas plain_registry_defs =
  SetupInformers_def plain_registry_def informer_init_def factory_init_def client_init_def empty_registry_def

text \<open>What the injectors of factory and informer do to a context with a client, whatever the type of the client.\<close>

lemma client_setup:
  fixes fs :: "('cl, 'tf) factories" and ctx :: "'cl goctx" and cs :: 'cl
  defines "w \<equiv> (new_world cs (GetResyncPeriod (scope_of ctx cs)) (namespace_option ctx cs) :: ('cl, list_options, 'tf) world)"
  defines "informer \<equiv> (length fs, YipYapSources (w_factory w))"
  defines "ctx1 \<equiv> WithValue FactoryKey (FactoryV (length fs)) (WithValue ClientKey (ClientV cs) ctx)"
  shows "factory_withInformerFactory (WithValue ClientKey (ClientV cs) ctx) fs = Inr (ctx1, fs @ [w])"
    and "withInformer ctx1 (fs @ [w]) = Inr ((WithValue InformerKey (InformerV informer) ctx1, (length fs, 0)), fs @ [with_source w])"
    and "typed_Informer informer (fs @ [with_source w]) = ((length fs, 0), fs @ [with_source w])"
proof -
  have typed: "typed_Informer informer (fs @ [w]) = ((length fs, 0), fs @ [with_source w])"
    "typed_Informer informer (fs @ [with_source w]) = ((length fs, 0), fs @ [with_source w])"
    using typed_Informer_new_world(1) [of "length fs" "fs @ [w]" cs "GetResyncPeriod (scope_of ctx cs)" "namespace_option ctx cs"]
      typed_Informer_new_world(1) [of "length fs" "fs @ [with_source w]" cs "GetResyncPeriod (scope_of ctx cs)" "namespace_option ctx cs"]
    by (simp_all add: w_def informer_def)
  then show "typed_Informer informer (fs @ [with_source w]) = ((length fs, 0), fs @ [with_source w])" by simp
  show "factory_withInformerFactory (WithValue ClientKey (ClientV cs) ctx) fs = Inr (ctx1, fs @ [w])"
    by (simp add: factory_withInformerFactory_def client_Get_def w_def ctx1_def)
  show "withInformer ctx1 (fs @ [w]) = Inr ((WithValue InformerKey (InformerV informer) ctx1, (length fs, 0)), fs @ [with_source w])"
    using typed(1) by (simp add: withInformer_def factory_Get_def typed_path Let_def ctx1_def informer_def nth_append)
qed

text \<open>What the plain injectors leave, when the client can be built.\<close>

lemma plain_setup:
  fixes fs :: "(('h, 'd) clientset, 'tf) factories" and ctx :: "('h, 'd) clientset goctx" and tr :: "('h, 'd) transport" and sch :: scheme and cfg :: rest_config
    and cs :: "('h, 'd) clientset"
  assumes cs: "NewForConfig tr sch cfg = Inr cs"
  defines "w \<equiv> (new_world cs (GetResyncPeriod (scope_of ctx cs)) (namespace_option ctx cs) :: (('h, 'd) clientset, list_options, 'tf) world)"
  defines "informer \<equiv> (length fs, YipYapSources (w_factory w))"
  defines "ctx1 \<equiv> WithValue FactoryKey (FactoryV (length fs)) (WithValue ClientKey (ClientV cs) ctx)"
  shows "SetupInformers (plain_registry tr sch) cfg ctx fs =
      Inr ((WithValue InformerKey (InformerV informer) ctx1, [(length fs, 0)]), fs @ [with_source w])"
    and "typed_Informer informer (fs @ [with_source w]) = ((length fs, 0), fs @ [with_source w])"
  using client_setup [where cs = cs and ctx = ctx and fs = fs]
  by (simp_all add: plain_registry_defs withClientFromConfig_def NewForConfigOrDie_def cs w_def informer_def ctx1_def)

text \<open>
  C24: Setting the plain injectors up on a context. A configuration from which no client can be built panics, an
  informer without a factory and a factory without a client panic, and so does reading any of them from a
  context that has none. Otherwise one new factory and one new informer are made; client, factory and
  informer are read back from the context; the informer handed over to be started is the very one that
  \<open>Get(ctx).Informer()\<close> yields there, so that handlers added to it see its events; it carries the client, the
  namespace scope and the resync period of the context, and the namespace index the listers use.
\<close>
theorem injected_informer_is_started:
  fixes fs :: "(('h, 'd) clientset, 'tf) factories" and ctx :: "('h, 'd) clientset goctx" and tr :: "('h, 'd) transport" and sch :: scheme and cfg :: rest_config
  defines "outcome \<equiv> SetupInformers (plain_registry tr sch) cfg ctx fs"
  shows "((\<exists>e. NewForConfig tr sch cfg = Inl e) \<longrightarrow> outcome = Inl ConfigFails) \<and>
    (Value ClientKey ctx = None \<longrightarrow> (\<exists>b. client_Get ctx = Inl (NoClient b) \<and> factory_withInformerFactory ctx fs = Inl (NoClient b))) \<and>
    (Value FactoryKey ctx = None \<longrightarrow> factory_Get ctx = Inl NoFactory \<and> withInformer ctx fs = Inl NoFactory) \<and>
    (Value InformerKey ctx = None \<longrightarrow> informer_Get ctx = Inl NoInformer) \<and>
    (\<forall>cs. NewForConfig tr sch cfg = Inr cs \<longrightarrow>
      (\<exists>ctx' w informer si. outcome = Inr ((ctx', [(length fs, 0)]), fs @ [w]) \<and>
         client_Get ctx' = Inr cs \<and> factory_Get ctx' = Inr (length fs) \<and> informer_Get ctx' = Inr informer \<and>
         typed_Informer informer (fs @ [w]) = ((length fs, 0), fs @ [w]) \<and>
         w_heap w = [si] \<and> si_client si = cs \<and> si_indexers si = [''namespace''] \<and> si_tweakListOptions si = None \<and>
         si_namespace si = (case Value NamespaceKey ctx of Some (NamespaceV ns) \<Rightarrow> ns | _ \<Rightarrow> '''') \<and>
         si_resyncPeriod si = (case Value ResyncKey ctx of Some (ResyncV d) \<Rightarrow> d | _ \<Rightarrow> 36000000000000)))"
proof (intro conjI impI allI)
  show "outcome = Inl ConfigFails" if "\<exists>e. NewForConfig tr sch cfg = Inl e"
    using that by (auto simp: outcome_def plain_registry_defs withClientFromConfig_def NewForConfigOrDie_def)
  show "\<exists>b. client_Get ctx = Inl (NoClient b) \<and> factory_withInformerFactory ctx fs = Inl (NoClient b)" if "Value ClientKey ctx = None"
    using that by (simp add: client_Get_def factory_withInformerFactory_def)
  show "factory_Get ctx = Inl NoFactory" "withInformer ctx fs = Inl NoFactory" if "Value FactoryKey ctx = None"
    using that by (simp_all add: factory_Get_def withInformer_def)
  show "informer_Get ctx = Inl NoInformer" if "Value InformerKey ctx = None" using that by (simp add: informer_Get_def)
  fix cs
  assume cs: "NewForConfig tr sch cfg = Inr cs"
  define w where "w = (new_world cs (GetResyncPeriod (scope_of ctx cs)) (namespace_option ctx cs) :: (('h, 'd) clientset, list_options, 'tf) world)"
  define informer where "informer = (length fs, YipYapSources (w_factory w))"
  define ctx1 where "ctx1 = WithValue FactoryKey (FactoryV (length fs)) (WithValue ClientKey (ClientV cs) ctx)"
  note made = plain_setup [OF cs, where fs = fs and ctx = ctx, folded w_def, folded informer_def ctx1_def]
  then have "outcome = Inr ((WithValue InformerKey (InformerV informer) ctx1, [(length fs, 0)]), fs @ [with_source w])"
    by (simp add: outcome_def)
  moreover have "client_Get (WithValue InformerKey (InformerV informer) ctx1) = Inr cs"
    "factory_Get (WithValue InformerKey (InformerV informer) ctx1) = Inr (length fs)"
    "informer_Get (WithValue InformerKey (InformerV informer) ctx1) = Inr informer"
    by (simp_all add: ctx1_def client_Get_def factory_Get_def informer_Get_def)
  moreover obtain si where "w_heap (with_source w) = [si]" "si_client si = cs" "si_indexers si = [''namespace'']"
    "si_tweakListOptions si = None" "si_namespace si = GetNamespaceScope (scope_of ctx cs)" "si_resyncPeriod si = GetResyncPeriod (scope_of ctx cs)"
    using scoped_informer [of "namespace_option ctx cs" ctx cs None] unfolding w_def by blast
  ultimately show "\<exists>ctx' w informer si. outcome = Inr ((ctx', [(length fs, 0)]), fs @ [w]) \<and>
         client_Get ctx' = Inr cs \<and> factory_Get ctx' = Inr (length fs) \<and> informer_Get ctx' = Inr informer \<and>
         typed_Informer informer (fs @ [w]) = ((length fs, 0), fs @ [w]) \<and>
         w_heap w = [si] \<and> si_client si = cs \<and> si_indexers si = [''namespace''] \<and> si_tweakListOptions si = None \<and>
         si_namespace si = (case Value NamespaceKey ctx of Some (NamespaceV ns) \<Rightarrow> ns | _ \<Rightarrow> '''') \<and>
         si_resyncPeriod si = (case Value ResyncKey ctx of Some (ResyncV d) \<Rightarrow> d | _ \<Rightarrow> 36000000000000)"
    using made(2)
    by (intro exI conjI)
      (assumption | simp add: scope_of_def GetNamespaceScope_def GetResyncPeriod_def split: option.split context_value.split)+
qed

subsection \<open>Informers with selectors\<close>

text \<open>The position of the last occurrence: of several factories for one selector the context keeps the last.\<close>

fun slot :: "string \<Rightarrow> string list \<Rightarrow> nat" where
  "slot s [] = 0"
| "slot s (x # xs) = (if s \<in> set xs then Suc (slot s xs) else 0)"

lemma slot_nth: "s \<in> set xs \<Longrightarrow> slot s xs < length xs \<and> xs ! slot s xs = s"
  by (induction xs) auto

lemma slot_inj: "s \<in> set xs \<Longrightarrow> t \<in> set xs \<Longrightarrow> slot s xs = slot t xs \<Longrightarrow> s = t"
  by (metis slot_nth)

definition filtered_world :: "'cl goctx \<Rightarrow> 'cl \<Rightarrow> string \<Rightarrow> ('cl, list_options, 'tf) world" where
  "filtered_world ctx c s =
     new_world c (GetResyncPeriod (scope_of ctx c)) (namespace_option ctx c @ [WithTweakListOptions (Some (select_label s))])"

lemma filtered_world_WithValue [simp]:
  "k \<notin> {NamespaceKey, ResyncKey} \<Longrightarrow> filtered_world (WithValue k v ctx) c = filtered_world ctx c"
  by (simp add: filtered_world_def fun_eq_iff)

lemma filtered_factories_eq:
  "snd (filtered_factories c sels ctx fs) = fs @ map (filtered_world ctx c) sels \<and>
   Value k (fst (filtered_factories c sels ctx fs)) =
     (case k of
        FilteredFactoryKey s \<Rightarrow> if s \<in> set sels then Some (FactoryV (length fs + slot s sels)) else Value k ctx
      | _ \<Rightarrow> Value k ctx) \<and>
   scope_of (fst (filtered_factories c sels ctx fs)) = scope_of ctx"
proof (induction sels arbitrary: ctx fs)
  case Nil
  then show ?case by (simp split: context_key.split)
next
  case (Cons s sels)
  let ?ctx = "WithValue (FilteredFactoryKey s) (FactoryV (length fs)) ctx"
  from Cons.IH [of ?ctx "fs @ [filtered_world ctx c s]"] show ?case
    by (auto simp: filtered_world_def [symmetric] split: context_key.split)
qed

lemma filtered_informers_eq:
  assumes "\<And>s. \<exists>c r opts. new s = new_world c r opts"
    and "\<forall>s \<in> set sels. filtered_Get ctx s = Inr (P s) \<and> P s < length fs \<and> (fs ! P s = new s \<or> fs ! P s = with_source (new s))"
    and "inj_on P (set sels)"
  shows "\<exists>ctx'. filtered_informers sels ctx fs = Inr ((ctx', map (\<lambda>s. (P s, 0)) sels), fold (\<lambda>s fs. fs[P s := with_source (new s)]) sels fs) \<and>
     (\<forall>k. Value k ctx' = (case k of FilteredInformerKey s \<Rightarrow>
        if s \<in> set sels then Some (InformerV (P s, YipYapSources (w_factory (new s)))) else Value k ctx | _ \<Rightarrow> Value k ctx))"
  using assms(2,3)
proof (induction sels arbitrary: ctx fs)
  case Nil
  then show ?case by (simp split: context_key.split)
next
  case (Cons s sels)
  obtain c r opts where new: "new s = new_world c r opts" using assms(1) by blast
  let ?inf = "(P s, YipYapSources (w_factory (new s)))" and ?fs = "fs[P s := with_source (new s)]"
  let ?ctx = "WithValue (FilteredInformerKey s) (InformerV ?inf) ctx"
  have s: "filtered_Get ctx s = Inr (P s)" "P s < length fs" "fs ! P s = new_world c r opts \<or> fs ! P s = with_source (new_world c r opts)"
    using Cons.prems(1) new by simp_all
  note typed = typed_Informer_new_world [OF s(2,3)]
  have keep: "filtered_Get ?ctx t = filtered_Get ctx t" for t by (simp add: filtered_Get_def)
  have "\<forall>t \<in> set sels. filtered_Get ?ctx t = Inr (P t) \<and> P t < length ?fs \<and> (?fs ! P t = new t \<or> ?fs ! P t = with_source (new t))"
  proof
    fix t
    assume t: "t \<in> set sels"
    then have ts: "filtered_Get ctx t = Inr (P t)" "P t < length fs" "fs ! P t = new t \<or> fs ! P t = with_source (new t)"
      using Cons.prems(1) by simp_all
    have "t = s" if "P t = P s" using Cons.prems(2) t that by (auto simp: inj_on_def)
    then show "filtered_Get ?ctx t = Inr (P t) \<and> P t < length ?fs \<and> (?fs ! P t = new t \<or> ?fs ! P t = with_source (new t))"
      using ts keep by (cases "P t = P s") simp_all
  qed
  moreover have "inj_on P (set sels)" using Cons.prems(2) by (simp add: inj_on_def)
  ultimately obtain ctx' where rest: "filtered_informers sels ?ctx ?fs = Inr ((ctx', map (\<lambda>s. (P s, 0)) sels),
        fold (\<lambda>s fs. fs[P s := with_source (new s)]) sels ?fs)"
    and look: "\<forall>k. Value k ctx' = (case k of FilteredInformerKey s \<Rightarrow>
        if s \<in> set sels then Some (InformerV (P s, YipYapSources (w_factory (new s)))) else Value k ?ctx | _ \<Rightarrow> Value k ?ctx)"
    using Cons.IH [of ?ctx ?fs] by blast
  have "filtered_informers (s # sels) ctx fs =
      Inr ((ctx', map (\<lambda>s. (P s, 0)) (s # sels)), fold (\<lambda>s fs. fs[P s := with_source (new s)]) (s # sels) fs)"
    using s(1) typed rest by (simp add: typed_path new Let_def)
  moreover have "\<forall>k. Value k ctx' = (case k of FilteredInformerKey t \<Rightarrow>
        if t \<in> set (s # sels) then Some (InformerV (P t, YipYapSources (w_factory (new t)))) else Value k ctx | _ \<Rightarrow> Value k ctx)"
    using look by (auto split: context_key.split)
  ultimately show ?case by blast
qed

lemma fold_updates:
  assumes "inj_on P (set xs)" "\<forall>x \<in> set xs. P x < length ys"
  shows "length (fold (\<lambda>x ys. ys[P x := V x]) xs ys) = length ys"
    "x \<in> set xs \<Longrightarrow> fold (\<lambda>x ys. ys[P x := V x]) xs ys ! P x = V x"
    "p \<notin> P ` set xs \<Longrightarrow> fold (\<lambda>x ys. ys[P x := V x]) xs ys ! p = ys ! p"
proof -
  let ?f = "fold (\<lambda>x ys. ys[P x := V x])"
  have "length (?f xs ys) = length ys \<and> (\<forall>x \<in> set xs. ?f xs ys ! P x = V x) \<and> (\<forall>p. p \<notin> P ` set xs \<longrightarrow> ?f xs ys ! p = ys ! p)"
    using assms
  proof (induction xs rule: rev_induct)
    case (snoc x xs)
    then have IH: "length (?f xs ys) = length ys" "\<forall>x \<in> set xs. ?f xs ys ! P x = V x" "\<forall>p. p \<notin> P ` set xs \<longrightarrow> ?f xs ys ! p = ys ! p"
      by (simp_all add: inj_on_def)
    have "y = x" if "y \<in> set xs" "P y = P x" for y using snoc.prems(1) that by (auto simp: inj_on_def)
    then show ?case using IH snoc.prems(2) by (auto simp: nth_list_update)
  qed simp
  then show "length (?f xs ys) = length ys" "x \<in> set xs \<Longrightarrow> ?f xs ys ! P x = V x" "p \<notin> P ` set xs \<Longrightarrow> ?f xs ys ! p = ys ! p" by auto
qed

lemma filtered_setup:
  fixes fs :: "(('h, 'd) clientset, 'tf) factories" and ctx :: "('h, 'd) clientset goctx" and cs :: "('h, 'd) clientset" and sels :: "string list"
  assumes cs: "NewForConfig tr sch cfg = Inr cs" and sels: "Value LabelKey ctx = Some (SelectorsV sels)"
  defines "P \<equiv> \<lambda>s. length fs + slot s sels"
    and "new \<equiv> filtered_world ctx cs :: string \<Rightarrow> (('h, 'd) clientset, list_options, 'tf) world"
  obtains ctx' fs' where
    "SetupInformers (filtered_registry tr sch) cfg ctx fs = Inr ((ctx', map (\<lambda>s. (P s, 0)) sels), fs')"
    "inj_on P (set sels)" "length fs' = length fs + length sels" "\<forall>s \<in> set sels. P s < length fs' \<and> fs' ! P s = with_source (new s)"
    "\<forall>p. p \<notin> P ` set sels \<longrightarrow> fs' ! p = (fs @ map new sels) ! p"
    "\<forall>s. Value (FilteredInformerKey s) ctx' =
       (if s \<in> set sels then Some (InformerV (P s, YipYapSources (w_factory (new s)))) else Value (FilteredInformerKey s) ctx)"
proof -
  define ctx0 where "ctx0 = WithValue ClientKey (ClientV cs) ctx"
  define ctx1 where "ctx1 = fst (filtered_factories cs sels ctx0 fs)"
  let ?fs = "fs @ map new sels"
  note made = filtered_factories_eq [of cs sels ctx0 fs]
  have fac: "filtered_withInformerFactory ctx0 fs = Inr (ctx1, ?fs)"
    using made sels by (simp add: filtered_withInformerFactory_def client_Get_def selectors_of_def ctx0_def ctx1_def new_def prod_eq_iff)
  have vals: "Value k ctx1 = (case k of FilteredFactoryKey s \<Rightarrow> if s \<in> set sels then Some (FactoryV (P s)) else Value k ctx0 | _ \<Rightarrow> Value k ctx0)" for k
    using made unfolding ctx1_def P_def by blast
  have inj: "inj_on P (set sels)" using slot_inj by (auto simp: inj_on_def P_def)
  have bound: "\<forall>s \<in> set sels. P s < length ?fs" using slot_nth by (fastforce simp: P_def)
  have "?fs ! P s = new s" if "s \<in> set sels" for s using slot_nth [OF that] by (simp add: P_def nth_append)
  then have "\<forall>s \<in> set sels. filtered_Get ctx1 s = Inr (P s) \<and> P s < length ?fs \<and> (?fs ! P s = new s \<or> ?fs ! P s = with_source (new s))"
    using vals bound by (simp add: filtered_Get_def)
  moreover have "\<exists>c r opts. new s = new_world c r opts" for s by (auto simp: new_def filtered_world_def)
  ultimately obtain ctx' where run: "filtered_informers sels ctx1 ?fs =
        Inr ((ctx', map (\<lambda>s. (P s, 0)) sels), fold (\<lambda>s fs. fs[P s := with_source (new s)]) sels ?fs)"
    and look: "\<And>k. Value k ctx' = (case k of FilteredInformerKey s \<Rightarrow>
        if s \<in> set sels then Some (InformerV (P s, YipYapSources (w_factory (new s)))) else Value k ctx1 | _ \<Rightarrow> Value k ctx1)"
    using filtered_informers_eq [OF _ _ inj] by blast
  have "selectors_of ctx1 = Inr sels" using vals [of LabelKey] sels by (simp add: selectors_of_def ctx0_def)
  then have "SetupInformers (filtered_registry tr sch) cfg ctx fs =
      Inr ((ctx', map (\<lambda>s. (P s, 0)) sels), fold (\<lambda>s fs. fs[P s := with_source (new s)]) sels ?fs)"
    using run fac by (simp add: SetupInformers_def filtered_registry_def filtered_informer_init_def filtered_factory_init_def client_init_def
        empty_registry_def withClientFromConfig_def NewForConfigOrDie_def cs ctx0_def [symmetric] filtered_withInformer_def)
  then show thesis
    using that inj bound fold_updates [OF inj bound, where V = "\<lambda>s. with_source (new s)"] look vals by (simp add: ctx0_def)
qed

lemma filtered_informer_lists:
  fixes request :: "('h, 'd) clientset \<Rightarrow> string \<Rightarrow> list_options \<Rightarrow> 'r" and ctx :: "('h, 'd) clientset goctx" and s :: string and cs :: "('h, 'd) clientset"
  defines "si \<equiv> w_heap (with_source (filtered_world ctx cs s :: (('h, 'd) clientset, list_options, 'tf) world)) ! 0"
  shows "list_watch_func request si l =
    request cs (case Value NamespaceKey ctx of Some (NamespaceV ns) \<Rightarrow> ns | _ \<Rightarrow> '''') (l\<lparr>lo_LabelSelector := s\<rparr>)"
proof -
  have "GetNamespaceScope (scope_of ctx cs) = (case Value NamespaceKey ctx of Some (NamespaceV ns) \<Rightarrow> ns | _ \<Rightarrow> '''')"
    by (simp add: scope_of_def GetNamespaceScope_def split: option.split context_value.split)
  moreover obtain si' where "w_heap (with_source (filtered_world ctx cs s :: (('h, 'd) clientset, list_options, 'tf) world)) = [si']"
    "si_client si' = cs" "si_tweakListOptions si' = Some (select_label s)" "si_namespace si' = GetNamespaceScope (scope_of ctx cs)"
    using scoped_informer [of _ ctx cs "Some (select_label s)"] unfolding filtered_world_def by blast
  ultimately show ?thesis by (simp add: si_def list_watch_func_def select_label_def)
qed

lemma filtered_informer_handed:
  fixes fs :: "(('h, 'd) clientset, 'tf) factories" and request :: "('h, 'd) clientset \<Rightarrow> string \<Rightarrow> list_options \<Rightarrow> 'r"
  assumes "p < length fs" "fs ! p = with_source (filtered_world ctx cs s)"
  shows "typed_Informer (p, YipYapSources (w_factory (filtered_world ctx cs s :: (('h, 'd) clientset, list_options, 'tf) world))) fs = ((p, 0), fs)"
    "list_watch_func request (w_heap (fs ! p) ! 0) l =
       request cs (case Value NamespaceKey ctx of Some (NamespaceV ns) \<Rightarrow> ns | _ \<Rightarrow> '''') (l\<lparr>lo_LabelSelector := s\<rparr>)"
proof -
  have "fs[p := with_source (filtered_world ctx cs s)] = fs" using assms(2) by (metis list_update_id)
  then show "typed_Informer (p, YipYapSources (w_factory (filtered_world ctx cs s :: (('h, 'd) clientset, list_options, 'tf) world))) fs = ((p, 0), fs)"
    using assms typed_Informer_new_world(1) [of p fs cs "GetResyncPeriod (scope_of ctx cs)"
        "namespace_option ctx cs @ [WithTweakListOptions (Some (select_label s))]"]
    by (simp add: filtered_world_def)
  show "list_watch_func request (w_heap (fs ! p) ! 0) l =
       request cs (case Value NamespaceKey ctx of Some (NamespaceV ns) \<Rightarrow> ns | _ \<Rightarrow> '''') (l\<lparr>lo_LabelSelector := s\<rparr>)"
    by (simp add: assms(2) filtered_informer_lists)
qed

text \<open>
  Setting the injectors with selectors up. Without selectors in the context they panic. Otherwise the factories
  made before stay as they are; every selector given with \<open>WithSelectors\<close> has a factory of its own, whose
  informer is handed over to be started and is the one that \<open>Get(ctx, selector).Informer()\<close> yields; it lists
  and watches with this label selector in the namespace of the context, the other options unchanged.
  Informers of different selectors differ, so the informers handed over are distinct exactly when the selectors
  are: a selector given twice hands the same informer over twice. Reading another selector panics.
\<close>
theorem selectors_get_own_informers:
  fixes fs :: "(('h, 'd) clientset, 'tf) factories" and ctx :: "('h, 'd) clientset goctx" and tr :: "('h, 'd) transport" and sch :: scheme and cfg :: rest_config
    and request :: "('h, 'd) clientset \<Rightarrow> string \<Rightarrow> list_options \<Rightarrow> 'r"
  assumes cs: "NewForConfig tr sch cfg = Inr cs"
  defines "outcome \<equiv> SetupInformers (filtered_registry tr sch) cfg ctx fs"
  shows "(Value LabelKey ctx = None \<longrightarrow> outcome = Inl NoLabelKey) \<and>
    (\<forall>sels. Value LabelKey ctx = Some (SelectorsV sels) \<longrightarrow>
      (\<exists>ctx' infs fs'. outcome = Inr ((ctx', infs), fs') \<and> take (length fs) fs' = fs \<and>
         length infs = length sels \<and> (distinct infs \<longleftrightarrow> distinct sels) \<and>
         (\<forall>n < length sels. \<exists>informer si. filtered_informer_Get ctx' (sels ! n) = Inr informer \<and>
            typed_Informer informer fs' = (infs ! n, fs') \<and>
            w_heap (fs' ! fst (infs ! n)) ! snd (infs ! n) = si \<and>
            (\<forall>l. list_watch_func request si l =
               request cs (case Value NamespaceKey ctx of Some (NamespaceV ns) \<Rightarrow> ns | _ \<Rightarrow> '''') (l\<lparr>lo_LabelSelector := sels ! n\<rparr>))) \<and>
         (\<forall>s. s \<notin> set sels \<and> Value (FilteredInformerKey s) ctx = None \<longrightarrow> filtered_informer_Get ctx' s = Inl (NoFilteredInformer s))))"
proof (intro conjI impI allI)
  show "outcome = Inl NoLabelKey" if "Value LabelKey ctx = None"
    using that cs by (simp add: outcome_def SetupInformers_def filtered_registry_def filtered_informer_init_def filtered_factory_init_def
        client_init_def empty_registry_def withClientFromConfig_def NewForConfigOrDie_def filtered_withInformerFactory_def client_Get_def selectors_of_def)
  fix sels
  assume sels: "Value LabelKey ctx = Some (SelectorsV sels)"
  define P where "P = (\<lambda>s. length fs + slot s sels)"
  define new where "new = (filtered_world ctx cs :: string \<Rightarrow> (('h, 'd) clientset, list_options, 'tf) world)"
  obtain ctx' fs' where run: "outcome = Inr ((ctx', map (\<lambda>s. (P s, 0)) sels), fs')" and inj: "inj_on P (set sels)"
    and len: "length fs' = length fs + length sels" and made: "\<forall>s \<in> set sels. P s < length fs' \<and> fs' ! P s = with_source (new s)"
    and kept: "\<forall>p. p \<notin> P ` set sels \<longrightarrow> fs' ! p = (fs @ map new sels) ! p"
    and look: "\<forall>s. Value (FilteredInformerKey s) ctx' =
      (if s \<in> set sels then Some (InformerV (P s, YipYapSources (w_factory (new s)))) else Value (FilteredInformerKey s) ctx)"
    unfolding outcome_def P_def new_def by (rule filtered_setup [OF cs sels])
  have "take (length fs) fs' = fs"
  proof (rule nth_equalityI)
    fix i
    assume i: "i < length (take (length fs) fs')"
    then have "i \<notin> P ` set sels" by (auto simp: P_def)
    with kept i show "take (length fs) fs' ! i = fs ! i" by (simp add: nth_append)
  qed (use len in simp)
  moreover have "distinct (map (\<lambda>s. (P s, 0 :: nat)) sels) \<longleftrightarrow> distinct sels" using inj by (auto simp: distinct_map inj_on_def)
  moreover have "\<forall>n < length sels. \<exists>informer si. filtered_informer_Get ctx' (sels ! n) = Inr informer \<and>
      typed_Informer informer fs' = (map (\<lambda>s. (P s, 0)) sels ! n, fs') \<and>
      w_heap (fs' ! fst (map (\<lambda>s. (P s, 0)) sels ! n)) ! snd (map (\<lambda>s. (P s, 0)) sels ! n) = si \<and>
      (\<forall>l. list_watch_func request si l =
         request cs (case Value NamespaceKey ctx of Some (NamespaceV ns) \<Rightarrow> ns | _ \<Rightarrow> '''') (l\<lparr>lo_LabelSelector := sels ! n\<rparr>))"
    using made look by (auto simp: new_def filtered_informer_Get_def filtered_informer_handed filtered_informer_lists)
  moreover have "\<forall>s. s \<notin> set sels \<and> Value (FilteredInformerKey s) ctx = None \<longrightarrow> filtered_informer_Get ctx' s = Inl (NoFilteredInformer s)"
    using look by (simp add: filtered_informer_Get_def)
  ultimately show "\<exists>ctx' infs fs'. outcome = Inr ((ctx', infs), fs') \<and> take (length fs) fs' = fs \<and>
         length infs = length sels \<and> (distinct infs \<longleftrightarrow> distinct sels) \<and>
         (\<forall>n < length sels. \<exists>informer si. filtered_informer_Get ctx' (sels ! n) = Inr informer \<and>
            typed_Informer informer fs' = (infs ! n, fs') \<and>
            w_heap (fs' ! fst (infs ! n)) ! snd (infs ! n) = si \<and>
            (\<forall>l. list_watch_func request si l =
               request cs (case Value NamespaceKey ctx of Some (NamespaceV ns) \<Rightarrow> ns | _ \<Rightarrow> '''') (l\<lparr>lo_LabelSelector := sels ! n\<rparr>))) \<and>
         (\<forall>s. s \<notin> set sels \<and> Value (FilteredInformerKey s) ctx = None \<longrightarrow> filtered_informer_Get ctx' s = Inl (NoFilteredInformer s))"
    by (intro exI [of _ ctx'] exI [of _ "map (\<lambda>s. (P s, 0)) sels"] exI [of _ fs'] conjI) (simp_all add: run)
qed

lemma demo_clientset: obtains cs where "NewForConfig demo_transport NewScheme (demo_config 0 0) = Inr cs"
proof -
  have demo: "tr_HTTPClientFor demo_transport c = Inr ()" "tr_discovery demo_transport c () = Inr ()" for c by (simp_all add: demo_transport_def)
  have "\<not> no_burst (demo_config 0 0)" by (simp add: no_burst_def demo_config_def)
  then show thesis using that by (simp add: NewForConfig_eq clientset_eq demo_base demo)
qed

theorem injected_informer_is_started_witness:
  "\<exists>ctx' (fs' :: ((unit, unit) clientset, unit) factories) informer.
     SetupInformers (plain_registry demo_transport NewScheme) (demo_config 0 0) (WithValue NamespaceKey (NamespaceV ''ops'') []) [] =
       Inr ((ctx', [(0, 0)]), fs') \<and>
     informer_Get ctx' = Inr informer \<and> fst (typed_Informer informer fs') = (0, 0) \<and> si_namespace (hd (w_heap (hd fs'))) = ''ops''"
proof -
  obtain cs where cs: "NewForConfig demo_transport NewScheme (demo_config 0 0) = Inr cs" by (rule demo_clientset)
  show ?thesis
    using injected_informer_is_started [where tr = demo_transport and sch = NewScheme and cfg = "demo_config 0 0"
        and ctx = "WithValue NamespaceKey (NamespaceV ''ops'') []" and fs = "[] :: ((unit, unit) clientset, unit) factories"] cs
    by auto
qed

theorem selectors_get_own_informers_witness:
  "\<exists>ctx' infs (fs' :: ((unit, unit) clientset, unit) factories).
     SetupInformers (filtered_registry demo_transport NewScheme) (demo_config 0 0) (WithSelectors [''team=a'', ''team=b''] []) [] =
       Inr ((ctx', infs), fs') \<and>
     length infs = 2 \<and> distinct infs \<and> filtered_informer_Get ctx' ''team=c'' = Inl (NoFilteredInformer ''team=c'')"
proof -
  let ?ctx = "WithSelectors [''team=a'', ''team=b''] [] :: (unit, unit) clientset goctx"
  obtain cs where cs: "NewForConfig demo_transport NewScheme (demo_config 0 0) = Inr cs" by (rule demo_clientset)
  have v: "Value LabelKey ?ctx = Some (SelectorsV [''team=a'', ''team=b''])"
    "Value (FilteredInformerKey s) ?ctx = None" for s
    by (simp_all add: WithSelectors_def Value_def WithValue_def)
  from selectors_get_own_informers [OF cs, where ctx = ?ctx and fs = "[] :: ((unit, unit) clientset, unit) factories"
      and request = "\<lambda>_ _ _. ()", THEN conjunct2, rule_format, OF v(1)]
  obtain ctx' infs and fs' :: "((unit, unit) clientset, unit) factories" where
    "SetupInformers (filtered_registry demo_transport NewScheme) (demo_config 0 0) ?ctx [] = Inr ((ctx', infs), fs')"
    "length infs = length [''team=a'', ''team=b'']" "distinct infs \<longleftrightarrow> distinct [''team=a'', ''team=b'']"
    "\<forall>s. s \<notin> set [''team=a'', ''team=b''] \<and> Value (FilteredInformerKey s) ?ctx = None \<longrightarrow>
       filtered_informer_Get ctx' s = Inl (NoFilteredInformer s)"
    by (elim exE conjE) (rule that, assumption+)
  with v(2) show ?thesis by (intro exI [of _ ctx'] exI [of _ infs] exI [of _ fs']) simp
qed

end
