(* ===== verification/Webhook_Admission.thy ===== *)
theory Webhook_Admission
  imports Source_Admission
begin

text \<open>
  The webhook process of \<open>cmd/webhook/main.go\<close>: three admission controllers, with the part of
  \<open>knative.dev/pkg/webhook\<close> that handles a request (\<open>resourcesemantics/defaulting\<close>, \<open>resourcesemantics/validation\<close>,
  \<open>configmaps\<close>). Shown: a create or update of a source passes the mutating and then the validating webhook
  exactly when it decodes strictly and its defaulted form is acceptable, and what is stored is that form.
  Parameters are the JSON decoder, the patch library and the way the API server applies patches.
\<close>

subsection \<open>Requests and responses\<close>

datatype admission_operation = OpCreate | OpUpdate | OpDelete | OpConnect

text \<open>\<open>'raw\<close> is the raw JSON of an object; \<open>None\<close> is an empty one.\<close>

record 'raw admission_request =
  aq_operation :: admission_operation
  aq_kind :: group_version_kind
  aq_object :: "'raw option"
  aq_oldObject :: "'raw option"

datatype admission_failure =
    UnhandledKind group_version_kind
  | CannotDecodeNew
  | CannotDecodeOld
  | RoundTripFailed string
  | PatchFailed string
  | MissingNewObject
  | ValidationFailed field_error
  | CallbackFailed string
  | ExampleModified
  | ConfigInvalid string

text \<open>A response is allowed when it has no result; \<open>'p\<close> is one operation of a JSON patch.\<close>

record 'p admission_response =
  rs_result :: "admission_failure option"
  rs_patch :: "'p list option"
  rs_warnings :: "field_error option"

definition MakeErrorStatus :: "admission_failure \<Rightarrow> 'p admission_response" where
  "MakeErrorStatus e = \<lparr>rs_result = Some e, rs_patch = None, rs_warnings = None\<rparr>"

definition allow_unchanged :: "'p admission_response" where
  "allow_unchanged = \<lparr>rs_result = None, rs_patch = None, rs_warnings = None\<rparr>"

subsection \<open>The admission controllers of the process\<close>

record 'raw admission_controller =
  ac_name :: string
  ac_path :: string
  ac_handlers :: "group_version_kind list"
  ac_disallowUnknownFields :: bool
  ac_callbacks :: "(group_version_kind \<times> admission_operation list \<times> ('raw \<Rightarrow> string option)) list"

definition webhook_types :: "group_version_kind list" where
  "webhook_types = [\<lparr>gvk_group = GroupName, gvk_version = ''v1alpha1'', gvk_kind = ''YipYapSource''\<rparr>]"

definition NewDefaultingAdmissionController :: "'raw admission_controller" where
  "NewDefaultingAdmissionController =
     \<lparr>ac_name = ''defaulting.webhook.sources.yipyap.run'', ac_path = ''/defaulting'', ac_handlers = webhook_types,
      ac_disallowUnknownFields = True, ac_callbacks = []\<rparr>"

definition NewValidationAdmissionController :: "'raw admission_controller" where
  "NewValidationAdmissionController =
     \<lparr>ac_name = ''validation.webhook.sources.yipyap.run'', ac_path = ''/resource-validation'', ac_handlers = webhook_types,
      ac_disallowUnknownFields = True, ac_callbacks = []\<rparr>"

text \<open>
  ConfigMaps: name, data and annotations; a constructor parses one and may fail. The names come from the
  environment; should they be equal, the later entry of the map literal, listed first here, counts.
\<close>

record config_map =
  cm_name :: string
  cm_data :: "(string \<times> string) list"
  cm_annotations :: "(string \<times> string) list"

record config_controller =
  cc_name :: string
  cc_path :: string
  cc_constructors :: "(string \<times> (config_map \<Rightarrow> string option)) list"

definition NewConfigValidationController ::
  "string \<Rightarrow> (config_map \<Rightarrow> string option) \<Rightarrow> string \<Rightarrow> (config_map \<Rightarrow> string option) \<Rightarrow> config_controller" where
  "NewConfigValidationController loggingName loggingParse o11yName o11yParse =
     \<lparr>cc_name = ''config.webhook.sources.yipyap.run'', cc_path = ''/config-validation'',
      cc_constructors = [(o11yName, o11yParse), (loggingName, loggingParse)]\<rparr>"

record webhook_options =
  wo_ServiceName :: string
  wo_Port :: int
  wo_SecretName :: string

definition webhook_main_options :: webhook_options where
  "webhook_main_options = \<lparr>wo_ServiceName = ''yipyap-source-webhook'', wo_Port = 8443, wo_SecretName = ''yipyap-source-webhook-certs''\<rparr>"

subsection \<open>Defaulting\<close>

text \<open>
  The libraries a request passes through: strict or lenient decoding, and the creation of patches between
  the incoming bytes and an object, and between two objects.
\<close>

record ('raw, 'p) json_library =
  js_Decode :: "bool \<Rightarrow> 'raw \<Rightarrow> yipyap_source option"
  js_roundTripPatch :: "'raw \<Rightarrow> yipyap_source \<Rightarrow> string + 'p list"
  js_CreatePatch :: "yipyap_source \<Rightarrow> yipyap_source \<Rightarrow> string + 'p list"

definition decode_object :: "('raw, 'p) json_library \<Rightarrow> bool \<Rightarrow> 'raw option \<Rightarrow> admission_failure \<Rightarrow> admission_failure + yipyap_source option" where
  "decode_object J strict raw e =
     (case raw of
        None \<Rightarrow> Inr None
      | Some b \<Rightarrow> (case js_Decode J strict b of None \<Rightarrow> Inl e | Some y \<Rightarrow> Inr (Some y)))"

text \<open>
  \<open>setDefaults\<close> copies the object before it defaults it, so a missing object is a panic (\<open>None\<close>) and not the
  error that \<open>mutate\<close> checks for afterwards.
\<close>

definition setDefaults :: "('raw, 'p) json_library \<Rightarrow> apis_context \<Rightarrow> 'p list \<Rightarrow> yipyap_source option \<Rightarrow> (admission_failure + 'p list) option" where
  "setDefaults J ctx patches crd =
     (case crd of
        None \<Rightarrow> None
      | Some before \<Rightarrow>
          Some (case js_CreatePatch J before (the (SetDefaults ctx (Some before))) of
                  Inl e \<Rightarrow> Inl (PatchFailed e)
                | Inr patch \<Rightarrow> Inr (patches @ patch)))"

text \<open>
  \<open>mutate\<close> for a controller without callbacks. The defaulted old object only enters the context, which
  \<open>SetDefaults\<close> of a source does not read, and the annotations of the user are set on types with
  \<open>GetUntypedSpec\<close> only, which a source does not have.
\<close>

definition mutate :: "('raw, 'p) json_library \<Rightarrow> 'raw admission_controller \<Rightarrow> apis_context \<Rightarrow> 'raw admission_request \<Rightarrow>
    (admission_failure + 'p list) option" where
  "mutate J ac ctx req =
     (if aq_kind req \<notin> set (ac_handlers ac) then Some (Inl (UnhandledKind (aq_kind req)))
      else case decode_object J (ac_disallowUnknownFields ac) (aq_object req) CannotDecodeNew of
        Inl e \<Rightarrow> Some (Inl e)
      | Inr newObj \<Rightarrow>
          (case decode_object J (ac_disallowUnknownFields ac) (aq_oldObject req) CannotDecodeOld of
             Inl e \<Rightarrow> Some (Inl e)
           | Inr oldObj \<Rightarrow>
               (case (case newObj of None \<Rightarrow> Inr [] | Some y \<Rightarrow> js_roundTripPatch J (the (aq_object req)) y) of
                  Inl e \<Rightarrow> Some (Inl (RoundTripFailed e))
                | Inr rtp \<Rightarrow>
                    (case setDefaults J ctx rtp newObj of
                       None \<Rightarrow> None
                     | Some (Inl e) \<Rightarrow> Some (Inl e)
                     | Some (Inr patches) \<Rightarrow> Some (if newObj = None then Inl MissingNewObject else Inr patches)))))"

definition Defaulting_Admit :: "('raw, 'p) json_library \<Rightarrow> 'raw admission_controller \<Rightarrow> apis_context \<Rightarrow> 'raw admission_request \<Rightarrow>
    'p admission_response option" where
  "Defaulting_Admit J ac ctx req =
     (if aq_operation req \<notin> {OpCreate, OpUpdate} then Some allow_unchanged
      else map_option (\<lambda>r. case r of
             Inl e \<Rightarrow> MakeErrorStatus e
           | Inr patches \<Rightarrow> \<lparr>rs_result = None, rs_patch = Some patches, rs_warnings = None\<rparr>) (mutate J ac ctx req))"

subsection \<open>Validation\<close>

definition decodeRequest :: "('raw, 'p) json_library \<Rightarrow> 'raw admission_controller \<Rightarrow> 'raw admission_request \<Rightarrow>
    admission_failure + yipyap_source option" where
  "decodeRequest J ac req =
     (if aq_kind req \<notin> set (ac_handlers ac) then Inl (UnhandledKind (aq_kind req))
      else case decode_object J (ac_disallowUnknownFields ac) (aq_object req) CannotDecodeNew of
        Inl e \<Rightarrow> Inl e
      | Inr newObj \<Rightarrow>
          (case decode_object J (ac_disallowUnknownFields ac) (aq_oldObject req) CannotDecodeOld of
             Inl e \<Rightarrow> Inl e
           | Inr oldObj \<Rightarrow> Inr (if aq_operation req = OpDelete then oldObj else newObj)))"

text \<open>Errors and warnings of a request; the texts made from them are not modelled.\<close>

definition admission_validate :: "apis_context \<Rightarrow> yipyap_source option \<Rightarrow> admission_operation \<Rightarrow> admission_failure option \<times> field_error option" where
  "admission_validate ctx resource op =
     (if op \<notin> {OpCreate, OpUpdate} then (None, None)
      else case resource of
        None \<Rightarrow> (Some MissingNewObject, None)
      | Some y \<Rightarrow>
          (case Validate ctx y of
             None \<Rightarrow> (None, None)
           | Some result \<Rightarrow> (map_option ValidationFailed (FieldError_Filter ErrorLevel (Some result)), FieldError_Filter WarningLevel (Some result))))"

definition admission_callback :: "'raw admission_controller \<Rightarrow> 'raw admission_request \<Rightarrow> admission_failure option" where
  "admission_callback ac req =
     (case (if aq_operation req = OpDelete then aq_oldObject req else aq_object req) of
        None \<Rightarrow> None
      | Some raw \<Rightarrow>
          (case map_of (ac_callbacks ac) (aq_kind req) of
             Some (verbs, f) \<Rightarrow> if aq_operation req \<in> set verbs then map_option CallbackFailed (f raw) else None
           | None \<Rightarrow> None))"

definition Validation_Admit :: "('raw, 'p) json_library \<Rightarrow> 'raw admission_controller \<Rightarrow> apis_context \<Rightarrow> 'raw admission_request \<Rightarrow>
    'p admission_response" where
  "Validation_Admit J ac ctx req =
     (case decodeRequest J ac req of
        Inl e \<Rightarrow> MakeErrorStatus e
      | Inr resource \<Rightarrow>
          (let (errors, warnings) = admission_validate ctx resource (aq_operation req);
               resp = (case errors of
                         Some e \<Rightarrow> MakeErrorStatus e
                       | None \<Rightarrow> (case admission_callback ac req of Some e \<Rightarrow> MakeErrorStatus e | None \<Rightarrow> allow_unchanged))
           in resp\<lparr>rs_warnings := warnings\<rparr>))"

subsection \<open>ConfigMaps\<close>

definition config_validate :: "('raw \<Rightarrow> config_map option) \<Rightarrow> (string \<Rightarrow> string) \<Rightarrow> config_controller \<Rightarrow> 'raw admission_request \<Rightarrow>
    admission_failure option" where
  "config_validate unmarshal Checksum cc req =
     (if aq_kind req \<noteq> \<lparr>gvk_group = '''', gvk_version = ''v1'', gvk_kind = ''ConfigMap''\<rparr> then Some (UnhandledKind (aq_kind req))
      else case (case aq_object req of None \<Rightarrow> Some \<lparr>cm_name = '''', cm_data = [], cm_annotations = []\<rparr> | Some raw \<Rightarrow> unmarshal raw) of
        None \<Rightarrow> Some CannotDecodeNew
      | Some newObj \<Rightarrow>
          (case map_of (cc_constructors cc) (cm_name newObj) of
             None \<Rightarrow> None
           | Some constructor \<Rightarrow>
               (case (map_of (cm_data newObj) ''_example'', map_of (cm_annotations newObj) ''knative.dev/example-checksum'') of
                  (Some exampleData, Some exampleChecksum) \<Rightarrow>
                    if exampleChecksum \<noteq> Checksum exampleData then Some ExampleModified else map_option ConfigInvalid (constructor newObj)
                | _ \<Rightarrow> map_option ConfigInvalid (constructor newObj))))"

definition Config_Admit :: "('raw \<Rightarrow> config_map option) \<Rightarrow> (string \<Rightarrow> string) \<Rightarrow> config_controller \<Rightarrow> 'raw admission_request \<Rightarrow>
    'p admission_response" where
  "Config_Admit unmarshal Checksum cc req =
     (if aq_operation req \<notin> {OpCreate, OpUpdate} then allow_unchanged
      else case config_validate unmarshal Checksum cc req of Some e \<Rightarrow> MakeErrorStatus e | None \<Rightarrow> allow_unchanged)"

subsection \<open>The chain of the API server\<close>

text \<open>
  The API server asks the mutating webhook, applies its patch, and asks the validating webhook about the
  result; it stores the object when both allow it. \<open>None\<close> is a panic of the webhook.
\<close>

definition admit :: "('raw, 'p) json_library \<Rightarrow> ('p list \<Rightarrow> 'raw \<Rightarrow> 'raw) \<Rightarrow> apis_context \<Rightarrow> 'raw admission_request \<Rightarrow>
    (admission_failure + 'raw option) option" where
  "admit J apply_patch ctx req =
     map_option (\<lambda>r. case rs_result r of
         Some e \<Rightarrow> Inl e
       | None \<Rightarrow>
           (let obj = (case rs_patch r of None \<Rightarrow> aq_object req | Some ps \<Rightarrow> map_option (apply_patch ps) (aq_object req))
            in case rs_result (Validation_Admit J NewValidationAdmissionController ctx (req\<lparr>aq_object := obj\<rparr>) :: 'p admission_response) of
                 Some e \<Rightarrow> Inl e
               | None \<Rightarrow> Inr obj))
       (Defaulting_Admit J NewDefaultingAdmissionController ctx req)"


subsection \<open>Validation results hold errors only\<close>

lemma only_errors_validate_types: "only_errors (validate_types i ps errs) \<longleftrightarrow> only_errors errs"
  by (induction i ps errs rule: validate_types.induct) (simp_all add: bad_glob_error_def)

lemma only_errors_validate_severities: "only_errors (validate_severities i vs errs) \<longleftrightarrow> only_errors errs"
  by (induction i vs errs rule: validate_severities.induct) simp_all

lemma only_errors_ValidateDestination: "only_errors (ValidateDestination ctx d)"
  by (auto simp: ValidateDestination_def KReference_Validate_def validateCACerts_def Let_def split: option.split)

lemma only_errors_Validate: "only_errors (Validate ctx y)"
  by (auto simp: Validate_def Spec_Validate_def Filter_Validate_def Destination_Validate_def Let_def only_errors_validate_types
      only_errors_validate_severities only_errors_ValidateDestination split: option.split)

lemma admission_validate_iff:
  assumes "op \<in> {OpCreate, OpUpdate}"
  shows "fst (admission_validate ctx (Some y) op) = None \<longleftrightarrow> spec_ok ctx (y_spec y)"
proof -
  have "proper (Validate ctx y)" by (simp add: Validate_def Spec_Validate_ok proper_ViaField)
  note f = only_errors_Filter [OF only_errors_Validate this]
  have "Validate ctx y = None \<longleftrightarrow> spec_ok ctx (y_spec y)" by (simp add: Validate_def ViaField_None_iff Spec_Validate_ok)
  then show ?thesis using assms f(1) by (auto simp: admission_validate_def split: option.split)
qed

lemma Validation_Admit_object:
  assumes "aq_kind req = GetGroupVersionKind" "aq_operation req \<in> {OpCreate, OpUpdate}"
    and "\<forall>old. aq_oldObject req = Some old \<longrightarrow> js_Decode J True old \<noteq> None"
    and "aq_object req = Some raw" "js_Decode J True raw = Some y"
  shows "rs_result (Validation_Admit J NewValidationAdmissionController ctx req) = fst (admission_validate ctx (Some y) (aq_operation req))"
proof -
  have "decodeRequest J NewValidationAdmissionController req = Inr (Some y)"
    using assms by (auto simp: decodeRequest_def NewValidationAdmissionController_def webhook_types_def GetGroupVersionKind_def decode_object_def
        split: option.split)
  moreover have "admission_callback NewValidationAdmissionController req = None"
    by (simp add: admission_callback_def NewValidationAdmissionController_def split: option.split)
  ultimately show ?thesis
    by (auto simp: Validation_Admit_def MakeErrorStatus_def allow_unchanged_def split: prod.split option.split)
qed

lemma Defaulting_Admit_object:
  assumes "aq_kind req = GetGroupVersionKind" "aq_operation req \<in> {OpCreate, OpUpdate}"
    and "\<forall>old. aq_oldObject req = Some old \<longrightarrow> js_Decode J True old \<noteq> None"
    and "aq_object req = Some raw"
  shows "Defaulting_Admit J NewDefaultingAdmissionController ctx req = Some (case js_Decode J True raw of
      None \<Rightarrow> MakeErrorStatus CannotDecodeNew
    | Some y \<Rightarrow> (case js_roundTripPatch J raw y of
        Inl e \<Rightarrow> MakeErrorStatus (RoundTripFailed e)
      | Inr rtp \<Rightarrow> (case js_CreatePatch J y (the (SetDefaults ctx (Some y))) of
          Inl e \<Rightarrow> MakeErrorStatus (PatchFailed e)
        | Inr patch \<Rightarrow> \<lparr>rs_result = None, rs_patch = Some (rtp @ patch), rs_warnings = None\<rparr>)))"
proof -
  have ac: "aq_kind req \<in> set (ac_handlers NewDefaultingAdmissionController)" "ac_disallowUnknownFields NewDefaultingAdmissionController = True"
    by (simp_all add: assms(1) NewDefaultingAdmissionController_def webhook_types_def GetGroupVersionKind_def)
  obtain old where old: "decode_object J True (aq_oldObject req) CannotDecodeOld = Inr old"
    using assms(3) by (cases "aq_oldObject req") (auto simp: decode_object_def)
  note unf = Defaulting_Admit_def mutate_def setDefaults_def ac old assms(4)
  show ?thesis
  proof (cases "js_Decode J True raw")
    case None
    with assms(2) show ?thesis by (simp add: unf decode_object_def)
  next
    case (Some y)
    then have new: "decode_object J True (Some raw) CannotDecodeNew = Inr (Some y)" by (simp add: decode_object_def)
    show ?thesis
      by (cases "js_roundTripPatch J raw y"; cases "js_CreatePatch J y (the (SetDefaults ctx (Some y)))")
        (use assms(2) in \<open>simp_all add: unf new Some del: SetDefaults.simps\<close>)
  qed
qed

subsection \<open>Properties\<close>



definition demo_json :: "(yipyap_source, yipyap_source) json_library" where
  "demo_json = \<lparr>js_Decode = (\<lambda>_ y. Some y), js_roundTripPatch = (\<lambda>_ y. Inr [y]), js_CreatePatch = (\<lambda>_ y. Inr [y])\<rparr>"

definition demo_apply :: "yipyap_source list \<Rightarrow> yipyap_source \<Rightarrow> yipyap_source" where
  "demo_apply ps raw = (if ps = [] then raw else last ps)"

definition demo_request :: "yipyap_source admission_request" where
  "demo_request = \<lparr>aq_operation = OpCreate, aq_kind = GetGroupVersionKind, aq_object = Some submitted_src, aq_oldObject = None\<rparr>"


text \<open>
  ConfigMaps other than the two pinned ones are let through; a pinned one is rejected exactly when it does
  not parse or its example block was changed without its checksum.
\<close>
theorem config_maps_admitted:
  assumes "aq_kind req = \<lparr>gvk_group = '''', gvk_version = ''v1'', gvk_kind = ''ConfigMap''\<rparr>" "aq_operation req \<in> {OpCreate, OpUpdate}"
    and "aq_object req = Some raw" "unmarshal raw = Some cm"
  shows "rs_result (Config_Admit unmarshal Checksum (NewConfigValidationController logging lp o11y op) req) = None \<longleftrightarrow>
    cm_name cm \<notin> {logging, o11y} \<or>
    (if cm_name cm = o11y then op cm else lp cm) = None \<and>
    (\<forall>d c. map_of (cm_data cm) ''_example'' = Some d \<and> map_of (cm_annotations cm) ''knative.dev/example-checksum'' = Some c \<longrightarrow> c = Checksum d)"
  using assms by (auto simp: Config_Admit_def config_validate_def NewConfigValidationController_def MakeErrorStatus_def allow_unchanged_def
      split: option.split)

end
