(* ===== verification/Process_Main.thy ===== *)
theory Process_Main
  imports Controller_Run Injection Webhook_Admission Go_Json
begin

text \<open>
  The two processes: \<open>cmd/controller/main.go\<close> and \<open>cmd/webhook/main.go\<close> over \<open>MainWithContext\<close> and \<open>MainWithConfig\<close> of
  \<open>knative.dev/pkg/injection/sharedmain/main.go\<close>. First the decisions taken in one thread: client limits, injection,
  the constructors, the webhook. Then the life of the process as a step relation over the main
  goroutine, the informers, the servers of its error group and the runs of its controllers. Shown: both
  programs start with what they need, no controller runs and no request that depends on informers is
  admitted before every cache is synchronized, a fatal error of the start never cuts a reconciliation
  short, and the process ends only after a signal or the failure of a controller.
\<close>

subsection \<open>Client limits and injection\<close>

text \<open>\<open>MainWithConfig\<close> scales the defaults by the number of controllers, \<open>EnableInjectionOrDie\<close> fills in what is still zero.\<close>

definition scale_limits :: "nat \<Rightarrow> rest_config \<Rightarrow> rest_config" where
  "scale_limits ctors cfg =
     (let cfg = (if cf_QPS cfg = 0 then cfg\<lparr>cf_QPS := of_nat ctors * DefaultQPS\<rparr> else cfg)
      in if cf_Burst cfg = 0 then cfg\<lparr>cf_Burst := int ctors * DefaultBurst\<rparr> else cfg)"

definition default_limits :: "rest_config \<Rightarrow> rest_config" where
  "default_limits cfg =
     (let cfg = (if cf_QPS cfg = 0 then cfg\<lparr>cf_QPS := DefaultQPS\<rparr> else cfg)
      in if cf_Burst cfg = 0 then cfg\<lparr>cf_Burst := DefaultBurst\<rparr> else cfg)"

definition WithConfig :: "rest_config \<Rightarrow> 'cl goctx \<Rightarrow> 'cl goctx" where
  "WithConfig cfg ctx = WithValue ConfigKey (ConfigV cfg) ctx"

definition EnableInjectionOrDie ::
  "('cl, 'tf) registry \<Rightarrow> rest_config \<Rightarrow> 'cl goctx \<Rightarrow> ('cl, 'tf) factories \<Rightarrow>
   injection_panic + ('cl goctx \<times> (nat \<times> nat) list) \<times> ('cl, 'tf) factories" where
  "EnableInjectionOrDie rg cfg ctx fs = (let cfg = default_limits cfg in SetupInformers rg cfg (WithConfig cfg ctx) fs)"

subsection \<open>Controllers and webhooks\<close>

text \<open>
  A controller as its constructor returns it. The reconciler behind it may serve admission or conversion
  requests on a path; a stateless one does not wait for the informers.
\<close>

datatype webhook_role = NoWebhook | AdmissionController string bool | ConversionController string

record impl =
  im_Name :: string
  im_Concurrency :: int
  im_role :: webhook_role
  im_leaderAware :: bool

datatype process_fatal =
    BadThreads string
  | NoRestConfig string
  | InjectionFailed injection_panic
  | CannotConstruct fatal
  | NoInformer injection_panic
  | NotLeaderAware string
  | SetupFailed string
  | WebhookFailed string
  | ConfigWatchFailed
  | CacheNotSynced nat

type_synonym 'cl ctor = "'cl goctx \<Rightarrow> process_fatal + impl"

fun ControllersAndWebhooksFromCtors :: "bool \<Rightarrow> 'cl ctor list \<Rightarrow> 'cl goctx \<Rightarrow> process_fatal + impl list \<times> impl list" where
  "ControllersAndWebhooksFromCtors leEnabled [] ctx = Inr ([], [])"
| "ControllersAndWebhooksFromCtors leEnabled (cf # ctors) ctx =
     (case cf ctx of
        Inl e \<Rightarrow> Inl e
      | Inr ctrl \<Rightarrow>
          if leEnabled \<and> \<not> im_leaderAware ctrl then Inl (NotLeaderAware (im_Name ctrl))
          else (case ControllersAndWebhooksFromCtors leEnabled ctors ctx of
                  Inl e \<Rightarrow> Inl e
                | Inr (cs, ws) \<Rightarrow> Inr (ctrl # cs, (case im_role ctrl of NoWebhook \<Rightarrow> ws | _ \<Rightarrow> ctrl # ws))))"

text \<open>\<open>controller.NewContext\<close>: the number of workers is the default unless the options name one.\<close>

definition NewContext :: "int \<Rightarrow> string \<Rightarrow> int \<Rightarrow> webhook_role \<Rightarrow> bool \<Rightarrow> impl" where
  "NewContext defaultThreads workQueueName concurrency role leaderAware =
     \<lparr>im_Name = workQueueName, im_Concurrency = (if concurrency = 0 then defaultThreads else concurrency), im_role = role, im_leaderAware = leaderAware\<rparr>"

text \<open>
  \<open>webhook.New\<close>: the options must be in the context, the TLS versions in order, and no two controllers on one
  path; \<open>ServeMux.Handle\<close> panics on a duplicate, which is recovered into an error. \<open>tls\<close> is what
  \<open>DefaultConfigFromEnv\<close> gives, minimum and maximum version; the options of this program leave their own TLS
  settings at zero, which keeps these.
\<close>

fun handle_paths :: "string list \<Rightarrow> impl list \<Rightarrow> string + string list" where
  "handle_paths patterns [] = Inr patterns"
| "handle_paths patterns (c # cs) =
     (case im_role c of
        NoWebhook \<Rightarrow> Inl ''unknown webhook controller type''
      | AdmissionController path stateless \<Rightarrow>
          if path \<in> set patterns then Inl ''error creating webhook'' else handle_paths (patterns @ [path]) cs
      | ConversionController path \<Rightarrow>
          if path \<in> set patterns then Inl ''error creating webhook'' else handle_paths (patterns @ [path]) cs)"

definition VersionTLS12 :: nat where "VersionTLS12 = 771"
definition VersionTLS13 :: nat where "VersionTLS13 = 772"

definition webhook_New :: "webhook_options option \<Rightarrow> string + nat \<times> nat \<Rightarrow> impl list \<Rightarrow> string + string list" where
  "webhook_New opts tls controllers =
     (case opts of
        None \<Rightarrow> Inl ''context must have Options specified''
      | Some _ \<Rightarrow>
          (case tls of
             Inl e \<Rightarrow> Inl e
           | Inr (minVersion, maxVersion) \<Rightarrow>
               if minVersion \<noteq> VersionTLS12 \<and> minVersion \<noteq> VersionTLS13 then Inl ''unsupported TLS minimum version''
               else if maxVersion \<noteq> 0 \<and> minVersion > maxVersion then Inl ''TLS minimum version is greater than maximum version''
               else handle_paths [''/''] controllers))"

subsection \<open>The programs\<close>

text \<open>\<open>strconv.Atoi\<close>: an optional sign and decimal digits within 64 bits.\<close>

definition Atoi :: "string \<Rightarrow> int option" where
  "Atoi s =
     (let neg = (case s of c # _ \<Rightarrow> c = CHR ''-'' | [] \<Rightarrow> False);
          ds = (case s of c # cs \<Rightarrow> if c = CHR ''-'' \<or> c = CHR ''+'' then cs else s | [] \<Rightarrow> []);
          v = (if neg then - int (nat_of_digits ds) else int (nat_of_digits ds))
      in if ds \<noteq> [] \<and> list_all is_digit ds \<and> - (2 ^ 63) \<le> v \<and> v < 2 ^ 63 then Some v else None)"

text \<open>
  What \<open>MainWithContext\<close> finds: the environment, the flag, the REST configuration, what building an elector gives, and
  in \<open>me_setup\<close> the error of the first step that reads the cluster and fails: \<open>SetupLoggerOrDie\<close>,
  \<open>CheckK8sClientMinimumVersionOrDie\<close>, \<open>SetupConfigMapWatchOrDie\<close>, \<open>GetLeaderElectionConfig\<close>, \<open>SetupObservabilityOrDie\<close> and the
  two watches of the configuration.
\<close>

record main_env =
  me_LookupEnv :: "string \<Rightarrow> string option"
  me_disableHA :: bool
  me_restConfig :: "string + rest_config"
  me_setup :: "string option"
  me_tls :: "string + nat \<times> nat"
  me_options :: "webhook_options option"
  me_BuildElector :: "string \<Rightarrow> string + elector_kind"

definition DefaultThreadsPerController :: int where "DefaultThreadsPerController = 2"

definition threads_per_controller :: "(string \<Rightarrow> string option) \<Rightarrow> process_fatal + int" where
  "threads_per_controller lookupEnv =
     (case lookupEnv ''K_THREADS_PER_CONTROLLER'' of
        None \<Rightarrow> Inr DefaultThreadsPerController
      | Some val \<Rightarrow> (case Atoi val of None \<Rightarrow> Inl (BadThreads val) | Some n \<Rightarrow> Inr n))"

text \<open>What the single-threaded part of the start arrives at.\<close>

record started_main =
  sm_config :: rest_config
  sm_informers :: "(nat \<times> nat) list"
  sm_controllers :: "impl list"
  sm_webhooks :: "impl list"

definition MainWithConfig ::
  "('cl, 'tf) registry \<Rightarrow> main_env \<Rightarrow> rest_config \<Rightarrow> 'cl ctor list \<Rightarrow> 'cl goctx \<Rightarrow> process_fatal + started_main" where
  "MainWithConfig rg env cfg ctors ctx =
     (let cfg = scale_limits (length ctors) cfg in
      case EnableInjectionOrDie rg cfg ctx [] of
        Inl p \<Rightarrow> Inl (InjectionFailed p)
      | Inr ((ctx, informers), fs) \<Rightarrow>
          (case me_setup env of
             Some e \<Rightarrow> Inl (SetupFailed e)
           | None \<Rightarrow>
               (case ControllersAndWebhooksFromCtors (\<not> me_disableHA env) ctors ctx of
                  Inl e \<Rightarrow> Inl e
                | Inr (controllers, webhooks) \<Rightarrow>
                    Inr \<lparr>sm_config = default_limits cfg, sm_informers = informers, sm_controllers = controllers, sm_webhooks = webhooks\<rparr>)))"

definition MainWithContext ::
  "('cl, 'tf) registry \<Rightarrow> main_env \<Rightarrow> (int \<Rightarrow> 'cl ctor list) \<Rightarrow> 'cl goctx \<Rightarrow> process_fatal + started_main" where
  "MainWithContext rg env ctors ctx =
     (case threads_per_controller (me_LookupEnv env) of
        Inl e \<Rightarrow> Inl e
      | Inr threads \<Rightarrow>
          (case me_restConfig env of
             Inl e \<Rightarrow> Inl (NoRestConfig e)
           | Inr cfg \<Rightarrow> MainWithConfig rg env cfg (ctors threads) ctx))"

text \<open>The constructor of the source controller: the image, the informers from the context, \<open>NewImpl\<close>.\<close>

definition ctrTypeName :: "string \<Rightarrow> string \<Rightarrow> string" where
  "ctrTypeName pkgPath name = map (\<lambda>c. if c = CHR ''/'' then CHR ''.'' else c) (pkgPath @ ''.'' @ name)"

definition source_queueName :: string where
  "source_queueName = ctrTypeName ''github.com/YipYap-run/knative-source/pkg/reconciler/yipyapsource'' ''Reconciler''"

definition source_ctor :: "(string \<Rightarrow> bool) \<Rightarrow> (string \<Rightarrow> reconciler) \<Rightarrow> (string \<Rightarrow> string option) \<Rightarrow> int \<Rightarrow> 'cl ctor" where
  "source_ctor is_conflict clients lookupEnv threads ctx =
     (if lookupEnv ''YIPYAP_SOURCE_RA_IMAGE'' = None then Inl (CannotConstruct MissingImage)
      else case informer_Get ctx of
             Inl p \<Rightarrow> Inl (NoInformer p)
           | Inr _ \<Rightarrow>
               (case NewController is_conflict clients lookupEnv of
                  Inl e \<Rightarrow> Inl (CannotConstruct e)
                | Inr co \<Rightarrow> Inr (NewContext threads source_queueName 0 NoWebhook True)))"

definition controller_main ::
  "('cl, 'tf) registry \<Rightarrow> main_env \<Rightarrow> (string \<Rightarrow> bool) \<Rightarrow> (string \<Rightarrow> reconciler) \<Rightarrow> 'cl goctx \<Rightarrow> process_fatal + started_main" where
  "controller_main rg env is_conflict clients =
     MainWithContext rg env (\<lambda>threads. [source_ctor is_conflict clients (me_LookupEnv env) threads])"

text \<open>
  The webhook process: the certificates controller, which serves nothing, and the three admission
  controllers, all stateless and leader aware.
\<close>

definition admissionWebhookName :: string where "admissionWebhookName = ''yipyap-source-webhook''"

definition webhook_ctors :: "string \<Rightarrow> string \<Rightarrow> int \<Rightarrow> 'cl ctor list" where
  "webhook_ctors loggingName o11yName threads =
     [\<lambda>ctx. Inr (NewContext threads ''WebhookCertificates'' 0 NoWebhook True),
      \<lambda>ctx. Inr (NewContext threads ''DefaultingWebhook'' 0
        (AdmissionController (ac_path (NewDefaultingAdmissionController :: unit admission_controller)) True) True),
      \<lambda>ctx. Inr (NewContext threads ''ValidationWebhook'' 0
        (AdmissionController (ac_path (NewValidationAdmissionController :: unit admission_controller)) True) True),
      \<lambda>ctx. Inr (NewContext threads ''ConfigMapWebhook'' 0
        (AdmissionController (cc_path (NewConfigValidationController loggingName (\<lambda>_. None) o11yName (\<lambda>_. None))) True) True)]"

definition webhook_main ::
  "('cl, 'tf) registry \<Rightarrow> main_env \<Rightarrow> string \<Rightarrow> string \<Rightarrow> 'cl goctx \<Rightarrow> process_fatal + started_main" where
  "webhook_main rg env loggingName o11yName =
     MainWithContext rg (env\<lparr>me_options := Some webhook_main_options\<rparr>) (webhook_ctors loggingName o11yName)"

subsection \<open>The event recorder\<close>

text \<open>
  \<open>createRecorder\<close>: the recorder of the context, or a new one for the agent with a watch that logs the events and
  one that sends them to the API server; both watches stop with the context.
\<close>

datatype event_watch = LoggingWatch | SinkWatch string
datatype event_recorder = GivenRecorder string | Recorder string

definition createRecorder :: "event_recorder option \<Rightarrow> string \<Rightarrow> event_recorder \<times> event_watch list" where
  "createRecorder given agentName =
     (case given of
        Some recorder \<Rightarrow> (recorder, [])
      | None \<Rightarrow> (Recorder agentName, [LoggingWatch, SinkWatch '''']))"

subsection \<open>The life of a process\<close>

text \<open>
  Where the main goroutine of \<open>MainWithConfig\<close> stands from the start of the configuration watcher on; \<open>Syncing i\<close> waits
  for the cache of informer \<open>i\<close>. \<open>Died\<close> is a call of \<open>Fatal\<close>, \<open>Killed\<close> the second signal.
\<close>

datatype main_point =
    StartsConfig | MakesWebhook | StartsInformers | Syncing nat | Releases | StartsControllers | AwaitsEnd | WaitsGroup
  | Exited | Died process_fatal | Killed

datatype informer_state = Fresh | Runs | Synced

datatype server = Pprof | WebhookServer | Probes
datatype server_state = Serving | Ended bool

record process_state =
  pr_point :: main_point
  pr_signal :: bool
  pr_configSynced :: bool
  pr_informers :: "informer_state list"
  pr_webhook :: "bool option"
  pr_servers :: "(server \<times> server_state) list"
  pr_started :: bool
  pr_runs :: "namespaced_name controller_run list"
  pr_watches :: "event_watch list"

definition process_start :: "started_main \<Rightarrow> event_watch list \<Rightarrow> process_state" where
  "process_start m watches =
     \<lparr>pr_point = StartsConfig, pr_signal = False, pr_configSynced = False, pr_informers = map (\<lambda>_. Fresh) (sm_informers m), pr_webhook = None,
      pr_servers = [(Pprof, Serving)], pr_started = False, pr_runs = map (\<lambda>_. new_run) (sm_controllers m), pr_watches = watches\<rparr>"

text \<open>
  Without high availability every controller has the unopposed elector; otherwise \<open>me_BuildElector\<close> says what
  building one for the queue name gives.
\<close>

definition run_opts :: "main_env \<Rightarrow> impl \<Rightarrow> run_options" where
  "run_opts env c =
     \<lparr>ro_leaderAware = im_leaderAware c,
      ro_BuildElector = (if me_disableHA env then Inr Unopposed else me_BuildElector env (im_Name c)),
      ro_threadiness = im_Concurrency c\<rparr>"

definition run_failed :: "'k controller_run \<Rightarrow> bool" where
  "run_failed r \<longleftrightarrow> cr_point r = Returned \<and> cr_err r \<noteq> None"

text \<open>The context of the group is done: a signal, a server that failed, or \<open>StartAll\<close> that returned an error.\<close>

definition group_done :: "process_state \<Rightarrow> bool" where
  "group_done s \<longleftrightarrow> pr_signal s \<or> (\<exists>x. (x, Ended True) \<in> set (pr_servers s)) \<or>
     (pr_started s \<and> (\<forall>r \<in> set (pr_runs s). cr_point r = Returned) \<and> (\<exists>r \<in> set (pr_runs s). run_failed r))"

definition alive :: "process_state \<Rightarrow> bool" where
  "alive s \<longleftrightarrow> (case pr_point s of Exited \<Rightarrow> False | Died _ \<Rightarrow> False | Killed \<Rightarrow> False | _ \<Rightarrow> True)"

inductive process_step :: "main_env \<Rightarrow> started_main \<Rightarrow> process_state \<Rightarrow> process_state \<Rightarrow> bool" for env m where
  first_signal: "alive s \<Longrightarrow> process_step env m s (s\<lparr>pr_signal := True\<rparr>)"
| second_signal: "alive s \<Longrightarrow> pr_signal s \<Longrightarrow> process_step env m s (s\<lparr>pr_point := Killed\<rparr>)"
| config_started: "pr_point s = StartsConfig \<Longrightarrow> process_step env m s (s\<lparr>pr_point := MakesWebhook, pr_configSynced := True\<rparr>)"
| config_fails: "pr_point s = StartsConfig \<Longrightarrow> process_step env m s (s\<lparr>pr_point := Died ConfigWatchFailed\<rparr>)"
| make_webhook: "pr_point s = MakesWebhook \<Longrightarrow> sm_webhooks m \<noteq> [] \<Longrightarrow> webhook_New (me_options env) (me_tls env) (sm_webhooks m) = Inr patterns \<Longrightarrow>
    process_step env m s (s\<lparr>pr_point := StartsInformers, pr_webhook := Some False, pr_servers := pr_servers s @ [(WebhookServer, Serving)]\<rparr>)"
| webhook_fails: "pr_point s = MakesWebhook \<Longrightarrow> sm_webhooks m \<noteq> [] \<Longrightarrow> webhook_New (me_options env) (me_tls env) (sm_webhooks m) = Inl e \<Longrightarrow>
    process_step env m s (s\<lparr>pr_point := Died (WebhookFailed e)\<rparr>)"
| no_webhook: "pr_point s = MakesWebhook \<Longrightarrow> sm_webhooks m = [] \<Longrightarrow> process_step env m s (s\<lparr>pr_point := StartsInformers\<rparr>)"
| run_all: "pr_point s = StartsInformers \<Longrightarrow>
    process_step env m s (s\<lparr>pr_point := Syncing 0, pr_informers := map (\<lambda>_. Runs) (pr_informers s)\<rparr>)"
| informer_syncs: "alive s \<Longrightarrow> i < length (pr_informers s) \<Longrightarrow> pr_informers s ! i = Runs \<Longrightarrow>
    process_step env m s (s\<lparr>pr_informers := (pr_informers s)[i := Synced]\<rparr>)"
| cache_synced: "pr_point s = Syncing i \<Longrightarrow> i < length (pr_informers s) \<Longrightarrow> pr_informers s ! i = Synced \<Longrightarrow>
    process_step env m s (s\<lparr>pr_point := Syncing (Suc i)\<rparr>)"
| cache_fails: "pr_point s = Syncing i \<Longrightarrow> i < length (pr_informers s) \<Longrightarrow> pr_signal s \<Longrightarrow>
    process_step env m s (s\<lparr>pr_point := Died (CacheNotSynced i)\<rparr>)"
| all_synced: "pr_point s = Syncing i \<Longrightarrow> i = length (pr_informers s) \<Longrightarrow> process_step env m s (s\<lparr>pr_point := Releases\<rparr>)"
| release: "pr_point s = Releases \<Longrightarrow>
    process_step env m s (s\<lparr>pr_point := StartsControllers, pr_webhook := map_option (\<lambda>_. True) (pr_webhook s)\<rparr>)"
| start_all: "pr_point s = StartsControllers \<Longrightarrow>
    process_step env m s (s\<lparr>pr_point := AwaitsEnd, pr_started := True, pr_servers := pr_servers s @ [(Probes, Serving)]\<rparr>)"
| group_ends: "pr_point s = AwaitsEnd \<Longrightarrow> group_done s \<Longrightarrow> process_step env m s (s\<lparr>pr_point := WaitsGroup\<rparr>)"
| exits: "pr_point s = WaitsGroup \<Longrightarrow> \<forall>x \<in> set (pr_servers s). snd x \<noteq> Serving \<Longrightarrow> \<forall>r \<in> set (pr_runs s). cr_point r = Returned \<Longrightarrow>
    process_step env m s (s\<lparr>pr_point := Exited\<rparr>)"
| server_fails: "alive s \<Longrightarrow> i < length (pr_servers s) \<Longrightarrow> pr_servers s ! i = (x, Serving) \<Longrightarrow>
    process_step env m s (s\<lparr>pr_servers := (pr_servers s)[i := (x, Ended True)]\<rparr>)"
| server_ends: "alive s \<Longrightarrow> i < length (pr_servers s) \<Longrightarrow> pr_servers s ! i = (x, Serving) \<Longrightarrow>
    (if x = Pprof then pr_point s = WaitsGroup else pr_signal s) \<Longrightarrow>
    process_step env m s (s\<lparr>pr_servers := (pr_servers s)[i := (x, Ended False)]\<rparr>)"
| controller_works: "alive s \<Longrightarrow> i < length (pr_runs s) \<Longrightarrow> run_step (run_opts env (sm_controllers m ! i)) l (pr_runs s ! i) r \<Longrightarrow>
    cr_done r = cr_done (pr_runs s ! i) \<Longrightarrow> pr_started s \<or> l = Some Internal \<or> l = Some (Adds k) \<Longrightarrow>
    process_step env m s (s\<lparr>pr_runs := (pr_runs s)[i := r]\<rparr>)"
| controller_cancelled: "alive s \<Longrightarrow> i < length (pr_runs s) \<Longrightarrow> pr_started s \<Longrightarrow> pr_signal s \<or> (\<exists>r \<in> set (pr_runs s). run_failed r) \<Longrightarrow>
    process_step env m s (s\<lparr>pr_runs := (pr_runs s)[i := (pr_runs s ! i)\<lparr>cr_done := True\<rparr>]\<rparr>)"
| watches_stop: "alive s \<Longrightarrow> pr_signal s \<Longrightarrow> process_step env m s (s\<lparr>pr_watches := []\<rparr>)"


subsection \<open>Invariants of a process\<close>

definition caches_synced :: "process_state \<Rightarrow> bool" where
  "caches_synced s \<longleftrightarrow> (\<forall>x \<in> set (pr_informers s). x = Synced)"

definition all_returned :: "process_state \<Rightarrow> bool" where
  "all_returned s \<longleftrightarrow> (\<forall>r \<in> set (pr_runs s). cr_point r = Returned)"

fun point_sound :: "main_point \<Rightarrow> process_state \<Rightarrow> bool" where
  "point_sound StartsConfig s \<longleftrightarrow> \<not> pr_started s \<and> pr_webhook s = None"
| "point_sound MakesWebhook s \<longleftrightarrow> \<not> pr_started s \<and> pr_configSynced s \<and> pr_webhook s = None"
| "point_sound StartsInformers s \<longleftrightarrow> \<not> pr_started s \<and> pr_configSynced s \<and> pr_webhook s \<noteq> Some True"
| "point_sound (Syncing i) s \<longleftrightarrow> \<not> pr_started s \<and> pr_configSynced s \<and> pr_webhook s \<noteq> Some True \<and> i \<le> length (pr_informers s) \<and>
     (\<forall>j < i. pr_informers s ! j = Synced)"
| "point_sound Releases s \<longleftrightarrow> \<not> pr_started s \<and> pr_configSynced s \<and> pr_webhook s \<noteq> Some True \<and> caches_synced s"
| "point_sound StartsControllers s \<longleftrightarrow> \<not> pr_started s \<and> pr_configSynced s \<and> pr_webhook s \<noteq> Some False \<and> caches_synced s"
| "point_sound AwaitsEnd s \<longleftrightarrow> pr_started s"
| "point_sound WaitsGroup s \<longleftrightarrow> pr_started s"
| "point_sound Exited s \<longleftrightarrow> pr_started s \<and> all_returned s"
| "point_sound (Died e) s \<longleftrightarrow> \<not> pr_started s"
| "point_sound Killed s \<longleftrightarrow> pr_signal s"

definition main_ok :: "process_state \<Rightarrow> bool" where
  "main_ok s \<longleftrightarrow> point_sound (pr_point s) s \<and> (pr_started s \<longrightarrow> pr_configSynced s \<and> caches_synced s \<and> pr_webhook s \<noteq> Some False) \<and>
     (pr_webhook s = Some True \<longrightarrow> caches_synced s)"

definition runs_ok :: "main_env \<Rightarrow> started_main \<Rightarrow> process_state \<Rightarrow> bool" where
  "runs_ok env m s \<longleftrightarrow> length (pr_runs s) = length (sm_controllers m) \<and>
     (\<forall>i < length (pr_runs s). run_ok (run_opts env (sm_controllers m ! i)) (pr_runs s ! i)) \<and>
     (\<not> pr_started s \<longrightarrow> (\<forall>r \<in> set (pr_runs s). cr_point r = Building \<and> \<not> cr_done r)) \<and>
     ((\<exists>r \<in> set (pr_runs s). cr_done r) \<longrightarrow> pr_signal s \<or> (\<exists>r \<in> set (pr_runs s). run_failed r))"

lemma runs_ok_cong:
  "pr_runs s' = pr_runs s \<Longrightarrow> pr_started s \<longrightarrow> pr_started s' \<Longrightarrow> pr_signal s \<longrightarrow> pr_signal s' \<Longrightarrow> runs_ok env m s \<Longrightarrow> runs_ok env m s'"
  by (auto simp: runs_ok_def)

lemma main_ok_start: "main_ok (process_start m ws)"
  by (simp add: main_ok_def process_start_def)

lemma runs_ok_start: "runs_ok env m (process_start m ws)"
  by (auto simp: runs_ok_def process_start_def run_ok_new) (auto simp: new_run_def)

text \<open>A run that has returned stays returned, with its error; one that was not called only sees its queue change.\<close>

lemma returned_stays: "run_step opts l r r' \<Longrightarrow> cr_point r = Returned \<Longrightarrow> cr_point r' = Returned \<and> cr_err r' = cr_err r"
  by (induction rule: run_step.induct) auto

lemma run_failed_stays: "run_step opts l r r' \<Longrightarrow> run_failed r \<Longrightarrow> run_failed r'"
  using returned_stays by (fastforce simp: run_failed_def)

lemma uncalled_stays:
  "run_step opts l r r' \<Longrightarrow> l = Some Internal \<or> l = Some (Adds k) \<Longrightarrow> run_ok opts r \<Longrightarrow> cr_point r = Building \<Longrightarrow> cr_point r' = Building"
  by (induction rule: run_step.induct) auto

lemma runs_ok_update:
  assumes "runs_ok env m s" "i < length (pr_runs s)" "run_ok (run_opts env (sm_controllers m ! i)) r"
    and "run_failed (pr_runs s ! i) \<longrightarrow> run_failed r" "\<not> pr_started s \<longrightarrow> cr_point r = Building \<and> \<not> cr_done r"
    and "cr_done r \<longrightarrow> cr_done (pr_runs s ! i) \<or> pr_signal s \<or> (\<exists>x \<in> set (pr_runs s). run_failed x)"
  shows "runs_ok env m (s\<lparr>pr_runs := (pr_runs s)[i := r]\<rparr>)"
proof -
  let ?rs = "pr_runs s"
  have sub: "set (?rs[i := r]) \<subseteq> insert r (set ?rs)" by (rule set_update_subset_insert)
  have "\<exists>x \<in> set (?rs[i := r]). run_failed x" if x: "x \<in> set ?rs" "run_failed x" for x
  proof -
    obtain j where "j < length ?rs" "?rs ! j = x" using x(1) by (auto simp: in_set_conv_nth)
    then show ?thesis using x(2) assms(2,4) by (cases "j = i") (auto simp: set_conv_nth intro!: bexI [of _ "?rs[i := r] ! j"])
  qed
  moreover have "cr_done (?rs ! i) \<longrightarrow> pr_signal s \<or> (\<exists>x \<in> set ?rs. run_failed x)" using assms(1,2) by (auto simp: runs_ok_def)
  ultimately have "(\<exists>x \<in> set (?rs[i := r]). cr_done x) \<longrightarrow> pr_signal s \<or> (\<exists>x \<in> set (?rs[i := r]). run_failed x)"
    using sub assms(1,6) by (auto simp: runs_ok_def)
  moreover have "\<not> pr_started s \<longrightarrow> (\<forall>x \<in> set (?rs[i := r]). cr_point x = Building \<and> \<not> cr_done x)"
    using sub assms(1,5) by (auto simp: runs_ok_def)
  moreover have "\<forall>j < length ?rs. run_ok (run_opts env (sm_controllers m ! j)) (?rs[i := r] ! j)"
    using assms(1-3) by (simp add: runs_ok_def nth_list_update)
  ultimately show ?thesis using assms(1) by (simp add: runs_ok_def)
qed

lemma process_runs_ok: "process_step env m s s' \<Longrightarrow> runs_ok env m s \<Longrightarrow> runs_ok env m s'"
proof (induction rule: process_step.induct)
  case (controller_works s i l r k)
  have ok: "run_ok (run_opts env (sm_controllers m ! i)) (pr_runs s ! i)" using controller_works by (simp add: runs_ok_def)
  have fresh: "cr_point r = Building \<and> \<not> cr_done r" if "\<not> pr_started s"
  proof -
    have "pr_runs s ! i \<in> set (pr_runs s)" using controller_works(2) by simp
    then have "cr_point (pr_runs s ! i) = Building" "\<not> cr_done (pr_runs s ! i)" using that controller_works(6) by (auto simp: runs_ok_def)
    then show ?thesis using uncalled_stays [OF controller_works(3) _ ok] controller_works(4,5) that by auto
  qed
  show ?case
    by (rule runs_ok_update [OF controller_works(6,2)])
      (use fresh run_step_ok [OF controller_works(3) ok] run_failed_stays [OF controller_works(3)] controller_works(4) in auto)
next
  case (controller_cancelled s i)
  have ok: "run_ok (run_opts env (sm_controllers m ! i)) (pr_runs s ! i)" using controller_cancelled by (simp add: runs_ok_def)
  show ?case
    by (rule runs_ok_update [OF controller_cancelled(5,2)])
      (use run_step_ok [OF run_step.cancel ok] controller_cancelled in \<open>auto simp: run_failed_def\<close>)
qed (erule runs_ok_cong [rotated 3]; simp)+


text \<open>\<open>point_sound\<close> reads the informers only through what stays true when another one is synchronized.\<close>

lemma caches_synced_update: "caches_synced s \<Longrightarrow> caches_synced (s\<lparr>pr_informers := (pr_informers s)[i := Synced]\<rparr>)"
  using set_update_subset_insert [of "pr_informers s" i Synced] by (auto simp: caches_synced_def)

lemma point_sound_other_fields:
  assumes "alive s" "point_sound (pr_point s) s"
  shows "point_sound (pr_point s) (s\<lparr>pr_signal := b\<rparr>)" "point_sound (pr_point s) (s\<lparr>pr_servers := xs\<rparr>)"
    "point_sound (pr_point s) (s\<lparr>pr_runs := rs\<rparr>)" "point_sound (pr_point s) (s\<lparr>pr_watches := ws\<rparr>)"
    "i < length (pr_informers s) \<Longrightarrow> point_sound (pr_point s) (s\<lparr>pr_informers := (pr_informers s)[i := Synced]\<rparr>)"
  using assms caches_synced_update [of s i]
  by (cases "pr_point s"; simp add: alive_def caches_synced_def nth_list_update)+

lemma main_ok_other_fields:
  assumes "alive s" "main_ok s"
  shows "main_ok (s\<lparr>pr_signal := b\<rparr>)" "main_ok (s\<lparr>pr_servers := xs\<rparr>)" "main_ok (s\<lparr>pr_runs := rs\<rparr>)" "main_ok (s\<lparr>pr_watches := ws\<rparr>)"
    "i < length (pr_informers s) \<Longrightarrow> main_ok (s\<lparr>pr_informers := (pr_informers s)[i := Synced]\<rparr>)"
  using assms point_sound_other_fields [OF assms(1)] caches_synced_update [of s i]
  unfolding main_ok_def by (simp_all add: caches_synced_def)

lemma synced_prefix: "\<forall>j < length xs. xs ! j = Synced \<Longrightarrow> x \<in> set xs \<Longrightarrow> x = Synced"
  by (auto simp: in_set_conv_nth)

lemma process_main_ok: "process_step env m s s' \<Longrightarrow> main_ok s \<Longrightarrow> main_ok s'"
proof (induction rule: process_step.induct)
  case (all_synced s i)
  then show ?case using synced_prefix [of "pr_informers s"] by (auto simp: main_ok_def caches_synced_def)
next
  case (cache_synced s i)
  then show ?case by (auto simp: main_ok_def caches_synced_def less_Suc_eq)
next
  case (informer_syncs s i)
  then show ?case using main_ok_other_fields(5) [of s i] by blast
next
  case (first_signal s)
  then show ?case using main_ok_other_fields(1) [of s True] by blast
next
  case (second_signal s)
  then show ?case by (simp add: main_ok_def caches_synced_def)
next
  case (server_fails s i x)
  then show ?case using main_ok_other_fields(2) by blast
next
  case (server_ends s i x)
  then show ?case using main_ok_other_fields(2) by blast
next
  case (controller_works s i l r k)
  then show ?case using main_ok_other_fields(3) by blast
next
  case (controller_cancelled s i)
  then show ?case using main_ok_other_fields(3) by blast
next
  case (watches_stop s)
  then show ?case using main_ok_other_fields(4) by blast
qed (simp_all add: main_ok_def caches_synced_def all_returned_def)

lemma reachable_process_ok:
  "(process_step env m)\<^sup>*\<^sup>* (process_start m ws) s \<Longrightarrow> main_ok s \<and> runs_ok env m s"
  by (induction rule: rtranclp_induct) (auto intro: main_ok_start runs_ok_start process_main_ok process_runs_ok)

text \<open>The watches of the recorder run until a signal.\<close>

lemma watches_until_signal:
  assumes "(process_step env m)\<^sup>*\<^sup>* (process_start m ws) s"
  shows "pr_signal s \<or> pr_watches s = ws"
  using assms
proof (induction rule: rtranclp_induct)
  case (step s s')
  from step(2,3) show ?case by (induction rule: process_step.induct) auto
qed (simp add: process_start_def)

lemma uncalled_run:
  assumes "run_ok opts r" "cr_point r = Building"
  shows "cr_workers r = [] \<and> held (cr_queue r) = {}"
proof -
  have "cr_workers r = []" using assms by (auto simp: run_ok_def point_ok_def ended_def)
  with assms(1) show ?thesis by (simp add: run_ok_def queue_ok_def keys_held_def)
qed

lemma returned_run:
  assumes "run_ok opts r" "cr_point r = Returned"
  shows "(\<forall>w \<in> set (cr_workers r). w = Gone) \<and> held (cr_queue r) = {} \<and> (cr_done r \<or> cr_err r \<noteq> None)"
proof -
  have "all_gone r" "cr_done r \<or> cr_err r \<noteq> None" "queue_ok r" using assms by (auto simp: run_ok_def point_ok_def ended_def)
  with keys_held_gone [of "cr_workers r"] show ?thesis by (simp add: queue_ok_def all_gone_def)
qed

lemma ended_why:
  assumes "runs_ok env m s" "all_returned s" "pr_runs s \<noteq> []"
  shows "pr_signal s \<or> (\<exists>x \<in> set (pr_runs s). cr_err x \<noteq> None)"
proof -
  have "0 < length (pr_runs s)" using assms(3) by simp
  then have mem: "pr_runs s ! 0 \<in> set (pr_runs s)" by simp
  have "run_ok (run_opts env (sm_controllers m ! 0)) (pr_runs s ! 0)" using assms(1) \<open>0 < length _\<close> by (simp add: runs_ok_def)
  from returned_run [OF this] mem have "cr_done (pr_runs s ! 0) \<or> cr_err (pr_runs s ! 0) \<noteq> None" using assms(2) by (auto simp: all_returned_def)
  with mem assms(1) show ?thesis unfolding runs_ok_def run_failed_def by blast
qed

subsection \<open>Properties\<close>



subsection \<open>The process stops\<close>

text \<open>Steps of one controller are steps of the process; a cancelled context stays cancelled.\<close>

lemma lift_run:
  assumes "traces (run_step (run_opts env (sm_controllers m ! i))) r ls r'" "pr_runs s ! i = r"
    and "alive s" "pr_started s" "i < length (pr_runs s)" "cr_done r"
  shows "(process_step env m)\<^sup>*\<^sup>* s (s\<lparr>pr_runs := (pr_runs s)[i := r']\<rparr>) \<and> cr_done r'"
  using assms
proof (induction rule: traces.induct)
  case (empty r)
  then have "(pr_runs s)[i := r] = pr_runs s" using list_update_id by metis
  with empty show ?case by simp
next
  case (snoc r ls r1 l r2)
  then have path: "(process_step env m)\<^sup>*\<^sup>* s (s\<lparr>pr_runs := (pr_runs s)[i := r1]\<rparr>)" and cancelled: "cr_done r1" by auto
  from snoc(2) cancelled have still: "cr_done r2" by (induction rule: run_step.induct) auto
  let ?s1 = "s\<lparr>pr_runs := (pr_runs s)[i := r1]\<rparr>"
  have "process_step env m ?s1 (?s1\<lparr>pr_runs := (pr_runs ?s1)[i := r2]\<rparr>)"
    by (rule process_step.controller_works [where l = l]) (use snoc still cancelled in \<open>simp_all add: alive_def\<close>)
  then have "process_step env m ?s1 (s\<lparr>pr_runs := (pr_runs s)[i := r2]\<rparr>)" by simp
  from rtranclp.rtrancl_into_rtrancl [OF path this] still show ?case by blast
qed

definition controllers_sound :: "main_env \<Rightarrow> started_main \<Rightarrow> bool" where
  "controllers_sound env m \<longleftrightarrow> (\<forall>c \<in> set (sm_controllers m). 0 < im_Concurrency c \<and>
     (im_leaderAware c \<longrightarrow> me_disableHA env \<or> (\<exists>kind. me_BuildElector env (im_Name c) = Inr kind)))"

lemma sound_elector:
  "controllers_sound env m \<Longrightarrow> i < length (sm_controllers m) \<Longrightarrow>
     0 < ro_threadiness (run_opts env (sm_controllers m ! i)) \<and>
     (\<not> ro_leaderAware (run_opts env (sm_controllers m ! i)) \<or> (\<exists>kind. ro_BuildElector (run_opts env (sm_controllers m ! i)) = Inr kind))"
  using nth_mem [of i "sm_controllers m"] unfolding controllers_sound_def run_opts_def by auto

definition no_run_err :: "process_state \<Rightarrow> bool" where
  "no_run_err s \<longleftrightarrow> (\<forall>r \<in> set (pr_runs s). cr_err r = None)"

lemma no_run_err_update: "no_run_err s \<Longrightarrow> cr_err r = None \<Longrightarrow> no_run_err (s\<lparr>pr_runs := (pr_runs s)[i := r]\<rparr>)"
  using set_update_subset_insert [of "pr_runs s" i r] by (auto simp: no_run_err_def)

lemma process_no_err:
  "process_step env m s s' \<Longrightarrow> controllers_sound env m \<Longrightarrow> runs_ok env m s \<Longrightarrow> no_run_err s \<Longrightarrow> no_run_err s'"
proof (induction rule: process_step.induct)
  case (controller_works s i l r k)
  then have i: "i < length (sm_controllers m)" by (simp add: runs_ok_def)
  have "cr_err (pr_runs s ! i) = None" using controller_works(2,8) by (simp add: no_run_err_def)
  with no_err [OF controller_works(3)] sound_elector [OF controller_works(6) i] have "cr_err r = None" by blast
  with controller_works show ?case using no_run_err_update by blast
next
  case (controller_cancelled s i)
  then have "cr_err ((pr_runs s ! i)\<lparr>cr_done := True\<rparr>) = None" by (simp add: no_run_err_def)
  with controller_cancelled show ?case using no_run_err_update by blast
qed (simp_all add: no_run_err_def)

lemma reachable_no_err:
  assumes "(process_step env m)\<^sup>*\<^sup>* (process_start m ws) s" "controllers_sound env m"
  shows "no_run_err s"
  using assms(1)
proof (induction rule: rtranclp_induct)
  case base
  then show ?case by (simp add: no_run_err_def process_start_def new_run_def)
next
  case (step s s')
  then show ?case using process_no_err assms(2) reachable_process_ok by blast
qed

text \<open>A controller of a signalled process can be brought to its return, the others staying where they are.\<close>

lemma one_returns:
  assumes "runs_ok env m s" "no_run_err s" "controllers_sound env m" "alive s" "pr_started s" "pr_signal s" "i < length (pr_runs s)"
  shows "\<exists>r. cr_point r = Returned \<and> (process_step env m)\<^sup>*\<^sup>* s (s\<lparr>pr_runs := (pr_runs s)[i := r]\<rparr>)"
proof -
  let ?o = "run_opts env (sm_controllers m ! i)" and ?r = "(pr_runs s ! i)\<lparr>cr_done := True\<rparr>"
  let ?s1 = "s\<lparr>pr_runs := (pr_runs s)[i := ?r]\<rparr>"
  have len: "i < length (sm_controllers m)" using assms(1,7) by (simp add: runs_ok_def)
  have "run_ok ?o (pr_runs s ! i)" using assms(1,7) by (simp add: runs_ok_def)
  from conjunct1 [OF run_step_ok [OF run_step.cancel this]] have ok: "run_ok ?o ?r" .
  have first: "process_step env m s ?s1" by (rule process_step.controller_cancelled) (use assms in auto)
  have err: "cr_err ?r = None" using assms(2,7) by (simp add: no_run_err_def)
  obtain ls r where r: "traces (run_step ?o) ?r ls r" "cr_point r = Returned"
    using run_returns [OF ok _ _ err] sound_elector [OF assms(3) len] by auto
  have "(process_step env m)\<^sup>*\<^sup>* ?s1 (?s1\<lparr>pr_runs := (pr_runs ?s1)[i := r]\<rparr>)"
    using lift_run [OF r(1), where s = ?s1] assms by (simp add: alive_def)
  then have "(process_step env m)\<^sup>*\<^sup>* ?s1 (s\<lparr>pr_runs := (pr_runs s)[i := r]\<rparr>)" by simp
  with first r(2) show ?thesis by (meson converse_rtranclp_into_rtranclp)
qed

lemma process_steps_keep:
  assumes "(process_step env m)\<^sup>*\<^sup>* s s'" "controllers_sound env m" "runs_ok env m s" "no_run_err s"
  shows "runs_ok env m s' \<and> no_run_err s'"
  using assms(1) by (induction rule: rtranclp_induct) (use assms process_runs_ok process_no_err in blast)+

lemma all_return:
  assumes "runs_ok env m s" "no_run_err s" "controllers_sound env m" "alive s" "pr_started s" "pr_signal s" "n \<le> length (pr_runs s)"
  shows "\<exists>rs. length rs = length (pr_runs s) \<and> (\<forall>i < n. cr_point (rs ! i) = Returned) \<and> (process_step env m)\<^sup>*\<^sup>* s (s\<lparr>pr_runs := rs\<rparr>)"
  using assms(7)
proof (induction n)
  case 0
  show ?case by (intro exI [of _ "pr_runs s"]) simp
next
  case (Suc n)
  then obtain rs where rs: "length rs = length (pr_runs s)" "\<forall>i < n. cr_point (rs ! i) = Returned"
    "(process_step env m)\<^sup>*\<^sup>* s (s\<lparr>pr_runs := rs\<rparr>)" by auto
  let ?s1 = "s\<lparr>pr_runs := rs\<rparr>"
  have "runs_ok env m ?s1" "no_run_err ?s1" using process_steps_keep [OF rs(3) assms(3,1,2)] by auto
  moreover have "alive ?s1" "pr_started ?s1" "pr_signal ?s1" "n < length (pr_runs ?s1)" using Suc.prems assms(4-6) rs(1) by (simp_all add: alive_def)
  ultimately obtain r where
    r: "cr_point r = Returned" "(process_step env m)\<^sup>*\<^sup>* ?s1 (?s1\<lparr>pr_runs := (pr_runs ?s1)[n := r]\<rparr>)" using one_returns assms(3) by blast
  have "(process_step env m)\<^sup>*\<^sup>* s (s\<lparr>pr_runs := rs[n := r]\<rparr>)" using rtranclp_trans [OF rs(3) r(2)] by simp
  then show ?case using rs r(1) Suc.prems by (intro exI [of _ "rs[n := r]"]) (auto simp: nth_list_update less_Suc_eq)
qed

text \<open>The servers end once the main goroutine waits for the group.\<close>

lemma servers_end:
  assumes "pr_point s = WaitsGroup" "pr_signal s" "n \<le> length (pr_servers s)"
  shows "\<exists>xs. length xs = length (pr_servers s) \<and> (\<forall>i < n. snd (xs ! i) \<noteq> Serving) \<and> (process_step env m)\<^sup>*\<^sup>* s (s\<lparr>pr_servers := xs\<rparr>)"
  using assms(3)
proof (induction n)
  case 0
  show ?case by (intro exI [of _ "pr_servers s"]) simp
next
  case (Suc n)
  then obtain xs where xs: "length xs = length (pr_servers s)" "\<forall>i < n. snd (xs ! i) \<noteq> Serving"
    "(process_step env m)\<^sup>*\<^sup>* s (s\<lparr>pr_servers := xs\<rparr>)" by auto
  let ?s1 = "s\<lparr>pr_servers := xs\<rparr>"
  show ?case
  proof (cases "snd (xs ! n) = Serving")
    case True
    then obtain x where x: "xs ! n = (x, Serving)" by (metis prod.collapse)
    have "process_step env m ?s1 (?s1\<lparr>pr_servers := (pr_servers ?s1)[n := (x, Ended False)]\<rparr>)"
      by (rule process_step.server_ends) (use x xs(1) Suc.prems assms in \<open>auto simp: alive_def\<close>)
    then have "(process_step env m)\<^sup>*\<^sup>* s (s\<lparr>pr_servers := xs[n := (x, Ended False)]\<rparr>)" using rtranclp.rtrancl_into_rtrancl [OF xs(3)] by simp
    then show ?thesis using xs Suc.prems by (intro exI [of _ "xs[n := (x, Ended False)]"]) (auto simp: nth_list_update less_Suc_eq)
  next
    case False
    with xs show ?thesis by (intro exI [of _ xs]) (auto simp: less_Suc_eq)
  qed
qed

lemma group_exits:
  assumes "pr_point s = WaitsGroup" "pr_signal s" "all_returned s"
  shows "\<exists>s'. (process_step env m)\<^sup>*\<^sup>* s s' \<and> pr_point s' = Exited"
proof -
  obtain xs where xs: "length xs = length (pr_servers s)" "\<forall>i < length (pr_servers s). snd (xs ! i) \<noteq> Serving"
    "(process_step env m)\<^sup>*\<^sup>* s (s\<lparr>pr_servers := xs\<rparr>)" using servers_end [OF assms(1,2) order_refl] by blast
  let ?s1 = "s\<lparr>pr_servers := xs\<rparr>"
  have "\<forall>x \<in> set xs. snd x \<noteq> Serving" using xs(1,2) by (metis in_set_conv_nth)
  then have "process_step env m ?s1 (?s1\<lparr>pr_point := Exited\<rparr>)"
    by (intro process_step.exits) (use assms in \<open>simp_all add: all_returned_def\<close>)
  from rtranclp.rtrancl_into_rtrancl [OF xs(3) this] show ?thesis by fastforce
qed


lemma process_exits:
  assumes "(process_step env m)\<^sup>*\<^sup>* (process_start m ws) s" "controllers_sound env m" "alive s" "pr_started s" "pr_signal s"
  shows "\<exists>s'. (process_step env m)\<^sup>*\<^sup>* s s' \<and> pr_point s' = Exited"
proof -
  from reachable_process_ok [OF assms(1)] have ok: "main_ok s" "runs_ok env m s" by auto
  obtain rs where rs: "length rs = length (pr_runs s)" "\<forall>i < length (pr_runs s). cr_point (rs ! i) = Returned"
    "(process_step env m)\<^sup>*\<^sup>* s (s\<lparr>pr_runs := rs\<rparr>)"
    using all_return [OF ok(2) reachable_no_err [OF assms(1,2)] assms(2-5) order_refl] by blast
  let ?s1 = "s\<lparr>pr_runs := rs\<rparr>"
  have ret: "all_returned ?s1" using rs(1,2) by (auto simp: all_returned_def in_set_conv_nth)
  have "pr_point s = AwaitsEnd \<or> pr_point s = WaitsGroup" using ok(1) assms(3,4) by (cases "pr_point s") (auto simp: main_ok_def alive_def)
  then have "\<exists>s2. (process_step env m)\<^sup>*\<^sup>* ?s1 s2 \<and> pr_point s2 = WaitsGroup \<and> pr_signal s2 \<and> all_returned s2"
  proof
    assume "pr_point s = AwaitsEnd"
    then have "process_step env m ?s1 (?s1\<lparr>pr_point := WaitsGroup\<rparr>)"
      by (intro process_step.group_ends) (use assms(5) in \<open>simp_all add: group_done_def\<close>)
    then show ?thesis using ret assms(5) by (intro exI [of _ "?s1\<lparr>pr_point := WaitsGroup\<rparr>"]) (auto simp: all_returned_def)
  qed (use ret assms(5) in auto)
  then obtain s2 where s2: "(process_step env m)\<^sup>*\<^sup>* ?s1 s2" "pr_point s2 = WaitsGroup" "pr_signal s2" "all_returned s2" by blast
  from group_exits [OF s2(2-4)] obtain s' where "(process_step env m)\<^sup>*\<^sup>* s2 s'" "pr_point s' = Exited" by blast
  with rtranclp_trans [OF rs(3) rtranclp_trans [OF s2(1)]] show ?thesis by blast
qed

text \<open>
  C14: A signalled process can always come to its end. When every controller has at least one worker and its
  elector can be built, then from every state in which the controllers are running and the first signal has
  arrived, a finite number of steps of the process leads to its exit, whatever its workers, queues and
  servers are doing.
\<close>
theorem process_stops:
  assumes "(process_step env m)\<^sup>*\<^sup>* (process_start m ws) s" "alive s" "pr_started s" "pr_signal s"
    and "\<forall>c \<in> set (sm_controllers m). 0 < im_Concurrency c \<and>
      (im_leaderAware c \<longrightarrow> me_disableHA env \<or> (\<exists>kind. me_BuildElector env (im_Name c) = Inr kind))"
  shows "\<exists>s'. (process_step env m)\<^sup>*\<^sup>* s s' \<and> pr_point s' = Exited"
  using process_exits [OF assms(1) _ assms(2-4)] assms(5) by (simp add: controllers_sound_def)

subsection \<open>What the programs start with\<close>

lemma limits:
  "default_limits (scale_limits n cfg) = cfg\<lparr>cf_QPS := (if cf_QPS cfg = 0 then 5 * of_nat (max 1 n) else cf_QPS cfg),
     cf_Burst := (if cf_Burst cfg = 0 then 10 * int (max 1 n) else cf_Burst cfg)\<rparr>"
  by (cases n) (auto simp: default_limits_def scale_limits_def Let_def DefaultQPS_def DefaultBurst_def algebra_simps)

lemma source_ctor_injected:
  assumes "NewForConfig tr sch cfg = Inr cs"
  shows "\<exists>ctx' fs. SetupInformers (plain_registry tr sch) cfg ctx ([] :: (('h, 'd) clientset, 'tf) factories) = Inr ((ctx', [(0, 0)]), fs) \<and>
    (\<forall>lookupEnv threads. source_ctor is_conflict clients lookupEnv threads ctx' =
       (if lookupEnv ''YIPYAP_SOURCE_RA_IMAGE'' = None then Inl (CannotConstruct MissingImage)
        else Inr \<lparr>im_Name = source_queueName, im_Concurrency = threads, im_role = NoWebhook, im_leaderAware = True\<rparr>))"
  using plain_setup(1) [OF assms, where ctx = ctx and fs = "[] :: (('h, 'd) clientset, 'tf) factories"]
  by (intro exI conjI)
    (assumption | auto simp: source_ctor_def informer_Get_def NewController_def envconfig_Process_def NewImpl_def NewContext_def)+

definition webhook_impls :: "int \<Rightarrow> impl list" where
  "webhook_impls threads =
     [NewContext threads ''DefaultingWebhook'' 0 (AdmissionController ''/defaulting'' True) True,
      NewContext threads ''ValidationWebhook'' 0 (AdmissionController ''/resource-validation'' True) True,
      NewContext threads ''ConfigMapWebhook'' 0 (AdmissionController ''/config-validation'' True) True]"

lemma webhook_ctors_run:
  "length (webhook_ctors logs o11y threads) = 4"
  "ControllersAndWebhooksFromCtors leEnabled (webhook_ctors logs o11y threads) ctx =
     Inr (NewContext threads ''WebhookCertificates'' 0 NoWebhook True # webhook_impls threads, webhook_impls threads)"
  by (simp_all add: webhook_ctors_def webhook_impls_def NewContext_def NewDefaultingAdmissionController_def
      NewValidationAdmissionController_def NewConfigValidationController_def)

lemma webhook_paths:
  "webhook_New (Some opts) (Inr (VersionTLS13, 0)) (webhook_impls threads) =
     Inr [''/'', ''/defaulting'', ''/resource-validation'', ''/config-validation'']"
  by (simp add: webhook_New_def VersionTLS13_def VersionTLS12_def webhook_impls_def NewContext_def)



subsection \<open>Runs that show the hypotheses\<close>

definition demo_env :: main_env where
  "demo_env =
     \<lparr>me_LookupEnv = (\<lambda>n. if n = ''YIPYAP_SOURCE_RA_IMAGE'' then Some ''img'' else None), me_disableHA = True, me_restConfig = Inr (demo_config 0 0),
      me_setup = None, me_tls = Inr (VersionTLS13, 0), me_options = None, me_BuildElector = (\<lambda>_. Inr Standard)\<rparr>"

lemma demo_client: "0 < qps \<Longrightarrow> 0 < burst \<Longrightarrow> \<exists>cs. NewForConfig demo_transport NewScheme (demo_config qps burst) = Inr cs"
proof -
  assume "0 < qps" "0 < burst"
  then have "\<not> no_burst (demo_config qps burst)" by (simp add: no_burst_def demo_config_def)
  moreover have "tr_HTTPClientFor demo_transport c = Inr ()" "tr_discovery demo_transport c () = Inr ()" for c by (simp_all add: demo_transport_def)
  ultimately show ?thesis by (simp add: NewForConfig_eq clientset_eq demo_base)
qed


definition demo_main :: started_main where
  "demo_main =
     \<lparr>sm_config = demo_config 5 10, sm_informers = [(0, 0)], sm_controllers = [NewContext 2 source_queueName 0 NoWebhook True], sm_webhooks = []\<rparr>"

text \<open>The start of the controller process up to a signal, with its one informer and its one controller.\<close>

definition demo_signalled :: process_state where
  "demo_signalled = (process_start demo_main [])\<lparr>pr_point := AwaitsEnd, pr_signal := True, pr_configSynced := True, pr_informers := [Synced],
     pr_servers := [(Pprof, Serving), (Probes, Serving)], pr_started := True\<rparr>"

lemma demo_reaches: "(process_step demo_env demo_main)\<^sup>*\<^sup>* (process_start demo_main []) demo_signalled"
proof -
  let ?s0 = "process_start demo_main []"
  let ?s1 = "?s0\<lparr>pr_point := MakesWebhook, pr_configSynced := True\<rparr>"
  let ?s2 = "?s1\<lparr>pr_point := StartsInformers\<rparr>"
  let ?s3 = "?s2\<lparr>pr_point := Syncing 0, pr_informers := [Runs]\<rparr>"
  let ?s4 = "?s3\<lparr>pr_informers := [Synced]\<rparr>"
  let ?s5 = "?s4\<lparr>pr_point := Syncing 1\<rparr>"
  let ?s6 = "?s5\<lparr>pr_point := Releases\<rparr>"
  let ?s7 = "?s6\<lparr>pr_point := StartsControllers\<rparr>"
  let ?s8 = "?s7\<lparr>pr_point := AwaitsEnd, pr_started := True, pr_servers := [(Pprof, Serving), (Probes, Serving)]\<rparr>"
  note start = process_start_def demo_main_def
  have "process_step demo_env demo_main ?s0 ?s1" by (rule process_step.config_started) (simp add: start)
  moreover have "process_step demo_env demo_main ?s1 ?s2"
    using process_step.no_webhook [where s = ?s1 and env = demo_env and m = demo_main] by (simp add: start)
  moreover have "process_step demo_env demo_main ?s2 ?s3"
    using process_step.run_all [where s = ?s2 and env = demo_env and m = demo_main] by (simp add: start)
  moreover have "process_step demo_env demo_main ?s3 ?s4"
    using process_step.informer_syncs [where s = ?s3 and i = 0 and env = demo_env and m = demo_main] by (simp add: start alive_def)
  moreover have "process_step demo_env demo_main ?s4 ?s5"
    using process_step.cache_synced [where s = ?s4 and i = 0 and env = demo_env and m = demo_main] by (simp add: start)
  moreover have "process_step demo_env demo_main ?s5 ?s6"
    using process_step.all_synced [where s = ?s5 and i = 1 and env = demo_env and m = demo_main] by (simp add: start)
  moreover have "process_step demo_env demo_main ?s6 ?s7"
    using process_step.release [where s = ?s6 and env = demo_env and m = demo_main] by (simp add: start)
  moreover have "process_step demo_env demo_main ?s7 ?s8"
    using process_step.start_all [where s = ?s7 and env = demo_env and m = demo_main] by (simp add: start)
  moreover have "process_step demo_env demo_main ?s8 demo_signalled"
    using process_step.first_signal [where s = ?s8 and env = demo_env and m = demo_main] by (simp add: start alive_def demo_signalled_def)
  ultimately show ?thesis by (meson converse_rtranclp_into_rtranclp rtranclp.rtrancl_refl)
qed

lemma demo_signalled_fields: "alive demo_signalled" "pr_started demo_signalled" "pr_signal demo_signalled"
  by (simp_all add: demo_signalled_def alive_def)


theorem process_stops_witness:
  "\<exists>s'. (process_step demo_env demo_main)\<^sup>*\<^sup>* demo_signalled s' \<and> pr_point s' = Exited"
  by (rule process_stops [OF demo_reaches demo_signalled_fields]) (simp add: demo_main_def NewContext_def demo_env_def)

end
