(* ===== verification/Fake_Client.thy ===== *)
theory Fake_Client
  imports Injection "HOL-Library.AList" "HOL-Library.Product_Lexorder"
begin

text \<open>
  The fakes of the generated client code: \<open>clientset/versioned/fake\<close>, the fake typed client and the fake injectors,
  over the object tracker and the reactor chain of \<open>k8s.io/client-go/testing\<close> and the fake client of
  \<open>k8s.io/client-go/gentype\<close>. Shown: a fake clientset behaves as a map from namespace and name to
  sources, with the errors of an API server and the events for its watchers; it holds what it was seeded
  with; and the fake injectors differ from the real ones in the client only.
\<close>

subsection \<open>The object tracker\<close>

definition WithResource :: "group_version \<Rightarrow> string \<Rightarrow> group_version_resource" where
  "WithResource gv resource = \<lparr>gvr_group = gv_group gv, gvr_version = gv_version gv, gvr_resource = resource\<rparr>"

text \<open>The objects a test hands over: sources, lists of sources, and others, of which only the type matters.\<close>

datatype runtime_object = SourceObject yipyap_source | SourceList "yipyap_source list" | OtherObject reflect_type

fun object_type :: "runtime_object \<Rightarrow> reflect_type" where
  "object_type (SourceObject y) = v1alpha1_type ''YipYapSource''"
| "object_type (SourceList ys) = v1alpha1_type ''YipYapSourceList''"
| "object_type (OtherObject t) = t"

text \<open>What a call can end with; \<open>ChannelFull\<close> is the panic of a watcher whose channel has no room.\<close>

datatype tracker_error =
    BadRequest string string
  | AlreadyExists string
  | NotFoundError string
  | NoKind string
  | NotAList string
  | NotAnObject
  | PatchError string
  | ChannelFull

datatype watch_event = EvAdded yipyap_source | EvModified yipyap_source | EvDeleted yipyap_source

record watcher =
  wt_resource :: group_version_resource
  wt_namespace :: string
  wt_Stopped :: bool
  wt_result :: "watch_event list"

type_synonym object_key = "string \<times> string"

record tracker =
  tk_scheme :: scheme
  tk_objects :: "group_version_resource \<Rightarrow> (object_key \<times> yipyap_source) list option"
  tk_watchers :: "watcher list"

definition NewObjectTracker :: "scheme \<Rightarrow> tracker" where
  "NewObjectTracker s = \<lparr>tk_scheme = s, tk_objects = (\<lambda>_. None), tk_watchers = []\<rparr>"

definition DefaultChanSize :: nat where "DefaultChanSize = 100"

text \<open>A change goes to the watchers of its namespace and of all namespaces; \<open>getWatches\<close> and the sends of the fake watcher.\<close>

definition concerns :: "group_version_resource \<Rightarrow> string \<Rightarrow> watcher \<Rightarrow> bool" where
  "concerns gvr ns w \<longleftrightarrow> wt_resource w = gvr \<and> (wt_namespace w = ns \<or> wt_namespace w = '''') \<and> \<not> wt_Stopped w"

definition notify :: "group_version_resource \<Rightarrow> string \<Rightarrow> watch_event \<Rightarrow> tracker \<Rightarrow> tracker_error option \<times> tracker" where
  "notify gvr ns e t =
     (if \<exists>w \<in> set (tk_watchers t). concerns gvr ns w \<and> length (wt_result w) \<ge> DefaultChanSize then (Some ChannelFull, t)
      else (None, t\<lparr>tk_watchers := map (\<lambda>w. if concerns gvr ns w then w\<lparr>wt_result := wt_result w @ [e]\<rparr> else w) (tk_watchers t)\<rparr>))"

definition source_key :: "yipyap_source \<Rightarrow> object_key" where
  "source_key y = (om_namespace (y_meta y), om_name (y_meta y))"

definition place :: "string \<Rightarrow> yipyap_source \<Rightarrow> yipyap_source" where
  "place ns y = (if om_namespace (y_meta y) = '''' then y\<lparr>y_meta := (y_meta y)\<lparr>om_namespace := ns\<rparr>\<rparr> else y)"

definition set_objects :: "group_version_resource \<Rightarrow> (object_key \<times> yipyap_source) list \<Rightarrow> tracker \<Rightarrow> tracker" where
  "set_objects gvr objs t = t\<lparr>tk_objects := (tk_objects t)(gvr := Some objs)\<rparr>"

definition tracker_add :: "group_version_resource \<Rightarrow> yipyap_source \<Rightarrow> string \<Rightarrow> bool \<Rightarrow> tracker \<Rightarrow> tracker_error option \<times> tracker" where
  "tracker_add gvr obj ns replaceExisting t =
     (let obj = place ns obj in
      if ns \<noteq> om_namespace (y_meta obj) then (Some (BadRequest ns (om_namespace (y_meta obj))), t)
      else
        let objs = (case tk_objects t gvr of None \<Rightarrow> [] | Some objs \<Rightarrow> objs);
            t = set_objects gvr objs t
        in case map_of objs (source_key obj) of
             Some _ \<Rightarrow>
               if replaceExisting
               then (case notify gvr ns (EvModified obj) t of
                       (Some e, t) \<Rightarrow> (Some e, t)
                     | (None, t) \<Rightarrow> (None, set_objects gvr (AList.update (source_key obj) obj objs) t))
               else (Some (AlreadyExists (om_name (y_meta obj))), t)
           | None \<Rightarrow>
               if replaceExisting then (Some (NotFoundError (om_name (y_meta obj))), t)
               else notify gvr ns (EvAdded obj) (set_objects gvr (objs @ [(source_key obj, obj)]) t))"

definition tracker_Get :: "group_version_resource \<Rightarrow> string \<Rightarrow> string \<Rightarrow> tracker \<Rightarrow> tracker_error + yipyap_source" where
  "tracker_Get gvr ns name t =
     (case tk_objects t gvr of
        None \<Rightarrow> Inl (NotFoundError name)
      | Some objs \<Rightarrow> (case map_of objs (ns, name) of None \<Rightarrow> Inl (NotFoundError name) | Some obj \<Rightarrow> Inr obj))"

definition tracker_Delete :: "group_version_resource \<Rightarrow> string \<Rightarrow> string \<Rightarrow> tracker \<Rightarrow> tracker_error option \<times> tracker" where
  "tracker_Delete gvr ns name t =
     (case tk_objects t gvr of
        None \<Rightarrow> (Some (NotFoundError name), t)
      | Some objs \<Rightarrow>
          (case map_of objs (ns, name) of
             None \<Rightarrow> (Some (NotFoundError name), t)
           | Some obj \<Rightarrow> notify gvr ns (EvDeleted obj) (set_objects gvr (AList.delete (ns, name) objs) t)))"

definition filterByNamespace :: "(object_key \<times> yipyap_source) list \<Rightarrow> string \<Rightarrow> yipyap_source list" where
  "filterByNamespace objs ns =
     sort_key source_key (filter (\<lambda>obj. \<not> (ns \<noteq> '''' \<and> om_namespace (y_meta obj) \<noteq> ns)) (map snd objs))"

definition IsListType :: "reflect_type \<Rightarrow> bool" where
  "IsListType t \<longleftrightarrow> PointerTo t = v1alpha1_type ''YipYapSourceList''"

definition tracker_List ::
  "group_version_resource \<Rightarrow> group_version_kind \<Rightarrow> string \<Rightarrow> tracker \<Rightarrow> tracker_error + yipyap_source list" where
  "tracker_List gvr gvk ns t =
     (let listGVK = gvk\<lparr>gvk_kind := gvk_kind gvk @ ''List''\<rparr>;
          listGVK = (if gvk_version listGVK = '''' then listGVK\<lparr>gvk_version := APIVersionInternal\<rparr> else listGVK)
      in case scheme_New (tk_scheme t) listGVK of
           Inl e \<Rightarrow> Inl (NoKind e)
         | Inr list \<Rightarrow>
             if \<not> IsListType list then Inl (NotAList (gvk_kind listGVK))
             else (case tk_objects t gvr of None \<Rightarrow> Inr [] | Some objs \<Rightarrow> Inr (filterByNamespace objs ns)))"

definition tracker_Watch :: "group_version_resource \<Rightarrow> string \<Rightarrow> tracker \<Rightarrow> nat \<times> tracker" where
  "tracker_Watch gvr ns t =
     (length (tk_watchers t),
      t\<lparr>tk_watchers := tk_watchers t @ [\<lparr>wt_resource = gvr, wt_namespace = ns, wt_Stopped = False, wt_result = []\<rparr>]\<rparr>)"

text \<open>\<open>meta.UnsafeGuessKindToResource\<close>, the plural.\<close>

definition UnsafeGuessKindToResource :: "group_version_kind \<Rightarrow> group_version_resource" where
  "UnsafeGuessKindToResource kind =
     (if gvk_kind kind = '''' then \<lparr>gvr_group = '''', gvr_version = '''', gvr_resource = ''''\<rparr>
      else
        let singular = ToLower (gvk_kind kind) in
        if has_suffix singular ''endpoints'' then WithResource (GroupVersion kind) singular
        else if last singular = CHR ''s'' then WithResource (GroupVersion kind) (singular @ ''es'')
        else if last singular = CHR ''y'' then WithResource (GroupVersion kind) (butlast singular @ ''ies'')
        else WithResource (GroupVersion kind) (singular @ ''s''))"

fun add_kinds :: "group_version_kind list \<Rightarrow> yipyap_source \<Rightarrow> tracker \<Rightarrow> tracker_error option \<times> tracker" where
  "add_kinds [] obj t = (None, t)"
| "add_kinds (gvk # gvks) obj t =
     (let gvr = UnsafeGuessKindToResource gvk;
          gvr = (if gvr_version gvr = APIVersionInternal then gvr\<lparr>gvr_version := ''''\<rparr> else gvr)
      in case tracker_add gvr obj (om_namespace (y_meta obj)) False t of
           (Some e, t) \<Rightarrow> (Some e, t)
         | (None, t) \<Rightarrow> add_kinds gvks obj t)"

definition add_source :: "yipyap_source \<Rightarrow> tracker \<Rightarrow> tracker_error option \<times> tracker" where
  "add_source obj t =
     (case ObjectKinds (tk_scheme t) (object_type (SourceObject obj)) of
        Inl e \<Rightarrow> (Some (NoKind e), t)
      | Inr (gvks, _) \<Rightarrow> if gvks = [] then (Some (NoKind ''no registered kinds''), t) else add_kinds gvks obj t)"

fun add_sources :: "yipyap_source list \<Rightarrow> tracker \<Rightarrow> tracker_error option \<times> tracker" where
  "add_sources [] t = (None, t)"
| "add_sources (obj # objs) t = (case add_source obj t of (Some e, t) \<Rightarrow> (Some e, t) | (None, t) \<Rightarrow> add_sources objs t)"

text \<open>
  \<open>Add\<close>: the items of a list one by one. The other types a scheme of this group knows are those of
  \<open>metav1\<close>, which are no objects with metadata.
\<close>

definition tracker_Add :: "runtime_object \<Rightarrow> tracker \<Rightarrow> tracker_error option \<times> tracker" where
  "tracker_Add obj t =
     (case obj of
        SourceList objs \<Rightarrow> add_sources objs t
      | SourceObject y \<Rightarrow> add_source y t
      | OtherObject ty \<Rightarrow> (Some (case ObjectKinds (tk_scheme t) ty of Inl e \<Rightarrow> NoKind e | Inr _ \<Rightarrow> NotAnObject), t))"

subsection \<open>Actions and reactors\<close>

datatype patch_type = JSONPatchType | MergePatchType | StrategicMergePatchType | ApplyPatchType | OtherPatchType string

datatype action =
    GetAction string string
  | ListAction group_version_kind string
  | CreateAction string yipyap_source
  | UpdateAction string yipyap_source string
  | DeleteAction string string
  | DeleteCollectionAction string
  | PatchAction string string patch_type string "string list"
  | WatchAction string

fun GetVerb :: "action \<Rightarrow> string" where
  "GetVerb (GetAction _ _) = ''get''"
| "GetVerb (ListAction _ _) = ''list''"
| "GetVerb (CreateAction _ _) = ''create''"
| "GetVerb (UpdateAction _ _ _) = ''update''"
| "GetVerb (DeleteAction _ _) = ''delete''"
| "GetVerb (DeleteCollectionAction _) = ''delete-collection''"
| "GetVerb (PatchAction _ _ _ _ _) = ''patch''"
| "GetVerb (WatchAction _) = ''watch''"

fun GetSubresource :: "action \<Rightarrow> string" where
  "GetSubresource (UpdateAction _ _ sub) = sub"
| "GetSubresource (PatchAction _ _ _ _ subs) = join_with ''/'' subs"
| "GetSubresource (GetAction _ _) = ''''"
| "GetSubresource (ListAction _ _) = ''''"
| "GetSubresource (CreateAction _ _) = ''''"
| "GetSubresource (DeleteAction _ _) = ''''"
| "GetSubresource (DeleteCollectionAction _) = ''''"
| "GetSubresource (WatchAction _) = ''''"

text \<open>What a reaction returns: not handled, or an object or a list, if any, and an error, if any.\<close>

datatype returned = NoObject | RetSource yipyap_source | RetList "yipyap_source list"
datatype reaction = NotHandled | Handled returned "tracker_error option"

record reactor =
  re_Verb :: string
  re_Resource :: string
  re_Reaction :: "group_version_resource \<times> action \<Rightarrow> tracker \<Rightarrow> reaction \<times> tracker"

definition resourceCovers :: "string \<Rightarrow> group_version_resource \<times> action \<Rightarrow> bool" where
  "resourceCovers resource a \<longleftrightarrow>
     resource = ''*'' \<or> resource = gvr_resource (fst a) \<or>
     (CHR ''/'' \<in> set resource \<and> takeWhile (\<lambda>c. c \<noteq> CHR ''/'') resource = gvr_resource (fst a) \<and>
      tl (dropWhile (\<lambda>c. c \<noteq> CHR ''/'') resource) = GetSubresource (snd a))"

definition Handles :: "reactor \<Rightarrow> group_version_resource \<times> action \<Rightarrow> bool" where
  "Handles r a \<longleftrightarrow> (re_Verb r = ''*'' \<or> re_Verb r = GetVerb (snd a)) \<and> resourceCovers (re_Resource r) a"

text \<open>
  \<open>ObjectReaction\<close>, over the patch libraries: the error of decoding an apply patch, and the patched object from
  the type and the bytes of a patch. A create of this resource has no subresource.
\<close>

record patch_library =
  pl_Unmarshal :: "string \<Rightarrow> string option"
  pl_merge :: "patch_type \<Rightarrow> string \<Rightarrow> yipyap_source \<Rightarrow> string + yipyap_source"

definition read_back :: "tracker_error + yipyap_source \<Rightarrow> reaction" where
  "read_back r = (case r of Inl e \<Rightarrow> Handled NoObject (Some e) | Inr y \<Rightarrow> Handled (RetSource y) None)"

definition stored :: "tracker_error option \<times> tracker \<Rightarrow> (tracker \<Rightarrow> reaction) \<Rightarrow> reaction \<times> tracker" where
  "stored r ret = (case r of (Some e, t) \<Rightarrow> (Handled NoObject (Some e), t) | (None, t) \<Rightarrow> (ret t, t))"

definition ObjectReaction :: "patch_library \<Rightarrow> group_version_resource \<times> action \<Rightarrow> tracker \<Rightarrow> reaction \<times> tracker" where
  "ObjectReaction pl a t =
     (let gvr = fst a in
      case snd a of
        ListAction kind ns \<Rightarrow>
          ((case tracker_List gvr kind ns t of Inl e \<Rightarrow> Handled NoObject (Some e) | Inr ys \<Rightarrow> Handled (RetList ys) None), t)
      | GetAction ns name \<Rightarrow> (read_back (tracker_Get gvr ns name t), t)
      | CreateAction ns obj \<Rightarrow>
          stored (tracker_add gvr obj ns False t) (\<lambda>t. read_back (tracker_Get gvr ns (om_name (y_meta obj)) t))
      | UpdateAction ns obj sub \<Rightarrow>
          stored (tracker_add gvr obj ns True t) (\<lambda>t. read_back (tracker_Get gvr ns (om_name (y_meta obj)) t))
      | DeleteAction ns name \<Rightarrow> stored (tracker_Delete gvr ns name t) (\<lambda>t. Handled NoObject None)
      | PatchAction ns name pt data subs \<Rightarrow>
          if pt = ApplyPatchType \<and> pl_Unmarshal pl data \<noteq> None then (Handled NoObject (map_option PatchError (pl_Unmarshal pl data)), t)
          else (case tracker_Get gvr ns name t of
             Inl e \<Rightarrow> (Handled NoObject (Some e), t)
           | Inr old \<Rightarrow>
               (case (case pt of OtherPatchType p \<Rightarrow> Inl p | _ \<Rightarrow> pl_merge pl pt data old) of
                  Inl e \<Rightarrow> (Handled NoObject (Some (PatchError e)), t)
                | Inr obj \<Rightarrow>
                    if pt = ApplyPatchType
                    then stored (tracker_add gvr obj ns True t) (\<lambda>t. read_back (tracker_Get gvr ns name t))
                    else stored (tracker_add gvr obj ns True t) (\<lambda>t. Handled (RetSource obj) None)))
      | DeleteCollectionAction ns \<Rightarrow> (NotHandled, t)
      | WatchAction ns \<Rightarrow> (NotHandled, t))"

subsection \<open>The fake clientset\<close>

record fake_clientset =
  fk_tracker :: tracker
  fk_actions :: "(group_version_resource \<times> action) list"
  fk_ReactionChain :: "reactor list"

definition AddReactor :: "string \<Rightarrow> string \<Rightarrow> (group_version_resource \<times> action \<Rightarrow> tracker \<Rightarrow> reaction \<times> tracker) \<Rightarrow> fake_clientset \<Rightarrow> fake_clientset" where
  "AddReactor verb resource f c = c\<lparr>fk_ReactionChain := fk_ReactionChain c @ [\<lparr>re_Verb = verb, re_Resource = resource, re_Reaction = f\<rparr>]\<rparr>"

definition PrependReactor :: "string \<Rightarrow> string \<Rightarrow> (group_version_resource \<times> action \<Rightarrow> tracker \<Rightarrow> reaction \<times> tracker) \<Rightarrow> fake_clientset \<Rightarrow> fake_clientset" where
  "PrependReactor verb resource f c = c\<lparr>fk_ReactionChain := \<lparr>re_Verb = verb, re_Resource = resource, re_Reaction = f\<rparr> # fk_ReactionChain c\<rparr>"

fun react :: "reactor list \<Rightarrow> group_version_resource \<times> action \<Rightarrow> returned \<Rightarrow> tracker \<Rightarrow> (returned \<times> tracker_error option) \<times> tracker" where
  "react [] a def t = ((def, None), t)"
| "react (r # rs) a def t =
     (if \<not> Handles r a then react rs a def t
      else case re_Reaction r a t of
             (NotHandled, t) \<Rightarrow> react rs a def t
           | (Handled ret err, t) \<Rightarrow> ((ret, err), t))"

definition Invokes ::
  "group_version_resource \<times> action \<Rightarrow> returned \<Rightarrow> fake_clientset \<Rightarrow> (returned \<times> tracker_error option) \<times> fake_clientset" where
  "Invokes a def c =
     (let (r, t) = react (fk_ReactionChain c) a def (fk_tracker c)
      in (r, c\<lparr>fk_tracker := t, fk_actions := fk_actions c @ [a]\<rparr>))"

text \<open>The watch reactor that \<open>NewSimpleClientset\<close> adds handles every watch.\<close>

definition InvokesWatch :: "group_version_resource \<Rightarrow> string \<Rightarrow> fake_clientset \<Rightarrow> nat \<times> fake_clientset" where
  "InvokesWatch gvr ns c =
     (let (w, t) = tracker_Watch gvr ns (fk_tracker c) in (w, c\<lparr>fk_tracker := t, fk_actions := fk_actions c @ [(gvr, WatchAction ns)]\<rparr>))"

fun add_objects :: "runtime_object list \<Rightarrow> tracker \<Rightarrow> tracker_error + tracker" where
  "add_objects [] t = Inr t"
| "add_objects (obj # objs) t = (case tracker_Add obj t of (Some e, _) \<Rightarrow> Inl e | (None, t) \<Rightarrow> add_objects objs t)"

definition NewSimpleClientset :: "patch_library \<Rightarrow> scheme \<Rightarrow> runtime_object list \<Rightarrow> tracker_error + fake_clientset" where
  "NewSimpleClientset pl sch objects =
     (case add_objects objects (NewObjectTracker sch) of
        Inl e \<Rightarrow> Inl e
      | Inr t \<Rightarrow> Inr (AddReactor ''*'' ''*'' (ObjectReaction pl) \<lparr>fk_tracker = t, fk_actions = [], fk_ReactionChain = []\<rparr>))"

definition Tracker :: "fake_clientset \<Rightarrow> tracker" where "Tracker c = fk_tracker c"

definition IsWatchListSemanticsUnSupported :: "fake_clientset \<Rightarrow> bool" where "IsWatchListSemanticsUnSupported c = True"

subsection \<open>The fake typed client\<close>

text \<open>The client refers to the clientset it was made from, which the calls below take and return.\<close>

record fake_client =
  fc_ns :: string
  fc_resource :: group_version_resource
  fc_kind :: group_version_kind

definition newFakeYipYapSources :: "string \<Rightarrow> fake_client" where
  "newFakeYipYapSources namespace =
     \<lparr>fc_ns = namespace, fc_resource = WithResource SchemeGroupVersion ''yipyapsources'', fc_kind = WithKind SchemeGroupVersion ''YipYapSource''\<rparr>"

definition fake_SourcesV1alpha1 :: "fake_clientset \<Rightarrow> fake_clientset" where "fake_SourcesV1alpha1 c = c"

definition fake_YipYapSources :: "string \<Rightarrow> fake_client" where "fake_YipYapSources namespace = newFakeYipYapSources namespace"

text \<open>The nil client of the type.\<close>

definition fake_RESTClient :: "'h rest_client option" where "fake_RESTClient = None"

definition or_empty :: "yipyap_source \<Rightarrow> (returned \<times> tracker_error option) \<times> fake_clientset \<Rightarrow> (yipyap_source \<times> tracker_error option) \<times> fake_clientset" where
  "or_empty emptyResult r =
     (case r of ((ret, err), c) \<Rightarrow> ((case ret of RetSource y \<Rightarrow> (y, err) | _ \<Rightarrow> (emptyResult, err)), c))"

definition fc_Get :: "yipyap_source \<Rightarrow> fake_client \<Rightarrow> string \<Rightarrow> fake_clientset \<Rightarrow> (yipyap_source \<times> tracker_error option) \<times> fake_clientset" where
  "fc_Get zero f name c = or_empty zero (Invokes (fc_resource f, GetAction (fc_ns f) name) (RetSource zero) c)"

definition fc_Create :: "yipyap_source \<Rightarrow> fake_client \<Rightarrow> yipyap_source \<Rightarrow> fake_clientset \<Rightarrow> (yipyap_source \<times> tracker_error option) \<times> fake_clientset" where
  "fc_Create zero f y c = or_empty zero (Invokes (fc_resource f, CreateAction (fc_ns f) y) (RetSource zero) c)"

definition fc_Update :: "yipyap_source \<Rightarrow> fake_client \<Rightarrow> yipyap_source \<Rightarrow> fake_clientset \<Rightarrow> (yipyap_source \<times> tracker_error option) \<times> fake_clientset" where
  "fc_Update zero f y c = or_empty zero (Invokes (fc_resource f, UpdateAction (fc_ns f) y '''') (RetSource zero) c)"

definition fc_UpdateStatus :: "yipyap_source \<Rightarrow> fake_client \<Rightarrow> yipyap_source \<Rightarrow> fake_clientset \<Rightarrow> (yipyap_source \<times> tracker_error option) \<times> fake_clientset" where
  "fc_UpdateStatus zero f y c = or_empty zero (Invokes (fc_resource f, UpdateAction (fc_ns f) y ''status'') (RetSource zero) c)"

definition fc_Delete :: "yipyap_source \<Rightarrow> fake_client \<Rightarrow> string \<Rightarrow> fake_clientset \<Rightarrow> tracker_error option \<times> fake_clientset" where
  "fc_Delete zero f name c = (let ((_, err), c) = Invokes (fc_resource f, DeleteAction (fc_ns f) name) (RetSource zero) c in (err, c))"

definition fc_DeleteCollection :: "fake_client \<Rightarrow> fake_clientset \<Rightarrow> tracker_error option \<times> fake_clientset" where
  "fc_DeleteCollection f c = (let ((_, err), c) = Invokes (fc_resource f, DeleteCollectionAction (fc_ns f)) (RetList []) c in (err, c))"

definition fc_Patch ::
  "yipyap_source \<Rightarrow> fake_client \<Rightarrow> string \<Rightarrow> patch_type \<Rightarrow> string \<Rightarrow> string list \<Rightarrow> fake_clientset \<Rightarrow> (yipyap_source \<times> tracker_error option) \<times> fake_clientset" where
  "fc_Patch zero f name pt data subs c = or_empty zero (Invokes (fc_resource f, PatchAction (fc_ns f) name pt data subs) (RetSource zero) c)"

text \<open>A list is filtered by the label selector of the options here, after the tracker has answered.\<close>

definition fc_List ::
  "fake_client \<Rightarrow> ((string \<times> string) list \<Rightarrow> bool) \<Rightarrow> fake_clientset \<Rightarrow> (yipyap_source list \<times> tracker_error option) \<times> fake_clientset" where
  "fc_List f label c =
     (let ((ret, err), c) = Invokes (fc_resource f, ListAction (fc_kind f) (fc_ns f)) (RetList []) c
      in ((case ret of RetList ys \<Rightarrow> (filter (\<lambda>y. label (om_labels (y_meta y))) ys, err) | _ \<Rightarrow> ([], err)), c))"

definition fc_Watch :: "fake_client \<Rightarrow> fake_clientset \<Rightarrow> nat \<times> fake_clientset" where
  "fc_Watch f c = InvokesWatch (fc_resource f) (fc_ns f) c"


subsection \<open>Test fixtures\<close>

text \<open>
  The builders of \<open>pkg/reconciler/yipyapsource/testing\<close>: options change a source in place, those that mark a
  condition read the clock. The type of the object is not among its fields here; the builder returns it beside.
\<close>

definition zero_source :: yipyap_source where
  "zero_source =
     \<lparr>y_meta = \<lparr>om_name = '''', om_namespace = '''', om_uid = '''', om_resourceVersion = '''', om_generation = 0,
        om_deletionTimestamp = None, om_labels = [], om_annotations = [], om_ownerReferences = [], om_finalizers = []\<rparr>,
      y_spec = \<lparr>sp_sink = \<lparr>d_ref = None, d_uri = None, d_CACerts = None, d_audience = None\<rparr>, sp_ceOverrides = None,
        sp_apiKeyRef = \<lparr>ak_name = '''', ak_key = ''''\<rparr>, sp_baseURL = '''', sp_filter = None, sp_mode = '''', sp_serviceAccountName = ''''\<rparr>,
      y_status = \<lparr>st_observedGeneration = 0, st_conditions = [], st_annotations = [], st_sinkURI = None, st_ceAttributes = [],
        st_sinkCACerts = None, st_sinkAudience = None, st_auth = None, st_deploymentName = '''', st_lastEventTime = None, st_eventCount = 0\<rparr>\<rparr>"

type_synonym YipYapSourceOption = "clock \<times> yipyap_source \<Rightarrow> clock \<times> yipyap_source"

definition NewYipYapSource :: "string \<Rightarrow> string \<Rightarrow> YipYapSourceOption list \<Rightarrow> clock \<Rightarrow> clock \<times> group_version_kind \<times> yipyap_source" where
  "NewYipYapSource name namespace opts now =
     (let src = zero_source\<lparr>y_meta := (y_meta zero_source)\<lparr>om_name := name, om_namespace := namespace\<rparr>\<rparr>;
          (now, src) = fold (\<lambda>opt. opt) opts (now, src)
      in (now, WithKind SchemeGroupVersion ''YipYapSource'', src))"

definition set_fields :: "(yipyap_source \<Rightarrow> yipyap_source) \<Rightarrow> YipYapSourceOption" where
  "set_fields f s = (fst s, f (snd s))"

definition set_marks :: "(clocked_status \<Rightarrow> clocked_status) \<Rightarrow> YipYapSourceOption" where
  "set_marks f s = (let (now, st) = f (fst s, y_status (snd s)) in (now, (snd s)\<lparr>y_status := st\<rparr>))"

definition WithYipYapSourceUID :: "string \<Rightarrow> YipYapSourceOption" where
  "WithYipYapSourceUID uid = set_fields (\<lambda>s. s\<lparr>y_meta := (y_meta s)\<lparr>om_uid := uid\<rparr>\<rparr>)"

definition WithYipYapSourceSpec :: "source_spec \<Rightarrow> YipYapSourceOption" where
  "WithYipYapSourceSpec spec = set_fields (\<lambda>s. s\<lparr>y_spec := spec\<rparr>)"

definition WithInitYipYapSourceConditions :: YipYapSourceOption where
  "WithInitYipYapSourceConditions = set_marks Status_InitializeConditions"

definition WithYipYapSourceSink :: "url option \<Rightarrow> YipYapSourceOption" where "WithYipYapSourceSink uri = set_marks (MarkSink uri)"

definition WithYipYapSourceSinkNotFound :: "string \<Rightarrow> string \<Rightarrow> YipYapSourceOption" where
  "WithYipYapSourceSinkNotFound rsn msg = set_marks (MarkNoSink rsn msg)"

definition WithYipYapSourceDeployed :: YipYapSourceOption where "WithYipYapSourceDeployed = set_marks MarkDeployed"

definition WithYipYapSourceNotDeployed :: "string \<Rightarrow> string \<Rightarrow> YipYapSourceOption" where
  "WithYipYapSourceNotDeployed rsn msg = set_marks (MarkNotDeployed rsn msg)"

definition WithYipYapSourceDeploying :: "string \<Rightarrow> string \<Rightarrow> YipYapSourceOption" where
  "WithYipYapSourceDeploying rsn msg = set_marks (MarkDeploying rsn msg)"

definition WithYipYapSourceDeploymentName :: "string \<Rightarrow> YipYapSourceOption" where
  "WithYipYapSourceDeploymentName name = set_fields (\<lambda>s. s\<lparr>y_status := (y_status s)\<lparr>st_deploymentName := name\<rparr>\<rparr>)"

definition WithYipYapSourceCloudEventAttributes :: "cloud_event_attributes list \<Rightarrow> YipYapSourceOption" where
  "WithYipYapSourceCloudEventAttributes attrs = set_fields (\<lambda>s. s\<lparr>y_status := (y_status s)\<lparr>st_ceAttributes := attrs\<rparr>\<rparr>)"

definition WithYipYapSourceStatusObservedGeneration :: "int \<Rightarrow> YipYapSourceOption" where
  "WithYipYapSourceStatusObservedGeneration gen = set_fields (\<lambda>s. s\<lparr>y_status := (y_status s)\<lparr>st_observedGeneration := gen\<rparr>\<rparr>)"

subsection \<open>What a client of the API may rely on\<close>

text \<open>Calls one after the other.\<close>

fun run_calls :: "('c \<Rightarrow> 's \<Rightarrow> 'a \<times> 's) \<Rightarrow> 'c list \<Rightarrow> 's \<Rightarrow> 'a list \<times> 's" where
  "run_calls run [] s = ([], s)"
| "run_calls run (c # cs) s = (let (a, s) = run c s; (as, s) = run_calls run cs s in (a # as, s))"

text \<open>An implementation of a service answers every call as its specification does, on the state that the specification sees.\<close>

locale service =
  fixes run :: "'c \<Rightarrow> 's \<Rightarrow> 'a \<times> 's" and spec :: "'c \<Rightarrow> 'm \<Rightarrow> 'a \<times> 'm" and abs :: "'s \<Rightarrow> 'm" and ok :: "'s \<Rightarrow> bool"
  assumes refines: "ok s \<Longrightarrow> run c s = (a, s') \<Longrightarrow> ok s' \<and> spec c (abs s) = (a, abs s')"
begin

lemma calls_refine: "ok s \<Longrightarrow> run_calls run cs s = (as, s') \<Longrightarrow> ok s' \<and> run_calls spec cs (abs s) = (as, abs s')"
proof (induction cs arbitrary: s as s')
  case (Cons c cs)
  obtain a s1 where one: "run c s = (a, s1)" by fastforce
  obtain as' s2 where rest: "run_calls run cs s1 = (as', s2)" by fastforce
  from refines [OF Cons.prems(1) one] Cons.IH [OF _ rest] Cons.prems(2) one rest show ?case by auto
qed auto

end

text \<open>The specification: a finite map from namespace and name to sources.\<close>

type_synonym source_map = "object_key \<Rightarrow> yipyap_source option"

datatype fake_call =
    CallGet string string
  | CallList string "(string \<times> string) list \<Rightarrow> bool"
  | CallCreate string yipyap_source
  | CallUpdate string yipyap_source
  | CallUpdateStatus string yipyap_source
  | CallDelete string string
  | CallDeleteCollection string
  | CallPatch string string patch_type string "string list"

datatype answer = AnSource yipyap_source "tracker_error option" | AnList "yipyap_source list" "tracker_error option" | AnDone "tracker_error option"

definition spec_put :: "bool \<Rightarrow> string \<Rightarrow> yipyap_source \<Rightarrow> source_map \<Rightarrow> tracker_error option \<times> source_map" where
  "spec_put replacing ns y M =
     (let y = place ns y in
      if om_namespace (y_meta y) \<noteq> ns then (Some (BadRequest ns (om_namespace (y_meta y))), M)
      else if M (source_key y) \<noteq> None \<and> \<not> replacing then (Some (AlreadyExists (om_name (y_meta y))), M)
      else if M (source_key y) = None \<and> replacing then (Some (NotFoundError (om_name (y_meta y))), M)
      else (None, M(source_key y \<mapsto> y)))"

definition spec_write :: "yipyap_source \<Rightarrow> bool \<Rightarrow> string \<Rightarrow> yipyap_source \<Rightarrow> source_map \<Rightarrow> answer \<times> source_map" where
  "spec_write zero replacing ns y M =
     (case spec_put replacing ns y M of
        (Some e, M) \<Rightarrow> (AnSource zero (Some e), M)
      | (None, M) \<Rightarrow> (AnSource (place ns y) None, M))"

definition spec_list :: "string \<Rightarrow> source_map \<Rightarrow> yipyap_source list" where
  "spec_list ns M = map (\<lambda>k. the (M k)) (filter (\<lambda>k. ns = '''' \<or> fst k = ns) (sorted_list_of_set (dom M)))"

fun spec_call :: "patch_library \<Rightarrow> yipyap_source \<Rightarrow> fake_call \<Rightarrow> source_map \<Rightarrow> answer \<times> source_map" where
  "spec_call pl zero (CallGet ns name) M =
     ((case M (ns, name) of None \<Rightarrow> AnSource zero (Some (NotFoundError name)) | Some y \<Rightarrow> AnSource y None), M)"
| "spec_call pl zero (CallList ns label) M = (AnList (filter (\<lambda>y. label (om_labels (y_meta y))) (spec_list ns M)) None, M)"
| "spec_call pl zero (CallCreate ns y) M = spec_write zero False ns y M"
| "spec_call pl zero (CallUpdate ns y) M = spec_write zero True ns y M"
| "spec_call pl zero (CallUpdateStatus ns y) M = spec_write zero True ns y M"
| "spec_call pl zero (CallDelete ns name) M =
     (if M (ns, name) = None then (AnDone (Some (NotFoundError name)), M) else (AnDone None, M((ns, name) := None)))"
| "spec_call pl zero (CallDeleteCollection ns) M = (AnDone None, M)"
| "spec_call pl zero (CallPatch ns name pt data subs) M =
     (case (if pt = ApplyPatchType then pl_Unmarshal pl data else None) of
        Some e \<Rightarrow> (AnSource zero (Some (PatchError e)), M)
      | None \<Rightarrow>
          (case M (ns, name) of
             None \<Rightarrow> (AnSource zero (Some (NotFoundError name)), M)
           | Some old \<Rightarrow>
               (case (case pt of OtherPatchType p \<Rightarrow> Inl p | _ \<Rightarrow> pl_merge pl pt data old) of
                  Inl e \<Rightarrow> (AnSource zero (Some (PatchError e)), M)
                | Inr y \<Rightarrow>
                    (case spec_put True ns y M of
                       (Some e, M) \<Rightarrow> (AnSource zero (Some e), M)
                     | (None, M) \<Rightarrow> (AnSource (if pt = ApplyPatchType then the (M (ns, name)) else y) None, M)))))"

text \<open>The calls of the fake client.\<close>

definition an_source :: "(yipyap_source \<times> tracker_error option) \<times> fake_clientset \<Rightarrow> answer \<times> fake_clientset" where
  "an_source r = (case r of ((y, err), c) \<Rightarrow> (AnSource y err, c))"

definition an_done :: "tracker_error option \<times> fake_clientset \<Rightarrow> answer \<times> fake_clientset" where
  "an_done r = (case r of (err, c) \<Rightarrow> (AnDone err, c))"

fun run_call :: "yipyap_source \<Rightarrow> fake_call \<Rightarrow> fake_clientset \<Rightarrow> answer \<times> fake_clientset" where
  "run_call zero (CallGet ns name) c = an_source (fc_Get zero (fake_YipYapSources ns) name c)"
| "run_call zero (CallList ns label) c = (case fc_List (fake_YipYapSources ns) label c of ((ys, err), c) \<Rightarrow> (AnList ys err, c))"
| "run_call zero (CallCreate ns y) c = an_source (fc_Create zero (fake_YipYapSources ns) y c)"
| "run_call zero (CallUpdate ns y) c = an_source (fc_Update zero (fake_YipYapSources ns) y c)"
| "run_call zero (CallUpdateStatus ns y) c = an_source (fc_UpdateStatus zero (fake_YipYapSources ns) y c)"
| "run_call zero (CallDelete ns name) c = an_done (fc_Delete zero (fake_YipYapSources ns) name c)"
| "run_call zero (CallDeleteCollection ns) c = an_done (fc_DeleteCollection (fake_YipYapSources ns) c)"
| "run_call zero (CallPatch ns name pt data subs) c = an_source (fc_Patch zero (fake_YipYapSources ns) name pt data subs c)"

subsection \<open>The fake client keeps its promise\<close>

definition source_gvr :: group_version_resource where "source_gvr = WithResource SchemeGroupVersion ''yipyapsources''"

definition tracked :: "tracker \<Rightarrow> (object_key \<times> yipyap_source) list" where
  "tracked t = (case tk_objects t source_gvr of None \<Rightarrow> [] | Some objs \<Rightarrow> objs)"

definition lists_sources :: "scheme \<Rightarrow> bool" where
  "lists_sources s \<longleftrightarrow> (\<exists>t. scheme_New s (WithKind SchemeGroupVersion ''YipYapSourceList'') = Inr t \<and> IsListType t)"

definition tracker_ok :: "tracker \<Rightarrow> bool" where
  "tracker_ok t \<longleftrightarrow> distinct (map fst (tracked t)) \<and> (\<forall>k y. map_of (tracked t) k = Some y \<longrightarrow> source_key y = k) \<and> tk_watchers t = [] \<and> lists_sources (tk_scheme t)"

definition fake_ok :: "patch_library \<Rightarrow> fake_clientset \<Rightarrow> bool" where
  "fake_ok pl c \<longleftrightarrow> fk_ReactionChain c = [\<lparr>re_Verb = ''*'', re_Resource = ''*'', re_Reaction = ObjectReaction pl\<rparr>] \<and> tracker_ok (fk_tracker c)"

definition fake_abs :: "fake_clientset \<Rightarrow> source_map" where
  "fake_abs c = map_of (tracked (fk_tracker c))"

lemma tracked_set_objects [simp]: "tracked (set_objects source_gvr objs t) = objs"
  by (simp add: tracked_def set_objects_def)

lemma set_objects_frame [simp]: "tk_watchers (set_objects g objs t) = tk_watchers t" "tk_scheme (set_objects g objs t) = tk_scheme t"
  by (simp_all add: set_objects_def)

lemma notify_silent: "tk_watchers t = [] \<Longrightarrow> notify gvr ns e t = (None, t)"
  by (simp add: notify_def)

lemma place_fields [simp]:
  "om_name (y_meta (place ns y)) = om_name (y_meta y)"
  "om_namespace (y_meta (place ns y)) = (if om_namespace (y_meta y) = '''' then ns else om_namespace (y_meta y))"
  by (simp_all add: place_def)

lemma map_of_new: "map_of objs k = None \<Longrightarrow> map_of (objs @ [(k, v)]) = (map_of objs)(k \<mapsto> v)"
  by (auto simp: map_add_def split: option.splits)

lemma tracker_ok_objects:
  assumes "tracker_ok t" "distinct (map fst objs)" "\<And>k y. map_of objs k = Some y \<Longrightarrow> source_key y = k"
  shows "tracker_ok (set_objects source_gvr objs t)"
  using assms by (simp add: tracker_ok_def)

lemma tracker_add_eq:
  assumes "tracker_ok t" "tracker_add source_gvr y ns replacing t = (err, t')"
  shows "tracker_ok t' \<and> spec_put replacing ns y (map_of (tracked t)) = (err, map_of (tracked t'))"
proof -
  let ?y = "place ns y" and ?objs = "tracked t"
  have quiet: "tk_watchers t = []" and dist: "distinct (map fst ?objs)"
    and keys: "\<And>k y. map_of ?objs k = Some y \<Longrightarrow> source_key y = k" using assms(1) by (auto simp: tracker_ok_def)
  have objs: "(case tk_objects t source_gvr of None \<Rightarrow> [] | Some objs \<Rightarrow> objs) = ?objs" by (simp add: tracked_def)
  have same: "set_objects source_gvr xs (set_objects source_gvr ?objs t) = set_objects source_gvr xs t" for xs by (simp add: set_objects_def)
  have ok0: "tracker_ok (set_objects source_gvr ?objs t)" by (rule tracker_ok_objects [OF assms(1) dist keys])
  show ?thesis
  proof (cases "ns \<noteq> om_namespace (y_meta ?y)")
    case True
    then show ?thesis using assms by (auto simp: tracker_add_def spec_put_def Let_def)
  next
    case placed: False
    show ?thesis
    proof (cases "map_of ?objs (source_key ?y)")
      case None
      then have "source_key ?y \<notin> fst ` set ?objs" by (simp add: map_of_eq_None_iff)
      then have "tracker_ok (set_objects source_gvr (?objs @ [(source_key ?y, ?y)]) t)"
        using dist keys by (intro tracker_ok_objects [OF assms(1)]) (auto simp: map_of_new [OF None] split: if_splits)
      then show ?thesis
        using assms(2) placed None ok0 quiet
        by (cases replacing) (auto simp: tracker_add_def spec_put_def Let_def objs same notify_silent map_of_new simp del: map_of_append)
    next
      case (Some old)
      have "tracker_ok (set_objects source_gvr (AList.update (source_key ?y) ?y ?objs) t)"
        using dist keys by (intro tracker_ok_objects [OF assms(1)]) (auto simp: distinct_update update_conv' split: if_splits)
      then show ?thesis
        using assms(2) placed Some ok0 quiet
        by (cases replacing) (auto simp: tracker_add_def spec_put_def Let_def objs same notify_silent update_conv')
    qed
  qed
qed

lemma tracker_Get_eq: "tracker_Get source_gvr ns name t = (case map_of (tracked t) (ns, name) of None \<Rightarrow> Inl (NotFoundError name) | Some y \<Rightarrow> Inr y)"
  by (simp add: tracker_Get_def tracked_def split: option.split)

lemma tracker_Delete_eq:
  assumes "tracker_ok t" "tracker_Delete source_gvr ns name t = (err, t')"
  shows "tracker_ok t' \<and>
    (if map_of (tracked t) (ns, name) = None then err = Some (NotFoundError name) \<and> t' = t
     else err = None \<and> map_of (tracked t') = (map_of (tracked t))((ns, name) := None))"
proof (cases "map_of (tracked t) (ns, name)")
  case None
  then show ?thesis using assms by (auto simp: tracker_Delete_def tracked_def split: option.splits)
next
  case (Some y)
  then have "tk_objects t source_gvr = Some (tracked t)" by (simp add: tracked_def split: option.splits)
  with assms Some have t': "err = None" "t' = set_objects source_gvr (AList.delete (ns, name) (tracked t)) t"
    by (auto simp: tracker_Delete_def tracker_ok_def notify_silent)
  moreover have "tracker_ok t'" unfolding t'(2)
    using assms(1) by (intro tracker_ok_objects) (auto simp: tracker_ok_def distinct_delete delete_conv' split: if_splits)
  ultimately show ?thesis using Some by (simp add: delete_conv')
qed

text \<open>A list sorted by distinct keys is the list of the values along the sorted keys.\<close>

lemma sort_key_distinct:
  assumes "distinct (map f xs)"
  shows "map f (sort_key f xs) = sorted_list_of_set (f ` set xs)"
proof -
  have "distinct (map f (sort_key f xs))" using assms by (simp add: distinct_map)
  then show ?thesis using sorted_list_of_set.idem_if_sorted_distinct [of "map f (sort_key f xs)"] by simp
qed

lemma sorted_filter_set:
  "finite A \<Longrightarrow> filter P (sorted_list_of_set A) = sorted_list_of_set {k \<in> A. P (k :: 'k :: linorder)}"
  using sorted_list_of_set.idem_if_sorted_distinct [of "filter P (sorted_list_of_set A)"]
  by (simp add: sorted_filter [of id, simplified])

lemma sorted_values:
  assumes "distinct (map fst objs)" "\<And>k y. map_of objs k = Some y \<Longrightarrow> source_key y = k"
  shows "filterByNamespace objs ns = spec_list ns (map_of objs)"
proof -
  have at: "map_of objs (fst p) = Some (snd p)" "source_key (snd p) = fst p" if "p \<in> set objs" for p
    using assms that by (metis map_of_is_SomeI prod.collapse)+
  let ?ys = "filter (\<lambda>y. \<not> (ns \<noteq> '''' \<and> om_namespace (y_meta y) \<noteq> ns)) (map snd objs)"
  have "map source_key (map snd objs) = map fst objs" using at(2) by simp
  then have "distinct (map source_key (map snd objs))" using assms(1) by metis
  then have "distinct (map source_key ?ys)" by (rule distinct_map_filter)
  then have "map source_key (sort_key source_key ?ys) = sorted_list_of_set (source_key ` set ?ys)" by (rule sort_key_distinct)
  also have "source_key ` set ?ys = {k \<in> dom (map_of objs). ns = '''' \<or> fst k = ns}"
    using at by (force simp: dom_map_of_conv_image_fst source_key_def image_iff)
  also have "sorted_list_of_set \<dots> = filter (\<lambda>k. ns = '''' \<or> fst k = ns) (sorted_list_of_set (dom (map_of objs)))"
    by (rule sorted_filter_set [symmetric]) (rule finite_dom_map_of)
  finally have "map (\<lambda>k. the (map_of objs k)) (map source_key (sort_key source_key ?ys)) = spec_list ns (map_of objs)"
    by (simp add: spec_list_def)
  moreover have "map (\<lambda>k. the (map_of objs k)) (map source_key (sort_key source_key ?ys)) = sort_key source_key ?ys"
    using at by (auto intro!: map_idI)
  ultimately show ?thesis by (simp add: filterByNamespace_def)
qed

subsection \<open>Every call refines the map\<close>

lemma react_single:
  assumes "fake_ok pl c"
  shows "Invokes a def c =
    (let (r, t) = ObjectReaction pl a (fk_tracker c)
     in ((case r of NotHandled \<Rightarrow> (def, None) | Handled ret err \<Rightarrow> (ret, err)), c\<lparr>fk_tracker := t, fk_actions := fk_actions c @ [a]\<rparr>))"
  using assms by (simp add: fake_ok_def Invokes_def Handles_def resourceCovers_def split: prod.split reaction.split)

lemma fake_ok_invoked: "fake_ok pl c \<Longrightarrow> tracker_ok t \<Longrightarrow> fake_ok pl (c\<lparr>fk_tracker := t, fk_actions := as\<rparr>)"
  by (simp add: fake_ok_def)

lemma fake_abs_invoked [simp]: "fake_abs (c\<lparr>fk_tracker := t, fk_actions := as\<rparr>) = map_of (tracked t)"
  by (simp add: fake_abs_def)

lemma fake_client_fields [simp]:
  "fc_resource (fake_YipYapSources ns) = source_gvr"
  "fc_ns (fake_YipYapSources ns) = ns"
  "fc_kind (fake_YipYapSources ns) = WithKind SchemeGroupVersion ''YipYapSource''"
  by (simp_all add: fake_YipYapSources_def newFakeYipYapSources_def source_gvr_def)

lemma spec_put_Some: "spec_put replacing ns y M = (None, M') \<Longrightarrow> M' = M(source_key (place ns y) \<mapsto> place ns y) \<and> source_key (place ns y) = (ns, om_name (y_meta y))"
  by (auto simp: spec_put_def Let_def source_key_def split: if_splits)

lemma spec_put_error: "spec_put replacing ns y M = (Some e, M') \<Longrightarrow> M' = M"
  by (auto simp: spec_put_def Let_def split: if_splits)

lemma get_refines:
  assumes "fake_ok pl c" "run_call zero (CallGet ns name) c = (a, c')"
  shows "fake_ok pl c' \<and> spec_call pl zero (CallGet ns name) (fake_abs c) = (a, fake_abs c')"
  using assms(2) assms(1)
  by (auto simp: an_source_def fc_Get_def or_empty_def react_single [OF assms(1)] ObjectReaction_def tracker_Get_eq read_back_def
        fake_ok_def fake_abs_def split: option.splits)

lemma write_refines:
  assumes "tracker_ok t" "tracker_add source_gvr y ns replacing t = (err, t')"
  shows "spec_write zero replacing ns y (map_of (tracked t)) = (case err of Some e \<Rightarrow> AnSource zero err | None \<Rightarrow> AnSource (place ns y) None, map_of (tracked t'))"
    and "err = None \<Longrightarrow> tracker_Get source_gvr ns (om_name (y_meta y)) t' = Inr (place ns y)"
    and "tracker_ok t'"
proof -
  note put = tracker_add_eq [OF assms]
  then show "spec_write zero replacing ns y (map_of (tracked t)) = (case err of Some e \<Rightarrow> AnSource zero err | None \<Rightarrow> AnSource (place ns y) None, map_of (tracked t'))"
    by (simp add: spec_write_def split: option.split)
  show "tracker_ok t'" using put by simp
  assume "err = None"
  with put spec_put_Some show "tracker_Get source_gvr ns (om_name (y_meta y)) t' = Inr (place ns y)"
    by (metis fun_upd_same option.simps(5) tracker_Get_eq)
qed

lemma create_refines:
  assumes "fake_ok pl c" "run_call zero (CallCreate ns y) c = (a, c')"
  shows "fake_ok pl c' \<and> spec_call pl zero (CallCreate ns y) (fake_abs c) = (a, fake_abs c')"
proof -
  obtain err t' where add: "tracker_add source_gvr y ns False (fk_tracker c) = (err, t')" by fastforce
  from assms(1) have "tracker_ok (fk_tracker c)" by (simp add: fake_ok_def)
  note w = write_refines [OF this add]
  from assms(2) w show ?thesis
    by (cases err)
       (auto simp: an_source_def fc_Create_def or_empty_def react_single [OF assms(1)] ObjectReaction_def add stored_def read_back_def
         fake_abs_def [of c] intro: fake_ok_invoked [OF assms(1)])
qed

lemma update_refines:
  assumes "fake_ok pl c" "call = CallUpdate ns y \<or> call = CallUpdateStatus ns y" "run_call zero call c = (a, c')"
  shows "fake_ok pl c' \<and> spec_call pl zero call (fake_abs c) = (a, fake_abs c')"
proof -
  obtain err t' where add: "tracker_add source_gvr y ns True (fk_tracker c) = (err, t')" by fastforce
  from assms(1) have "tracker_ok (fk_tracker c)" by (simp add: fake_ok_def)
  note w = write_refines [OF this add]
  from assms(2,3) w show ?thesis
    by (cases err)
       (auto simp: an_source_def fc_Update_def fc_UpdateStatus_def or_empty_def react_single [OF assms(1)] ObjectReaction_def add stored_def
         read_back_def fake_abs_def [of c] intro: fake_ok_invoked [OF assms(1)])
qed

lemma delete_refines:
  assumes "fake_ok pl c" "run_call zero (CallDelete ns name) c = (a, c')"
  shows "fake_ok pl c' \<and> spec_call pl zero (CallDelete ns name) (fake_abs c) = (a, fake_abs c')"
proof -
  obtain err t' where del: "tracker_Delete source_gvr ns name (fk_tracker c) = (err, t')" by fastforce
  from assms(1) have "tracker_ok (fk_tracker c)" by (simp add: fake_ok_def)
  note d = tracker_Delete_eq [OF this del]
  from assms d show ?thesis
    by (cases err)
       (auto simp: an_done_def fc_Delete_def react_single [OF assms(1)] ObjectReaction_def del stored_def
         fake_abs_def fake_ok_def split: if_splits)
qed

lemma collection_refines:
  assumes "fake_ok pl c" "run_call zero (CallDeleteCollection ns) c = (a, c')"
  shows "fake_ok pl c' \<and> spec_call pl zero (CallDeleteCollection ns) (fake_abs c) = (a, fake_abs c')"
  using assms by (auto simp: an_done_def fc_DeleteCollection_def react_single [OF assms(1)] ObjectReaction_def fake_abs_def fake_ok_def)

lemma list_refines:
  assumes "fake_ok pl c" "run_call zero (CallList ns label) c = (a, c')"
  shows "fake_ok pl c' \<and> spec_call pl zero (CallList ns label) (fake_abs c) = (a, fake_abs c')"
proof -
  let ?t = "fk_tracker c"
  from assms(1) have ok: "tracker_ok ?t" by (simp add: fake_ok_def)
  then obtain ty where ty: "scheme_New (tk_scheme ?t) (WithKind SchemeGroupVersion ''YipYapSourceList'') = Inr ty" "IsListType ty"
    by (auto simp: tracker_ok_def lists_sources_def)
  have "tracker_List source_gvr (WithKind SchemeGroupVersion ''YipYapSource'') ns ?t = Inr (filterByNamespace (tracked ?t) ns)"
    using ty by (auto simp: tracker_List_def WithKind_def SchemeGroupVersion_def tracked_def filterByNamespace_def split: option.split)
  moreover have "filterByNamespace (tracked ?t) ns = spec_list ns (map_of (tracked ?t))"
    using ok by (intro sorted_values) (auto simp: tracker_ok_def)
  ultimately show ?thesis
    using assms by (auto simp: fc_List_def react_single [OF assms(1)] ObjectReaction_def fake_abs_def fake_ok_def)
qed

lemma patch_refines:
  assumes "fake_ok pl c" "run_call zero (CallPatch ns name pt data subs) c = (a, c')"
  shows "fake_ok pl c' \<and> spec_call pl zero (CallPatch ns name pt data subs) (fake_abs c) = (a, fake_abs c')"
proof -
  let ?t = "fk_tracker c"
  from assms(1) have ok: "tracker_ok ?t" by (simp add: fake_ok_def)
  note defs = an_source_def fc_Patch_def or_empty_def react_single [OF assms(1)] ObjectReaction_def tracker_Get_eq
  consider (decode) e where "pt = ApplyPatchType" "pl_Unmarshal pl data = Some e"
    | (missing) "\<not> (pt = ApplyPatchType \<and> pl_Unmarshal pl data \<noteq> None)" "map_of (tracked ?t) (ns, name) = None"
    | (merge) old where "\<not> (pt = ApplyPatchType \<and> pl_Unmarshal pl data \<noteq> None)" "map_of (tracked ?t) (ns, name) = Some old"
    by fastforce
  then show ?thesis
  proof cases
    case decode
    then show ?thesis using assms by (auto simp: defs fake_abs_def fake_ok_def)
  next
    case missing
    then show ?thesis using assms by (auto simp: defs fake_abs_def fake_ok_def)
  next
    case merge
    show ?thesis
    proof (cases "case pt of OtherPatchType p \<Rightarrow> Inl p | _ \<Rightarrow> pl_merge pl pt data old")
      case (Inl e)
      with merge show ?thesis using assms by (auto simp: defs fake_abs_def fake_ok_def)
    next
      case (Inr y)
      obtain err t' where add: "tracker_add source_gvr y ns True ?t = (err, t')" by fastforce
      note put = tracker_add_eq [OF ok add]
      show ?thesis
      proof (cases err)
        case (Some e)
        with put Inr merge add show ?thesis using assms
          by (auto simp: defs stored_def fake_abs_def fake_ok_def)
      next
        case None
        with put have "map_of (tracked t') = (map_of (tracked ?t))(source_key (place ns y) \<mapsto> place ns y)"
          using spec_put_Some by metis
        then obtain y' where "map_of (tracked t') (ns, name) = Some y'" using merge(2) by (metis fun_upd_apply)
        with None put Inr merge add show ?thesis using assms
          by (auto simp: defs stored_def read_back_def fake_abs_def fake_ok_def)
      qed
    qed
  qed
qed

interpretation fake: service "run_call zero" "spec_call pl zero" fake_abs "fake_ok pl"
proof
  fix c :: fake_call and s s' :: fake_clientset and a
  assume "fake_ok pl s" "run_call zero c s = (a, s')"
  then show "fake_ok pl s' \<and> spec_call pl zero c (fake_abs s) = (a, fake_abs s')"
    using get_refines list_refines create_refines update_refines delete_refines collection_refines patch_refines
    by (cases c) metis+
qed

subsection \<open>A seeded clientset\<close>

text \<open>What the scheme of the fake clientset says of sources.\<close>

definition knows_sources :: "scheme \<Rightarrow> bool" where
  "knows_sources s \<longleftrightarrow>
     (case ObjectKinds s (v1alpha1_type ''YipYapSource'') of Inl _ \<Rightarrow> False | Inr (gvks, _) \<Rightarrow> gvks = [WithKind SchemeGroupVersion ''YipYapSource'']) \<and>
     (case scheme_New s (WithKind SchemeGroupVersion ''YipYapSourceList'') of Inl _ \<Rightarrow> False | Inr t \<Rightarrow> IsListType t)"

lemma fake_scheme_knows: "case fake_scheme of Inl _ \<Rightarrow> False | Inr s \<Rightarrow> knows_sources s"
  by code_simp


lemma fake_scheme_sources: "fake_scheme = Inr s \<Longrightarrow> knows_sources s"
  using fake_scheme_knows by (metis sum.simps(6))

lemma fake_scheme_builds: "\<exists>s. fake_scheme = Inr s"
  using fake_scheme_knows by (metis sum.exhaust sum.simps(5))

lemma source_resource: "UnsafeGuessKindToResource (WithKind SchemeGroupVersion ''YipYapSource'') = source_gvr" "gvr_version source_gvr \<noteq> APIVersionInternal"
  by code_simp+

lemma notify_scheme: "tk_scheme (snd (notify gvr ns e t)) = tk_scheme t"
  by (simp add: notify_def)

lemma tracker_add_scheme: "tracker_add gvr y ns replacing t = (err, t') \<Longrightarrow> tk_scheme t' = tk_scheme t"
  using notify_scheme
  by (fastforce simp: tracker_add_def Let_def set_objects_def split: if_splits option.splits prod.splits dest: arg_cong [of _ _ "tk_scheme \<circ> snd"])

lemma place_own: "place (om_namespace (y_meta y)) y = y"
  by (simp add: place_def)

lemma add_source_eq:
  assumes "tracker_ok t" "knows_sources (tk_scheme t)" "add_source y t = (err, t')"
  shows "tracker_ok t' \<and> tk_scheme t' = tk_scheme t \<and>
    (if map_of (tracked t) (source_key y) = None then err = None \<and> map_of (tracked t') = (map_of (tracked t))(source_key y \<mapsto> y)
     else err \<noteq> None)"
proof -
  obtain err1 t1 where add: "tracker_add source_gvr y (om_namespace (y_meta y)) False t = (err1, t1)" by fastforce
  obtain u where "ObjectKinds (tk_scheme t) (v1alpha1_type ''YipYapSource'') = Inr ([WithKind SchemeGroupVersion ''YipYapSource''], u)"
    using assms(2) by (auto simp: knows_sources_def split: sum.splits)
  then have "add_source y t = (err1, t1)" by (simp add: add_source_def source_resource Let_def add split: option.split)
  then have "err = err1" "t' = t1" using assms(3) by auto
  then show ?thesis using tracker_add_eq [OF assms(1) add] tracker_add_scheme [OF add]
    by (auto simp: spec_put_def Let_def place_own split: if_splits)
qed

definition seed_map :: "yipyap_source list \<Rightarrow> source_map" where
  "seed_map ys = map_of (map (\<lambda>y. (source_key y, y)) ys)"

lemma seed_map_snoc: "source_key y \<notin> source_key ` set ys \<Longrightarrow> seed_map (ys @ [y]) = (seed_map ys)(source_key y \<mapsto> y)"
  unfolding seed_map_def by (simp add: map_of_new map_of_eq_None_iff image_image comp_def del: map_of_append)

lemma seed_map_None: "seed_map ys k = None \<longleftrightarrow> k \<notin> source_key ` set ys"
  by (simp add: seed_map_def map_of_eq_None_iff image_image)

text \<open>The sources that the seeds hold, in order, and the state of a tracker that holds them.\<close>

fun seeds_of :: "runtime_object \<Rightarrow> yipyap_source list" where
  "seeds_of (SourceObject y) = [y]"
| "seeds_of (SourceList ys) = ys"
| "seeds_of (OtherObject t) = []"

definition seeds_ok :: "runtime_object list \<Rightarrow> bool" where
  "seeds_ok objects \<longleftrightarrow> list_all (\<lambda>obj. case obj of OtherObject _ \<Rightarrow> False | _ \<Rightarrow> True) objects \<and> distinct (map source_key (concat (map seeds_of objects)))"

definition seeded :: "yipyap_source list \<Rightarrow> tracker \<Rightarrow> bool" where
  "seeded ys t \<longleftrightarrow> tracker_ok t \<and> knows_sources (tk_scheme t) \<and> distinct (map source_key ys) \<and> map_of (tracked t) = seed_map ys"

lemma add_sources_seeded:
  assumes "seeded ys t" "add_sources xs t = (err, t')"
  shows "if distinct (map source_key (ys @ xs)) then err = None \<and> seeded (ys @ xs) t' else err \<noteq> None"
  using assms
proof (induction xs arbitrary: ys t)
  case Nil
  then show ?case by (simp add: seeded_def)
next
  case (Cons x xs)
  obtain err1 t1 where one: "add_source x t = (err1, t1)" by fastforce
  from Cons.prems(1) have st: "tracker_ok t" "knows_sources (tk_scheme t)" "map_of (tracked t) = seed_map ys" "distinct (map source_key ys)"
    by (simp_all add: seeded_def)
  note add = add_source_eq [OF st(1,2) one]
  show ?case
  proof (cases "source_key x \<in> source_key ` set ys")
    case True
    with add st have "err1 \<noteq> None" by (simp add: seed_map_None split: if_splits)
    with one Cons.prems(2) have "err \<noteq> None" by auto
    with True show ?thesis by auto
  next
    case False
    with add st have "err1 = None" "seeded (ys @ [x]) t1" by (simp_all add: seeded_def seed_map_None seed_map_snoc)
    moreover have "add_sources xs t1 = (err, t')" using one Cons.prems(2) \<open>err1 = None\<close> by simp
    ultimately show ?thesis using Cons.IH [of "ys @ [x]" t1] by (metis append_Cons append_Nil append_assoc)
  qed
qed

lemma add_source_list: "tracker_Add (SourceObject y) t = add_sources [y] t"
  by (simp add: tracker_Add_def split: prod.split option.split)

lemma add_objects_seeded:
  assumes "seeded ys t"
  shows "case add_objects objects t of
      Inl _ \<Rightarrow> \<not> (seeds_ok objects \<and> distinct (map source_key (ys @ concat (map seeds_of objects))))
    | Inr t' \<Rightarrow> seeds_ok objects \<and> seeded (ys @ concat (map seeds_of objects)) t'"
  using assms
proof (induction objects arbitrary: ys t)
  case Nil
  then show ?case by (simp add: seeds_ok_def)
next
  case (Cons obj objects)
  show ?case
  proof (cases "\<exists>ty. obj = OtherObject ty")
    case True
    then show ?thesis by (auto simp: tracker_Add_def seeds_ok_def)
  next
    case False
    then have "tracker_Add obj t = add_sources (seeds_of obj) t"
      by (cases obj) (simp_all add: add_source_list del: add_sources.simps, simp add: tracker_Add_def)
    moreover obtain err t1 where one: "add_sources (seeds_of obj) t = (err, t1)" by fastforce
    ultimately have step: "tracker_Add obj t = (err, t1)" by simp
    note seed = add_sources_seeded [OF Cons.prems one]
    show ?thesis
    proof (cases "distinct (map source_key (ys @ seeds_of obj))")
      case dist: True
      with seed have "err = None" "seeded (ys @ seeds_of obj) t1" by auto
      moreover have "seeds_ok (obj # objects) \<longleftrightarrow> seeds_ok objects \<and> distinct (map source_key (seeds_of obj @ concat (map seeds_of objects)))"
        using False by (cases obj) (auto simp: seeds_ok_def)
      ultimately show ?thesis using step Cons.IH [of "ys @ seeds_of obj" t1]
        by (auto simp: seeded_def split: sum.splits)
    next
      case dup: False
      with seed have "err \<noteq> None" by argo
      then obtain e where "err = Some e" by auto
      with step dup show ?thesis by (auto simp: seeds_ok_def)
    qed
  qed
qed


lemma new_tracker_seeded: "knows_sources sch \<Longrightarrow> seeded [] (NewObjectTracker sch)"
  by (auto simp: seeded_def NewObjectTracker_def tracker_ok_def tracked_def seed_map_def lists_sources_def knows_sources_def split: sum.splits)

lemma NewSimpleClientset_seeded:
  assumes "knows_sources sch"
  shows "case NewSimpleClientset pl sch objects of
      Inl _ \<Rightarrow> \<not> seeds_ok objects
    | Inr c \<Rightarrow> seeds_ok objects \<and> fake_ok pl c \<and> fake_abs c = seed_map (concat (map seeds_of objects)) \<and> fk_actions c = []"
  using add_objects_seeded [OF new_tracker_seeded [OF assms], of objects]
  by (auto simp: NewSimpleClientset_def AddReactor_def fake_ok_def fake_abs_def seeded_def seeds_ok_def split: sum.splits)

lemma run_call_records: "run_call zero call c = (a, c') \<Longrightarrow> length (fk_actions c') = Suc (length (fk_actions c))"
  by (cases call)
     (auto simp: an_source_def an_done_def or_empty_def fc_Get_def fc_List_def fc_Create_def fc_Update_def fc_UpdateStatus_def fc_Delete_def
       fc_DeleteCollection_def fc_Patch_def Invokes_def Let_def split: prod.splits returned.splits)

lemma run_calls_record: "run_calls (run_call zero) cs c = (as, c') \<Longrightarrow> length (fk_actions c') = length (fk_actions c) + length cs"
  by (induction cs arbitrary: c as) (auto simp: Let_def split: prod.splits dest!: run_call_records)

text \<open>
  C16: A test may take the fake clientset for a map. Seeded with sources and lists of sources no two of which share
  namespace and name, it is built; any sequence of get, list, create, update, status update, delete, delete-collection
  and patch calls through the typed client is answered, result and error, as the finite map from namespace and
  name to the seeded sources answers it, and the state afterwards is that map; every call is recorded. Lists are
  sorted by namespace and name; a create of a present or an update of a missing source fails and changes
  nothing; a status update replaces the whole source, and deleting a collection reports success and deletes
  nothing. Two seeds with one key, or a seed that is no source, make the constructor panic.
\<close>
theorem fake_client_refines_map:
  assumes "fake_scheme = Inr sch"
  shows "(\<not> seeds_ok objects \<longrightarrow> (\<exists>e. NewSimpleClientset pl sch objects = Inl e)) \<and>
    (seeds_ok objects \<longrightarrow>
      (\<exists>c. NewSimpleClientset pl sch objects = Inr c \<and>
        (\<forall>zero cs as c'. run_calls (run_call zero) cs c = (as, c') \<longrightarrow>
           run_calls (spec_call pl zero) cs (seed_map (concat (map seeds_of objects))) = (as, fake_abs c') \<and>
           length (fk_actions c') = length cs)))"
proof -
  note built = NewSimpleClientset_seeded [OF fake_scheme_sources [OF assms], where pl = pl and objects = objects]
  show ?thesis
  proof (cases "NewSimpleClientset pl sch objects")
    case (Inr c)
    with built have c: "seeds_ok objects" "fake_ok pl c" "fake_abs c = seed_map (concat (map seeds_of objects))" "fk_actions c = []" by simp_all
    then show ?thesis using Inr fake.calls_refine [OF c(2)] run_calls_record by (auto simp: c(3))
  qed (use built in simp)
qed

definition demo_patches :: patch_library where
  "demo_patches = \<lparr>pl_Unmarshal = (\<lambda>_. None), pl_merge = (\<lambda>_ _ y. Inr y)\<rparr>"

definition demo_fixture :: "string \<Rightarrow> yipyap_source" where
  "demo_fixture name = snd (snd (NewYipYapSource name ''ops'' [WithYipYapSourceUID (''uid-'' @ name)] (\<lambda>_. 0)))"

lemma demo_fixture_key [simp]: "source_key (demo_fixture name) = (''ops'', name)"
  by (simp add: demo_fixture_def NewYipYapSource_def WithYipYapSourceUID_def set_fields_def source_key_def Let_def)

theorem fake_client_refines_map_witness:
  "\<exists>sch c. fake_scheme = Inr sch \<and> NewSimpleClientset demo_patches sch [SourceObject (demo_fixture ''b''), SourceList [demo_fixture ''a'']] = Inr c \<and>
     fst (run_calls (run_call zero_source) [CallDelete ''ops'' ''b'', CallDeleteCollection ''ops'', CallGet ''ops'' ''b'', CallList '''' (\<lambda>_. True)] c) =
       [AnDone None, AnDone None, AnSource zero_source (Some (NotFoundError ''b'')), AnList [demo_fixture ''a''] None] \<and>
     (\<exists>e. NewSimpleClientset demo_patches sch [SourceObject (demo_fixture ''b''), SourceObject (demo_fixture ''b'')] = Inl e)"
proof -
  obtain sch where sch: "fake_scheme = Inr sch" using fake_scheme_builds by blast
  let ?objects = "[SourceObject (demo_fixture ''b''), SourceList [demo_fixture ''a'']]"
  let ?cs = "[CallDelete ''ops'' ''b'', CallDeleteCollection ''ops'', CallGet ''ops'' ''b'', CallList '''' (\<lambda>_. True)]"
  let ?M = "seed_map (concat (map seeds_of ?objects))"
  have ok: "seeds_ok ?objects" "\<not> seeds_ok [SourceObject (demo_fixture ''b''), SourceObject (demo_fixture ''b'')]" by (simp_all add: seeds_ok_def)
  have M: "?M(((''ops'', ''b'')) := None) = [(''ops'', ''a'') \<mapsto> demo_fixture ''a'']" "?M (''ops'', ''b'') \<noteq> None"
    by (auto simp: seed_map_def)
  have spec: "fst (run_calls (spec_call demo_patches zero_source) ?cs ?M) =
      [AnDone None, AnDone None, AnSource zero_source (Some (NotFoundError ''b'')), AnList [demo_fixture ''a''] None]"
    using M by (simp add: spec_list_def)
  from fake_client_refines_map [OF sch, of ?objects demo_patches] ok(1) obtain c where
    c: "NewSimpleClientset demo_patches sch ?objects = Inr c"
    "\<forall>zero cs as c'. run_calls (run_call zero) cs c = (as, c') \<longrightarrow> run_calls (spec_call demo_patches zero) cs ?M = (as, fake_abs c') \<and>
       length (fk_actions c') = length cs" by blast
  obtain as c' where "run_calls (run_call zero_source) ?cs c = (as, c')" by fastforce
  with c(2) spec have "fst (run_calls (run_call zero_source) ?cs c) =
      [AnDone None, AnDone None, AnSource zero_source (Some (NotFoundError ''b'')), AnList [demo_fixture ''a''] None]" by (metis fst_conv)
  then show ?thesis using sch c(1) fake_client_refines_map [OF sch, of "[SourceObject (demo_fixture ''b''), SourceObject (demo_fixture ''b'')]"] ok(2) by blast
qed


subsection \<open>The fake injectors\<close>

text \<open>
  A fake clientset is a pointer into the list of those made, since calls change it. The constructor runs in
  \<open>With\<close>; its panic is \<open>ConfigFails\<close> for the registry, as that of the real constructor.
\<close>

definition fake_With ::
  "patch_library \<Rightarrow> scheme \<Rightarrow> runtime_object list \<Rightarrow> nat goctx \<Rightarrow> fake_clientset list \<Rightarrow> tracker_error + (nat goctx \<times> nat) \<times> fake_clientset list" where
  "fake_With pl sch objects ctx heap =
     (case NewSimpleClientset pl sch objects of
        Inl e \<Rightarrow> Inl e
      | Inr cs \<Rightarrow> Inr ((WithValue ClientKey (ClientV (length heap)) ctx, length heap), heap @ [cs]))"

definition fake_withClient ::
  "patch_library \<Rightarrow> scheme \<Rightarrow> rest_config \<Rightarrow> nat goctx \<Rightarrow> fake_clientset list \<Rightarrow> injection_panic + nat goctx \<times> fake_clientset list" where
  "fake_withClient pl sch cfg ctx heap =
     (case fake_With pl sch [] ctx heap of Inl e \<Rightarrow> Inl ConfigFails | Inr ((ctx, _), heap) \<Rightarrow> Inr (ctx, heap))"

definition fake_client_Get :: "nat goctx \<Rightarrow> injection_panic + nat" where
  "fake_client_Get ctx =
     (case Value ClientKey ctx of None \<Rightarrow> Inl (NoClient False) | Some (ClientV p) \<Rightarrow> Inr p | Some _ \<Rightarrow> Inl WrongType)"

definition fake_withInformerFactory :: "(nat, 'tf) factory_injector" where
  "fake_withInformerFactory ctx fs =
     and_then_do (fake_client_Get ctx) (\<lambda>c.
       Inr (WithValue FactoryKey (FactoryV (length fs)) ctx, fs @ [new_world c (GetResyncPeriod (scope_of ctx c)) (namespace_option ctx c)]))"

text \<open>The loop over the selectors is that of the real injector, word for word.\<close>

definition fake_filtered_withInformerFactory :: "(nat, 'tf) factory_injector" where
  "fake_filtered_withInformerFactory ctx fs =
     and_then_do (fake_client_Get ctx) (\<lambda>c. and_then_do (selectors_of ctx) (\<lambda>sel. Inr (filtered_factories c sel ctx fs)))"

definition fake_withInformer ::
  "nat goctx \<Rightarrow> (nat, 'tf) factories \<Rightarrow> injection_panic + (nat goctx \<times> (nat \<times> nat)) \<times> (nat, 'tf) factories" where
  "fake_withInformer ctx fs =
     and_then_do (factory_Get ctx) (\<lambda>f.
       let inf = version_YipYapSources (V1alpha1 (Sources f fs));
           (i, fs) = typed_Informer inf fs
       in Inr ((WithValue InformerKey (InformerV inf) ctx, i), fs))"

definition fake_filtered_withInformer ::
  "nat goctx \<Rightarrow> (nat, 'tf) factories \<Rightarrow> injection_panic + (nat goctx \<times> (nat \<times> nat) list) \<times> (nat, 'tf) factories" where
  "fake_filtered_withInformer ctx fs = and_then_do (selectors_of ctx) (\<lambda>sel. filtered_informers sel ctx fs)"

text \<open>
  \<open>injection.Fake\<close> with the injectors that the packages register in their \<open>init\<close>. The registry runs one client
  injector, so the list of clientsets before is what this injector finds.
\<close>

definition fake_client_init :: "patch_library \<Rightarrow> scheme \<Rightarrow> fake_clientset list \<Rightarrow> (nat, 'tf) registry \<Rightarrow> (nat, 'tf) registry" where
  "fake_client_init pl sch heap rg =
     rg\<lparr>rg_clients := rg_clients rg @ [\<lambda>cfg ctx. case fake_withClient pl sch cfg ctx heap of Inl p \<Rightarrow> Inl p | Inr (ctx, _) \<Rightarrow> Inr ctx]\<rparr>"

definition fake_factory_init :: "(nat, 'tf) registry \<Rightarrow> (nat, 'tf) registry" where
  "fake_factory_init rg = rg\<lparr>rg_factories := rg_factories rg @ [fake_withInformerFactory]\<rparr>"

definition fake_informer_init :: "(nat, 'tf) registry \<Rightarrow> (nat, 'tf) registry" where
  "fake_informer_init rg = rg\<lparr>rg_informers := rg_informers rg @ [fake_withInformer]\<rparr>"

definition fake_filtered_factory_init :: "(nat, 'tf) registry \<Rightarrow> (nat, 'tf) registry" where
  "fake_filtered_factory_init rg = rg\<lparr>rg_factories := rg_factories rg @ [fake_filtered_withInformerFactory]\<rparr>"

definition fake_filtered_informer_init :: "(nat, 'tf) registry \<Rightarrow> (nat, 'tf) registry" where
  "fake_filtered_informer_init rg = rg\<lparr>rg_filteredInformers := rg_filteredInformers rg @ [fake_filtered_withInformer]\<rparr>"

definition fake_registry :: "patch_library \<Rightarrow> scheme \<Rightarrow> fake_clientset list \<Rightarrow> (nat, 'tf) registry" where
  "fake_registry pl sch heap = fake_informer_init (fake_factory_init (fake_client_init pl sch heap empty_registry))"

definition fake_filtered_registry :: "patch_library \<Rightarrow> scheme \<Rightarrow> fake_clientset list \<Rightarrow> (nat, 'tf) registry" where
  "fake_filtered_registry pl sch heap = fake_filtered_informer_init (fake_filtered_factory_init (fake_client_init pl sch heap empty_registry))"

text \<open>A context with its client left out.\<close>

definition without_client :: "'cl goctx \<Rightarrow> unit goctx" where
  "without_client ctx = map (apsnd (map_context_value (\<lambda>_. ()))) ctx"

definition without_client_informer :: "('cl, list_options, 'tf) shared_informer \<Rightarrow> (unit, list_options, 'tf) shared_informer" where
  "without_client_informer si =
     \<lparr>si_client = (), si_namespace = si_namespace si, si_tweakListOptions = si_tweakListOptions si, si_objectType = si_objectType si,
      si_resyncPeriod = si_resyncPeriod si, si_indexers = si_indexers si, si_transform = si_transform si, si_started = si_started si\<rparr>"


lemma Value_without_client: "Value k (without_client ctx) = map_option (map_context_value (\<lambda>_. ())) (Value k ctx)"
  by (induction ctx) (auto simp: Value_def without_client_def)

lemma without_client_WithValue [simp]: "without_client (WithValue k v ctx) = WithValue k (map_context_value (\<lambda>_. ()) v) (without_client ctx)"
  by (simp add: without_client_def WithValue_def)

lemma scope_without_client:
  "GetNamespaceScope (scope_of ctx c) = GetNamespaceScope (scope_of (without_client ctx) ())"
  "GetResyncPeriod (scope_of ctx c) = GetResyncPeriod (scope_of (without_client ctx) ())"
  by (auto simp: scope_of_def GetNamespaceScope_def GetResyncPeriod_def Value_without_client split: option.splits context_value.splits)

lemma same_options:
  fixes f :: "('a, 'o, 'tf) shared_informer_factory" and g :: "('b, 'o, 'tf) shared_informer_factory"
  assumes "sf_namespace f = sf_namespace g" "sf_tweakListOptions f = sf_tweakListOptions g" "sf_customResync f = sf_customResync g"
    "sf_transform f = sf_transform g"
  shows "sf_namespace (fold apply_option os f) = sf_namespace (fold apply_option os g) \<and>
    sf_tweakListOptions (fold apply_option os f) = sf_tweakListOptions (fold apply_option os g) \<and>
    sf_customResync (fold apply_option os f) = sf_customResync (fold apply_option os g) \<and>
    sf_transform (fold apply_option os f) = sf_transform (fold apply_option os g)"
  using assms
proof (induction os arbitrary: f g)
  case (Cons opt os)
  show ?case unfolding fold_Cons comp_apply by (rule Cons.IH) (use Cons.prems in \<open>cases opt; simp\<close>)+
qed simp

lemma same_world:
  fixes opts :: "(list_options, 'tf) shared_informer_option list" and a :: 'a and b :: 'b
  shows "YipYapSources (w_factory (new_world a r opts)) = YipYapSources (w_factory (new_world b r opts))"
    "map without_client_informer (w_heap (with_source (new_world a r opts))) = map without_client_informer (w_heap (with_source (new_world b r opts)))"
proof -
  have "sf_namespace (w_factory (new_world a r opts)) = sf_namespace (w_factory (new_world b r opts)) \<and>
    sf_tweakListOptions (w_factory (new_world a r opts)) = sf_tweakListOptions (w_factory (new_world b r opts)) \<and>
    sf_customResync (w_factory (new_world a r opts)) = sf_customResync (w_factory (new_world b r opts)) \<and>
    sf_transform (w_factory (new_world a r opts)) = sf_transform (w_factory (new_world b r opts))"
    unfolding new_world_def NewSharedInformerFactoryWithOptions_def shared_informer_factory.simps world.simps
    by (rule same_options) simp_all
  then show "YipYapSources (w_factory (new_world a r opts)) = YipYapSources (w_factory (new_world b r opts))"
    "map without_client_informer (w_heap (with_source (new_world a r opts))) = map without_client_informer (w_heap (with_source (new_world b r opts)))"
    by (simp_all add: Informer_new_world(4) without_client_informer_def YipYapSources_def)
qed

lemma fake_injectors_eq:
  "fake_withInformer = withInformer" "fake_filtered_withInformer = filtered_withInformer"
  "fake_client_Get ctx = Inr c \<Longrightarrow> fake_withInformerFactory ctx fs = factory_withInformerFactory ctx fs"
  "fake_client_Get ctx = Inr c \<Longrightarrow> fake_filtered_withInformerFactory ctx fs = filtered_withInformerFactory ctx fs"
  by (auto simp: fun_eq_iff fake_withInformer_def withInformer_def fake_filtered_withInformer_def filtered_withInformer_def fake_client_Get_def client_Get_def
      fake_withInformerFactory_def factory_withInformerFactory_def fake_filtered_withInformerFactory_def filtered_withInformerFactory_def
      split: option.splits context_value.splits)


lemma fake_setup:
  fixes fs :: "(nat, 'tf) factories" and ctx :: "nat goctx" and heap :: "fake_clientset list"
  assumes c: "NewSimpleClientset pl sch [] = Inr c"
  defines "p \<equiv> length heap"
  defines "w \<equiv> (new_world p (GetResyncPeriod (scope_of ctx p)) (namespace_option ctx p) :: (nat, list_options, 'tf) world)"
  shows "SetupInformers (fake_registry pl sch heap) cfg ctx fs =
      Inr ((WithValue InformerKey (InformerV (length fs, YipYapSources (w_factory w)))
              (WithValue FactoryKey (FactoryV (length fs)) (WithValue ClientKey (ClientV p) ctx)), [(length fs, 0)]), fs @ [with_source w])"
proof -
  have "fake_client_Get (WithValue ClientKey (ClientV p) ctx) = Inr p" by (simp add: fake_client_Get_def)
  note eq = fake_injectors_eq(3) [OF this, of fs]
  from c have "fake_withClient pl sch cfg ctx heap = Inr (WithValue ClientKey (ClientV p) ctx, heap @ [c])"
    by (simp add: fake_withClient_def fake_With_def p_def)
  then show ?thesis using client_setup [where cs = p and ctx = ctx and fs = fs]
    by (simp add: SetupInformers_def fake_registry_def fake_informer_init_def fake_factory_init_def fake_client_init_def empty_registry_def eq
        fake_injectors_eq(1) w_def)
qed

text \<open>
  C26: A test that links the fake packages gets what the program gets, but for the client. On contexts that agree but for
  their clients, the fake and the real injectors end alike: the same informers are handed over to be started,
  the contexts agree again and the informers have the same namespace, tweak, resync period, indexers and
  transform; the client of the fake ones, which \<open>Get\<close> reads back from the context, is a new fake clientset that holds no
  source and has seen no call, and those made before stay. Without a client in the context the fake getter and
  factories panic; with one, the factories with selectors are those of the real injector.
\<close>
theorem fake_injection_mirrors_real:
  fixes fs :: "(('h, 'd) clientset, 'tf) factories" and fake_fs :: "(nat, 'tf) factories" and ctx :: "('h, 'd) clientset goctx" and fake_ctx :: "nat goctx"
  assumes "NewForConfig tr sch cfg = Inr cs" "fake_scheme = Inr fake_sch"
    "without_client ctx = without_client fake_ctx" "length fs = length fake_fs"
  shows "(\<exists>c. fake_withClient pl fake_sch cfg fake_ctx heap = Inr (WithValue ClientKey (ClientV (length heap)) fake_ctx, heap @ [c]) \<and>
       fake_abs c = Map.empty \<and> fk_actions c = []) \<and>
    (\<exists>ctx' infs w fake_ctx' fake_w.
       SetupInformers (plain_registry tr sch) cfg ctx fs = Inr ((ctx', infs), fs @ [w]) \<and>
       SetupInformers (fake_registry pl fake_sch heap) cfg fake_ctx fake_fs = Inr ((fake_ctx', infs), fake_fs @ [fake_w]) \<and>
       without_client ctx' = without_client fake_ctx' \<and>
       map without_client_informer (w_heap w) = map without_client_informer (w_heap fake_w) \<and>
       fake_client_Get fake_ctx' = Inr (length heap) \<and> list_all (\<lambda>si. si_client si = length heap) (w_heap fake_w)) \<and>
    (Value ClientKey fake_ctx = None \<longrightarrow>
       fake_client_Get fake_ctx = Inl (NoClient False) \<and> fake_withInformerFactory fake_ctx fake_fs = Inl (NoClient False) \<and>
       fake_filtered_withInformerFactory fake_ctx fake_fs = Inl (NoClient False)) \<and>
    (\<forall>c. fake_client_Get fake_ctx = Inr c \<longrightarrow>
       fake_filtered_withInformerFactory fake_ctx fake_fs = filtered_withInformerFactory fake_ctx fake_fs)"
proof (intro conjI impI allI)
  have "seeds_ok []" by (simp add: seeds_ok_def)
  then obtain c where c: "NewSimpleClientset pl fake_sch [] = Inr c" "fake_abs c = Map.empty" "fk_actions c = []"
    using NewSimpleClientset_seeded [OF fake_scheme_sources [OF assms(2)], where pl = pl and objects = "[]"]
    by (auto simp: seed_map_def split: sum.splits)
  then show "\<exists>c. fake_withClient pl fake_sch cfg fake_ctx heap = Inr (WithValue ClientKey (ClientV (length heap)) fake_ctx, heap @ [c]) \<and>
      fake_abs c = Map.empty \<and> fk_actions c = []" by (simp add: fake_withClient_def fake_With_def)
  let ?p = "length heap"
  have scope: "GetResyncPeriod (scope_of ctx cs) = GetResyncPeriod (scope_of fake_ctx ?p)"
    "(namespace_option ctx cs :: (list_options, 'tf) shared_informer_option list) = namespace_option fake_ctx ?p"
    unfolding namespace_option_def scope_without_client [of ctx] scope_without_client [of fake_ctx] assms(3) by (rule refl)+
  let ?opts = "namespace_option fake_ctx ?p :: (list_options, 'tf) shared_informer_option list" and ?r = "GetResyncPeriod (scope_of fake_ctx ?p)"
  have "list_all (\<lambda>si. si_client si = ?p) (w_heap (with_source (new_world ?p ?r ?opts)))" by (simp add: Informer_new_world(4))
  with same_world [of cs ?r ?opts ?p] assms(3,4)
  show "\<exists>ctx' infs w fake_ctx' fake_w.
       SetupInformers (plain_registry tr sch) cfg ctx fs = Inr ((ctx', infs), fs @ [w]) \<and>
       SetupInformers (fake_registry pl fake_sch heap) cfg fake_ctx fake_fs = Inr ((fake_ctx', infs), fake_fs @ [fake_w]) \<and>
       without_client ctx' = without_client fake_ctx' \<and>
       map without_client_informer (w_heap w) = map without_client_informer (w_heap fake_w) \<and>
       fake_client_Get fake_ctx' = Inr ?p \<and> list_all (\<lambda>si. si_client si = ?p) (w_heap fake_w)"
    unfolding plain_setup(1) [OF assms(1)] fake_setup [OF c(1)] scope
    by (intro exI conjI) (rule refl | assumption | simp add: fake_client_Get_def)+
  show "fake_client_Get fake_ctx = Inl (NoClient False)" "fake_withInformerFactory fake_ctx fake_fs = Inl (NoClient False)"
    "fake_filtered_withInformerFactory fake_ctx fake_fs = Inl (NoClient False)" if "Value ClientKey fake_ctx = None"
    using that by (simp_all add: fake_client_Get_def fake_withInformerFactory_def fake_filtered_withInformerFactory_def)
  show "fake_filtered_withInformerFactory fake_ctx fake_fs = filtered_withInformerFactory fake_ctx fake_fs" if "fake_client_Get fake_ctx = Inr c" for c
    using that by (rule fake_injectors_eq(4))
qed


theorem fake_injection_mirrors_real_witness:
  "\<exists>fake_sch ctx' (fake_w :: (nat, list_options, unit) world).
     SetupInformers (fake_registry demo_patches fake_sch []) (demo_config 0 0) (WithValue NamespaceKey (NamespaceV ''ops'') []) [] =
       Inr ((ctx', [(0, 0)]), [fake_w]) \<and>
     fake_client_Get ctx' = Inr 0 \<and> list_all (\<lambda>si. si_client si = 0) (w_heap fake_w)"
proof -
  obtain cs where cs: "NewForConfig demo_transport NewScheme (demo_config 0 0) = Inr cs" by (rule demo_clientset)
  obtain fake_sch where sch: "fake_scheme = Inr fake_sch" using fake_scheme_builds by blast
  let ?ctx = "WithValue NamespaceKey (NamespaceV ''ops'') []"
  have same: "without_client (?ctx :: (unit, unit) clientset goctx) = without_client (?ctx :: nat goctx)"
    "length ([] :: ((unit, unit) clientset, unit) factories) = length ([] :: (nat, unit) factories)"
    by (simp_all add: without_client_def WithValue_def)
  from fake_injection_mirrors_real [OF cs sch same, where pl = demo_patches and heap = "[]", THEN conjunct2, THEN conjunct1]
  obtain real_ctx infs ctx' and fake_w :: "(nat, list_options, unit) world" and w :: "((unit, unit) clientset, list_options, unit) world" where
    "SetupInformers (plain_registry demo_transport NewScheme) (demo_config 0 0) ?ctx [] = Inr ((real_ctx, infs), [w])"
    "SetupInformers (fake_registry demo_patches fake_sch []) (demo_config 0 0) ?ctx [] = Inr ((ctx', infs), [fake_w])"
    "fake_client_Get ctx' = Inr 0" "list_all (\<lambda>si. si_client si = 0) (w_heap fake_w)"
    unfolding append_Nil list.size(3) by blast
  moreover have "infs = [(0, 0)]"
    using plain_setup(1) [OF cs, where ctx = ?ctx and fs = "[] :: ((unit, unit) clientset, unit) factories"] calculation(1) by simp
  ultimately show ?thesis by blast
qed

end
