(* ===== verification/Spec2Isabelle.thy ===== *)
theory Spec2Isabelle
  imports Steady_State Control_Loop Adapter_Run Deep_Copy Process_Main Fake_Client
begin

text \<open>
  \<^bold>\<open>Verification of the YipYap source for Knative\<close>

  \<^bold>\<open>The program.\<close> A \<open>YipYapSource\<close> is a Kubernetes custom resource that delivers events of the YipYap
  monitoring service to a Knative sink. Three processes take part. The \<^emph>\<open>webhook\<close> (\<open>cmd/webhook\<close>) defaults and
  validates every resource that is created or updated. The \<^emph>\<open>controller\<close> (\<open>cmd/controller\<close>, \<open>pkg/reconciler\<close>,
  the generated code of \<open>pkg/client\<close>) resolves the sink of a resource, keeps one Deployment per resource and
  reports through status conditions. The \<^emph>\<open>receive adapter\<close> (\<open>cmd/receive-adapter\<close>), which that Deployment
  runs, reads its settings from environment variables, fetches events by polling or streaming and sends
  them to the sink, with a cursor file that says how far it got. They interact through the resource
  (webhook to controller), the Deployment's environment, probes and volume (controller to adapter), and the
  work queue (informers to reconciler).

  \<^bold>\<open>Theories and sources.\<close> Names of definitions are those of the code; paths are below \<open>src/\<close>.
  \<^item> \<open>Prelude\<close>: Go strings as byte lists, wrap-around of 64-bit durations, string helpers, the named collections
    of rewrite rules.
  \<^item> \<open>Go_Url\<close>, \<open>Go_Utf8\<close>, \<open>Go_Glob\<close>, \<open>Go_Md5\<close>, \<open>Go_Json\<close>, \<open>Go_Http\<close>: what the sources use of Go's library:
    URLs and escaping, UTF-8, \<open>path.Match\<close>, MD5, the JSON of a string map, HTTP requests. \<open>path.Match\<close> is shown
    to agree with a declarative well-formedness of patterns, JSON and query strings to round trip.
  \<^item> \<open>Conditions\<close>: the condition manager of \<open>vendor/knative.dev/pkg/apis/condition_set.go\<close>; what it promises to
    its clients is the locale \<open>condition_manager\<close>, interpreted in \<open>Source_Types\<close>.
  \<^item> \<open>Source_Types\<close>: the resource and its lifecycle calls (\<open>pkg/apis/sources/v1alpha1/yipyapsource_types.go\<close>,
    \<open>yipyapsource_lifecycle.go\<close>); the meaning of Ready over every sequence of marks.
  \<^item> \<open>Field_Errors\<close>, \<open>Source_Admission\<close>: \<open>yipyapsource_defaults.go\<close>, \<open>yipyapsource_validation.go\<close> and the duck types
    they call; validation is equivalent to the predicate \<open>spec_ok\<close>.
  \<^item> \<open>Webhook_Admission\<close>: \<open>cmd/webhook/main.go\<close> with the request handling of \<open>knative.dev/pkg/webhook\<close>; what a
    request must satisfy to be stored, and what is stored.
  \<^item> \<open>Deep_Copy\<close>: \<open>zz_generated.deepcopy.go\<close> on an explicit heap, with the locale \<open>deep_copy\<close> as the contract of a
    copy; it justifies that the other theories treat objects as values.
  \<^item> \<open>Adapter_Deployment\<close>: \<open>pkg/reconciler/yipyapsource/resources/deployment.go\<close>, names by \<open>kmeta.ChildName\<close>.
  \<^item> \<open>Sink_Resolver\<close>: \<open>knative.dev/pkg/resolver\<close>; its promise to the reconciler is the locale \<open>sink_resolver\<close>.
  \<^item> \<open>Reconcile_Kind\<close>: \<open>pkg/reconciler/yipyapsource/yipyapsource.go\<close>, every branch; the abstract specification is
    the relation \<open>outcome\<close>, refined by \<open>ReconcileKind\<close>.
  \<^item> \<open>Generic_Reconciler\<close>: the generated \<open>reconciler.go\<close> and \<open>state.go\<close> with leadership, finalizers, status updates
    and their retries; every write and event is an output of the run.
  \<^item> \<open>Steady_State\<close>: the fixed point of the controller.
  \<^item> \<open>Controller_Wiring\<close>: \<open>controller.go\<close> of the reconciler and of the generated code, event handlers and the fate
    of a key in the work queue.
  \<^item> \<open>Work_Queue\<close>: the queue between informers and workers, \<open>two_lane_queue.go\<close> of \<open>knative.dev/pkg/controller\<close> over
    client-go's \<open>util/workqueue\<close>: lanes with their goroutines, delays and failure backoff as a step relation; its
    promise is the locale \<open>handoff_queue\<close>.
  \<^item> \<open>Object_Store\<close>, \<open>Source_Cache\<close>: client-go's \<open>thread_safe_store.go\<close>, its promise the locale \<open>keyed_store\<close>; the
    delivery of deltas into it, label selectors, and the listers of \<open>pkg/client/listers\<close> over it.
  \<^item> \<open>Control_Loop\<close>: the composition: API server, event feeds, caches, work queue and workers that run the
    generated reconciler, as one step relation.
  \<^item> \<open>Informer_Factory\<close>: \<open>pkg/client/informers/externalversions\<close> as a step relation that interleaves calls, informer
    goroutines and closed channels.
  \<^item> \<open>Api_Scheme\<close>: \<open>register.go\<close> of the API group and of the clientsets over the scheme of apimachinery.
  \<^item> \<open>Client_Set\<close>: \<open>pkg/client/clientset/versioned\<close> with the REST client it builds: configuration, rate limiter and
    the request of every operation.
  \<^item> \<open>Injection\<close>: \<open>pkg/client/injection\<close> and the registry of \<open>knative.dev/pkg/injection\<close>: how the controller gets
    client, factory and informers out of its context, plain and per selector.
  \<^item> \<open>Controller_Run\<close>: \<open>RunContext\<close> of \<open>knative.dev/pkg/controller\<close>: the elector, the workers and the queue of one controller
    from its start to its return, as a step relation over that of \<open>Work_Queue\<close>.
  \<^item> \<open>Process_Main\<close>: \<open>cmd/controller/main.go\<close> and \<open>cmd/webhook/main.go\<close> over \<open>knative.dev/pkg/injection/sharedmain\<close>: what they
    start with, and the life of a process as a step relation over main goroutine, informers, servers, controllers
    and signals.
  \<^item> \<open>Fake_Client\<close>: the fakes of \<open>pkg/client\<close> over the object tracker and the reactors of \<open>client-go/testing\<close>, the fake
    injectors and the builders of test sources; the contract of a client is the locale \<open>service\<close>, interpreted on the
    fake clientset and a finite map.
  \<^item> \<open>Adapter_Config\<close>, \<open>Adapter_Mode\<close>, \<open>Adapter_Sink\<close>, \<open>Adapter_Poll\<close>, \<open>Adapter_Stream\<close>, \<open>Adapter_Run\<close>: the files
    \<open>config.go\<close>, \<open>mode.go\<close>, \<open>sink.go\<close>, \<open>poll.go\<close>, \<open>stream.go\<close> and \<open>run.go\<close> of \<open>cmd/receive-adapter/source\<close>, with
    \<open>main.go\<close>. The cursor file's contract is the locale \<open>cursor_store\<close>.
  \<^item> this theory: what spans controller and adapter, and webhook and adapter.

  \<^bold>\<open>How state and effects appear.\<close> Structs are records, pointers that may be nil are options, errors are the
  left of a sum or a field of the result. A panic is \<open>None\<close> where the code can panic. Clocks, file system
  results, HTTP answers and API server answers are arguments, so that every failure is an input; writes to
  the API server, events and delivery attempts are outputs, in order. The cursor file is a map from paths
  to contents, and a cursor write yields the list of all intermediate file systems, one per point at which
  the process can die. Durations are 64-bit words where they are multiplied.

  \<^bold>\<open>What is shown.\<close>
  \<^item> Delivery: over every sequence of sessions, failures, restarts and crashes, no cursor passes an event the
    sink has not accepted (at least once); cursor writes are atomic; requests carry the event; answers are
    classified; the stream emits each line once and in order and backs off by the documented schedule.
  \<^item> Control: reconciliation refines \<open>outcome\<close>, converges, has a fixed point in which it writes nothing, keeps
    status well formed and never writes without leadership; failures are retried; every change of a
    Deployment wakes its source; each informer runs at most once, and the one the controller listens to is
    the one that is started.
  \<^item> The whole loop: the work queue loses no key and gives none to two workers; the cache refines a map and its
    listers agree with it; composed with the reconciler, whatever interleaves, each source either has its
    Deployment in place or is still attended, and a loop at rest has all Deployments in place. The
    hypotheses: sources do not share an adapter name, whoever stores a Deployment under such a name keeps its
    controller reference, informers miss no deletion, the sink stays where it is. The witness runs the loop
    from an empty cluster to rest.
  \<^item> Processes: controllers run only on synchronized caches, a fatal error of the start cuts no reconciliation short,
    \<open>RunContext\<close> returns with every key that was handed out finished, and a signalled process with workers can always
    come to its exit. Without workers and with a key queued it cannot.
  \<^item> Fakes: every sequence of calls to a fake clientset is answered as a finite map answers it, and the fake
    injectors leave what the real ones leave but for the client.
  \<^item> Clients: requests for a source cannot leave its path, configurations give the limiter they ask for or fail,
    and the scheme keeps types and kinds in agreement.
  \<^item> Admission: what is stored is defaulted and acceptable, and its globs never fail at run time.
  \<^item> Composition: settings survive from the resource to the adapter's configuration, and probes and volume of
    the Deployment fit what the adapter serves and writes.
  \<^item> Where code and intent differ, the behaviour of the code is what is proved: a source without a mode is
    defaulted to \<open>auto\<close>, which its adapter rejects; an interval of zero makes the adapter panic; a source
    stays Ready when its Deployment is created anew.

  \<^bold>\<open>Bounds and fuel.\<close> The JSON decoder recurses on fuel \<open>Suc (2 * length)\<close>; a lemma shows more fuel does not
  change the result. Status updates are tried five times, as \<open>retry.DefaultRetry\<close> says. Liveness of the controller and of the process is
  shown by a measure on their states that some step of their own always decreases. The endless loops of
  the adapter (ticks of a session, connections of a stream, turns of \<open>Run\<close>) recurse over the list of what the
  environment does in each round, so theorems hold for every finite prefix of a run; loops that end are
  total functions with termination proofs.

  \<^bold>\<open>Parameters.\<close> \<open>url.Parse\<close>, \<open>time.ParseDuration\<close>, the HTTP client, the CloudEvents decoder, the operating
  system's answers, the Kubernetes client and listers, PEM and X.509, JSON decoding and patches of whole
  resources, the deep copies of library structures. Theorems that need more of them than their type state
  it as a hypothesis, and their witnesses instantiate it.

  \<^bold>\<open>Not modelled.\<close> Texts of log lines and the delivery of recorded events; network listeners; queue metrics and
  the token bucket, whose delay is an input; how a lease is won, so that building an elector is an input; the
  reflector that lists and watches, so that events are given as deltas; the query parameters, encoding and answers
  of REST requests; serving HTTPS, certificates and webhook configurations; fake discovery, and the table test
  factory of \<open>pkg/reconciler/yipyapsource/testing/factory.go\<close>, a harness over a library of tests.
\<close>

section \<open>From the custom resource to the running adapter\<close>

text \<open>
  The environment of the adapter's process when the kubelet starts the container of a rendered Deployment:
  plain variables as they are, the API key from the referenced secret.
\<close>

definition pod_getenv :: "(string \<Rightarrow> string \<Rightarrow> string) \<Rightarrow> deployment \<Rightarrow> string \<Rightarrow> string" where
  "pod_getenv secrets d = container_env secrets (c_env (hd (ps_containers (pt_spec (dep_template d)))))"

lemma pod_getenv_adapter:
  "MakeAdapterDeployment src sink img = Some d \<Longrightarrow> pod_getenv secrets d = container_env secrets (adapter_env src sink)"
  by (auto simp: pod_getenv_def MakeAdapterDeployment_def adapter_pod_spec_def Let_def)

text \<open>The sources whose settings can be written into environment variables and read back.\<close>

definition transportable :: "source_spec \<Rightarrow> bool" where
  "transportable s \<longleftrightarrow>
     (\<forall>f. sp_filter s = Some f \<longrightarrow> (\<forall>t \<in> set (f_types f). t \<noteq> '''' \<and> no_edge_space t \<and> CHR '','' \<notin> set t)) \<and>
     (\<forall>m. sp_ceOverrides s = Some m \<longrightarrow> distinct (map fst m) \<and> (\<forall>(k, v) \<in> set m. utf8_ok k \<and> utf8_ok v))"

lemma adapter_env_loads:
  fixes src sink secrets
  defines "getenv \<equiv> container_env secrets (adapter_env src sink)" and "sp \<equiv> y_spec src"
  assumes "transportable sp" "URL_String sink \<noteq> ''''" "secrets (ak_name (sp_apiKeyRef sp)) (ak_key (sp_apiKeyRef sp)) \<noteq> ''''"
  shows "LoadConfig P getenv =
    (if sp_mode sp \<in> {'''', ''poll'', ''stream''}
     then Inr \<lparr>cfg_sink = URL_String sink,
       cfg_CEOverrides = (case sp_ceOverrides sp of None \<Rightarrow> [] | Some m \<Rightarrow> sort_key fst m),
       cfg_APIKey = secrets (ak_name (sp_apiKeyRef sp)) (ak_key (sp_apiKeyRef sp)),
       cfg_baseURL = defaultStr (sp_baseURL sp) ''https://console.yipyap.run'',
       cfg_eventFilters = (case sp_filter sp of None \<Rightarrow> [] | Some f \<Rightarrow> f_types f),
       cfg_mode = sp_mode sp, cfg_pollInterval = seconds 5, cfg_cursorPath = ''/var/run/yipyap/cursor'',
       cfg_healthAddr = '':8080'', cfg_CRModeFilePath = ''/etc/yipyap/source-mode''\<rparr>
     else Inl (InvalidMode (sp_mode sp)))"
proof -
  note env = container_env_adapter [of secrets src sink, folded getenv_def sp_def]
  have filters: "parseEventFilters (getenv ''YIPYAP_EVENT_FILTER'') = (case sp_filter sp of None \<Rightarrow> [] | Some f \<Rightarrow> f_types f)"
    using assms(3) by (auto simp: env transportable_def TrimSpace_id parseEventFilters_def [of "''''"]
        intro!: parseEventFilters_join split: option.split)
  have json: "unmarshal_extensions (marshal_extensions m) = Some (Some (sort_key fst m))" "marshal_extensions m \<noteq> ''''"
    if "sp_ceOverrides sp = Some m" for m
    using that assms(3) unmarshal_marshal_extensions [of m] by (auto simp: transportable_def marshal_extensions_def)
  have ok: "overrides_ok (getenv ''K_CE_OVERRIDES'')" "interval_ok P (getenv ''YIPYAP_POLL_INTERVAL'')"
    using json by (auto simp: env overrides_ok_def interval_ok_def split: option.split)
  have over: "(if getenv ''K_CE_OVERRIDES'' = '''' then []
      else case unmarshal_extensions (getenv ''K_CE_OVERRIDES'') of Some (Some ext) \<Rightarrow> ext | _ \<Rightarrow> []) =
      (case sp_ceOverrides sp of None \<Rightarrow> [] | Some m \<Rightarrow> sort_key fst m)"
    using json by (auto simp: env split: option.split)
  have sink: "getenv ''K_SINK'' \<noteq> ''''" "getenv ''YIPYAP_API_KEY'' \<noteq> ''''" using assms(4,5) by (simp_all add: env)
  show ?thesis
  proof (cases "sp_mode sp \<in> {'''', ''poll'', ''stream''}")
    case True
    then have "getenv ''YIPYAP_MODE'' \<in> {'''', ''poll'', ''stream''}" by (simp add: env)
    from LoadConfig_ok [OF sink ok this] True show ?thesis
      unfolding over filters by (simp add: env defaultStr_def)
  next
    case False
    with LoadConfig_error [of P getenv] sink ok show ?thesis by (simp add: env)
  qed
qed

subsection \<open>Properties\<close>


definition deployed_src :: yipyap_source where
  "deployed_src = (named_src ''alerts'' ''u1'')\<lparr>y_spec := (y_spec (named_src ''alerts'' ''u1''))
     \<lparr>sp_mode := ''poll'', sp_baseURL := ''https://x'', sp_filter := Some \<lparr>f_types = [''a.*'', ''b''], f_monitorIDs = [], f_severities = []\<rparr>,
      sp_ceOverrides := Some [(''team'', ''ops''), (''env'', ''prod'')]\<rparr>\<rparr>"


text \<open>
  C39: A source submitted without a mode cannot run. Defaulting sets its mode to \<open>auto\<close>, the controller
  passes it on, and the adapter rejects it and exits with code 2 before serving anything.
\<close>
theorem defaulted_mode_rejected:
  assumes "sp_mode (y_spec src) = ''''" "SetDefaults ctx (Some src) = Some src'" "MakeAdapterDeployment src' sink img = Some d"
    and "transportable (y_spec src')" "URL_String sink \<noteq> ''''" "\<forall>n k. secrets n k \<noteq> ''''"
  shows "adapter_main PD P dec (pod_getenv secrets d) turns fs = (None, ExitConfigError (InvalidMode ''auto'') 2)"
proof -
  have "sp_mode (y_spec src') = ''auto''"
    using assms(1,2) by (auto simp: Spec_SetDefaults_def Let_def YipYapSourceModeAuto_def)
  with assms(4-6) pod_getenv_adapter [OF assms(3)] adapter_env_loads [of src' sink secrets PD] show ?thesis
    by (simp add: adapter_main_def)
qed

theorem defaulted_mode_rejected_witness:
  "\<exists>d. MakeAdapterDeployment ((named_src ''alerts'' ''u1'')\<lparr>y_spec := Spec_SetDefaults (WithinParent demo_context (y_meta (named_src ''alerts'' ''u1'')))
        ((y_spec (named_src ''alerts'' ''u1''))\<lparr>sp_mode := ''''\<rparr>)\<rparr>) (Some demo_url) ''img'' = Some d \<and>
     adapter_main (\<lambda>_. Inl ''bad'') demo_parse (\<lambda>_. None) (pod_getenv (\<lambda>_ _. ''key'') d) [] (\<lambda>_. None) =
       (None, ExitConfigError (InvalidMode ''auto'') 2)"
proof -
  let ?src = "(named_src ''alerts'' ''u1'')\<lparr>y_spec := (y_spec (named_src ''alerts'' ''u1''))\<lparr>sp_mode := ''''\<rparr>\<rparr>"
  let ?src' = "(named_src ''alerts'' ''u1'')\<lparr>y_spec := Spec_SetDefaults (WithinParent demo_context (y_meta (named_src ''alerts'' ''u1'')))
        ((y_spec (named_src ''alerts'' ''u1''))\<lparr>sp_mode := ''''\<rparr>)\<rparr>"
  obtain d where d: "MakeAdapterDeployment ?src' (Some demo_url) ''img'' = Some d" by (rule MakeAdapterDeployment_total)
  have url: "URL_String (Some demo_url) \<noteq> ''''" using url_String_scheme [of demo_url] by (simp add: demo_url_def IsAbs_def)
  have src: "SetDefaults demo_context (Some ?src) = Some ?src'" by simp
  have ok: "transportable (y_spec ?src')" by (simp add: transportable_def named_src_def Spec_SetDefaults_def Let_def)
  from d defaulted_mode_rejected [OF _ src d ok url, of "\<lambda>_ _. ''key''" "\<lambda>_. Inl ''bad''" demo_parse "\<lambda>_. None" "[]" "\<lambda>_. None"]
  show ?thesis by simp
qed

text \<open>
  The probes of the rendered Deployment are answered: whenever the adapter of a Deployment gets past its
  configuration, it listens on the port the container's probes ask, and answers their paths with 200; and
  the cursor file it uses lies in the volume the Deployment mounts.
\<close>
theorem probes_answered:
  assumes "MakeAdapterDeployment src sink img = Some d" "ps_containers (pt_spec (dep_template d)) = [c]"
    and "LoadConfig PD (pod_getenv secrets d) = Inr cfg"
  shows "cfg_healthAddr cfg = '':'' @ show_nat (nat AdapterHTTPPort) \<and>
    (\<exists>l r. c_livenessProbe c = Some l \<and> c_readinessProbe c = Some r \<and> hg_port l = AdapterHTTPPort \<and> hg_port r = AdapterHTTPPort \<and>
       map_option fst (map_of (hs_Handler (startHealthServer (cfg_healthAddr cfg))) (hg_path l)) = Some 200 \<and>
       map_option fst (map_of (hs_Handler (startHealthServer (cfg_healthAddr cfg))) (hg_path r)) = Some 200) \<and>
    (\<exists>m \<in> set (c_volumeMounts c). \<exists>file. cfg_cursorPath cfg = vm_mountPath m @ ''/'' @ file \<and> CHR ''/'' \<notin> set file)"
proof -
  note env = container_env_adapter [of secrets src sink, folded pod_getenv_adapter [OF assms(1)]]
  have port: "show_nat (nat AdapterHTTPPort) = ''8080''"
    by (simp add: AdapterHTTPPort_def show_nat.simps char_of_def bit_0)
  have c: "cfg_healthAddr cfg = '':8080''" "cfg_cursorPath cfg = ''/var/run/yipyap/cursor''"
    using assms(3) by (auto simp: LoadConfig_def Let_def load_overrides_def load_interval_def env defaultStr_def
        split: if_splits sum.splits option.splits)
  have "c_livenessProbe c = Some \<lparr>hg_path = ''/healthz'', hg_port = AdapterHTTPPort, hg_scheme = ''HTTP''\<rparr>"
    "c_readinessProbe c = Some \<lparr>hg_path = ''/readyz'', hg_port = AdapterHTTPPort, hg_scheme = ''HTTP''\<rparr>"
    "c_volumeMounts c = [\<lparr>vm_name = CursorVolumeName, vm_mountPath = CursorMountPath\<rparr>]"
    using assms(1,2) by (auto simp: MakeAdapterDeployment_def adapter_pod_spec_def Let_def split: if_splits)
  then show ?thesis
    by (simp add: c port startHealthServer_def health_routes_def healthz_def readyz_def CursorMountPath_def)
qed

theorem probes_answered_witness:
  "\<exists>d cfg. MakeAdapterDeployment deployed_src (Some demo_url) ''img'' = Some d \<and>
     LoadConfig (\<lambda>_. Inl ''bad'') (pod_getenv (\<lambda>_ _. ''key'') d) = Inr cfg \<and> cfg_healthAddr cfg = '':'' @ show_nat (nat AdapterHTTPPort)"
proof -
  obtain d where d: "MakeAdapterDeployment deployed_src (Some demo_url) ''img'' = Some d"
    by (rule MakeAdapterDeployment_total)
  have url: "url_String demo_url \<noteq> ''''" by (rule url_String_scheme) (simp add: demo_url_def IsAbs_def)
  have ok: "transportable (y_spec deployed_src)"
    by (auto simp: transportable_def deployed_src_def named_src_def no_edge_space_graph graph_char_def intro!: utf8_ok_ascii)
  obtain cfg where cfg: "LoadConfig (\<lambda>_. Inl ''bad'') (pod_getenv (\<lambda>_ _. ''key'') d) = Inr cfg"
    using adapter_env_loads [OF ok, of "Some demo_url" "\<lambda>_ _. ''key''" "\<lambda>_. Inl ''bad''"] url
    by (auto simp: pod_getenv_adapter [OF d] deployed_src_def named_src_def)
  obtain c where c: "ps_containers (pt_spec (dep_template d)) = [c]"
    using d by (auto simp: MakeAdapterDeployment_def adapter_pod_spec_def Let_def split: if_splits)
  from d cfg probes_answered [OF d c cfg] show ?thesis by blast
qed

end
